(* ===== verification/GoText.thy ===== *)
theory GoText
  imports Main
begin

text \<open>
  Strings as the Go code has them: a Go string is a sequence of bytes, so it is a
  \<open>string\<close> here (a list of 8-bit characters), and a rune is a code point, a \<open>nat\<close>.
  The theory models what the source uses of the packages unicode/utf8 and strings:
  decoding one rune (with the replacement rune and width 1 for an invalid byte), encoding
  one rune, the sequence of runes a \<open>range\<close> loop visits, TrimSpace, HasPrefix,
  TrimPrefix, Contains, Count, LastIndexAny and LastIndexByte, and decimal formatting.
  The lemmas show that decoding inverts encoding, that every byte of a string belongs to
  exactly one decoded segment, and that trimming keeps a contiguous run of segments.
\<close>

named_theorems go_text

section \<open>Runes\<close>

definition byte :: "char \<Rightarrow> nat" where
  "byte c = of_char c"

definition chr :: "nat \<Rightarrow> char" where
  "chr n = char_of n"

lemma byte_chr [simp]: "byte (chr n) = n mod 256"
  by (simp add: byte_def chr_def)

lemma byte_less [simp]: "byte c < 256"
  by (simp add: byte_def)

lemma chr_byte [simp]: "chr (byte c) = c"
  by (simp add: byte_def chr_def)

lemma byte_eq_iff: "byte c = byte d \<longleftrightarrow> c = d"
  by (metis chr_byte)

definition RuneError :: nat where
  "RuneError = 0xFFFD"

definition validRune :: "nat \<Rightarrow> bool" where
  "validRune r \<longleftrightarrow> r < 0xD800 \<or> (0xE000 \<le> r \<and> r \<le> 0x10FFFF)"

text \<open>The second byte of a multi-byte sequence has a range that depends on the first.\<close>

definition acceptLo :: "nat \<Rightarrow> nat" where
  "acceptLo b = (if b = 0xE0 then 0xA0 else if b = 0xF0 then 0x90 else 0x80)"

definition acceptHi :: "nat \<Rightarrow> nat" where
  "acceptHi b = (if b = 0xED then 0x9F else if b = 0xF4 then 0x8F else 0xBF)"

definition isCont :: "nat \<Rightarrow> bool" where
  "isCont b \<longleftrightarrow> 0x80 \<le> b \<and> b \<le> 0xBF"

definition badRune :: "nat \<times> nat" where
  "badRune = (RuneError, 1)"

fun DecodeRune :: "string \<Rightarrow> nat \<times> nat" where
  "DecodeRune [] = (RuneError, 0)"
| "DecodeRune (c # s) = (let b = byte c in
     if b < 0x80 then (b, 1)
     else if b < 0xC2 \<or> 0xF4 < b then badRune
     else case s of
       [] \<Rightarrow> badRune
     | c1 # s1 \<Rightarrow> let b1 = byte c1 in
         if b1 < acceptLo b \<or> acceptHi b < b1 then badRune
         else if b < 0xE0 then ((b - 0xC0) * 64 + (b1 - 0x80), 2)
         else case s1 of
           [] \<Rightarrow> badRune
         | c2 # s2 \<Rightarrow> let b2 = byte c2 in
             if \<not> isCont b2 then badRune
             else if b < 0xF0 then ((b - 0xE0) * 4096 + (b1 - 0x80) * 64 + (b2 - 0x80), 3)
             else case s2 of
               [] \<Rightarrow> badRune
             | c3 # _ \<Rightarrow> let b3 = byte c3 in
                 if \<not> isCont b3 then badRune
                 else ((b - 0xF0) * 262144 + (b1 - 0x80) * 4096 + (b2 - 0x80) * 64
                        + (b3 - 0x80), 4))"

definition EncodeRune :: "nat \<Rightarrow> string" where
  "EncodeRune r =
     (if r < 0x80 then [chr r]
      else if r < 0x800 then [chr (0xC0 + r div 64), chr (0x80 + r mod 64)]
      else if \<not> validRune r then [chr 0xEF, chr 0xBF, chr 0xBD]
      else if r < 0x10000 then
        [chr (0xE0 + r div 4096), chr (0x80 + r div 64 mod 64), chr (0x80 + r mod 64)]
      else
        [chr (0xF0 + r div 262144), chr (0x80 + r div 4096 mod 64),
         chr (0x80 + r div 64 mod 64), chr (0x80 + r mod 64)])"

lemma snd_DecodeRune_pos: "0 < snd (DecodeRune (c # s))"
  by (auto simp: Let_def badRune_def split: list.split)

lemma EncodeRune_nonempty [simp]: "EncodeRune r \<noteq> []"
  by (simp add: EncodeRune_def)

lemma split_64_2: "(r::nat) = 4096 * (r div 4096) + 64 * (r div 64 mod 64) + r mod 64"
proof -
  have "r div 4096 = r div 64 div 64" by (simp add: div_mult2_eq [symmetric])
  moreover have "64 * (r div 64) + r mod 64 = r" by simp
  moreover have "64 * (r div 64 div 64) + r div 64 mod 64 = r div 64" by simp
  ultimately show ?thesis by linarith
qed

lemma split_64_3:
  "(r::nat) = 262144 * (r div 262144) + 4096 * (r div 4096 mod 64) + 64 * (r div 64 mod 64) + r mod 64"
proof -
  have "r div 262144 = r div 4096 div 64" by (simp add: div_mult2_eq [symmetric])
  moreover have "64 * (r div 4096 div 64) + r div 4096 mod 64 = r div 4096" by simp
  ultimately show ?thesis using split_64_2 [of r] by linarith
qed

lemma decode_encode_1:
  assumes "r < 0x80"
  shows "DecodeRune (EncodeRune r @ s) = (r, 1)"
  using assms by (simp add: EncodeRune_def)

lemma decode_encode_2:
  assumes "0x80 \<le> r" "r < 0x800"
  shows "DecodeRune (EncodeRune r @ s) = (r, 2)"
proof -
  define q where "q = r div 64"
  define m where "m = r mod 64"
  have r: "r = 64 * q + m" and m: "m < 64" by (simp_all add: q_def m_def)
  have q: "2 \<le> q" "q < 32" using assms r m by linarith+
  have "EncodeRune r = [chr (0xC0 + q), chr (0x80 + m)]"
    using assms by (simp add: EncodeRune_def q_def m_def)
  then show ?thesis
    using q m by (simp add: r acceptLo_def acceptHi_def Let_def)
qed

lemma decode_encode_3:
  assumes "0x800 \<le> r" "r < 0x10000" "validRune r"
  shows "DecodeRune (EncodeRune r @ s) = (r, 3)"
proof -
  define q where "q = r div 4096"
  define m where "m = r div 64 mod 64"
  define n where "n = r mod 64"
  have r: "r = 4096 * q + 64 * m + n" unfolding q_def m_def n_def by (rule split_64_2)
  have m: "m < 64" and n: "n < 64" by (simp_all add: m_def n_def)
  have q: "q < 16" using assms(2) by (simp add: q_def)
  have e: "EncodeRune r = [chr (0xE0 + q), chr (0x80 + m), chr (0x80 + n)]"
    using assms by (simp add: EncodeRune_def q_def m_def n_def)
  have q0: "q = 0 \<Longrightarrow> 32 \<le> m" using assms(1) r n by linarith
  have q13: "q = 13 \<Longrightarrow> m < 32" using assms(3) r m n unfolding validRune_def by linarith
  have lo: "\<not> 0x80 + m < acceptLo (0xE0 + q)" using q0 q by (auto simp: acceptLo_def)
  have hi: "\<not> acceptHi (0xE0 + q) < 0x80 + m" using q13 m q by (auto simp: acceptHi_def)
  have "DecodeRune (EncodeRune r @ s) = (4096 * q + 64 * m + n, 3)"
    unfolding e using q m n lo hi by (simp add: Let_def isCont_def)
  then show ?thesis using r by simp
qed

lemma decode_encode_4:
  assumes "0x10000 \<le> r" "r \<le> 0x10FFFF"
  shows "DecodeRune (EncodeRune r @ s) = (r, 4)"
proof -
  define p where "p = r div 262144"
  define q where "q = r div 4096 mod 64"
  define m where "m = r div 64 mod 64"
  define n where "n = r mod 64"
  have r: "r = 262144 * p + 4096 * q + 64 * m + n"
    unfolding p_def q_def m_def n_def by (rule split_64_3)
  have q: "q < 64" and m: "m < 64" and n: "n < 64" by (simp_all add: q_def m_def n_def)
  have p: "p < 5" using assms(2) unfolding p_def by simp
  have e: "EncodeRune r = [chr (0xF0 + p), chr (0x80 + q), chr (0x80 + m), chr (0x80 + n)]"
    using assms by (simp add: EncodeRune_def validRune_def p_def q_def m_def n_def)
  have p0: "p = 0 \<Longrightarrow> 16 \<le> q" using assms(1) r m n by linarith
  have p4: "p = 4 \<Longrightarrow> q < 16" using assms(2) r m n by linarith
  have lo: "\<not> 0x80 + q < acceptLo (0xF0 + p)" using p0 p by (auto simp: acceptLo_def)
  have hi: "\<not> acceptHi (0xF0 + p) < 0x80 + q" using p4 q p by (auto simp: acceptHi_def)
  have "DecodeRune (EncodeRune r @ s) = (262144 * p + 4096 * q + 64 * m + n, 4)"
    unfolding e using p q m n lo hi by (simp add: Let_def isCont_def)
  then show ?thesis using r by simp
qed

lemma length_EncodeRune:
  "length (EncodeRune r) = (if r < 0x80 then 1 else if r < 0x800 then 2
     else if r < 0x10000 \<or> 0x10FFFF < r then 3 else 4)"
  by (auto simp: EncodeRune_def validRune_def)

text \<open>Decoding what was encoded gives the rune back, whatever follows it.\<close>

lemma decode_encode:
  assumes "validRune r"
  shows "DecodeRune (EncodeRune r @ s) = (r, length (EncodeRune r))"
proof -
  consider "r < 0x80" | "0x80 \<le> r" "r < 0x800" | "0x800 \<le> r" "r < 0x10000"
    | "0x10000 \<le> r" by linarith
  then show ?thesis
  proof cases
    case 1 then show ?thesis by (simp add: decode_encode_1 length_EncodeRune)
  next
    case 2 then show ?thesis by (simp add: decode_encode_2 length_EncodeRune)
  next
    case 3 then show ?thesis using assms by (simp add: decode_encode_3 length_EncodeRune)
  next
    case 4
    then have "r \<le> 0x10FFFF" using assms by (simp add: validRune_def)
    then show ?thesis using 4 by (simp add: decode_encode_4 length_EncodeRune)
  qed
qed

section \<open>The runes of a string\<close>

text \<open>
  The segments a \<open>range\<close> loop over a string visits: each rune with the bytes it was
  decoded from. An invalid byte is a segment of its own, with the replacement rune.
\<close>

function Segs :: "string \<Rightarrow> (nat \<times> string) list" where
  "Segs [] = []"
| "Segs (c # s) = (let (r, n) = DecodeRune (c # s)
     in (r, take n (c # s)) # Segs (drop n (c # s)))"
  by pat_completeness auto
termination
proof (relation "measure length")
  fix c s x r n
  assume "x = DecodeRune (c # s)" "(r, n) = x"
  then have "0 < n" using snd_DecodeRune_pos [of c s] by (metis snd_conv)
  then show "(drop n (c # s), c # s) \<in> measure length" by simp
qed simp

declare Segs.simps(2) [simp del]

definition runes :: "string \<Rightarrow> nat list" where
  "runes s = map fst (Segs s)"

definition unsegs :: "(nat \<times> string) list \<Rightarrow> string" where
  "unsegs ss = concat (map snd ss)"

definition RuneCount :: "string \<Rightarrow> nat" where
  "RuneCount s = length (Segs s)"

definition EncodeRunes :: "nat list \<Rightarrow> string" where
  "EncodeRunes rs = concat (map EncodeRune rs)"

lemma unsegs_Segs [simp]: "unsegs (Segs s) = s"
  by (induction s rule: Segs.induct) (auto simp: Segs.simps(2) unsegs_def split: prod.split)

lemma Segs_EncodeRune:
  "validRune r \<Longrightarrow> Segs (EncodeRune r @ s) = (r, EncodeRune r) # Segs s"
  using decode_encode [of r s]
  by (cases "EncodeRune r") (simp_all add: Segs.simps(2))

lemma Segs_EncodeRunes_append:
  "\<forall>r \<in> set rs. validRune r \<Longrightarrow>
   Segs (EncodeRunes rs @ s) = map (\<lambda>r. (r, EncodeRune r)) rs @ Segs s"
  by (induction rs) (simp_all add: EncodeRunes_def Segs_EncodeRune)

lemma Segs_EncodeRunes:
  "\<forall>r \<in> set rs. validRune r \<Longrightarrow> Segs (EncodeRunes rs) = map (\<lambda>r. (r, EncodeRune r)) rs"
  using Segs_EncodeRunes_append [of rs "[]"] by simp

lemma runes_EncodeRunes:
  "\<forall>r \<in> set rs. validRune r \<Longrightarrow> runes (EncodeRunes rs) = rs"
  by (simp add: runes_def Segs_EncodeRunes comp_def)

lemma EncodeRunes_append [simp]: "EncodeRunes (xs @ ys) = EncodeRunes xs @ EncodeRunes ys"
  by (simp add: EncodeRunes_def)

lemma EncodeRunes_Nil [simp]: "EncodeRunes [] = []"
  by (simp add: EncodeRunes_def)

lemma EncodeRunes_single [simp]: "EncodeRunes [r] = EncodeRune r"
  by (simp add: EncodeRunes_def)

text \<open>Every rune a loop sees is a valid one: an invalid byte arrives as the replacement.\<close>

lemma acceptHi_le: "acceptHi b \<le> 0xBF"
  by (simp add: acceptHi_def)

lemma validRune_decode_2:
  assumes "b < 0xE0" "b1 \<le> acceptHi b"
  shows "validRune ((b - 0xC0) * 64 + (b1 - 0x80))"
proof -
  from assms acceptHi_le [of b] have "(b - 0xC0) * 64 + (b1 - 0x80) < 0xD800" by linarith
  then show ?thesis by (simp add: validRune_def)
qed

lemma validRune_decode_3:
  assumes "0xE0 \<le> b" "b < 0xF0" "b1 \<le> acceptHi b" "isCont b2"
  shows "validRune ((b - 0xE0) * 4096 + (b1 - 0x80) * 64 + (b2 - 0x80))"
proof -
  have b2: "b2 - 0x80 < 64" using assms(4) by (auto simp: isCont_def)
  consider "b < 0xED" | "b = 0xED" | "0xEE \<le> b" using assms by linarith
  then show ?thesis
  proof cases
    case 1
    then have "b1 - 0x80 < 64" using assms by (auto simp: acceptHi_def)
    then have "(b - 0xE0) * 4096 + (b1 - 0x80) * 64 + (b2 - 0x80) < 0xD800" using 1 b2 by linarith
    then show ?thesis by (simp add: validRune_def)
  next
    case 2
    then have "b1 - 0x80 < 32" using assms by (auto simp: acceptHi_def)
    then have "(b - 0xE0) * 4096 + (b1 - 0x80) * 64 + (b2 - 0x80) < 0xD800" using 2 b2 by linarith
    then show ?thesis by (simp add: validRune_def)
  next
    case 3
    then have "b1 - 0x80 < 64" using assms by (auto simp: acceptHi_def split: if_splits)
    then have "0xE000 \<le> (b - 0xE0) * 4096 + (b1 - 0x80) * 64 + (b2 - 0x80)"
      "(b - 0xE0) * 4096 + (b1 - 0x80) * 64 + (b2 - 0x80) \<le> 0x10FFFF"
      using 3 b2 assms(2) by linarith+
    then show ?thesis by (simp add: validRune_def)
  qed
qed

lemma validRune_decode_4:
  assumes "0xF0 \<le> b" "b \<le> 0xF4" "acceptLo b \<le> b1" "b1 \<le> acceptHi b" "isCont b2" "isCont b3"
  shows "validRune ((b - 0xF0) * 262144 + (b1 - 0x80) * 4096 + (b2 - 0x80) * 64 + (b3 - 0x80))"
proof -
  have b2: "b2 - 0x80 < 64" and b3: "b3 - 0x80 < 64" using assms by (auto simp: isCont_def)
  have "(b - 0xF0) * 262144 + (b1 - 0x80) * 4096 + (b2 - 0x80) * 64 + (b3 - 0x80) \<le> 0x10FFFF"
  proof (cases "b = 0xF4")
    case True
    then have "b1 - 0x80 < 16" using assms by (auto simp: acceptHi_def)
    then show ?thesis using True b2 b3 by linarith
  next
    case False
    then have "b1 - 0x80 < 64" "b - 0xF0 \<le> 3" using assms by (auto simp: acceptHi_def split: if_splits)
    then show ?thesis using b2 b3 by linarith
  qed
  moreover have "0xE000 \<le> (b - 0xF0) * 262144 + (b1 - 0x80) * 4096 + (b2 - 0x80) * 64 + (b3 - 0x80)"
  proof (cases "b = 0xF0")
    case True
    then have "16 \<le> b1 - 0x80" using assms by (auto simp: acceptLo_def)
    then show ?thesis by linarith
  next
    case False
    then show ?thesis using assms(1) by linarith
  qed
  ultimately show ?thesis by (simp add: validRune_def)
qed

lemma validRune_RuneError [simp]: "validRune RuneError"
  by (simp add: validRune_def RuneError_def)

lemma validRune_DecodeRune: "validRune (fst (DecodeRune s))"
proof (cases s)
  case Nil
  then show ?thesis by simp
next
  case (Cons c t)
  show ?thesis
    unfolding Cons
    by (auto simp: Let_def badRune_def validRune_def [of "byte c"] not_less not_le
        intro!: validRune_decode_2 validRune_decode_3 validRune_decode_4 split: list.split)
qed

lemma validRune_Segs: "x \<in> set (Segs s) \<Longrightarrow> validRune (fst x)"
proof (induction s rule: Segs.induct)
  case (2 c s)
  obtain r n where d: "DecodeRune (c # s) = (r, n)" by (cases "DecodeRune (c # s)")
  then have "validRune r" using validRune_DecodeRune [of "c # s"] by simp
  with 2 d show ?case by (auto simp: Segs.simps(2))
qed simp

lemma validRune_runes: "r \<in> set (runes s) \<Longrightarrow> validRune r"
  by (auto simp: runes_def dest: validRune_Segs)

section \<open>The package strings\<close>

text \<open>unicode.IsSpace: the code points with the White_Space property.\<close>

definition isSpace :: "nat \<Rightarrow> bool" where
  "isSpace r \<longleftrightarrow> (9 \<le> r \<and> r \<le> 13) \<or> r = 0x20 \<or> r = 0x85 \<or> r = 0xA0 \<or> r = 0x1680 \<or>
     (0x2000 \<le> r \<and> r \<le> 0x200A) \<or> r = 0x2028 \<or> r = 0x2029 \<or> r = 0x202F \<or> r = 0x205F \<or>
     r = 0x3000"

definition dropTail :: "('a \<Rightarrow> bool) \<Rightarrow> 'a list \<Rightarrow> 'a list" where
  "dropTail P xs = rev (dropWhile P (rev xs))"

definition TrimSpace :: "string \<Rightarrow> string" where
  "TrimSpace s = unsegs (dropTail (isSpace \<circ> fst) (dropWhile (isSpace \<circ> fst) (Segs s)))"

definition HasPrefix :: "string \<Rightarrow> string \<Rightarrow> bool" where
  "HasPrefix s p \<longleftrightarrow> take (length p) s = p"

definition HasSuffix :: "string \<Rightarrow> string \<Rightarrow> bool" where
  "HasSuffix s p \<longleftrightarrow> length p \<le> length s \<and> drop (length s - length p) s = p"

definition TrimPrefix :: "string \<Rightarrow> string \<Rightarrow> string" where
  "TrimPrefix s p = (if HasPrefix s p then drop (length p) s else s)"

definition TrimRight :: "string \<Rightarrow> char \<Rightarrow> string" where
  "TrimRight s c = dropTail ((=) c) s"

fun Contains :: "string \<Rightarrow> string \<Rightarrow> bool" where
  "Contains [] sub = (sub = [])"
| "Contains (c # s) sub = (HasPrefix (c # s) sub \<or> Contains s sub)"

definition CountByte :: "string \<Rightarrow> char \<Rightarrow> nat" where
  "CountByte s c = length (filter ((=) c) s)"

text \<open>The last index of a byte that satisfies a predicate: \<open>LastIndexAny\<close> over ASCII
  characters and \<open>LastIndexByte\<close>; \<open>None\<close> is Go's -1.\<close>

fun LastIndex :: "(char \<Rightarrow> bool) \<Rightarrow> string \<Rightarrow> nat option" where
  "LastIndex P [] = None"
| "LastIndex P (c # s) = (case LastIndex P s of
     Some i \<Rightarrow> Some (Suc i)
   | None \<Rightarrow> if P c then Some 0 else None)"

fun IndexByte :: "string \<Rightarrow> char \<Rightarrow> nat option" where
  "IndexByte [] b = None"
| "IndexByte (c # s) b = (if c = b then Some 0 else map_option Suc (IndexByte s b))"

definition ReplaceByte :: "string \<Rightarrow> char \<Rightarrow> char \<Rightarrow> string" where
  "ReplaceByte s old new = map (\<lambda>c. if c = old then new else c) s"

fun Join :: "string list \<Rightarrow> string \<Rightarrow> string" where
  "Join [] sep = []"
| "Join [s] sep = s"
| "Join (s # t # ss) sep = s @ sep @ Join (t # ss) sep"

text \<open>Decimal formatting (strconv.Itoa and the verb %d).\<close>

definition digitChar :: "nat \<Rightarrow> char" where
  "digitChar d = chr (48 + d)"

fun decNat :: "nat \<Rightarrow> string" where
  "decNat n = (if n < 10 then [digitChar n] else decNat (n div 10) @ [digitChar (n mod 10)])"

declare decNat.simps [simp del]

definition Itoa :: "int \<Rightarrow> string" where
  "Itoa i = (if i < 0 then CHR ''-'' # decNat (nat (- i)) else decNat (nat i))"

text \<open>time.Duration.String, of a number of nanoseconds.\<close>

definition padLeft :: "nat \<Rightarrow> string \<Rightarrow> string" where
  "padLeft n s = replicate (n - length s) (CHR ''0'') @ s"

definition fracText :: "nat \<Rightarrow> nat \<Rightarrow> string" where
  "fracText v prec =
    (let digits = TrimRight (padLeft prec (decNat (v mod 10 ^ prec))) (CHR ''0'')
     in if digits = [] then [] else CHR ''.'' # digits)"

definition durationAbs :: "nat \<Rightarrow> string" where
  "durationAbs u =
    (if u = 0 then ''0s''
     else if u < 1000 then decNat u @ ''ns''
     else if u < 1000000 then decNat (u div 1000) @ fracText u 3 @ [chr 0xC2, chr 0xB5] @ ''s''
     else if u < 1000000000 then decNat (u div 1000000) @ fracText u 6 @ ''ms''
     else let secs = u div 1000000000; tail = decNat (secs mod 60) @ fracText u 9 @ ''s''
       in if secs < 60 then tail
          else if secs < 3600 then decNat (secs div 60) @ ''m'' @ tail
          else decNat (secs div 3600) @ ''h'' @ decNat (secs div 60 mod 60) @ ''m'' @ tail)"

definition durationText :: "int \<Rightarrow> string" where
  "durationText d = (if d < 0 then CHR ''-'' # durationAbs (nat (- d)) else durationAbs (nat d))"

lemma dropTail_Nil [simp]: "dropTail P [] = []"
  by (simp add: dropTail_def)

lemma dropTail_map: "dropTail P (map f xs) = map f (dropTail (P \<circ> f) xs)"
  by (simp add: dropTail_def rev_map dropWhile_map)

lemma set_dropTail: "set (dropTail P xs) \<subseteq> set xs"
  by (auto simp: dropTail_def dest: set_dropWhileD)

lemma length_dropTail: "length (dropTail P xs) \<le> length xs"
  using length_dropWhile_le [of P "rev xs"] by (simp add: dropTail_def)

lemma dropTail_snoc: "dropTail P (xs @ [x]) = (if P x then dropTail P xs else xs @ [x])"
  by (simp add: dropTail_def)

lemma dropTail_append_keep: "dropTail P (xs @ [x]) = xs @ [x]" if "\<not> P x"
  using that by (simp add: dropTail_snoc)

lemma dropTail_last: "dropTail P xs \<noteq> [] \<Longrightarrow> \<not> P (last (dropTail P xs))"
  using hd_dropWhile [of P "rev xs"] by (auto simp: dropTail_def last_rev)

lemma dropTail_id: "xs = [] \<or> \<not> P (last xs) \<Longrightarrow> dropTail P xs = xs"
  by (cases xs rule: rev_cases) (auto simp: dropTail_snoc)

text \<open>On runes, trimming is dropping the white space at both ends.\<close>

definition trimRunes :: "nat list \<Rightarrow> nat list" where
  "trimRunes rs = dropTail isSpace (dropWhile isSpace rs)"

lemma set_trimRunes: "set (trimRunes rs) \<subseteq> set rs"
  unfolding trimRunes_def using set_dropTail by (fastforce dest: set_dropWhileD)

lemma length_trimRunes: "length (trimRunes rs) \<le> length rs"
  unfolding trimRunes_def
  by (rule order_trans [OF length_dropTail]) (rule length_dropWhile_le)

lemma TrimSpace_EncodeRunes:
  assumes "\<forall>r \<in> set rs. validRune r"
  shows "TrimSpace (EncodeRunes rs) = EncodeRunes (trimRunes rs)"
proof -
  have "TrimSpace (EncodeRunes rs) =
      unsegs (map (\<lambda>r. (r, EncodeRune r)) (dropTail isSpace (dropWhile isSpace rs)))"
    by (simp add: TrimSpace_def Segs_EncodeRunes [OF assms] dropWhile_map dropTail_map comp_def)
  then show ?thesis by (simp add: trimRunes_def unsegs_def EncodeRunes_def comp_def)
qed

text \<open>Printable ASCII without the space: text that trimming leaves alone.\<close>

definition visible :: "char \<Rightarrow> bool" where
  "visible c \<longleftrightarrow> 0x21 \<le> byte c \<and> byte c < 0x7F"

lemma EncodeRunes_ascii: "list_all (\<lambda>c. byte c < 0x80) s \<Longrightarrow> EncodeRunes (map byte s) = s"
  by (induction s) (simp_all add: EncodeRunes_def EncodeRune_def)

lemma trimRunes_visible: "list_all visible s \<Longrightarrow> trimRunes (map byte s) = map byte s"
proof -
  assume s: "list_all visible s"
  have v: "visible c \<Longrightarrow> \<not> isSpace (byte c)" for c by (auto simp: visible_def isSpace_def)
  have "dropWhile isSpace (map byte s) = map byte s"
    using s v by (cases s) auto
  moreover have "dropTail isSpace (map byte s) = map byte s"
    using s v by (intro dropTail_id) (cases s rule: rev_cases, auto)
  ultimately show ?thesis by (simp add: trimRunes_def)
qed

lemma TrimSpace_visible:
  assumes "list_all visible s"
  shows "TrimSpace s = s" and "TrimSpace (CHR '' '' # s) = s"
proof -
  have a: "list_all (\<lambda>c. byte c < 0x80) s"
    using assms by (auto simp: list_all_iff visible_def)
  have valid: "\<forall>r \<in> set (map byte s). validRune r"
    using a by (auto simp: list_all_iff validRune_def)
  show "TrimSpace s = s"
    using TrimSpace_EncodeRunes [OF valid] EncodeRunes_ascii [OF a] trimRunes_visible [OF assms]
    by simp
  have "EncodeRunes (map byte (CHR '' '' # s)) = CHR '' '' # s"
    using a by (intro EncodeRunes_ascii) (simp add: byte_def)
  moreover have "trimRunes (map byte (CHR '' '' # s)) = map byte s"
    using trimRunes_visible [OF assms] by (simp add: trimRunes_def isSpace_def byte_def)
  moreover have "\<forall>r \<in> set (map byte (CHR '' '' # s)). validRune r"
    using valid by (auto simp: byte_def validRune_def)
  ultimately show "TrimSpace (CHR '' '' # s) = s"
    using TrimSpace_EncodeRunes [of "map byte (CHR '' '' # s)"] EncodeRunes_ascii [OF a] by metis
qed


lemma HasPrefix_append [simp]: "HasPrefix (p @ s) p"
  by (simp add: HasPrefix_def)

lemma HasPrefix_iff: "HasPrefix s p \<longleftrightarrow> (\<exists>t. s = p @ t)"
  by (metis HasPrefix_append HasPrefix_def append_take_drop_id)

lemma TrimPrefix_append [simp]: "TrimPrefix (p @ s) p = s"
  by (simp add: TrimPrefix_def)

lemma LastIndex_None: "LastIndex P s = None \<longleftrightarrow> (\<forall>c \<in> set s. \<not> P c)"
  by (induction s) (auto split: option.splits)

lemma LastIndex_Some:
  "LastIndex P s = Some i \<Longrightarrow> i < length s \<and> P (s ! i) \<and> (\<forall>j. i < j \<and> j < length s \<longrightarrow> \<not> P (s ! j))"
proof (induction s arbitrary: i)
  case (Cons c s)
  show ?case
  proof (cases "LastIndex P s")
    case None
    then have "i = 0" "P c" using Cons.prems by (auto split: if_splits)
    moreover from None have "\<forall>x \<in> set s. \<not> P x" by (simp add: LastIndex_None)
    ultimately show ?thesis by (auto simp: nth_Cons split: nat.splits)
  next
    case (Some k)
    then have "i = Suc k" using Cons.prems by simp
    with Some Cons.IH [of k] show ?thesis by (auto simp: nth_Cons split: nat.splits)
  qed
qed simp

lemma IndexByte_None: "IndexByte s b = None \<longleftrightarrow> b \<notin> set s"
  by (induction s) auto

lemma IndexByte_Some:
  "IndexByte s b = Some i \<Longrightarrow> i < length s \<and> s ! i = b \<and> b \<notin> set (take i s)"
  by (induction s arbitrary: i) (auto split: if_splits)

lemma Contains_iff: "Contains s sub \<longleftrightarrow> (\<exists>a b. s = a @ sub @ b)"
proof (induction s)
  case Nil
  then show ?case by auto
next
  case (Cons c s)
  show ?case
  proof
    assume "Contains (c # s) sub"
    then consider t where "c # s = sub @ t" | a b where "s = a @ sub @ b"
      using Cons.IH by (auto simp: HasPrefix_iff)
    then show "\<exists>a b. c # s = a @ sub @ b"
      by cases (metis append_Nil, metis append_Cons)
  next
    assume "\<exists>a b. c # s = a @ sub @ b"
    then obtain a b where ab: "c # s = a @ sub @ b" by blast
    show "Contains (c # s) sub"
    proof (cases a)
      case Nil
      then have "HasPrefix (c # s) sub" using ab by simp
      then show ?thesis by simp
    next
      case (Cons x a')
      then have "s = a' @ sub @ b" using ab by simp
      then show ?thesis using Cons.IH by auto
    qed
  qed
qed

section \<open>ASCII bytes\<close>

text \<open>An ASCII byte of a string is a rune of its own.\<close>

lemma DecodeRune_ascii:
  "c \<in> set (take (snd (DecodeRune s)) s) \<Longrightarrow> byte c < 0x80 \<Longrightarrow> fst (DecodeRune s) = byte c"
proof (cases s)
  case (Cons a t)
  have lo: "0x80 \<le> acceptLo b" for b by (simp add: acceptLo_def)
  assume c: "c \<in> set (take (snd (DecodeRune s)) s)" "byte c < 0x80"
  show ?thesis
  proof (cases "byte a < 0x80")
    case True
    then show ?thesis using c by (simp add: Cons)
  next
    case False
    have ge: "\<not> byte c < 0x80" if "c = a \<or> isCont (byte c) \<or> acceptLo (byte a) \<le> byte c"
      using that False lo [of "byte a"] by (auto simp: isCont_def)
    have "c = a \<or> isCont (byte c) \<or> acceptLo (byte a) \<le> byte c"
      using c(1) False unfolding Cons
      by (auto simp: Let_def badRune_def not_less split: list.splits if_splits)
    then show ?thesis using ge c(2) by blast
  qed
qed simp

lemma runes_ascii: "c \<in> set s \<Longrightarrow> byte c < 0x80 \<Longrightarrow> byte c \<in> set (runes s)"
proof (induction s rule: Segs.induct)
  case (2 a s)
  obtain r n where d: "DecodeRune (a # s) = (r, n)" by (cases "DecodeRune (a # s)")
  have r: "runes (a # s) = r # runes (drop n (a # s))"
    by (simp add: runes_def Segs.simps(2) d del: DecodeRune.simps)
  have "set (a # s) = set (take n (a # s)) \<union> set (drop n (a # s))"
    by (metis append_take_drop_id set_append)
  then consider "c \<in> set (take n (a # s))" | "c \<in> set (drop n (a # s))" using "2.prems" by blast
  then show ?case
  proof cases
    case 1
    then show ?thesis using DecodeRune_ascii [of c "a # s"] "2.prems" by (simp add: r d del: DecodeRune.simps)
  next
    case 2
    then show ?thesis using "2.IH" [OF d [symmetric]] "2.prems" by (simp add: r d del: DecodeRune.simps)
  qed
qed simp

end
