(* ===== verification/GoBase.thy ===== *)
theory GoBase
  imports GoText "HOL-Library.AList"
begin

text \<open>
  The prelude of the development: the collections its proofs share, Go maps, and push
  iterators.

  A Go map with string keys is an association list with distinct keys (\<open>gomap\<close>), read
  with \<open>map_of\<close>, so that \<open>len\<close> computes.

  An \<open>iter.Seq2\<close> is a function that calls its consumer's \<open>yield\<close> for each step and
  stops when \<open>yield\<close> answers false. A consumer has a state of its own, so a \<open>yield\<close>
  takes and returns it, and a sequence takes a \<open>yield\<close> and the consumer's state to the
  state the consumer is left in. A \<open>range\<close> loop over a sequence calls it with the loop body
  as the \<open>yield\<close> (\<open>forRange\<close>): a body that answers False leaves the enclosing function.
  The step of a \<open>Seq2[T, error]\<close> is the pair of a value (\<open>None\<close> is nil) and an error.

  \<open>denotes seq xs\<close> says that a sequence offers exactly the steps \<open>xs\<close>, in order, until its
  consumer stops. The two locales state what a sequence transform promises (a stateless
  filter, and a transform that keeps a state), and prove once that such a transform of a
  sequence that denotes \<open>xs\<close> denotes the transformed list. The last two locales are for
  state machines: an invariant lifted from steps to runs, and a log that records every
  key at most once.
\<close>

named_theorems go_defs
named_theorems go_inv

section \<open>Maps with string keys\<close>

type_synonym 'v gomap = "(string \<times> 'v) list"

definition gput :: "string \<Rightarrow> 'v \<Rightarrow> 'v gomap \<Rightarrow> 'v gomap" where
  "gput k v m = AList.update k v m"

definition gdel :: "string \<Rightarrow> 'v gomap \<Rightarrow> 'v gomap" where
  "gdel k m = AList.delete k m"

definition gkeys :: "'v gomap \<Rightarrow> string set" where
  "gkeys m = fst ` set m"

definition gwf :: "'v gomap \<Rightarrow> bool" where
  "gwf m \<longleftrightarrow> distinct (map fst m)"

lemma gput_map_of [simp]: "map_of (gput k v m) = (map_of m)(k \<mapsto> v)"
  by (simp add: gput_def update_conv')

lemma gdel_map_of [simp]: "map_of (gdel k m) = (map_of m)(k := None)"
  by (simp add: gdel_def delete_conv')

lemma gwf_Nil [simp]: "gwf []"
  by (simp add: gwf_def)

lemma gwf_gput [simp]: "gwf m \<Longrightarrow> gwf (gput k v m)"
  by (simp add: gwf_def gput_def distinct_update)

lemma gwf_gdel [simp]: "gwf m \<Longrightarrow> gwf (gdel k m)"
  by (simp add: gwf_def gdel_def distinct_delete)

lemma gkeys_dom: "gkeys m = dom (map_of m)"
  by (simp add: gkeys_def dom_map_of_conv_image_fst)

lemma gkeys_Nil [simp]: "gkeys [] = {}"
  by (simp add: gkeys_def)

lemma gkeys_gput [simp]: "gkeys (gput k v m) = insert k (gkeys m)"
  by (auto simp: gkeys_dom)

lemma gkeys_gdel [simp]: "gkeys (gdel k m) = gkeys m - {k}"
  by (auto simp: gkeys_dom)

lemma length_gkeys: "gwf m \<Longrightarrow> length m = card (gkeys m)"
  by (metis distinct_card gkeys_def gwf_def length_map list.set_map)

section \<open>Push iterators\<close>

type_synonym ('a, 's) yield = "'a \<Rightarrow> 's \<Rightarrow> bool \<times> 's"
type_synonym ('a, 's) seq = "('a, 's) yield \<Rightarrow> 's \<Rightarrow> 's"

text \<open>Offering a list to a consumer: True while the consumer goes on.\<close>

fun feed :: "'a list \<Rightarrow> ('a, 's) yield \<Rightarrow> 's \<Rightarrow> bool \<times> 's" where
  "feed [] y s = (True, s)"
| "feed (x # xs) y s = (let (go, s') = y x s in if go then feed xs y s' else (False, s'))"

definition seqOf :: "'a list \<Rightarrow> ('a, 's) seq" where
  "seqOf xs y s = snd (feed xs y s)"

text \<open>A \<open>range\<close> loop: the flag records that the body left the function. The first
  component of the result is True when the loop ran to the end of the sequence.\<close>

definition forRange ::
  "('a, bool \<times> 't) seq \<Rightarrow> ('a \<Rightarrow> 't \<Rightarrow> bool \<times> 't) \<Rightarrow> 't \<Rightarrow> bool \<times> 't" where
  "forRange sq body t = (let (left, t') =
       sq (\<lambda>x (left, u). let (go, u') = body x u in (go, (\<not> go, u'))) (False, t)
     in (\<not> left, t'))"

definition denotes :: "('a, 's) seq \<Rightarrow> 'a list \<Rightarrow> bool" where
  "denotes sq xs \<longleftrightarrow> (\<forall>y s. sq y s = snd (feed xs y s))"

text \<open>The consumer that keeps everything it is offered.\<close>

definition collect :: "('a, 'a list) yield" where
  "collect x acc = (True, acc @ [x])"

definition collected :: "('a, 'a list) seq \<Rightarrow> 'a list" where
  "collected sq = sq collect []"

text \<open>The consumer that stops after a number of steps.\<close>

definition takeFirst :: "nat \<Rightarrow> ('a, 'a list) yield" where
  "takeFirst n x acc = (Suc (length acc) < n, acc @ [x])"

lemma feed_append:
  "feed (xs @ ys) y s = (let (go, s') = feed xs y s in if go then feed ys y s' else (False, s'))"
  by (induction xs arbitrary: s) (simp_all split: prod.split)

lemma feed_collect [simp]: "feed xs collect acc = (True, acc @ xs)"
  by (induction xs arbitrary: acc) (simp_all add: collect_def)

lemma denotes_seqOf [simp]: "denotes (seqOf xs) xs"
  by (simp add: denotes_def seqOf_def)

lemma denotes_collected: "denotes sq xs \<Longrightarrow> collected sq = xs"
  by (simp add: denotes_def collected_def)

lemma feed_takeFirst:
  assumes "length acc < n"
  shows "snd (feed xs (takeFirst n) acc) = acc @ take (n - length acc) xs"
  using assms
proof (induction xs arbitrary: acc)
  case (Cons x xs)
  show ?case
  proof (cases "Suc (length acc) < n")
    case True
    then have "n - length acc = Suc (n - length (acc @ [x]))" by simp
    then show ?thesis using True Cons.IH [of "acc @ [x]"] by (simp add: takeFirst_def)
  next
    case False
    then have "n - length acc = 1" using Cons.prems by simp
    then show ?thesis using False by (simp add: takeFirst_def)
  qed
qed simp

lemma feed_flag:
  "feed xs (\<lambda>x (left, u). let (go, u') = body x u in (go, (\<not> go, u'))) (False, t) =
   (let (go, u) = feed xs body t in (go, (\<not> go, u)))"
proof (induction xs arbitrary: t)
  case (Cons x xs)
  obtain go u where "body x t = (go, u)" by (cases "body x t")
  then show ?case using Cons.IH [of u] by (cases go) simp_all
qed simp

lemma forRange_denotes:
  assumes "denotes sq xs"
  shows "forRange sq body t = feed xs body t"
proof -
  have "sq (\<lambda>x (left, u). let (go, u') = body x u in (go, (\<not> go, u'))) (False, t) =
      snd (let (go, u) = feed xs body t in (go, (\<not> go, u)))"
    using assms unfolding denotes_def feed_flag [symmetric] by blast
  then show ?thesis by (simp add: forRange_def split: prod.split)
qed

subsection \<open>Interface: a transform that drops steps\<close>

locale filter_transform =
  fixes transform :: "('a, bool \<times> 's) seq \<Rightarrow> ('a, 's) seq"
    and keep :: "'a \<Rightarrow> bool"
  assumes loop: "transform sq y s =
    snd (forRange sq (\<lambda>x s. if keep x then y x s else (True, s)) s)"
begin

lemma feed_keep:
  "feed xs (\<lambda>x s. if keep x then y x s else (True, s)) s = feed (filter keep xs) y s"
  by (induction xs arbitrary: s) (simp_all split: prod.split)

lemma denotes_filter: "denotes sq xs \<Longrightarrow> denotes (transform sq) (filter keep xs)"
  unfolding denotes_def [of "transform sq"]
  by (simp add: loop forRange_denotes feed_keep)

end

subsection \<open>Interface: a transform that keeps a state\<close>

text \<open>The list a transform offers: the outputs of its steps, then what it holds at the end.\<close>

fun machineOut :: "('st \<Rightarrow> 'a \<Rightarrow> 'st \<times> 'b list) \<Rightarrow> ('st \<Rightarrow> 'b list) \<Rightarrow> 'st \<Rightarrow> 'a list \<Rightarrow> 'b list" where
  "machineOut step fin st [] = fin st"
| "machineOut step fin st (x # xs) =
     (let (st', os) = step st x in os @ machineOut step fin st' xs)"

locale state_transform =
  fixes transform :: "('a, bool \<times> 'st \<times> 's) seq \<Rightarrow> ('b, 's) seq"
    and step :: "'st \<Rightarrow> 'a \<Rightarrow> 'st \<times> 'b list"
    and fin :: "'st \<Rightarrow> 'b list"
    and start :: 'st
  assumes loop: "transform sq y s =
    (let (whole, (st, s')) = forRange sq
        (\<lambda>x (st, s). let (st', os) = step st x; (go, s') = feed os y s in (go, (st', s')))
        (start, s)
     in if whole then snd (feed (fin st) y s') else s')"
begin

lemma feed_machine:
  "(let (whole, (st', s')) = feed xs
      (\<lambda>x (st, s). let (st', os) = step st x; (go, s') = feed os y s in (go, (st', s'))) (st, s)
    in if whole then snd (feed (fin st') y s') else s')
   = snd (feed (machineOut step fin st xs) y s)"
proof (induction xs arbitrary: st s)
  case (Cons x xs)
  obtain st1 os where st: "step st x = (st1, os)" by (cases "step st x")
  obtain go s1 where f: "feed os y s = (go, s1)" by (cases "feed os y s")
  show ?case using Cons.IH [of st1 s1] by (simp add: st f feed_append)
qed simp

lemma denotes_machine:
  assumes "denotes sq xs"
  shows "denotes (transform sq) (machineOut step fin start xs)"
  unfolding denotes_def [of "transform sq"]
  by (simp only: loop forRange_denotes [OF assms] feed_machine simp_thms)

end

section \<open>State machines\<close>

text \<open>An invariant of one step is an invariant of every run.\<close>

locale machine =
  fixes step :: "'e \<Rightarrow> 'st \<Rightarrow> 'st"
    and inv :: "'st \<Rightarrow> bool"
  assumes step_inv: "inv s \<Longrightarrow> inv (step e s)"
begin

lemma run_inv: "inv s \<Longrightarrow> inv (fold step es s)"
  by (induction es arbitrary: s) (simp_all add: step_inv)

end

text \<open>A machine that logs keys and remembers the ones it has logged.\<close>

locale once_log =
  fixes step :: "'e \<Rightarrow> 'st \<Rightarrow> 'st"
    and sound :: "'st \<Rightarrow> bool"
    and logged :: "'st \<Rightarrow> 'k list"
    and seen :: "'st \<Rightarrow> 'k set"
  assumes once: "sound s \<Longrightarrow> distinct (logged s) \<Longrightarrow> set (logged s) \<subseteq> seen s \<Longrightarrow>
    sound (step e s) \<and> distinct (logged (step e s)) \<and> set (logged (step e s)) \<subseteq> seen (step e s)"
begin

sublocale machine step "\<lambda>s. sound s \<and> distinct (logged s) \<and> set (logged s) \<subseteq> seen s"
  by unfold_locales (simp add: once)

lemma distinct_logged: "sound s \<Longrightarrow> logged s = [] \<Longrightarrow> distinct (logged (fold step es s))"
  using run_inv [of s es] by simp

end

end
