(* ===== verification/Errors.thy ===== *)
theory Errors
  imports GoBase
begin

text \<open>
  errors.go: the sentinels, the error values the package builds, errors.Is over them, the
  API error with its rendering, and sanitizeForError, which makes a server-chosen string
  safe to render.

  An error built with fmt.Errorf is \<open>Errorf\<close> of the parts of its format: literal text
  (\<open>Txt\<close>, which is also %s of a string), a quoted string (%q), a number (%d), a wrapped
  error (%w) and an error rendered without being wrapped (%v or %s of an error). An error
  that comes from code outside this package is \<open>External\<close> of its text. The rendering
  \<open>errText\<close> takes strconv.Quote as a parameter.

  The lemmas show that a sanitized string has no control rune and a bounded length, that
  APIError.Error renders no control rune when the content type it names has none, and what
  errors.Is matches.
\<close>

section \<open>Sentinels\<close>

datatype (plugins only: code size) sentinel =
    ErrInvalidArgument | ErrInvalidInput | ErrUnauthorized | ErrForbidden | ErrNotFound
  | ErrConflict | ErrHarnessNotConfigured | ErrValidation | ErrUnavailable | ErrServer
  | ErrStreamInterrupted | ErrStreamIdle | ErrStreamProtocol | ErrStreamFrameTooLarge
  | ErrListingUnbounded | ErrTruncated | ErrUnsafeRedirect | ErrToolCallDuplicated
  | ErrToolCallBudget | ErrInputDenied | ErrHookPanicked | ErrTurnAlreadyRead
  | ErrTurnIncomplete | ErrToolNotRegistered | ErrToolFailed | ErrTurnFailed
  | ErrTurnSuperseded | ErrRedirectNotFollowed | ErrResponseTooLarge

text \<open>The errors of the standard library the package tests for.\<close>

datatype stdError = Canceled | DeadlineExceeded | EOF | BufioTooLong

fun sentinelText :: "sentinel \<Rightarrow> string" where
  "sentinelText ErrInvalidArgument = ''invalid argument''"
| "sentinelText ErrInvalidInput = ''invalid input''"
| "sentinelText ErrUnauthorized = ''unauthorized''"
| "sentinelText ErrForbidden = ''forbidden''"
| "sentinelText ErrNotFound = ''not found''"
| "sentinelText ErrConflict = ''conflict''"
| "sentinelText ErrHarnessNotConfigured = ''harness not configured''"
| "sentinelText ErrValidation = ''request validation failed''"
| "sentinelText ErrUnavailable = ''service unavailable''"
| "sentinelText ErrServer = ''server error''"
| "sentinelText ErrStreamInterrupted = ''session stream ended without its terminal sentinel''"
| "sentinelText ErrStreamIdle = ''session stream idle past its timeout''"
| "sentinelText ErrStreamProtocol = ''malformed session stream frame''"
| "sentinelText ErrStreamFrameTooLarge =
     ''malformed session stream frame: frame exceeds the client's size limit''"
| "sentinelText ErrListingUnbounded = ''listing did not reach an end''"
| "sentinelText ErrTruncated = ''response exceeds the caller's bound''"
| "sentinelText ErrUnsafeRedirect = ''refused to follow an unsafe redirect''"
| "sentinelText ErrToolCallDuplicated = ''the call was already run''"
| "sentinelText ErrToolCallBudget = ''the turn exceeded its tool-call budget''"
| "sentinelText ErrInputDenied = ''the server denied the input''"
| "sentinelText ErrHookPanicked = ''a hook panicked''"
| "sentinelText ErrTurnAlreadyRead = ''this turn was already read''"
| "sentinelText ErrTurnIncomplete = ''the stream ended before the turn did''"
| "sentinelText ErrToolNotRegistered = ''no such tool is registered''"
| "sentinelText ErrToolFailed = ''the tool failed''"
| "sentinelText ErrTurnFailed = ''the turn failed''"
| "sentinelText ErrTurnSuperseded = ''the session was superseded''"
| "sentinelText ErrRedirectNotFollowed = ''could not follow a redirect''"
| "sentinelText ErrResponseTooLarge = ''the response is too large to decode''"

text \<open>A sentinel matches itself; ErrStreamFrameTooLarge wraps ErrStreamProtocol.\<close>

definition sentinelIs :: "sentinel \<Rightarrow> sentinel \<Rightarrow> bool" where
  "sentinelIs s target \<longleftrightarrow>
     s = target \<or> (s = ErrStreamFrameTooLarge \<and> target = ErrStreamProtocol)"

section \<open>Sanitizing\<close>

definition maxErrorFieldRunes :: nat where
  "maxErrorFieldRunes = 200"

definition maxRequestIDRunes :: nat where
  "maxRequestIDRunes = 80"

definition maxAgentNameRunes :: nat where
  "maxAgentNameRunes = 60"

definition maxToolNameRunes :: nat where
  "maxToolNameRunes = 60"

text \<open>The C0 controls, DEL and the C1 controls.\<close>

definition isControl :: "nat \<Rightarrow> bool" where
  "isControl r \<longleftrightarrow> r < 0x20 \<or> r = 0x7F \<or> (0x80 \<le> r \<and> r \<le> 0x9F)"

fun sanitizeLoop :: "nat \<Rightarrow> nat list \<Rightarrow> string \<Rightarrow> bool \<Rightarrow> nat \<Rightarrow> string" where
  "sanitizeLoop mx [] b space written = TrimSpace b"
| "sanitizeLoop mx (r # rs) b space written =
     (if r \<noteq> RuneError \<and> isControl r then
        if \<not> space \<and> 0 < written then sanitizeLoop mx rs (b @ '' '') True (written + 1)
        else sanitizeLoop mx rs b space written
      else if mx \<le> written then TrimSpace b @ ''...''
      else sanitizeLoop mx rs (b @ EncodeRune r) False (written + 1))"

definition sanitizeForError :: "string \<Rightarrow> nat \<Rightarrow> string" where
  "sanitizeForError s mx = sanitizeLoop mx (runes s) [] False 0"

text \<open>A text that is the encoding of runes none of which is a control.\<close>

definition cleanRune :: "nat \<Rightarrow> bool" where
  "cleanRune r \<longleftrightarrow> validRune r \<and> \<not> isControl r"

definition cleanText :: "string \<Rightarrow> bool" where
  "cleanText s \<longleftrightarrow> s = EncodeRunes (runes s) \<and> (\<forall>r \<in> set (runes s). \<not> isControl r)"

lemma cleanText_Encode:
  assumes "\<forall>r \<in> set rs. cleanRune r"
  shows "cleanText (EncodeRunes rs)" and "runes (EncodeRunes rs) = rs"
proof -
  show r: "runes (EncodeRunes rs) = rs"
    using assms by (intro runes_EncodeRunes) (simp add: cleanRune_def)
  show "cleanText (EncodeRunes rs)"
    using assms by (simp add: cleanText_def r cleanRune_def)
qed

lemma cleanText_iff: "cleanText s \<longleftrightarrow> (\<exists>rs. (\<forall>r \<in> set rs. cleanRune r) \<and> s = EncodeRunes rs)"
proof
  assume "cleanText s"
  then show "\<exists>rs. (\<forall>r \<in> set rs. cleanRune r) \<and> s = EncodeRunes rs"
    by (intro exI [of _ "runes s"]) (auto simp: cleanText_def cleanRune_def validRune_runes)
qed (auto simp: cleanText_Encode)

lemma cleanText_append [intro]:
  assumes "cleanText a" "cleanText b"
  shows "cleanText (a @ b)"
proof -
  obtain ra rb where "\<forall>r \<in> set ra. cleanRune r" "a = EncodeRunes ra"
    "\<forall>r \<in> set rb. cleanRune r" "b = EncodeRunes rb"
    using assms by (auto simp: cleanText_iff)
  then show ?thesis
    unfolding cleanText_iff by (intro exI [of _ "ra @ rb"]) auto
qed

lemma RuneCount_Encode:
  "\<forall>r \<in> set rs. cleanRune r \<Longrightarrow> RuneCount (EncodeRunes rs) = length rs"
  using cleanText_Encode(2) [of rs] by (simp add: RuneCount_def runes_def) (metis length_map)

lemma trimRunes_last_space:
  assumes "ws \<noteq> []" "last ws = 0x20"
  shows "length (trimRunes ws) < length ws"
proof -
  have "length (dropTail isSpace (dropWhile isSpace ws)) < length ws"
  proof (cases "dropWhile isSpace ws = []")
    case False
    then have "last (dropWhile isSpace ws) = 0x20"
      using assms by (metis dropWhile_eq_self_iff last_appendR takeWhile_dropWhile_id)
    then have "dropTail isSpace (dropWhile isSpace ws) = dropTail isSpace (butlast (dropWhile isSpace ws))"
      using False by (metis append_butlast_last_id dropTail_snoc isSpace_def)
    moreover have "length (dropTail isSpace (butlast (dropWhile isSpace ws)))
        \<le> length (butlast (dropWhile isSpace ws))" by (rule length_dropTail)
    moreover have "length (butlast (dropWhile isSpace ws)) < length (dropWhile isSpace ws)"
      using False by simp
    moreover have "length (dropWhile isSpace ws) \<le> length ws" by (rule length_dropWhile_le)
    ultimately show ?thesis by simp
  next
    case True
    then show ?thesis using assms(1) by (simp del: dropWhile_eq_Nil_conv)
  qed
  then show ?thesis by (simp add: trimRunes_def)
qed

lemma cleanRune_space [simp]: "cleanRune 0x20"
  by (simp add: cleanRune_def validRune_def isControl_def)

lemma EncodeRune_space: "EncodeRune 0x20 = '' ''"
  by (simp add: EncodeRune_def chr_def) code_simp

lemma dots_Encode: "''...'' = EncodeRunes [46, 46, 46]"
  by code_simp

text \<open>The state of the loop: what is written is clean, its length is counted, and one rune
  past the bound can only be a trailing space.\<close>

definition sanState :: "nat \<Rightarrow> nat list \<Rightarrow> bool \<Rightarrow> nat \<Rightarrow> bool" where
  "sanState mx ws space written \<longleftrightarrow>
     (\<forall>r \<in> set ws. cleanRune r) \<and> length ws = written \<and>
     (written \<le> mx \<or> (written = mx + 1 \<and> space \<and> ws \<noteq> [] \<and> last ws = 0x20))"

lemma sanState_trim: "sanState mx ws space written \<Longrightarrow> length (trimRunes ws) \<le> mx"
  using trimRunes_last_space [of ws] length_trimRunes [of ws] unfolding sanState_def by auto

lemma sanState_trim_clean: "sanState mx ws space written \<Longrightarrow> \<forall>r \<in> set (trimRunes ws). cleanRune r"
  using set_trimRunes [of ws] unfolding sanState_def by blast

lemma TrimSpace_clean:
  "\<forall>r \<in> set ws. cleanRune r \<Longrightarrow> TrimSpace (EncodeRunes ws) = EncodeRunes (trimRunes ws)"
  by (rule TrimSpace_EncodeRunes) (simp add: cleanRune_def)

lemma sanitizeLoop_result:
  assumes "sanState mx ws space written" "\<forall>r \<in> set rs. validRune r"
  shows "\<exists>os. sanitizeLoop mx rs (EncodeRunes ws) space written = EncodeRunes os \<and>
    (\<forall>r \<in> set os. cleanRune r) \<and> length os \<le> mx + 3"
  using assms
proof (induction rs arbitrary: ws space written)
  case Nil
  note st = Nil.prems(1)
  have "sanitizeLoop mx [] (EncodeRunes ws) space written = EncodeRunes (trimRunes ws)"
    using st by (simp add: TrimSpace_clean sanState_def)
  then show ?case
    using sanState_trim [OF st] sanState_trim_clean [OF st] by (meson trans_le_add1)
next
  case (Cons r rs)
  note st = Cons.prems(1)
  consider (space) "r \<noteq> RuneError \<and> isControl r" "\<not> space" "0 < written"
    | (skip) "r \<noteq> RuneError \<and> isControl r" "space \<or> written = 0"
    | (full) "\<not> (r \<noteq> RuneError \<and> isControl r)" "mx \<le> written"
    | (rune) "\<not> (r \<noteq> RuneError \<and> isControl r)" "written < mx" by fastforce
  then show ?case
  proof cases
    case space
    have "sanState mx (ws @ [0x20]) True (written + 1)"
      using st space unfolding sanState_def by auto
    from Cons.IH [OF this] Cons.prems(2) space show ?thesis by (simp add: EncodeRune_space)
  next
    case skip
    then show ?thesis using Cons.IH [OF st] Cons.prems(2) by auto
  next
    case full
    let ?os = "trimRunes ws @ [46, 46, 46]"
    have "sanitizeLoop mx (r # rs) (EncodeRunes ws) space written = EncodeRunes ?os"
      using st full by (auto simp: TrimSpace_clean sanState_def dots_Encode)
    moreover have "\<forall>r \<in> set ?os. cleanRune r"
      using sanState_trim_clean [OF st] by (auto simp: cleanRune_def validRune_def isControl_def)
    moreover have "length ?os \<le> mx + 3" using sanState_trim [OF st] by simp
    ultimately show ?thesis by blast
  next
    case rune
    have "\<not> isControl r" using rune by (auto simp: RuneError_def isControl_def)
    then have "sanState mx (ws @ [r]) False (written + 1)"
      using st rune Cons.prems(2) unfolding sanState_def by (auto simp: cleanRune_def)
    from Cons.IH [OF this] Cons.prems(2) rune show ?thesis by auto
  qed
qed

lemma sanitize_os:
  "\<exists>os. sanitizeForError s mx = EncodeRunes os \<and> (\<forall>r \<in> set os. cleanRune r) \<and> length os \<le> mx + 3"
proof -
  have "sanState mx [] False 0" by (simp add: sanState_def)
  from sanitizeLoop_result [OF this, of "runes s"] validRune_runes show ?thesis
    by (auto simp: sanitizeForError_def)
qed

lemma cleanText_sanitize [simp, intro]: "cleanText (sanitizeForError s mx)"
  using sanitize_os [of s mx] by (auto simp: cleanText_iff)

lemma RuneCount_sanitize: "RuneCount (sanitizeForError s mx) \<le> mx + 3"
  using sanitize_os [of s mx] by (auto simp: RuneCount_Encode)

text \<open>A clean text that fits and has no white space at its ends is rendered unchanged.\<close>

lemma sanitizeLoop_same:
  assumes "\<forall>r \<in> set rs. cleanRune r" "\<forall>r \<in> set ws. cleanRune r"
    "length ws = written" "written + length rs \<le> mx"
  shows "sanitizeLoop mx rs (EncodeRunes ws) space written = TrimSpace (EncodeRunes (ws @ rs))"
  using assms
proof (induction rs arbitrary: ws space written)
  case (Cons r rs)
  have "\<not> isControl r" using Cons.prems by (simp add: cleanRune_def)
  moreover have "\<not> mx \<le> written" using Cons.prems by simp
  ultimately show ?case
    using Cons.IH [of "ws @ [r]" "written + 1" False] Cons.prems by simp
qed simp

lemma sanitize_clean_same:
  assumes "cleanText s" "RuneCount s \<le> mx"
  shows "sanitizeForError s mx = TrimSpace s"
proof -
  have s: "s = EncodeRunes (runes s)" using assms(1) by (simp add: cleanText_def)
  have "\<forall>r \<in> set (runes s). cleanRune r"
    using assms(1) by (auto simp: cleanText_def cleanRune_def validRune_runes)
  moreover have "length (runes s) \<le> mx" using assms(2) by (simp add: RuneCount_def runes_def)
  ultimately show ?thesis
    using sanitizeLoop_same [of "runes s" "[]" 0 mx False] s by (simp add: sanitizeForError_def)
qed

section \<open>The API error\<close>

record apiError =
  StatusCode :: int
  Code :: string
  Message :: string
  Title :: string
  Cause :: string
  Remediation :: string
  Detail :: string
  Body :: string
  ContentType :: string
  RequestID :: string
  Header :: "(string \<times> string list) list"

definition APIError_Status :: "apiError \<Rightarrow> int" where
  "APIError_Status e = StatusCode e"

text \<open>http.StatusText: the registered reason phrases.\<close>

definition statusTexts :: "(int \<times> string) list" where
  "statusTexts =
    [(100, ''Continue''), (101, ''Switching Protocols''), (102, ''Processing''),
     (103, ''Early Hints''), (200, ''OK''), (201, ''Created''), (202, ''Accepted''),
     (203, ''Non-Authoritative Information''), (204, ''No Content''), (205, ''Reset Content''),
     (206, ''Partial Content''), (207, ''Multi-Status''), (208, ''Already Reported''),
     (226, ''IM Used''), (300, ''Multiple Choices''), (301, ''Moved Permanently''),
     (302, ''Found''), (303, ''See Other''), (304, ''Not Modified''), (305, ''Use Proxy''),
     (307, ''Temporary Redirect''), (308, ''Permanent Redirect''), (400, ''Bad Request''),
     (401, ''Unauthorized''), (402, ''Payment Required''), (403, ''Forbidden''),
     (404, ''Not Found''), (405, ''Method Not Allowed''), (406, ''Not Acceptable''),
     (407, ''Proxy Authentication Required''), (408, ''Request Timeout''), (409, ''Conflict''),
     (410, ''Gone''), (411, ''Length Required''), (412, ''Precondition Failed''),
     (413, ''Request Entity Too Large''), (414, ''Request URI Too Long''),
     (415, ''Unsupported Media Type''), (416, ''Requested Range Not Satisfiable''),
     (417, ''Expectation Failed''), (418, ''I'm a teapot''), (421, ''Misdirected Request''),
     (422, ''Unprocessable Entity''), (423, ''Locked''), (424, ''Failed Dependency''),
     (425, ''Too Early''), (426, ''Upgrade Required''), (428, ''Precondition Required''),
     (429, ''Too Many Requests''), (431, ''Request Header Fields Too Large''),
     (451, ''Unavailable For Legal Reasons''), (500, ''Internal Server Error''),
     (501, ''Not Implemented''), (502, ''Bad Gateway''), (503, ''Service Unavailable''),
     (504, ''Gateway Timeout''), (505, ''HTTP Version Not Supported''),
     (506, ''Variant Also Negotiates''), (507, ''Insufficient Storage''),
     (508, ''Loop Detected''), (510, ''Not Extended''),
     (511, ''Network Authentication Required'')]"

definition StatusText :: "int \<Rightarrow> string" where
  "StatusText code = (case map_of statusTexts code of Some t \<Rightarrow> t | None \<Rightarrow> [])"

definition APIError_Error :: "apiError \<Rightarrow> string" where
  "APIError_Error e =
    (let label = Itoa (StatusCode e)
           @ (if StatusText (StatusCode e) \<noteq> [] then '' '' @ StatusText (StatusCode e) else []);
         headline = (if Title e \<noteq> [] then sanitizeForError (Title e) maxErrorFieldRunes
                     else sanitizeForError (Code e) maxErrorFieldRunes);
         message = sanitizeForError (Message e) maxErrorFieldRunes;
         detail =
           (if headline \<noteq> [] \<and> message \<noteq> [] then label @ '': '' @ headline @ '': '' @ message
            else if message \<noteq> [] then label @ '': '' @ message
            else if headline \<noteq> [] then label @ '': '' @ headline
            else if Body e \<noteq> [] then
              label @ '': no error envelope, '' @ Itoa (int (length (Body e))) @ ''-byte ''
                @ (if ContentType e = [] then ''untyped'' else ContentType e)
                @ '' body withheld (see APIError.Body)''
            else label)
     in ''omnigent: '' @ detail
        @ (if RequestID e \<noteq> []
           then '' (request id '' @ sanitizeForError (RequestID e) maxRequestIDRunes @ '')''
           else []))"

definition APIError_Is :: "apiError \<Rightarrow> sentinel \<Rightarrow> bool" where
  "APIError_Is e target = (case target of
      ErrInvalidInput \<Rightarrow> StatusCode e = 400
    | ErrUnauthorized \<Rightarrow> StatusCode e = 401
    | ErrForbidden \<Rightarrow> StatusCode e = 403
    | ErrNotFound \<Rightarrow> StatusCode e = 404
    | ErrConflict \<Rightarrow> StatusCode e = 409
    | ErrHarnessNotConfigured \<Rightarrow> StatusCode e = 412
    | ErrValidation \<Rightarrow> StatusCode e = 422
    | ErrUnavailable \<Rightarrow> StatusCode e = 503
    | ErrServer \<Rightarrow> 500 \<le> StatusCode e
    | _ \<Rightarrow> False)"

section \<open>Error values and errors.Is\<close>

datatype goerr =
    Sentinel sentinel
  | Std stdError
  | External string
  | URLError string string goerr
  | API apiError
  | Errorf "errpart list"
  | Joined "goerr list"
and errpart =
    Txt string
  | Quoted string
  | Num int
  | Wrapped goerr
  | Shown goerr

fun errIs :: "sentinel \<Rightarrow> goerr \<Rightarrow> bool" and partIs :: "sentinel \<Rightarrow> errpart \<Rightarrow> bool" where
  "errIs t (Sentinel s) = sentinelIs s t"
| "errIs t (Std _) = False"
| "errIs t (External _) = False"
| "errIs t (URLError _ _ e) = errIs t e"
| "errIs t (API e) = APIError_Is e t"
| "errIs t (Errorf ps) = (\<exists>p \<in> set ps. partIs t p)"
| "errIs t (Joined es) = (\<exists>e \<in> set es. errIs t e)"
| "partIs t (Txt _) = False"
| "partIs t (Quoted _) = False"
| "partIs t (Num _) = False"
| "partIs t (Wrapped e) = errIs t e"
| "partIs t (Shown _) = False"

text \<open>errors.Is against an error of the standard library.\<close>

fun errIsStd :: "stdError \<Rightarrow> goerr \<Rightarrow> bool" and partIsStd :: "stdError \<Rightarrow> errpart \<Rightarrow> bool" where
  "errIsStd t (Std s) = (s = t)"
| "errIsStd t (Sentinel _) = False"
| "errIsStd t (External _) = False"
| "errIsStd t (URLError _ _ e) = errIsStd t e"
| "errIsStd t (API _) = False"
| "errIsStd t (Errorf ps) = (\<exists>p \<in> set ps. partIsStd t p)"
| "errIsStd t (Joined es) = (\<exists>e \<in> set es. errIsStd t e)"
| "partIsStd t (Txt _) = False"
| "partIsStd t (Quoted _) = False"
| "partIsStd t (Num _) = False"
| "partIsStd t (Wrapped e) = errIsStd t e"
| "partIsStd t (Shown _) = False"

fun stdText :: "stdError \<Rightarrow> string" where
  "stdText Canceled = ''context canceled''"
| "stdText DeadlineExceeded = ''context deadline exceeded''"
| "stdText EOF = ''EOF''"
| "stdText BufioTooLong = ''bufio.Scanner: token too long''"

text \<open>The rendered text of an error; \<open>quote\<close> is strconv.Quote.\<close>

fun errText :: "(string \<Rightarrow> string) \<Rightarrow> goerr \<Rightarrow> string"
  and partText :: "(string \<Rightarrow> string) \<Rightarrow> errpart \<Rightarrow> string" where
  "errText quote (Sentinel s) = sentinelText s"
| "errText quote (Std s) = stdText s"
| "errText quote (External s) = s"
| "errText quote (URLError op u e) = op @ '' '' @ quote u @ '': '' @ errText quote e"
| "errText quote (API e) = APIError_Error e"
| "errText quote (Errorf ps) = concat (map (partText quote) ps)"
| "errText quote (Joined es) = Join (map (errText quote) es) [CHR 0x0A]"
| "partText quote (Txt s) = s"
| "partText quote (Quoted s) = quote s"
| "partText quote (Num i) = Itoa i"
| "partText quote (Wrapped e) = errText quote e"
| "partText quote (Shown e) = errText quote e"

lemma errIs_Errorf_simps [simp]:
  "errIs t (Errorf (p # ps)) = (partIs t p \<or> errIs t (Errorf ps))"
  "errIs t (Errorf []) = False"
  by simp_all

section \<open>What the rendering shows\<close>

lemma cleanText_ascii:
  assumes "list_all (\<lambda>c. 0x20 \<le> byte c \<and> byte c < 0x7F) s"
  shows "cleanText s"
proof -
  have "s = EncodeRunes (map byte s)"
    using assms
  proof (induction s)
    case (Cons c s)
    then have "EncodeRune (byte c) = [c]" by (simp add: EncodeRune_def)
    then show ?case using Cons by (simp add: EncodeRunes_def)
  qed simp
  moreover have "\<forall>r \<in> set (map byte s). cleanRune r"
    using assms by (auto simp: list_all_iff cleanRune_def validRune_def isControl_def)
  ultimately show ?thesis unfolding cleanText_iff by blast
qed

lemma cleanText_Nil [simp]: "cleanText []"
  by (rule cleanText_ascii) simp

lemma decNat_ascii: "list_all (\<lambda>c. 0x20 \<le> byte c \<and> byte c < 0x7F) (decNat n)"
proof (induction n rule: decNat.induct)
  case (1 n)
  have "n mod 10 < 10" by simp
  then have "n mod 10 < 79" by linarith
  then show ?case using 1 by (subst decNat.simps) (simp add: digitChar_def)
qed

lemma cleanText_Itoa [simp]: "cleanText (Itoa i)"
proof (rule cleanText_ascii)
  have "list_all (\<lambda>c. 0x20 \<le> byte c \<and> byte c < 0x7F) [CHR ''-'']" by (simp add: byte_def)
  then show "list_all (\<lambda>c. 0x20 \<le> byte c \<and> byte c < 0x7F) (Itoa i)"
    using decNat_ascii by (simp add: Itoa_def)
qed

lemma cleanText_StatusText [simp]: "cleanText (StatusText code)"
proof -
  have "list_all (\<lambda>(_, t). list_all (\<lambda>c. 0x20 \<le> byte c \<and> byte c < 0x7F) t) statusTexts"
    by (simp add: statusTexts_def byte_def)
  then have all: "cleanText t" if "(c, t) \<in> set statusTexts" for c t
    using that by (intro cleanText_ascii) (auto simp: list_all_iff)
  show ?thesis
    by (cases "map_of statusTexts code") (auto simp: StatusText_def dest!: map_of_SomeD all)
qed

lemma cleanText_literals:
  "cleanText '' ''" "cleanText '': ''" "cleanText '': no error envelope, ''"
  "cleanText ''-byte ''" "cleanText ''untyped''"
  "cleanText '' body withheld (see APIError.Body)''" "cleanText ''omnigent: ''"
  "cleanText '' (request id ''" "cleanText '')''"
  by (rule cleanText_ascii, simp add: byte_def)+

lemma cleanText_if: "(b \<Longrightarrow> cleanText x) \<Longrightarrow> (\<not> b \<Longrightarrow> cleanText y) \<Longrightarrow> cleanText (if b then x else y)"
  by simp

text \<open>The rendering passes every server-chosen field through the sanitizer but one: the
  content type, named when the body has no envelope.\<close>

lemma APIError_Error_clean:
  assumes "cleanText (ContentType e)"
  shows "cleanText (APIError_Error e)"
  unfolding APIError_Error_def Let_def
  by (intro cleanText_append cleanText_if cleanText_literals cleanText_Itoa cleanText_StatusText
      cleanText_sanitize cleanText_Nil assms)

section \<open>Building an APIError from a response\<close>

definition maxErrorBodyBytes :: nat where
  "maxErrorBodyBytes = 65536"

text \<open>What newAPIError reads of a response: the status, the headers under their canonical
  names, and the bytes the body yields.\<close>

type_synonym httpHeader = "(string \<times> string list) list"

record httpResponse =
  hr_StatusCode :: int
  hr_Header :: httpHeader
  hr_Body :: string

definition headerGet :: "httpHeader \<Rightarrow> string \<Rightarrow> string" where
  "headerGet h name = (case map_of h name of Some (v # vs) \<Rightarrow> v | _ \<Rightarrow> [])"

definition headerDel :: "string \<Rightarrow> httpHeader \<Rightarrow> httpHeader" where
  "headerDel name h = filter (\<lambda>(k, v). k \<noteq> name) h"

definition credentialHeaders :: "string list" where
  "credentialHeaders = [''Set-Cookie'', ''Set-Cookie2'', ''Authorization'', ''Proxy-Authorization'']"

text \<open>The error envelope, as json.Unmarshal leaves it: the error object if there is one, and the
  raw detail.\<close>

record envelopeError =
  ee_Code :: string
  ee_Message :: string
  ee_Title :: string
  ee_Cause :: string
  ee_Remediation :: string

record envelope =
  env_Error :: "envelopeError option"
  env_Detail :: string

text \<open>json.Unmarshal into the envelope and into a string; None is a decoding error.\<close>

record errorJSON =
  ej_envelope :: "string \<Rightarrow> envelope option"
  ej_string :: "string \<Rightarrow> string option"

definition newAPIError :: "errorJSON \<Rightarrow> httpResponse \<Rightarrow> apiError" where
  "newAPIError js resp =
    (let body = take maxErrorBodyBytes (hr_Body resp);
         header = fold headerDel credentialHeaders (hr_Header resp);
         e0 = \<lparr>StatusCode = hr_StatusCode resp, Code = [], Message = [], Title = [], Cause = [],
               Remediation = [], Detail = [], Body = body,
               ContentType = headerGet (hr_Header resp) ''Content-Type'',
               RequestID = headerGet (hr_Header resp) ''X-Request-Id'', Header = header\<rparr>
     in case ej_envelope js body of
          None \<Rightarrow> e0
        | Some env \<Rightarrow>
            let e1 = (case env_Error env of
                  Some ee \<Rightarrow> e0\<lparr>Code := ee_Code ee, Message := ee_Message ee, Title := ee_Title ee,
                               Cause := ee_Cause ee, Remediation := ee_Remediation ee\<rparr>
                | None \<Rightarrow> e0);
                e2 = e1\<lparr>Detail := env_Detail env\<rparr>
            in if Message e2 = [] then
                 (case ej_string js (env_Detail env) of
                    Some t \<Rightarrow> e2\<lparr>Message := t\<rparr>
                  | None \<Rightarrow> e2)
               else e2)"

text \<open>One entry of a 422's detail; \<open>'v\<close> is an undeclared value. Unmarshalling a list of them is an
  argument. A nil list beside a nil error is None.\<close>

record 'v validationError =
  ve_Loc :: "'v list"
  ve_Msg :: string
  ve_Type :: string
  ve_Ctx :: "'v gomap option"
  ve_Input :: "'v option"

definition ValidationErrors ::
  "(string \<Rightarrow> goerr + 'v validationError list) \<Rightarrow> apiError \<Rightarrow> goerr + 'v validationError list option" where
  "ValidationErrors details e =
    (if Detail e = [] then Inr None
     else (case details (Detail e) of
         Inl err \<Rightarrow> Inl (Errorf [Txt ''decode validation detail: '', Wrapped err])
       | Inr ds \<Rightarrow> Inr (Some ds)))"

lemma fold_headerDel:
  "fold headerDel names h = filter (\<lambda>(k, v). k \<notin> set names) h"
  by (induction names arbitrary: h) (auto simp: headerDel_def intro!: filter_cong)

lemma newAPIError_fixed:
  "StatusCode (newAPIError js resp) = hr_StatusCode resp"
  "Header (newAPIError js resp) = filter (\<lambda>(k, v). k \<notin> set credentialHeaders) (hr_Header resp)"
  "Body (newAPIError js resp) = take maxErrorBodyBytes (hr_Body resp)"
  by (simp_all add: newAPIError_def fold_headerDel Let_def split: option.split)

section \<open>Properties\<close>

text \<open>C32. Whatever bytes a server chose, sanitizeForError returns valid UTF-8 with no
  control character (so no newline and no escape), at most \<open>mx\<close> runes long but for the three
  dots of a cut.\<close>

theorem sanitize_safe:
  "cleanText (sanitizeForError s mx) \<and> RuneCount (sanitizeForError s mx) \<le> mx + 3"
  by (simp add: RuneCount_sanitize)

text \<open>The text of an API error is printable whatever the server sent in its code, title,
  message and request id, as long as the content type is: that one field is not sanitized.\<close>

theorem apiError_text_clean:
  "cleanText (ContentType e) \<Longrightarrow> cleanText (APIError_Error e)"
  by (rule APIError_Error_clean)

text \<open>An APIError built from a response carries no header that holds a credential and every
  other header unchanged, at most the first 64 KiB of the body, and the status; so errors.Is
  classifies it by the status alone.\<close>

theorem newAPIError_holds:
  "(\<forall>k. map_of (Header (newAPIError js resp)) k =
      (if k \<in> set credentialHeaders then None else map_of (hr_Header resp) k)) \<and>
   length (Body (newAPIError js resp)) \<le> maxErrorBodyBytes \<and>
   (errIs ErrServer (API (newAPIError js resp)) \<longleftrightarrow> 500 \<le> hr_StatusCode resp) \<and>
   (errIs ErrNotFound (API (newAPIError js resp)) \<longleftrightarrow> hr_StatusCode resp = 404)"
proof -
  have m: "map_of (filter (\<lambda>(k, v). k \<notin> S) h) k = (if k \<in> S then None else map_of h k)" for S h k
    by (induction h) auto
  show ?thesis by (simp add: newAPIError_fixed m APIError_Is_def)
qed

theorem apiError_text_clean_witness:
  "cleanText (APIError_Error \<lparr>StatusCode = 404, Code = [CHR 0x1B], Message = ''gone'', Title = [],
     Cause = [], Remediation = [], Detail = [], Body = [], ContentType = ''text'', RequestID = [],
     Header = []\<rparr>)"
  by (rule apiError_text_clean) (simp, rule cleanText_ascii, simp add: byte_def)

definition hostileType :: apiError where
  "hostileType = \<lparr>StatusCode = 404, Code = [], Message = [], Title = [], Cause = [],
     Remediation = [], Detail = [], Body = ''x'', ContentType = [CHR 0x1B], RequestID = [],
     Header = []\<rparr>"

text \<open>The content type is copied as it came: an escape sequence in it reaches the text of the
  error.\<close>

theorem apiError_content_type_raw: "CHR 0x1B \<in> set (APIError_Error hostileType)"
proof -
  have "sanitizeForError [] mx = []" for mx
    by (simp add: sanitizeForError_def runes_def TrimSpace_def unsegs_def)
  then show ?thesis by (simp add: APIError_Error_def hostileType_def)
qed

text \<open>ValidationErrors cannot be asked unconditionally: on an error whose detail is a plain text,
  the shape newAPIError takes its message from, it fails instead of reporting no detail list.\<close>

theorem plain_detail_fails:
  assumes "ej_envelope js (take maxErrorBodyBytes (hr_Body resp)) = Some env" "env_Error env = None"
    and "ej_string js (env_Detail env) = Some t" "env_Detail env \<noteq> []"
    and "\<forall>d. ej_string js d \<noteq> None \<longrightarrow> (\<exists>err. details d = Inl err)"
  shows "Message (newAPIError js resp) = t \<and> (\<exists>err. ValidationErrors details (newAPIError js resp) = Inl err)"
proof -
  obtain err where "details (env_Detail env) = Inl err" using assms(3,5) by auto
  then show ?thesis
    using assms(1-4) by (simp add: newAPIError_def ValidationErrors_def Let_def)
qed

theorem plain_detail_fails_witness:
  "\<exists>err. ValidationErrors (\<lambda>d. Inl (External ''cannot unmarshal string'') :: goerr + unit validationError list)
    (newAPIError \<lparr>ej_envelope = \<lambda>d. Some \<lparr>env_Error = None, env_Detail = ''not found''\<rparr>, ej_string = Some\<rparr>
      \<lparr>hr_StatusCode = 404, hr_Header = [], hr_Body = ''x''\<rparr>) = Inl err"
  using plain_detail_fails [of "\<lparr>ej_envelope = \<lambda>d. Some \<lparr>env_Error = None, env_Detail = ''not found''\<rparr>, ej_string = Some\<rparr>"
      "\<lparr>hr_StatusCode = 404, hr_Header = [], hr_Body = ''x''\<rparr>" "\<lparr>env_Error = None, env_Detail = ''not found''\<rparr>"
      "''not found''" "\<lambda>d. Inl (External ''cannot unmarshal string'') :: goerr + unit validationError list"]
  by simp

end
