(* ===== verification/Event.thy ===== *)
theory Event
  imports Errors Complex_Main
begin

text \<open>
  event.go and the types of internal/api it decodes into: the event union, the registry of
  wire discriminators and the dispatch of one frame's payload.

  An event is its wire type (\<open>ev_type\<close>, what EventType returns) with a body. The bodies the
  package reads are constructors with the fields it reads; the other variants, which the
  package only hands on, are \<open>PassiveEvent\<close> of their variant. A decoded JSON value of an
  untyped field is a \<open>json\<close>; a number is a rational, the value of its float64.

  Decoding one variant is json.Unmarshal into a generated struct. It is a parameter here
  (\<open>unmarshal\<close>, one decoder per variant), and the lemmas hold for every decoder; Wire has the code's.
\<close>

section \<open>Untyped JSON values\<close>

datatype json =
    JNull
  | JBool bool
  | JNum rat
  | JStr string
  | JArr "json list"
  | JObj "(string \<times> json) list"

type_synonym jmap = "json gomap"

text \<open>The string field of an undeclared item: empty when absent or not a string.\<close>

definition itemString :: "jmap \<Rightarrow> string \<Rightarrow> string" where
  "itemString item key = (case map_of item key of Some (JStr s) \<Rightarrow> s | _ \<Rightarrow> [])"

section \<open>Payloads\<close>

record errorDetail =
  ed_Code :: string
  ed_Message :: string

record responseObject =
  resp_ID :: string
  resp_Model :: string
  resp_Status :: string
  resp_Error :: "errorDetail option"

record retryInfo =
  retry_Source :: string
  retry_Attempt :: int
  retry_MaxAttempts :: int
  retry_DelaySeconds :: rat

record elicitationParams =
  el_Message :: string
  el_Mode :: "string option"
  el_Phase :: "string option"
  el_PolicyName :: "string option"
  el_ContentPreview :: "string option"
  el_URL :: "string option"
  el_TargetSessionID :: "string option"
  el_RequestedSchema :: "jmap option"
  el_AdditionalProperties :: "jmap option"

record inputConsumed =
  ic_ItemID :: string
  ic_ClearedPendingID :: "string option"

record sessionStatus =
  ss_ConversationID :: string
  ss_Status :: string
  ss_ResponseID :: "string option"
  ss_Error :: "errorDetail option"

record superseded =
  su_ConversationID :: string
  su_TargetConversationID :: string

record errorInfo =
  err_Source :: string
  err_Code :: string
  err_Message :: string

text \<open>One constructor per decoder of the registry.\<close>

datatype (plugins only: code) variant =
    VBrowserActionRequest | VClientTaskCancel | VCompactionCompleted | VCompactionFailed
  | VCompactionInProgress | VElicitationRequest | VElicitationResolved | VError | VInProgress
  | VIncomplete | VOutputFileDone | VOutputItemDone | VOutputTextDelta | VPolicyDenied
  | VQueued | VReasoningStarted | VReasoningSummaryTextDelta | VReasoningTextDelta
  | VResponseCancelled | VResponseCompleted | VResponseCreated | VResponseFailed
  | VResponseHeartbeat | VRetry | VSessionAgentChanged | VSessionChangedFilesInvalidated
  | VSessionChildSessionUpdated | VSessionCollaborationMode | VSessionCreated
  | VSessionHeartbeat | VSessionInputConsumed | VSessionInterrupted | VSessionMCPStartup
  | VSessionModel | VSessionModelOptions | VSessionPresence | VSessionReasoningEffort
  | VSessionResourceCreated | VSessionResourceDeleted | VSessionSandboxStatus | VSessionSkills
  | VSessionStatus | VSessionSuperseded | VSessionTerminalActivity | VSessionTerminalPending
  | VSessionTodos | VSessionUsage | VToolOutputDelta | VTurnCancelled | VTurnCompleted
  | VTurnFailed | VTurnStarted

datatype (plugins only: code size) eventBody =
    ResponseCreatedEvent responseObject
  | QueuedEvent responseObject
  | InProgressEvent responseObject
  | ResponseCompletedEvent responseObject
  | ResponseFailedEvent responseObject
  | IncompleteEvent responseObject
  | ResponseCancelledEvent responseObject
  | ReasoningStartedEvent
  | ReasoningTextDeltaEvent string
  | ReasoningSummaryTextDeltaEvent string
  | OutputTextDeltaEvent string
  | OutputItemDoneEvent jmap
  | CompactionInProgressEvent
  | RetryEvent retryInfo
  | ErrorEvent errorInfo
  | OutputFileDoneEvent string "string option"
  | ElicitationRequestEvent string elicitationParams
  | SessionInputConsumedEvent inputConsumed
  | SessionStatusEvent sessionStatus
  | SessionSupersededEvent superseded
  | PassiveEvent variant
  | UnknownEvent string

datatype event = Ev (ev_type: string) (ev_body: eventBody)

definition EventType :: "event \<Rightarrow> string" where
  "EventType e = ev_type e"

section \<open>Decoding\<close>

definition eventRegistry :: "(string \<times> variant) list" where
  "eventRegistry =
    [(''browser.action_request'', VBrowserActionRequest),
     (''response.client_task.cancel'', VClientTaskCancel),
     (''response.compaction.completed'', VCompactionCompleted),
     (''response.compaction.failed'', VCompactionFailed),
     (''response.compaction.in_progress'', VCompactionInProgress),
     (''response.elicitation_request'', VElicitationRequest),
     (''response.elicitation_resolved'', VElicitationResolved),
     (''response.error'', VError),
     (''response.in_progress'', VInProgress),
     (''response.incomplete'', VIncomplete),
     (''response.output_file.done'', VOutputFileDone),
     (''response.output_item.done'', VOutputItemDone),
     (''response.output_text.delta'', VOutputTextDelta),
     (''response.policy_denied'', VPolicyDenied),
     (''response.queued'', VQueued),
     (''response.reasoning.started'', VReasoningStarted),
     (''response.reasoning_summary_text.delta'', VReasoningSummaryTextDelta),
     (''response.reasoning_text.delta'', VReasoningTextDelta),
     (''response.cancelled'', VResponseCancelled),
     (''response.completed'', VResponseCompleted),
     (''response.created'', VResponseCreated),
     (''response.failed'', VResponseFailed),
     (''response.heartbeat'', VResponseHeartbeat),
     (''response.retry'', VRetry),
     (''session.agent_changed'', VSessionAgentChanged),
     (''session.changed_files.invalidated'', VSessionChangedFilesInvalidated),
     (''session.child_session.updated'', VSessionChildSessionUpdated),
     (''session.collaboration_mode'', VSessionCollaborationMode),
     (''session.created'', VSessionCreated),
     (''session.heartbeat'', VSessionHeartbeat),
     (''session.input.consumed'', VSessionInputConsumed),
     (''session.interrupted'', VSessionInterrupted),
     (''session.mcp_startup'', VSessionMCPStartup),
     (''session.model'', VSessionModel),
     (''session.model_options'', VSessionModelOptions),
     (''session.presence'', VSessionPresence),
     (''session.reasoning_effort'', VSessionReasoningEffort),
     (''session.resource.created'', VSessionResourceCreated),
     (''session.resource.deleted'', VSessionResourceDeleted),
     (''session.sandbox_status'', VSessionSandboxStatus),
     (''session.skills'', VSessionSkills),
     (''session.status'', VSessionStatus),
     (''session.superseded'', VSessionSuperseded),
     (''session.terminal.activity'', VSessionTerminalActivity),
     (''session.terminal_pending'', VSessionTerminalPending),
     (''session.todos'', VSessionTodos),
     (''session.usage'', VSessionUsage),
     (''response.function_call_output.delta'', VToolOutputDelta),
     (''turn.cancelled'', VTurnCancelled),
     (''turn.completed'', VTurnCompleted),
     (''turn.failed'', VTurnFailed),
     (''turn.started'', VTurnStarted)]"

type_synonym unmarshal = "variant \<Rightarrow> string \<Rightarrow> goerr + event"

definition decodeByType :: "unmarshal \<Rightarrow> string \<Rightarrow> string \<Rightarrow> goerr + event" where
  "decodeByType unmarshal wire raw = (case map_of eventRegistry wire of
      None \<Rightarrow> Inr (Ev wire (UnknownEvent raw))
    | Some v \<Rightarrow> (case unmarshal v raw of
          Inl err \<Rightarrow> Inl (Errorf [Txt ''omnigent: decode '', Txt wire, Txt '' event: '', Wrapped err])
        | Inr ev \<Rightarrow> Inr ev))"

text \<open>\<open>probe\<close> is json.Unmarshal into a struct with the one field \<open>type\<close>.\<close>

definition DecodeEvent :: "(string \<Rightarrow> goerr + string) \<Rightarrow> unmarshal \<Rightarrow> string \<Rightarrow> goerr + event" where
  "DecodeEvent probe unmarshal raw = (case probe raw of
      Inl err \<Rightarrow> Inl (Errorf [Txt ''omnigent: decode event envelope: '', Wrapped err])
    | Inr typ \<Rightarrow>
        if typ = [] then Inl (Errorf [Txt ''omnigent: event carries no type discriminator''])
        else decodeByType unmarshal typ raw)"

text \<open>An unknown discriminator is never an error, whatever the decoders do.\<close>

lemma decodeByType_unknown:
  "wire \<notin> fst ` set eventRegistry \<Longrightarrow> decodeByType u wire raw = Inr (Ev wire (UnknownEvent raw))"
  by (simp add: decodeByType_def map_of_eq_None_iff [symmetric])

end
