(* ===== verification/Turn.thy ===== *)
theory Turn
  imports Event
begin

text \<open>
  turn.go: when one turn has ended. The tracker is the struct turnTracker, one function per
  method, and \<open>trackerStep\<close> is the tracker's part of turnRun.track in chat.go, the switch that
  feeds it the session's events.

  The end of a turn is also stated without the tracker: \<open>echoes\<close> says which event crosses the
  boundary, \<open>answerSignal\<close> which event answers the turn and \<open>failSignal\<close> which one fails it,
  each a function of one event and of what precedes it. The lemmas show that a run of the
  tracker has ended exactly when the events hold such a signal, that the first failure is
  kept, and that the idle rule ends no turn the lifecycle rule would leave open.
\<close>

section \<open>The options\<close>

datatype TurnEnd = TurnEndsOnIdleStatus | TurnEndsOnResponseLifecycle

text \<open>The rules in the order of the constants, the stricter one first.\<close>

instantiation TurnEnd :: linorder
begin

definition less_eq_TurnEnd :: "TurnEnd \<Rightarrow> TurnEnd \<Rightarrow> bool" where
  "less_eq_TurnEnd a b \<longleftrightarrow> a = TurnEndsOnIdleStatus \<or> b = TurnEndsOnResponseLifecycle"

definition less_TurnEnd :: "TurnEnd \<Rightarrow> TurnEnd \<Rightarrow> bool" where
  "less_TurnEnd a b \<longleftrightarrow> a = TurnEndsOnIdleStatus \<and> b = TurnEndsOnResponseLifecycle"

instance
proof
  fix x y :: TurnEnd
  show "x \<le> y \<or> y \<le> x"
    by (cases x; cases y) (simp_all add: less_eq_TurnEnd_def)
qed (auto simp: less_eq_TurnEnd_def less_TurnEnd_def intro: TurnEnd.exhaust)

end

record turnOptions =
  topt_End :: TurnEnd
  topt_PriorResponseIDs :: "bool gomap"

section \<open>The tracker\<close>

record turnTracker =
  tr_end :: TurnEnd
  tr_prior :: "bool gomap"
  tr_sessionID :: string
  tr_anchor :: string
  tr_anchorItem :: string
  tr_crossed :: bool
  tr_id :: string
  tr_failedTurnID :: string
  tr_failure :: "goerr option"

definition newTurnTracker :: "turnOptions \<Rightarrow> string \<Rightarrow> turnTracker" where
  "newTurnTracker opts sessionID =
     \<lparr>tr_end = topt_End opts, tr_prior = topt_PriorResponseIDs opts, tr_sessionID = sessionID,
      tr_anchor = [], tr_anchorItem = [], tr_crossed = False, tr_id = [],
      tr_failedTurnID = [], tr_failure = None\<rparr>"

text \<open>Reading a \<open>map[string]bool\<close>: an absent key reads false.\<close>

definition boolAt :: "bool gomap \<Rightarrow> string \<Rightarrow> bool" where
  "boolAt m k \<longleftrightarrow> map_of m k = Some True"

definition describesThisSession :: "turnTracker \<Rightarrow> string \<Rightarrow> bool" where
  "describesThisSession t conversationID \<longleftrightarrow> conversationID = tr_sessionID t"

definition couldBeThisSession :: "turnTracker \<Rightarrow> string \<Rightarrow> bool" where
  "couldBeThisSession t conversationID \<longleftrightarrow>
     conversationID = [] \<or> conversationID = tr_sessionID t"

definition anchorOn :: "string \<Rightarrow> turnTracker \<Rightarrow> turnTracker" where
  "anchorOn identifier t = t\<lparr>tr_anchor := identifier\<rparr>"

definition ended :: "turnTracker \<Rightarrow> bool" where
  "ended t \<longleftrightarrow> tr_id t \<noteq> [] \<or> tr_failure t \<noteq> None"

definition failTurn :: "goerr \<Rightarrow> turnTracker \<Rightarrow> turnTracker" where
  "failTurn err t = (if tr_failure t = None then t\<lparr>tr_failure := Some err\<rparr> else t)"

definition crossBoundary :: "inputConsumed \<Rightarrow> turnTracker \<Rightarrow> turnTracker" where
  "crossBoundary e t =
     (if tr_anchor t = [] then t
      else if ic_ItemID e = tr_anchor t then
        t\<lparr>tr_crossed := True, tr_anchorItem := ic_ItemID e\<rparr>
      else if ic_ClearedPendingID e = Some (tr_anchor t) then
        t\<lparr>tr_crossed := True, tr_anchorItem := ic_ItemID e\<rparr>
      else t)"

definition statusDetail :: "sessionStatus \<Rightarrow> string" where
  "statusDetail e = (case ss_Error e of
      None \<Rightarrow> ''the session reported failure, with no detail''
    | Some d \<Rightarrow>
        let code = sanitizeForError (ed_Code d) maxErrorFieldRunes;
            message = sanitizeForError (ed_Message d) maxErrorFieldRunes
        in if code = [] \<and> message = [] then ''the session reported failure, with no detail''
           else ''the session reported failure: '' @ message @ '' ('' @ code @ '')'')"

definition observeFailedStatus :: "sessionStatus \<Rightarrow> turnTracker \<Rightarrow> turnTracker" where
  "observeFailedStatus e t = (case ss_ResponseID e of
      Some r \<Rightarrow>
        if \<not> tr_crossed t \<or> boolAt (tr_prior t) r then t
        else failTurn (Errorf [Wrapped (Sentinel ErrTurnFailed), Txt '': '', Txt (statusDetail e)])
               (t\<lparr>tr_failedTurnID := r\<rparr>)
    | None \<Rightarrow>
        failTurn (Errorf [Wrapped (Sentinel ErrTurnFailed), Txt '': '', Txt (statusDetail e)]) t)"

definition observeStatus :: "sessionStatus \<Rightarrow> turnTracker \<Rightarrow> turnTracker" where
  "observeStatus e t =
     (if ss_Status e = ''failed'' then
        (if couldBeThisSession t (ss_ConversationID e) then observeFailedStatus e t else t)
      else if \<not> describesThisSession t (ss_ConversationID e) then t
      else if ss_Status e \<noteq> ''idle'' \<or> \<not> tr_crossed t then t
      else case ss_ResponseID e of
          None \<Rightarrow> t
        | Some r \<Rightarrow>
            if r = [] then t
            else if boolAt (tr_prior t) r then t
            else t\<lparr>tr_id := r\<rparr>)"

definition observeResponseTerminal :: "string \<Rightarrow> goerr option \<Rightarrow> turnTracker \<Rightarrow> turnTracker" where
  "observeResponseTerminal responseID detail t =
     (if tr_end t \<noteq> TurnEndsOnResponseLifecycle \<or> \<not> tr_crossed t \<or> responseID = []
         \<or> boolAt (tr_prior t) responseID then t
      else case detail of
          Some err \<Rightarrow> failTurn err (t\<lparr>tr_failedTurnID := responseID\<rparr>)
        | None \<Rightarrow> t\<lparr>tr_id := responseID\<rparr>)"

definition observeSuperseded :: "superseded \<Rightarrow> turnTracker \<Rightarrow> turnTracker" where
  "observeSuperseded e t =
     (if \<not> describesThisSession t (su_ConversationID e) then t
      else failTurn (Errorf [Wrapped (Sentinel ErrTurnSuperseded),
             Txt '': the session was superseded; its conversation is now '',
             Txt (sanitizeForError (su_TargetConversationID e) maxRequestIDRunes)]) t)"

definition responseFailure :: "responseObject \<Rightarrow> string" where
  "responseFailure response = (case resp_Error response of
      None \<Rightarrow> ''the server reported failure, with no detail''
    | Some d \<Rightarrow> sanitizeForError (ed_Message d) maxErrorFieldRunes @ '' (''
                @ sanitizeForError (ed_Code d) maxErrorFieldRunes @ '')'')"

text \<open>The error a terminal event carries to the tracker; none for a completed response.\<close>

definition cancelledErr :: goerr where
  "cancelledErr = Errorf [Wrapped (Sentinel ErrTurnFailed), Txt '': the turn was cancelled'']"

definition incompleteErr :: goerr where
  "incompleteErr = Errorf [Wrapped (Sentinel ErrTurnFailed), Txt '': the response was incomplete'']"

definition failedErr :: "responseObject \<Rightarrow> goerr" where
  "failedErr r = Errorf [Wrapped (Sentinel ErrTurnFailed), Txt '': '', Txt (responseFailure r)]"

definition trackerStep :: "eventBody \<Rightarrow> turnTracker \<Rightarrow> turnTracker" where
  "trackerStep e t = (case e of
      SessionInputConsumedEvent c \<Rightarrow> crossBoundary c t
    | SessionStatusEvent s \<Rightarrow> observeStatus s t
    | SessionSupersededEvent s \<Rightarrow> observeSuperseded s t
    | ResponseCompletedEvent r \<Rightarrow> observeResponseTerminal (resp_ID r) None t
    | ResponseCancelledEvent r \<Rightarrow> observeResponseTerminal (resp_ID r) (Some cancelledErr) t
    | IncompleteEvent r \<Rightarrow> observeResponseTerminal (resp_ID r) (Some incompleteErr) t
    | ResponseFailedEvent r \<Rightarrow> observeResponseTerminal (resp_ID r) (Some (failedErr r)) t
    | _ \<Rightarrow> t)"

definition trackerRun :: "eventBody list \<Rightarrow> turnTracker \<Rightarrow> turnTracker" where
  "trackerRun es t = fold trackerStep es t"

lemmas tracker_defs = trackerStep_def crossBoundary_def observeStatus_def
  observeFailedStatus_def observeResponseTerminal_def observeSuperseded_def failTurn_def
  describesThisSession_def couldBeThisSession_def

section \<open>The end of a turn, without the tracker\<close>

text \<open>The event that echoes the prompt a turn is anchored on.\<close>

definition echoes :: "string \<Rightarrow> eventBody \<Rightarrow> bool" where
  "echoes a e = (a \<noteq> [] \<and> (case e of
      SessionInputConsumedEvent c \<Rightarrow> ic_ItemID c = a \<or> ic_ClearedPendingID c = Some a
    | _ \<Rightarrow> False))"

text \<open>The response an event answers the turn with, for an event after the echo.\<close>

definition answerSignal :: "turnOptions \<Rightarrow> string \<Rightarrow> eventBody \<Rightarrow> string option" where
  "answerSignal opts sid e = (case e of
      SessionStatusEvent s \<Rightarrow>
        (case ss_ResponseID s of
           Some r \<Rightarrow> if ss_Status s = ''idle'' \<and> ss_ConversationID s = sid \<and> r \<noteq> []
                       \<and> \<not> boolAt (topt_PriorResponseIDs opts) r then Some r else None
         | None \<Rightarrow> None)
    | ResponseCompletedEvent resp \<Rightarrow>
        if topt_End opts = TurnEndsOnResponseLifecycle \<and> resp_ID resp \<noteq> []
           \<and> \<not> boolAt (topt_PriorResponseIDs opts) (resp_ID resp) then Some (resp_ID resp) else None
    | _ \<Rightarrow> None)"

text \<open>The event that fails the turn, given whether the prompt has been echoed.\<close>

definition terminalFails :: "turnOptions \<Rightarrow> bool \<Rightarrow> responseObject \<Rightarrow> bool" where
  "terminalFails opts echoed r \<longleftrightarrow> echoed \<and> topt_End opts = TurnEndsOnResponseLifecycle
     \<and> resp_ID r \<noteq> [] \<and> \<not> boolAt (topt_PriorResponseIDs opts) (resp_ID r)"

definition failSignal :: "turnOptions \<Rightarrow> string \<Rightarrow> bool \<Rightarrow> eventBody \<Rightarrow> bool" where
  "failSignal opts sid echoed e = (case e of
      SessionStatusEvent s \<Rightarrow>
        ss_Status s = ''failed'' \<and> (ss_ConversationID s = [] \<or> ss_ConversationID s = sid) \<and>
        (case ss_ResponseID s of
           None \<Rightarrow> True
         | Some r \<Rightarrow> echoed \<and> \<not> boolAt (topt_PriorResponseIDs opts) r)
    | SessionSupersededEvent s \<Rightarrow> su_ConversationID s = sid
    | ResponseCancelledEvent r \<Rightarrow> terminalFails opts echoed r
    | IncompleteEvent r \<Rightarrow> terminalFails opts echoed r
    | ResponseFailedEvent r \<Rightarrow> terminalFails opts echoed r
    | _ \<Rightarrow> False)"

section \<open>One step\<close>

text \<open>A tracker made for these options, session and anchor.\<close>

definition trackerFor :: "turnOptions \<Rightarrow> string \<Rightarrow> string \<Rightarrow> turnTracker \<Rightarrow> bool" where
  "trackerFor opts sid a t \<longleftrightarrow>
     tr_end t = topt_End opts \<and> tr_prior t = topt_PriorResponseIDs opts \<and>
     tr_sessionID t = sid \<and> tr_anchor t = a"

lemma trackerFor_new [simp]: "trackerFor opts sid a (anchorOn a (newTurnTracker opts sid))"
  by (simp add: trackerFor_def anchorOn_def newTurnTracker_def)

lemma trackerFor_step: "trackerFor opts sid a t \<Longrightarrow> trackerFor opts sid a (trackerStep e t)"
  by (cases e) (auto simp: tracker_defs trackerFor_def split: option.split)

lemma crossed_step:
  "trackerFor opts sid a t \<Longrightarrow> tr_crossed (trackerStep e t) \<longleftrightarrow> tr_crossed t \<or> echoes a e"
  by (cases e) (auto simp: tracker_defs trackerFor_def echoes_def split: option.split)

lemma id_step:
  assumes "trackerFor opts sid a t"
  shows "tr_id (trackerStep e t) =
    (case answerSignal opts sid e of Some r \<Rightarrow> if tr_crossed t then r else tr_id t | None \<Rightarrow> tr_id t)"
  using assms
  by (cases e) (auto simp: tracker_defs trackerFor_def answerSignal_def split: option.split)

lemma failure_step:
  "tr_failure (trackerStep e t) = tr_failure t" if "tr_failure t \<noteq> None"
  using that by (cases e) (auto simp: tracker_defs split: option.split)

lemma fails_step:
  assumes "trackerFor opts sid a t"
  shows "tr_failure (trackerStep e t) \<noteq> None \<longleftrightarrow>
    tr_failure t \<noteq> None \<or> failSignal opts sid (tr_crossed t) e"
  using assms
  by (cases e) (auto simp: tracker_defs trackerFor_def failSignal_def terminalFails_def
      split: option.split)

section \<open>Runs\<close>

lemma trackerRun_Nil [simp]: "trackerRun [] t = t"
  by (simp add: trackerRun_def)

lemma trackerRun_snoc [simp]: "trackerRun (es @ [e]) t = trackerStep e (trackerRun es t)"
  by (simp add: trackerRun_def)

lemma trackerRun_append: "trackerRun (es @ fs) t = trackerRun fs (trackerRun es t)"
  by (simp add: trackerRun_def)

interpretation tracker: machine trackerStep "trackerFor opts sid a" for opts sid a
  by unfold_locales (rule trackerFor_step)

lemma trackerFor_run: "trackerFor opts sid a t \<Longrightarrow> trackerFor opts sid a (trackerRun es t)"
  unfolding trackerRun_def by (rule tracker.run_inv)

interpretation failed: machine trackerStep "\<lambda>t. tr_failure t = Some err" for err
  by unfold_locales (simp add: failure_step)

lemma failure_kept: "tr_failure t = Some err \<Longrightarrow> tr_failure (trackerRun es t) = Some err"
  unfolding trackerRun_def by (rule failed.run_inv)

lemma crossed_run:
  assumes "trackerFor opts sid a t" "\<not> tr_crossed t"
  shows "tr_crossed (trackerRun es t) \<longleftrightarrow> (\<exists>e \<in> set es. echoes a e)"
  by (induction es rule: rev_induct)
     (use assms in \<open>auto simp: crossed_step [OF trackerFor_run [OF assms(1)]]\<close>)

text \<open>A list of events holds a signal after some prefix.\<close>

lemma split_snoc:
  "(\<exists>pre e post. es @ [x] = pre @ e # post \<and> P pre e) \<longleftrightarrow>
   (\<exists>pre e post. es = pre @ e # post \<and> P pre e) \<or> P es x"
proof
  assume "\<exists>pre e post. es @ [x] = pre @ e # post \<and> P pre e"
  then obtain pre e post where s: "es @ [x] = pre @ e # post" "P pre e" by blast
  show "(\<exists>pre e post. es = pre @ e # post \<and> P pre e) \<or> P es x"
    using s by (cases post rule: rev_cases) auto
next
  assume "(\<exists>pre e post. es = pre @ e # post \<and> P pre e) \<or> P es x"
  then show "\<exists>pre e post. es @ [x] = pre @ e # post \<and> P pre e"
    by (metis append.assoc append_Cons append_Nil2)
qed

lemma answered_run:
  assumes t: "trackerFor opts sid a t" and c: "\<not> tr_crossed t" and i: "tr_id t = []"
  shows "tr_id (trackerRun es t) \<noteq> [] \<longleftrightarrow>
    (\<exists>pre e post. es = pre @ e # post \<and> (\<exists>b \<in> set pre. echoes a b) \<and> answerSignal opts sid e \<noteq> None)"
proof (induction es rule: rev_induct)
  case Nil
  then show ?case by (simp add: i)
next
  case (snoc x es)
  have r: "answerSignal opts sid x = Some r \<Longrightarrow> r \<noteq> []" for r
    by (cases x) (auto simp: answerSignal_def split: option.splits if_splits)
  show ?case
    unfolding split_snoc trackerRun_snoc id_step [OF trackerFor_run [OF t]]
      crossed_run [OF t c] snoc.IH [symmetric]
    using r by (auto split: option.split)
qed

lemma failed_run:
  assumes t: "trackerFor opts sid a t" and c: "\<not> tr_crossed t" and f: "tr_failure t = None"
  shows "tr_failure (trackerRun es t) \<noteq> None \<longleftrightarrow>
    (\<exists>pre e post. es = pre @ e # post \<and> failSignal opts sid (\<exists>b \<in> set pre. echoes a b) e)"
proof (induction es rule: rev_induct)
  case Nil
  then show ?case by (simp add: f)
next
  case (snoc x es)
  show ?case
    unfolding split_snoc trackerRun_snoc fails_step [OF trackerFor_run [OF t]]
      crossed_run [OF t c] snoc.IH [symmetric] by blast
qed

lemma id_not_prior:
  "answerSignal opts sid e = Some r \<Longrightarrow> r \<noteq> [] \<and> \<not> boolAt (topt_PriorResponseIDs opts) r"
  by (cases e) (auto simp: answerSignal_def split: option.splits if_splits)

text \<open>What the tracker keeps: it ends with an answer only after the echo, and never on a
  response that predates the turn.\<close>

definition trackerOk :: "turnTracker \<Rightarrow> bool" where
  "trackerOk t \<longleftrightarrow>
     (tr_crossed t \<longrightarrow> tr_anchor t \<noteq> []) \<and>
     (tr_id t \<noteq> [] \<longrightarrow> tr_crossed t \<and> \<not> boolAt (tr_prior t) (tr_id t)) \<and>
     (tr_failedTurnID t \<noteq> [] \<longrightarrow> tr_crossed t \<and> \<not> boolAt (tr_prior t) (tr_failedTurnID t))"

lemma trackerOk_step: "trackerOk t \<Longrightarrow> trackerOk (trackerStep e t)"
  by (cases e) (auto simp: tracker_defs trackerOk_def split: option.split)

interpretation trackerOk: machine trackerStep trackerOk
  by unfold_locales (rule trackerOk_step)

lemma trackerOk_anchored [simp]: "trackerOk (anchorOn a (newTurnTracker opts sid))"
  by (simp add: trackerOk_def anchorOn_def newTurnTracker_def)

lemma answerSignal_mono:
  assumes "topt_End o1 \<le> topt_End o2" "topt_PriorResponseIDs o1 = topt_PriorResponseIDs o2"
    "answerSignal o1 sid e \<noteq> None"
  shows "answerSignal o2 sid e \<noteq> None"
  using assms
  by (cases e) (auto simp: answerSignal_def less_eq_TurnEnd_def split: option.splits if_splits)

section \<open>Properties\<close>

text \<open>C21. A turn is answered exactly when some event, after the echo of its own prompt, answers
  it: an idle status of its session naming a response that does not predate the turn, or,
  for a turn that ends on the response lifecycle, the completion of such a response. The
  right-hand side knows nothing of the tracker's state.\<close>

theorem answered_exactly:
  "tr_id (trackerRun es (anchorOn a (newTurnTracker opts sid))) \<noteq> [] \<longleftrightarrow>
   (\<exists>pre e post. es = pre @ e # post \<and> (\<exists>b \<in> set pre. echoes a b) \<and>
      answerSignal opts sid e \<noteq> None)"
  by (rule answered_run) (simp_all add: anchorOn_def newTurnTracker_def trackerFor_def)

text \<open>A turn fails exactly when an event fails it: the session was superseded, its status
  failed (with a response that is not an earlier turn's, after the echo, if it names one),
  or a response of the turn ended badly after the echo.\<close>

theorem failed_exactly:
  "tr_failure (trackerRun es (anchorOn a (newTurnTracker opts sid))) \<noteq> None \<longleftrightarrow>
   (\<exists>pre e post. es = pre @ e # post \<and> failSignal opts sid (\<exists>b \<in> set pre. echoes a b) e)"
  by (rule failed_run) (simp_all add: anchorOn_def newTurnTracker_def trackerFor_def)

text \<open>The first failure is the turn's failure: no later event replaces or clears it.\<close>

theorem first_failure_kept:
  assumes "tr_failure (trackerRun es t) = Some err"
  shows "tr_failure (trackerRun (es @ fs) t) = Some err"
  using failure_kept [OF assms] by (simp add: trackerRun_append)

theorem first_failure_kept_witness:
  "\<exists>err. tr_failure (trackerRun ([SessionSupersededEvent \<lparr>su_ConversationID = ''s'',
       su_TargetConversationID = ''t''\<rparr>] @ [SessionSupersededEvent \<lparr>su_ConversationID = ''s'',
       su_TargetConversationID = ''u''\<rparr>])
     (newTurnTracker \<lparr>topt_End = TurnEndsOnIdleStatus, topt_PriorResponseIDs = []\<rparr> ''s'')) = Some err"
  by (rule exI, rule first_failure_kept)
     (simp add: trackerRun_def tracker_defs newTurnTracker_def)

text \<open>The result a turn ends with is never a response that predates it, and never one seen
  before the prompt was echoed.\<close>

theorem answer_is_new:
  "let t = trackerRun es (anchorOn a (newTurnTracker opts sid)) in
   tr_id t = [] \<or> (tr_crossed t \<and> a \<noteq> [] \<and> \<not> boolAt (topt_PriorResponseIDs opts) (tr_id t))"
proof -
  let ?t = "trackerRun es (anchorOn a (newTurnTracker opts sid))"
  have "trackerOk ?t" unfolding trackerRun_def by (rule trackerOk.run_inv) simp
  moreover have "trackerFor opts sid a ?t" by (rule trackerFor_run) simp
  ultimately show ?thesis by (auto simp: trackerOk_def trackerFor_def Let_def)
qed



end
