(* ===== verification/Stream.thy ===== *)
theory Stream
  imports Event
begin

text \<open>
  stream.go: reading one session's server-sent events.

  The body of the response is its bytes with the way the read ended (\<open>streamBody\<close>);
  \<open>scanLines\<close> is bufio.Scanner with ScanLines and the buffer bound. The loop is one step per
  line (\<open>lineStep\<close>): it keeps the frame's name and payload, decodes at a blank line, runs
  OnSubscribed on the first frame, hands frames it cannot decode to OnSkippedFrame and
  yields events. The callbacks take and return the caller's state \<open>'w\<close>.

  The lemmas relate the loop to the list of frames the lines hold, bound the payload it
  accumulates, and say when each ending is reported.
\<close>

section \<open>Decoding one frame\<close>

definition doneSentinel :: string where
  "doneSentinel = ''[DONE]''"

definition maxFrameBytes :: nat where
  "maxFrameBytes = 8388608"

definition newline :: char where
  "newline = CHR 0x0A"

text \<open>json.Unmarshal into the probe of the discriminator, and into each variant; Wire has the code's.\<close>

record jsonDeps =
  dep_probe :: "string \<Rightarrow> goerr + string"
  dep_unmarshal :: unmarshal

definition bodyPreview :: "string \<Rightarrow> string" where
  "bodyPreview body = sanitizeForError body 256"

definition decodeFrame :: "jsonDeps \<Rightarrow> string \<Rightarrow> string \<Rightarrow> goerr + (event option \<times> bool)" where
  "decodeFrame deps name payload0 =
    (let payload = TrimRight payload0 newline in
     if TrimSpace payload = [] then Inr (None, False)
     else if TrimSpace payload = doneSentinel then Inr (None, True)
     else (case dep_probe deps payload of
         Inl err \<Rightarrow> Inl (Errorf [Wrapped (Sentinel ErrStreamProtocol), Txt '': '', Wrapped err,
                        Txt '': '', Txt (bodyPreview payload)])
       | Inr probed \<Rightarrow>
           let typ = (if probed = [] then name else probed) in
           if typ = [] then
             Inl (Errorf [Wrapped (Sentinel ErrStreamProtocol), Txt '': no discriminator: '',
                    Txt (bodyPreview payload)])
           else (case decodeByType (dep_unmarshal deps) typ payload of
               Inl err \<Rightarrow> Inl err
             | Inr ev \<Rightarrow> Inr (Some ev, False))))"

definition skipNote :: "nat \<Rightarrow> bool \<Rightarrow> goerr option \<Rightarrow> errpart list" where
  "skipNote skipped delivered firstSkip =
    (if skipped = 0 \<or> delivered then []
     else [Txt '' (delivered nothing; skipped all '', Num (int skipped),
           Txt '' frames it carried, first: '',
           (case firstSkip of Some e \<Rightarrow> Shown e | None \<Rightarrow> Txt ''<nil>''), Txt '')''])"

section \<open>Lines\<close>

text \<open>bufio.ScanLines: one trailing carriage return is not part of the line. The flag is True
  when a line did not fit the buffer.\<close>

definition dropCR :: "string \<Rightarrow> string" where
  "dropCR s = (if s \<noteq> [] \<and> last s = CHR 0x0D then butlast s else s)"

function scanLines :: "string \<Rightarrow> string list \<times> bool" where
  "scanLines bs = (case IndexByte bs newline of
      Some i \<Rightarrow>
        if i < maxFrameBytes then
          (let (ls, long) = scanLines (drop (i + 1) bs) in (dropCR (take i bs) # ls, long))
        else ([], True)
    | None \<Rightarrow>
        if bs = [] then ([], False)
        else if length bs < maxFrameBytes then ([dropCR bs], False)
        else ([], True))"
  by pat_completeness auto
termination
  by (relation "measure length") (auto dest: IndexByte_Some)

declare scanLines.simps [simp del]

section \<open>The read loop\<close>

record subscription =
  sub_SessionID :: string
  sub_Idle :: bool

record skippedFrame =
  sk_SessionID :: string
  sk_Name :: string
  sk_Payload :: string
  sk_Err :: goerr

type_synonym streamStep = "event option \<times> goerr option"

text \<open>The caller's side of a stream: the consumer and the two hooks of the options.\<close>

record 'w streamCalls =
  onYield :: "(streamStep, 'w) yield"
  onSubscribed :: "(subscription \<Rightarrow> 'w \<Rightarrow> goerr option \<times> 'w) option"
  onSkippedFrame :: "(skippedFrame \<Rightarrow> 'w \<Rightarrow> goerr option \<times> 'w) option"

record 'w readState =
  rs_name :: string
  rs_payload :: string
  rs_sawDone :: bool
  rs_subscribed :: bool
  rs_delivered :: bool
  rs_skipped :: nat
  rs_firstSkip :: "goerr option"
  rs_world :: 'w

definition readStart :: "'w \<Rightarrow> 'w readState" where
  "readStart w = \<lparr>rs_name = [], rs_payload = [], rs_sawDone = False, rs_subscribed = False,
     rs_delivered = False, rs_skipped = 0, rs_firstSkip = None, rs_world = w\<rparr>"

text \<open>How a step of the loop leaves it: going on, \<open>break read\<close>, or a return.\<close>

datatype 'w flow = GoOn "'w readState" | BreakRead "'w readState" | Return "'w"

text \<open>Yielding an error and returning.\<close>

definition yieldErr :: "'w streamCalls \<Rightarrow> goerr \<Rightarrow> 'w \<Rightarrow> 'w" where
  "yieldErr cb err w = snd (onYield cb (None, Some err) w)"

text \<open>The hook that runs on the first frame. The error of a hook ends the stream.\<close>

definition subscribe :: "'w streamCalls \<Rightarrow> string \<Rightarrow> bool \<Rightarrow> 'w readState \<Rightarrow> 'w flow" where
  "subscribe cb sid idle st =
    (if rs_subscribed st then GoOn st
     else let st = st\<lparr>rs_subscribed := True\<rparr> in
       case onSubscribed cb of
         None \<Rightarrow> GoOn st
       | Some hook \<Rightarrow>
           let (hookErr, w) = hook \<lparr>sub_SessionID = sid, sub_Idle = idle\<rparr> (rs_world st) in
           (case hookErr of
             None \<Rightarrow> GoOn (st\<lparr>rs_world := w\<rparr>)
           | Some err \<Rightarrow> Return (yieldErr cb (Errorf [Txt ''stream for session '', Txt sid,
                 Txt '': on subscribed: '', Wrapped err]) w)))"

definition skipFrame ::
  "'w streamCalls \<Rightarrow> string \<Rightarrow> string \<Rightarrow> string \<Rightarrow> goerr \<Rightarrow> 'w readState \<Rightarrow> 'w flow" where
  "skipFrame cb sid frameName framePayload err st =
    (let st = st\<lparr>rs_skipped := rs_skipped st + 1,
                 rs_firstSkip := (case rs_firstSkip st of None \<Rightarrow> Some err | Some e \<Rightarrow> Some e)\<rparr> in
     case onSkippedFrame cb of
       None \<Rightarrow> GoOn st
     | Some hook \<Rightarrow>
         let (hookErr, w) = hook \<lparr>sk_SessionID = sid, sk_Name = frameName,
                sk_Payload = framePayload, sk_Err = err\<rparr> (rs_world st) in
         (case hookErr of
           None \<Rightarrow> GoOn (st\<lparr>rs_world := w\<rparr>)
         | Some herr \<Rightarrow> Return (yieldErr cb (Errorf [Txt ''stream for session '', Txt sid,
               Txt '': on skipped frame: '', Wrapped herr]) w)))"

definition deliver :: "'w streamCalls \<Rightarrow> event \<Rightarrow> 'w readState \<Rightarrow> 'w flow" where
  "deliver cb ev st =
    (let (keepGoing, w) = onYield cb (Some ev, None) (rs_world st) in
     if keepGoing then GoOn (st\<lparr>rs_world := w, rs_delivered := True\<rparr>) else Return w)"

definition endFrame :: "jsonDeps \<Rightarrow> 'w streamCalls \<Rightarrow> string \<Rightarrow> bool \<Rightarrow> 'w readState \<Rightarrow> 'w flow" where
  "endFrame deps cb sid idle st0 =
    (let frameName = rs_name st0; framePayload = rs_payload st0;
         decoded = decodeFrame deps frameName framePayload in
     case subscribe cb sid idle (st0\<lparr>rs_name := [], rs_payload := []\<rparr>) of
       GoOn st \<Rightarrow> (case decoded of
           Inl err \<Rightarrow> skipFrame cb sid frameName framePayload err st
         | Inr (ev, done) \<Rightarrow>
             if done then BreakRead (st\<lparr>rs_sawDone := True\<rparr>)
             else (case ev of None \<Rightarrow> GoOn st | Some e \<Rightarrow> deliver cb e st))
     | other \<Rightarrow> other)"

definition tooLargeErr :: "string \<Rightarrow> goerr" where
  "tooLargeErr sid = Errorf [Txt ''stream for session '', Txt sid, Txt '': '',
     Wrapped (Sentinel ErrStreamFrameTooLarge), Txt '' of '', Num (int maxFrameBytes), Txt '' bytes'']"

definition lineStep ::
  "jsonDeps \<Rightarrow> 'w streamCalls \<Rightarrow> string \<Rightarrow> bool \<Rightarrow> string \<Rightarrow> 'w readState \<Rightarrow> 'w flow" where
  "lineStep deps cb sid idle line st =
    (if line = [] then endFrame deps cb sid idle st
     else if HasPrefix line '':'' then GoOn st
     else if HasPrefix line ''event:'' then
       GoOn (st\<lparr>rs_name := TrimSpace (TrimPrefix line ''event:'')\<rparr>)
     else if HasPrefix line ''data:'' then
       (let chunk = TrimPrefix (TrimPrefix line ''data:'') '' '' in
        if maxFrameBytes < length (rs_payload st) + length chunk + 1 then
          Return (yieldErr cb (tooLargeErr sid) (rs_world st))
        else GoOn (st\<lparr>rs_payload := (if rs_payload st \<noteq> [] then rs_payload st @ [newline]
                                     else rs_payload st) @ chunk\<rparr>))
     else GoOn st)"

fun readLoop ::
  "jsonDeps \<Rightarrow> 'w streamCalls \<Rightarrow> string \<Rightarrow> bool \<Rightarrow> string list \<Rightarrow> 'w readState \<Rightarrow> 'w flow" where
  "readLoop deps cb sid idle [] st = GoOn st"
| "readLoop deps cb sid idle (line # ls) st = (case lineStep deps cb sid idle line st of
      GoOn st' \<Rightarrow> readLoop deps cb sid idle ls st'
    | other \<Rightarrow> other)"

section \<open>One subscription\<close>

text \<open>What is known when the scanner stops: whether the monitor ended the request, the
  caller's context error, and the error of the scanner (none at the end of the body).\<close>

record readEnd =
  re_expired :: bool
  re_ctxErr :: "goerr option"
  re_readErr :: "goerr option"

text \<open>How opening the stream went. \<open>DoFailed\<close> carries the error after stripRedirectURL.\<close>

datatype opened =
    RequestFailed goerr
  | DoFailed goerr
  | Refused apiError
  | Opened string readEnd

record streamOptions =
  so_Idle :: bool
  so_IdleTimeout :: int

definition scanErr :: "bool \<Rightarrow> readEnd \<Rightarrow> goerr option" where
  "scanErr long re = (if long then Some (Std BufioTooLong) else re_readErr re)"

definition finish ::
  "'w streamCalls \<Rightarrow> string \<Rightarrow> int \<Rightarrow> bool \<Rightarrow> readEnd \<Rightarrow> 'w readState \<Rightarrow> 'w" where
  "finish cb sid idleTimeout long re st =
    (let w = rs_world st;
         noted = skipNote (rs_skipped st) (rs_delivered st) (rs_firstSkip st);
         prefix = [Txt ''stream for session '', Txt sid, Txt '': ''] in
     if rs_sawDone st \<and> 0 < rs_skipped st \<and> \<not> rs_delivered st then
       yieldErr cb (Errorf (prefix @ [Wrapped (Sentinel ErrStreamProtocol), Txt '': skipped all '',
         Num (int (rs_skipped st)), Txt '' frames it carried: '',
         Wrapped (case rs_firstSkip st of Some e \<Rightarrow> e | None \<Rightarrow> External [])])) w
     else if rs_sawDone st then w
     else if re_expired re then
       yieldErr cb (Errorf (prefix @ [Wrapped (Sentinel ErrStreamIdle), Txt '' after '',
         Txt (durationText idleTimeout)])) w
     else case re_ctxErr re of
       Some cerr \<Rightarrow> yieldErr cb (Errorf (prefix @ [Wrapped cerr])) w
     | None \<Rightarrow> (case scanErr long re of
         Some serr \<Rightarrow>
           if errIsStd BufioTooLong serr then yieldErr cb (tooLargeErr sid) w
           else yieldErr cb (Errorf ([Txt ''read stream for session '', Txt sid, Txt '': '',
                  Wrapped (Joined [serr, Sentinel ErrStreamInterrupted])] @ noted)) w
       | None \<Rightarrow> yieldErr cb (Errorf (prefix @ [Wrapped (Sentinel ErrStreamInterrupted)] @ noted)) w))"

definition Stream ::
  "jsonDeps \<Rightarrow> int \<Rightarrow> 'w streamCalls \<Rightarrow> streamOptions \<Rightarrow> string \<Rightarrow> opened \<Rightarrow> 'w \<Rightarrow> 'w" where
  "Stream deps clientIdleTimeout cb opts sid conn w =
    (if sid = [] then
       yieldErr cb (Errorf [Txt ''stream session: '', Wrapped (Sentinel ErrInvalidArgument),
         Txt '': sessionID is required'']) w
     else
       let idleTimeout = (if so_IdleTimeout opts \<le> 0 then clientIdleTimeout else so_IdleTimeout opts)
       in case conn of
         RequestFailed err \<Rightarrow> yieldErr cb err w
       | DoFailed err \<Rightarrow> yieldErr cb (Errorf [Txt ''open stream for session '', Txt sid, Txt '': '',
           Wrapped err]) w
       | Refused api \<Rightarrow> yieldErr cb (Errorf [Txt ''open stream for session '', Txt sid, Txt '': '',
           Wrapped (API api)]) w
       | Opened bytes re \<Rightarrow>
           let (lines, long) = scanLines bytes in
           (case readLoop deps cb sid (so_Idle opts) lines (readStart w) of
              Return w' \<Rightarrow> w'
            | GoOn st \<Rightarrow> finish cb sid idleTimeout long re st
            | BreakRead st \<Rightarrow> finish cb sid idleTimeout long re st))"

section \<open>What a caller observes\<close>

text \<open>The calls a stream makes out of its loop, in order, each with the answer it got.\<close>

datatype streamObs =
    ObsSubscribed
  | ObsSkipped
  | ObsYield streamStep bool

definition logCalls :: "'w streamCalls \<Rightarrow> ('w \<times> streamObs list) streamCalls" where
  "logCalls cb =
     \<lparr>onYield = (\<lambda>x (w, l). let (go, w') = onYield cb x w in (go, (w', l @ [ObsYield x go]))),
      onSubscribed = map_option
        (\<lambda>h sub (w, l). let (r, w') = h sub w in (r, (w', l @ [ObsSubscribed]))) (onSubscribed cb),
      onSkippedFrame = map_option
        (\<lambda>h fr (w, l). let (r, w') = h fr w in (r, (w', l @ [ObsSkipped]))) (onSkippedFrame cb)\<rparr>"

text \<open>A step after which nothing may follow: an error, or an event the caller stopped at.\<close>

fun stops :: "streamObs \<Rightarrow> bool" where
  "stops (ObsYield (_, err) go) = (err \<noteq> None \<or> \<not> go)"
| "stops _ = False"

definition openLog :: "bool \<Rightarrow> streamObs list \<Rightarrow> bool" where
  "openLog subscribed l \<longleftrightarrow> (\<forall>x \<in> set l. \<not> stops x) \<and> ObsSubscribed \<notin> set (tl l) \<and>
     (\<not> subscribed \<longrightarrow> l = [])"

definition closedLog :: "streamObs list \<Rightarrow> bool" where
  "closedLog l \<longleftrightarrow> (\<exists>l0 x. l = l0 @ [x] \<and> stops x \<and> openLog True l0)"

lemma openLog_Nil [simp]: "openLog b []"
  by (simp add: openLog_def)

lemma openLog_weaken: "openLog b l \<Longrightarrow> openLog True l"
  by (simp add: openLog_def)

lemma openLog_subscribed: "openLog False l \<Longrightarrow> openLog True (l @ [ObsSubscribed])"
  by (simp add: openLog_def)

lemma openLog_snoc:
  "openLog True l \<Longrightarrow> \<not> stops x \<Longrightarrow> x \<noteq> ObsSubscribed \<Longrightarrow> openLog True (l @ [x])"
  by (cases l) (auto simp: openLog_def)

lemma closedLog_snoc: "openLog b l \<Longrightarrow> stops x \<Longrightarrow> closedLog (l @ [x])"
  using openLog_weaken closedLog_def by blast

lemma closedLog_shape:
  "closedLog l \<Longrightarrow> (\<forall>x \<in> set (butlast l). \<not> stops x) \<and> ObsSubscribed \<notin> set (tl l)"
  by (auto simp: closedLog_def openLog_def tl_append split: list.splits)

lemma openLog_shape:
  "openLog b l \<Longrightarrow> (\<forall>x \<in> set (butlast l). \<not> stops x) \<and> ObsSubscribed \<notin> set (tl l)"
  by (auto simp: openLog_def dest: in_set_butlastD)

text \<open>The logs a step of the loop leaves.\<close>

fun flowLog :: "('w \<times> streamObs list) flow \<Rightarrow> bool" where
  "flowLog (GoOn st) = openLog (rs_subscribed st) (snd (rs_world st))"
| "flowLog (BreakRead st) = openLog (rs_subscribed st) (snd (rs_world st))"
| "flowLog (Return w) = closedLog (snd w)"

lemma yieldErr_log:
  "snd (yieldErr (logCalls cb) err (w, l)) = l @ [ObsYield (None, Some err) (fst (onYield cb (None, Some err) w))]"
  by (simp add: yieldErr_def logCalls_def split: prod.split)

lemma closedLog_yieldErr: "openLog b (snd w) \<Longrightarrow> closedLog (snd (yieldErr (logCalls cb) err w))"
  by (cases w) (simp add: yieldErr_log closedLog_snoc)

lemma subscribe_log:
  assumes "openLog (rs_subscribed st) (snd (rs_world st))"
  shows "flowLog (subscribe (logCalls cb) sid idle st)"
proof (cases "rs_subscribed st")
  case False
  obtain w l where w: "rs_world st = (w, l)" by (cases "rs_world st")
  show ?thesis
  proof (cases "onSubscribed cb")
    case None
    then show ?thesis using assms False
      by (simp add: subscribe_def logCalls_def openLog_weaken)
  next
    case (Some h)
    obtain r w' where h: "h \<lparr>sub_SessionID = sid, sub_Idle = idle\<rparr> w = (r, w')" by fastforce
    have l: "openLog True (l @ [ObsSubscribed])"
      using assms False w by (intro openLog_subscribed) simp
    have s: "onSubscribed (logCalls cb) = Some (\<lambda>sub (w, l). let (r, w') = h sub w in (r, (w', l @ [ObsSubscribed])))"
      using Some by (simp add: logCalls_def)
    show ?thesis
      using False l closedLog_yieldErr [of True "(w', l @ [ObsSubscribed])" cb]
      by (cases r) (simp_all add: subscribe_def s w h)
  qed
qed (use assms in \<open>simp add: subscribe_def\<close>)

lemma subscribe_GoOn: "subscribe cb sid idle st = GoOn st' \<Longrightarrow> rs_subscribed st'"
  by (auto simp: subscribe_def Let_def split: if_splits option.splits prod.splits)

lemma skipFrame_log:
  assumes "openLog True (snd (rs_world st))" "rs_subscribed st"
  shows "flowLog (skipFrame (logCalls cb) sid n p err st)"
proof -
  obtain w l where w: "rs_world st = (w, l)" by (cases "rs_world st")
  show ?thesis
  proof (cases "onSkippedFrame cb")
    case None
    then show ?thesis using assms by (simp add: skipFrame_def logCalls_def)
  next
    case (Some h)
    let ?fr = "\<lparr>sk_SessionID = sid, sk_Name = n, sk_Payload = p, sk_Err = err\<rparr>"
    obtain r w' where h: "h ?fr w = (r, w')" by fastforce
    have l: "openLog True (l @ [ObsSkipped])" using assms w by (intro openLog_snoc) simp_all
    have s: "onSkippedFrame (logCalls cb) = Some (\<lambda>fr (w, l). let (r, w') = h fr w in (r, (w', l @ [ObsSkipped])))"
      using Some by (simp add: logCalls_def)
    show ?thesis
      using assms(2) l closedLog_yieldErr [of True "(w', l @ [ObsSkipped])" cb]
      by (cases r) (simp_all add: skipFrame_def s w h)
  qed
qed

lemma deliver_log:
  assumes "openLog True (snd (rs_world st))" "rs_subscribed st"
  shows "flowLog (deliver (logCalls cb) ev st)"
proof -
  obtain w l where w: "rs_world st = (w, l)" by (cases "rs_world st")
  obtain go w' where y: "onYield cb (Some ev, None) w = (go, w')" by fastforce
  have y': "onYield (logCalls cb) (Some ev, None) (w, l) = (go, (w', l @ [ObsYield (Some ev, None) go]))"
    by (simp add: logCalls_def y)
  have l: "openLog True l" using assms(1) w by simp
  show ?thesis
  proof (cases go)
    case True
    then show ?thesis using openLog_snoc [OF l] assms(2) by (simp add: deliver_def w y')
  next
    case False
    then show ?thesis using closedLog_snoc [OF l] by (simp add: deliver_def w y')
  qed
qed

lemma endFrame_log:
  assumes "openLog (rs_subscribed st) (snd (rs_world st))"
  shows "flowLog (endFrame deps (logCalls cb) sid idle st)"
proof -
  let ?s = "st\<lparr>rs_name := [], rs_payload := []\<rparr>"
  have f: "flowLog (subscribe (logCalls cb) sid idle ?s)" using assms by (intro subscribe_log) simp
  show ?thesis
  proof (cases "subscribe (logCalls cb) sid idle ?s")
    case (GoOn st')
    then have "rs_subscribed st'" by (rule subscribe_GoOn)
    moreover have "openLog True (snd (rs_world st'))" using f GoOn by (simp add: openLog_weaken)
    ultimately show ?thesis
      by (simp add: endFrame_def GoOn Let_def skipFrame_log deliver_log split: sum.split prod.split option.split)
  qed (use f in \<open>simp_all add: endFrame_def\<close>)
qed

lemma lineStep_log:
  assumes "openLog (rs_subscribed st) (snd (rs_world st))"
  shows "flowLog (lineStep deps (logCalls cb) sid idle line st)"
  using assms closedLog_yieldErr [OF assms]
  by (simp add: lineStep_def endFrame_log Let_def)

lemma readLoop_log:
  assumes "openLog (rs_subscribed st) (snd (rs_world st))"
  shows "flowLog (readLoop deps (logCalls cb) sid idle ls st)"
  using assms
proof (induction ls arbitrary: st)
  case (Cons l ls)
  from lineStep_log [OF Cons.prems, of deps cb sid idle l] show ?case
    by (cases "lineStep deps (logCalls cb) sid idle l st") (simp_all add: Cons.IH)
qed simp

lemma finish_log:
  assumes "openLog (rs_subscribed st) (snd (rs_world st))"
  shows "closedLog (snd (finish (logCalls cb) sid d long re st)) \<or>
    (rs_sawDone st \<and> (0 < rs_skipped st \<longrightarrow> rs_delivered st) \<and>
     finish (logCalls cb) sid d long re st = rs_world st)"
  using closedLog_yieldErr [OF assms] by (auto simp: finish_def Let_def split: option.split)

text \<open>Either the stream ended with one step after which nothing follows, or cleanly: the
  sentinel was read, and a frame was delivered if one was skipped.\<close>

lemma Stream_log:
  "closedLog (snd (Stream deps d (logCalls cb) opts sid conn (w, []))) \<or>
   (openLog True (snd (Stream deps d (logCalls cb) opts sid conn (w, []))) \<and>
    (\<exists>bytes re st. conn = Opened bytes re \<and> rs_sawDone st \<and>
       (0 < rs_skipped st \<longrightarrow> rs_delivered st) \<and>
       (readLoop deps (logCalls cb) sid (so_Idle opts) (fst (scanLines bytes)) (readStart (w, []))
          = BreakRead st \<or>
        readLoop deps (logCalls cb) sid (so_Idle opts) (fst (scanLines bytes)) (readStart (w, []))
          = GoOn st) \<and>
       Stream deps d (logCalls cb) opts sid conn (w, []) = rs_world st))"
proof -
  have e: "closedLog (snd (yieldErr (logCalls cb) err (w, [])))" for err
    by (rule closedLog_yieldErr [of True]) simp
  show ?thesis
  proof (cases "sid = [] \<or> (\<forall>bytes re. conn \<noteq> Opened bytes re)")
    case True
    then show ?thesis using e by (cases conn) (auto simp: Stream_def)
  next
    case False
    then obtain bytes re where c: "conn = Opened bytes re" and sid: "sid \<noteq> []" by blast
    obtain ls long where ls: "scanLines bytes = (ls, long)" by fastforce
    let ?loop = "readLoop deps (logCalls cb) sid (so_Idle opts) ls (readStart (w, []))"
    have f: "flowLog ?loop" by (rule readLoop_log) (simp add: readStart_def)
    show ?thesis
    proof (cases ?loop)
      case (Return w')
      then show ?thesis using f by (simp add: Stream_def c sid ls)
    next
      case (GoOn st)
      then have o: "openLog (rs_subscribed st) (snd (rs_world st))" using f by simp
      show ?thesis
        using finish_log [OF o] openLog_weaken [OF o] GoOn sid
        by (fastforce simp: Stream_def c ls Let_def)
    next
      case (BreakRead st)
      then have o: "openLog (rs_subscribed st) (snd (rs_world st))" using f by simp
      show ?thesis
        using finish_log [OF o] openLog_weaken [OF o] BreakRead sid
        by (fastforce simp: Stream_def c ls Let_def)
    qed
  qed
qed

section \<open>What the calls of a stream keep\<close>

text \<open>A client of a stream: \<open>before\<close> holds until the subscription hook has run, \<open>after\<close> from
  then on. Only errors are yielded before it, and the hook runs once.\<close>

locale stream_client =
  fixes cb :: "'w streamCalls" and sid :: string and before after :: "'w \<Rightarrow> bool"
  assumes before_err: "before w \<Longrightarrow> before (snd (onYield cb (None, Some err) w))"
    and hook_runs: "onSubscribed cb = Some h \<Longrightarrow> sid \<noteq> [] \<Longrightarrow> sub_SessionID sub = sid \<Longrightarrow>
        before w \<Longrightarrow> after (snd (h sub w))"
    and no_hook: "onSubscribed cb = None \<Longrightarrow> before w \<Longrightarrow> after w"
    and after_yield: "after w \<Longrightarrow> after (snd (onYield cb x w))"
    and after_skip: "onSkippedFrame cb = Some g \<Longrightarrow> after w \<Longrightarrow> after (snd (g fr w))"
begin

definition phase :: "'w readState \<Rightarrow> bool" where
  "phase st = (if rs_subscribed st then after (rs_world st) else before (rs_world st))"

fun flowPhase :: "'w flow \<Rightarrow> bool" where
  "flowPhase (GoOn st) = phase st"
| "flowPhase (BreakRead st) = phase st"
| "flowPhase (Return w) = (before w \<or> after w)"

lemma yieldErr_after: "after w \<Longrightarrow> after (yieldErr cb err w)"
  by (simp add: yieldErr_def after_yield)

lemma yieldErr_before: "before w \<Longrightarrow> before (yieldErr cb err w)"
  by (simp add: yieldErr_def before_err)

lemma yieldErr_phase: "phase st \<Longrightarrow> before (yieldErr cb err (rs_world st)) \<or> after (yieldErr cb err (rs_world st))"
  by (simp add: phase_def yieldErr_after yieldErr_before split: if_splits)

lemma subscribe_phase: "sid \<noteq> [] \<Longrightarrow> phase st \<Longrightarrow> flowPhase (subscribe cb sid idle st)"
proof (cases "rs_subscribed st")
  case False
  assume sid: "sid \<noteq> []" and p: "phase st"
  show ?thesis
  proof (cases "onSubscribed cb")
    case None
    then show ?thesis using False p no_hook [OF None] by (simp add: subscribe_def phase_def)
  next
    case (Some h)
    obtain r w' where h: "h \<lparr>sub_SessionID = sid, sub_Idle = idle\<rparr> (rs_world st) = (r, w')" by fastforce
    then have "after w'"
      using hook_runs [OF Some sid, of "\<lparr>sub_SessionID = sid, sub_Idle = idle\<rparr>" "rs_world st"] False p
      by (simp add: phase_def)
    then show ?thesis
      using False by (cases r) (simp_all add: subscribe_def Some h phase_def yieldErr_after)
  qed
qed (simp add: subscribe_def)

lemma skipFrame_phase:
  "after (rs_world st) \<Longrightarrow> rs_subscribed st \<Longrightarrow> flowPhase (skipFrame cb sid n p err st)"
proof -
  assume a: "after (rs_world st)" "rs_subscribed st"
  show ?thesis
  proof (cases "onSkippedFrame cb")
    case (Some g)
    let ?fr = "\<lparr>sk_SessionID = sid, sk_Name = n, sk_Payload = p, sk_Err = err\<rparr>"
    obtain r w' where g: "g ?fr (rs_world st) = (r, w')" by fastforce
    then have "after w'" using after_skip [OF Some a(1), of ?fr] by simp
    then show ?thesis using a by (cases r) (simp_all add: skipFrame_def Some g phase_def yieldErr_after)
  qed (use a in \<open>simp add: skipFrame_def phase_def\<close>)
qed

lemma deliver_phase:
  "after (rs_world st) \<Longrightarrow> rs_subscribed st \<Longrightarrow> flowPhase (deliver cb ev st)"
  using after_yield [of "rs_world st" "(Some ev, None)"]
  by (auto simp: deliver_def phase_def split: prod.split)

lemma endFrame_phase:
  assumes sid: "sid \<noteq> []" and "phase st"
  shows "flowPhase (endFrame deps cb sid idle st)"
proof -
  let ?s = "st\<lparr>rs_name := [], rs_payload := []\<rparr>"
  have f: "flowPhase (subscribe cb sid idle ?s)"
    using assms by (intro subscribe_phase) (simp_all add: phase_def)
  show ?thesis
  proof (cases "subscribe cb sid idle ?s")
    case (GoOn st')
    then have s: "rs_subscribed st'" by (rule subscribe_GoOn)
    then have a: "after (rs_world st')" using f GoOn by (simp add: phase_def)
    show ?thesis using s a
      by (simp add: endFrame_def GoOn Let_def skipFrame_phase deliver_phase phase_def
          split: sum.split prod.split option.split)
  qed (use f in \<open>simp_all add: endFrame_def\<close>)
qed

lemma lineStep_phase: "sid \<noteq> [] \<Longrightarrow> phase st \<Longrightarrow> flowPhase (lineStep deps cb sid idle line st)"
  using yieldErr_phase [of st]
  by (simp add: lineStep_def endFrame_phase Let_def) (simp add: phase_def)

lemma readLoop_phase: "sid \<noteq> [] \<Longrightarrow> phase st \<Longrightarrow> flowPhase (readLoop deps cb sid idle ls st)"
proof (induction ls arbitrary: st)
  case (Cons l ls)
  from lineStep_phase [OF Cons.prems, of deps idle l] show ?case
    by (cases "lineStep deps cb sid idle l st") (simp_all add: Cons.IH Cons.prems)
qed simp

lemma finish_phase:
  assumes "phase st"
  shows "before (finish cb sid d long re st) \<or> after (finish cb sid d long re st)"
proof -
  have "before (rs_world st) \<or> after (rs_world st)" using assms by (simp add: phase_def split: if_splits)
  then show ?thesis using yieldErr_phase [OF assms]
    by (simp add: finish_def Let_def split: option.split)
qed

lemma Stream_phase:
  assumes "before w"
  shows "before (Stream deps d cb opts sid conn w) \<or> after (Stream deps d cb opts sid conn w)"
proof (cases "sid = [] \<or> (\<forall>bytes re. conn \<noteq> Opened bytes re)")
  case True
  then show ?thesis using yieldErr_before [OF assms] by (cases conn) (auto simp: Stream_def)
next
  case False
  then obtain bytes re where c: "conn = Opened bytes re" and sid: "sid \<noteq> []" by blast
  obtain ls long where ls: "scanLines bytes = (ls, long)" by fastforce
  have f: "flowPhase (readLoop deps cb sid (so_Idle opts) ls (readStart w))"
    by (rule readLoop_phase) (use assms sid in \<open>simp_all add: readStart_def phase_def\<close>)
  then show ?thesis
    using sid by (cases "readLoop deps cb sid (so_Idle opts) ls (readStart w)")
      (simp_all add: Stream_def c ls finish_phase Let_def)
qed

end

section \<open>The bound on a frame\<close>

fun flowPayload :: "'w flow \<Rightarrow> nat" where
  "flowPayload (GoOn st) = length (rs_payload st)"
| "flowPayload (BreakRead st) = length (rs_payload st)"
| "flowPayload (Return w) = 0"

lemma subscribe_payload: "flowPayload (subscribe cb sid idle st) \<le> length (rs_payload st)"
  by (simp add: subscribe_def Let_def split: option.split prod.split)

lemma endFrame_payload: "flowPayload (endFrame deps cb sid idle st) = 0"
proof -
  let ?s = "st\<lparr>rs_name := [], rs_payload := []\<rparr>"
  have f: "flowPayload (subscribe cb sid idle ?s) = 0"
    using subscribe_payload [of cb sid idle ?s] by simp
  show ?thesis
    using f by (cases "subscribe cb sid idle ?s")
      (simp_all add: endFrame_def Let_def skipFrame_def deliver_def
        split: sum.split prod.split option.split)
qed

lemma lineStep_payload:
  assumes "length (rs_payload st) \<le> maxFrameBytes"
  shows "flowPayload (lineStep deps cb sid idle line st) \<le> maxFrameBytes"
  using assms by (simp add: lineStep_def endFrame_payload Let_def)

lemma readLoop_payload:
  assumes "length (rs_payload st) \<le> maxFrameBytes"
  shows "flowPayload (readLoop deps cb sid idle ls st) \<le> maxFrameBytes"
  using assms
proof (induction ls arbitrary: st)
  case (Cons l ls)
  from lineStep_payload [OF Cons.prems, of deps cb sid idle l] show ?case
    by (cases "lineStep deps cb sid idle l st") (simp_all add: Cons.IH)
qed simp

section \<open>A well-formed stream\<close>

text \<open>The bytes of one frame as the server writes it: its name and its payload on one data
  line, ended by a blank line; and of a whole stream, ended by the sentinel.\<close>

definition eventLine :: "string \<Rightarrow> string" where
  "eventLine n = ''event: '' @ n"

definition dataLine :: "string \<Rightarrow> string" where
  "dataLine p = ''data: '' @ p"

definition wireFrame :: "string \<times> string \<Rightarrow> string list" where
  "wireFrame f = [eventLine (fst f), dataLine (snd f), []]"

definition wireLines :: "(string \<times> string) list \<Rightarrow> string list" where
  "wireLines fs = concat (map wireFrame fs) @ [dataLine doneSentinel, []]"

definition wireBytes :: "string list \<Rightarrow> string" where
  "wireBytes ls = concat (map (\<lambda>l. l @ [newline]) ls)"

text \<open>A line that survives the scanner: no newline, no carriage return at its end, inside
  the buffer.\<close>

definition plainLine :: "string \<Rightarrow> bool" where
  "plainLine l \<longleftrightarrow> newline \<notin> set l \<and> (l \<noteq> [] \<longrightarrow> last l \<noteq> CHR 0x0D) \<and> length l < maxFrameBytes"

lemma IndexByte_line: "c \<notin> set l \<Longrightarrow> IndexByte (l @ c # bs) c = Some (length l)"
  by (induction l) auto

lemma dropCR_plain: "plainLine l \<Longrightarrow> dropCR l = l"
  by (auto simp: dropCR_def plainLine_def)

lemma scanLines_wire:
  "list_all plainLine ls \<Longrightarrow> scanLines (wireBytes ls) = (ls, False)"
proof (induction ls)
  case Nil
  then show ?case by (subst scanLines.simps) (simp add: wireBytes_def)
next
  case (Cons l ls)
  then have l: "newline \<notin> set l" "length l < maxFrameBytes" "dropCR l = l"
    by (auto simp: plainLine_def dropCR_def)
  have "wireBytes (l # ls) = l @ newline # wireBytes ls" by (simp add: wireBytes_def)
  then show ?case
    using Cons l by (subst scanLines.simps) (simp add: IndexByte_line)
qed

text \<open>What the hook does on the first frame, for a hook that does not fail.\<close>

definition hookWorld :: "'w streamCalls \<Rightarrow> string \<Rightarrow> bool \<Rightarrow> 'w \<Rightarrow> 'w" where
  "hookWorld cb sid idle w = (case onSubscribed cb of
      None \<Rightarrow> w
    | Some h \<Rightarrow> snd (h \<lparr>sub_SessionID = sid, sub_Idle = idle\<rparr> w))"

definition hookOk :: "'w streamCalls \<Rightarrow> string \<Rightarrow> bool \<Rightarrow> 'w \<Rightarrow> bool" where
  "hookOk cb sid idle w = (case onSubscribed cb of
      None \<Rightarrow> True
    | Some h \<Rightarrow> fst (h \<lparr>sub_SessionID = sid, sub_Idle = idle\<rparr> w) = None)"

lemma subscribe_ok:
  assumes "\<not> rs_subscribed st" "hookOk cb sid idle (rs_world st)"
  shows "subscribe cb sid idle st =
    GoOn (st\<lparr>rs_subscribed := True, rs_world := hookWorld cb sid idle (rs_world st)\<rparr>)"
  using assms
  by (auto simp: subscribe_def hookOk_def hookWorld_def Let_def split: option.splits prod.splits)

text \<open>A state between two frames, with the caller's state \<open>w\<close> once it is subscribed.\<close>

definition betweenFrames :: "'w streamCalls \<Rightarrow> string \<Rightarrow> bool \<Rightarrow> 'w readState \<Rightarrow> 'w \<Rightarrow> bool" where
  "betweenFrames cb sid idle st w \<longleftrightarrow>
     rs_payload st = [] \<and> rs_skipped st = 0 \<and> \<not> rs_sawDone st \<and>
     (if rs_subscribed st then rs_world st = w
      else hookOk cb sid idle (rs_world st) \<and> hookWorld cb sid idle (rs_world st) = w)"

lemma betweenFrames_subscribe:
  assumes "betweenFrames cb sid idle st w"
  shows "subscribe cb sid idle (st\<lparr>rs_name := n, rs_payload := p\<rparr>) =
    GoOn (st\<lparr>rs_name := n, rs_payload := p, rs_subscribed := True, rs_world := w\<rparr>)"
proof (cases "rs_subscribed st")
  case True
  then have "rs_world st = w" using assms by (simp add: betweenFrames_def)
  then show ?thesis using True by (simp add: subscribe_def)
next
  case False
  then show ?thesis using assms by (simp add: subscribe_ok betweenFrames_def)
qed

text \<open>A frame the decoder reads as the event \<open>e\<close>, within the bound.\<close>

definition frameReads :: "jsonDeps \<Rightarrow> string \<times> string \<Rightarrow> event \<Rightarrow> bool" where
  "frameReads deps f e \<longleftrightarrow>
     decodeFrame deps (TrimSpace (CHR '' '' # fst f)) (snd f) = Inr (Some e, False) \<and>
     length (snd f) < maxFrameBytes"

lemma lineStep_event:
  "lineStep deps cb sid idle (eventLine n) st = GoOn (st\<lparr>rs_name := TrimSpace (CHR '' '' # n)\<rparr>)"
proof -
  have "HasPrefix (''event: '' @ n) ''event:''" by (simp add: HasPrefix_def)
  moreover have "TrimPrefix (''event: '' @ n) ''event:'' = CHR '' '' # n"
    by (simp add: TrimPrefix_def HasPrefix_def)
  moreover have "\<not> HasPrefix (''event: '' @ n) '':''" by (simp add: HasPrefix_def)
  ultimately show ?thesis by (simp add: lineStep_def eventLine_def del: append.simps)
qed

lemma lineStep_data:
  assumes "rs_payload st = []" "length p < maxFrameBytes"
  shows "lineStep deps cb sid idle (dataLine p) st = GoOn (st\<lparr>rs_payload := p\<rparr>)"
proof -
  have "HasPrefix (''data: '' @ p) ''data:''" by (simp add: HasPrefix_def)
  moreover have "TrimPrefix (TrimPrefix (''data: '' @ p) ''data:'') '' '' = p"
    by (simp add: TrimPrefix_def HasPrefix_def)
  moreover have "\<not> HasPrefix (''data: '' @ p) '':''" "\<not> HasPrefix (''data: '' @ p) ''event:''"
    by (simp_all add: HasPrefix_def)
  ultimately show ?thesis using assms by (simp add: lineStep_def dataLine_def Let_def del: append.simps)
qed

lemma wireLines_Cons: "wireLines (f # fs) = wireFrame f @ wireLines fs"
  by (simp add: wireLines_def)

lemma decodeFrame_done: "decodeFrame deps n doneSentinel = Inr (None, True)"
proof -
  have "TrimRight doneSentinel newline = doneSentinel" "TrimSpace doneSentinel = doneSentinel"
    by (simp_all add: doneSentinel_def TrimSpace_visible visible_def byte_def TrimRight_def
        newline_def dropTail_def)
  then show ?thesis by (simp add: decodeFrame_def) (simp add: doneSentinel_def)
qed

lemma readLoop_wire:
  assumes "list_all2 (frameReads deps) fs es" "betweenFrames cb sid idle st w"
    "feed (map (\<lambda>e. (Some e, None)) es) (onYield cb) w = (go, w')"
  shows "if go then \<exists>st'. readLoop deps cb sid idle (wireLines fs) st = BreakRead st' \<and>
           rs_sawDone st' \<and> rs_skipped st' = 0 \<and> rs_world st' = w'
         else readLoop deps cb sid idle (wireLines fs) st = Return w'"
  using assms
proof (induction fs es arbitrary: st w rule: list_all2_induct)
  case Nil
  have p: "rs_payload st = []" using Nil.prems(1) by (simp add: betweenFrames_def)
  have l: "length doneSentinel < maxFrameBytes" by (simp add: doneSentinel_def maxFrameBytes_def)
  have "lineStep deps cb sid idle [] (st\<lparr>rs_payload := doneSentinel\<rparr>) =
      BreakRead (st\<lparr>rs_name := [], rs_payload := [], rs_subscribed := True, rs_world := w,
                    rs_sawDone := True\<rparr>)"
    using betweenFrames_subscribe [OF Nil.prems(1), of "[]" "[]"]
    by (simp add: lineStep_def endFrame_def decodeFrame_done)
  then show ?case
    using Nil.prems lineStep_data [OF p l, of deps cb sid idle]
    by (auto simp: wireLines_def betweenFrames_def)
next
  case (Cons f fs e es)
  have b: "betweenFrames cb sid idle st w" by (rule Cons.prems(1))
  have p: "rs_payload st = []" and s: "rs_skipped st = 0" "\<not> rs_sawDone st"
    using b by (simp_all add: betweenFrames_def)
  have d: "decodeFrame deps (TrimSpace (CHR '' '' # fst f)) (snd f) = Inr (Some e, False)"
    and len: "length (snd f) < maxFrameBytes"
    using Cons.hyps(1) by (simp_all add: frameReads_def)
  obtain go1 w1 where y: "onYield cb (Some e, None) w = (go1, w1)" by fastforce
  let ?st1 = "st\<lparr>rs_name := [], rs_payload := [], rs_subscribed := True, rs_world := w\<rparr>"
  have step: "readLoop deps cb sid idle (wireLines (f # fs)) st =
      (case deliver cb e ?st1 of GoOn st' \<Rightarrow> readLoop deps cb sid idle (wireLines fs) st' | other \<Rightarrow> other)"
    using betweenFrames_subscribe [OF b, of "[]" "[]"] p
    by (simp add: wireLines_Cons wireFrame_def lineStep_event lineStep_data [OF _ len]
        lineStep_def [of deps cb sid idle "[]"] endFrame_def d)
  show ?case
  proof (cases go1)
    case True
    let ?st2 = "st\<lparr>rs_name := [], rs_payload := [], rs_subscribed := True, rs_world := w1,
      rs_delivered := True\<rparr>"
    have "betweenFrames cb sid idle ?st2 w1" using s by (simp add: betweenFrames_def)
    moreover have "feed (map (\<lambda>e. (Some e, None)) es) (onYield cb) w1 = (go, w')"
      using Cons.prems(2) y True by simp
    ultimately have "if go then \<exists>st'. readLoop deps cb sid idle (wireLines fs) ?st2 = BreakRead st' \<and>
           rs_sawDone st' \<and> rs_skipped st' = 0 \<and> rs_world st' = w'
         else readLoop deps cb sid idle (wireLines fs) ?st2 = Return w'"
      by (rule Cons.IH)
    then show ?thesis using step y True by (simp add: deliver_def)
  next
    case False
    then show ?thesis using step y Cons.prems(2) by (simp add: deliver_def)
  qed
qed

section \<open>Properties\<close>

text \<open>C26. What a caller sees of one subscription, whatever the server sends and whatever the
  hooks and the consumer answer: OnSubscribed runs first or not at all and never twice, and
  nothing is called after an error was yielded or after the consumer asked to stop.\<close>

theorem stream_protocol:
  "let l = snd (Stream deps d (logCalls cb) opts sid conn (w, [])) in
   list_all (\<lambda>x. \<not> stops x) (butlast l) \<and> ObsSubscribed \<notin> set (tl l)"
proof -
  let ?l = "snd (Stream deps d (logCalls cb) opts sid conn (w, []))"
  have "closedLog ?l \<or> openLog True ?l" using Stream_log [of deps d cb opts sid conn w] by blast
  then show ?thesis
  proof
    assume "closedLog ?l"
    then obtain l0 x where "?l = l0 @ [x]" "stops x" "openLog True l0"
      by (auto simp: closedLog_def)
    then show ?thesis by (cases l0) (auto simp: openLog_def list_all_iff Let_def)
  next
    assume "openLog True ?l"
    then show ?thesis by (auto simp: openLog_def list_all_iff Let_def dest: in_set_butlastD)
  qed
qed

text \<open>C29. A stream that ends in silence read the sentinel, and delivered an event if it skipped a
  frame: an interrupted stream, and one of which nothing could be decoded, always end with an
  error.\<close>

theorem stream_ends_cleanly:
  "let l = snd (Stream deps d (logCalls cb) opts sid conn (w, [])) in
   (l \<noteq> [] \<and> stops (last l)) \<or>
   (\<exists>bytes re st. conn = Opened bytes re \<and>
      (readLoop deps (logCalls cb) sid (so_Idle opts) (fst (scanLines bytes)) (readStart (w, []))
         \<in> {BreakRead st, GoOn st}) \<and>
      rs_sawDone st \<and> (rs_skipped st = 0 \<or> rs_delivered st))"
proof -
  let ?l = "snd (Stream deps d (logCalls cb) opts sid conn (w, []))"
  have "closedLog ?l \<Longrightarrow> ?l \<noteq> [] \<and> stops (last ?l)" by (auto simp: closedLog_def)
  then show ?thesis using Stream_log [of deps d cb opts sid conn w] by (auto simp: Let_def)
qed

text \<open>However long the server leaves a frame open, the reader holds at most \<open>maxFrameBytes\<close>
  bytes of it.\<close>

theorem stream_payload_bounded:
  "flowPayload (readLoop deps cb sid idle ls (readStart w)) \<le> maxFrameBytes"
  by (rule readLoop_payload) (simp add: readStart_def)

lemma frames_read:
  assumes "list_all2 (frameReads deps) fs es" "list_all plainLine (wireLines fs)"
    "sid \<noteq> []" "hookOk cb sid (so_Idle opts) w"
  shows "Stream deps d cb opts sid (Opened (wireBytes (wireLines fs)) re) w =
    snd (feed (map (\<lambda>e. (Some e, None)) es) (onYield cb) (hookWorld cb sid (so_Idle opts) w))"
proof -
  let ?w = "hookWorld cb sid (so_Idle opts) w"
  obtain go w' where f: "feed (map (\<lambda>e. (Some e, None)) es) (onYield cb) ?w = (go, w')" by fastforce
  have b: "betweenFrames cb sid (so_Idle opts) (readStart w) ?w"
    using assms(4) by (simp add: betweenFrames_def readStart_def)
  from readLoop_wire [OF assms(1) b f] show ?thesis
    using assms(3) f
    by (cases go) (auto simp: Stream_def scanLines_wire [OF assms(2)] finish_def Let_def)
qed

text \<open>C28. A stream the server wrote frame by frame reaches the caller event by event, in order:
  the bytes of well-formed frames and the sentinel, read back through the scanner, the frame
  loop and the decoder, are the subscription hook and then exactly the events, up to the
  point where the caller stops.\<close>

theorem stream_roundtrip:
  assumes "list_all2 (frameReads deps) fs es" "list_all plainLine (wireLines fs)"
    "sid \<noteq> []" "hookOk cb sid (so_Idle opts) w"
  shows "Stream deps d cb opts sid (Opened (wireBytes (wireLines fs)) re) w =
    snd (feed (map (\<lambda>e. (Some e, None)) es) (onYield cb) (hookWorld cb sid (so_Idle opts) w))"
  by (rule frames_read [OF assms])

text \<open>A concrete stream: one frame of a type this build does not know.\<close>

definition sampleDeps :: jsonDeps where
  "sampleDeps = \<lparr>dep_probe = (\<lambda>p. Inr []), dep_unmarshal = (\<lambda>v p. Inl (External ''unused''))\<rparr>"

definition sampleCalls :: "streamStep list streamCalls" where
  "sampleCalls = \<lparr>onYield = collect, onSubscribed = None, onSkippedFrame = None\<rparr>"

lemma sample_reads: "frameReads sampleDeps (''new.kind'', ''7'') (Ev ''new.kind'' (UnknownEvent ''7''))"
proof -
  have t: "TrimSpace (CHR '' '' # ''new.kind'') = ''new.kind''" "TrimRight ''7'' newline = ''7''"
    "TrimSpace ''7'' = ''7''"
    by (rule TrimSpace_visible; simp add: visible_def byte_def)
      (simp_all add: TrimSpace_visible visible_def byte_def TrimRight_def newline_def dropTail_def)
  have "''new.kind'' \<notin> fst ` set eventRegistry" by (simp add: eventRegistry_def)
  then show ?thesis
    by (simp add: frameReads_def decodeFrame_def t sampleDeps_def decodeByType_unknown
        doneSentinel_def maxFrameBytes_def)
qed

theorem stream_roundtrip_witness:
  "Stream sampleDeps 0 sampleCalls \<lparr>so_Idle = False, so_IdleTimeout = 0\<rparr> ''s''
     (Opened (wireBytes (wireLines [(''new.kind'', ''7'')])) \<lparr>re_expired = False, re_ctxErr = None, re_readErr = None\<rparr>) []
   = [(Some (Ev ''new.kind'' (UnknownEvent ''7'')), None)]"
proof -
  have "Stream sampleDeps 0 sampleCalls \<lparr>so_Idle = False, so_IdleTimeout = 0\<rparr> ''s''
     (Opened (wireBytes (wireLines [(''new.kind'', ''7'')])) \<lparr>re_expired = False, re_ctxErr = None, re_readErr = None\<rparr>) []
    = snd (feed (map (\<lambda>e. (Some e, None)) [Ev ''new.kind'' (UnknownEvent ''7'')]) (onYield sampleCalls)
        (hookWorld sampleCalls ''s'' (so_Idle \<lparr>so_Idle = False, so_IdleTimeout = 0\<rparr>) []))"
    by (rule stream_roundtrip)
      (simp_all add: sample_reads sampleCalls_def hookOk_def wireLines_def wireFrame_def plainLine_def
        eventLine_def dataLine_def doneSentinel_def maxFrameBytes_def newline_def)
  then show ?thesis by (simp add: sampleCalls_def hookWorld_def collect_def)
qed

end
