(* ===== verification/Contracts.thy ===== *)
theory Contracts
  imports Event
begin

text \<open>
  contracts.go: what the session operations send and get back. A map of undeclared values is a
  \<open>jmap\<close>; an omitted pointer is None.
\<close>

definition InputTypeMessage :: string where
  "InputTypeMessage = ''message''"

definition InputTypeFunctionCallOutput :: string where
  "InputTypeFunctionCallOutput = ''function_call_output''"

definition InputTypeInterrupt :: string where
  "InputTypeInterrupt = ''interrupt''"

definition InputTypeStopSession :: string where
  "InputTypeStopSession = ''stop_session''"

definition InputTypeCompact :: string where
  "InputTypeCompact = ''compact''"

definition InputTypeApproval :: string where
  "InputTypeApproval = ''approval''"

record sessionEventInput =
  in_Type :: string
  in_Data :: jmap
  in_ModelOverride :: string
  in_Tools :: "jmap list"

text \<open>A string type: the three named values, and any other text.\<close>

datatype elicitationAction =
  ElicitationAccept | ElicitationDecline | ElicitationCancel | ElicitationText string

fun actionText :: "elicitationAction \<Rightarrow> string" where
  "actionText ElicitationAccept = ''accept''"
| "actionText ElicitationDecline = ''decline''"
| "actionText ElicitationCancel = ''cancel''"
| "actionText (ElicitationText t) = t"

record elicitationResult =
  er_Action :: elicitationAction
  er_Content :: jmap

definition userMessage :: "string \<Rightarrow> sessionEventInput" where
  "userMessage t =
    (let content = (if t \<noteq> [] then
           [JObj [(''type'', JStr ''input_text''), (''text'', JStr t)]] else [])
     in \<lparr>in_Type = InputTypeMessage,
         in_Data = [(''role'', JStr ''user''), (''content'', JArr content)],
         in_ModelOverride = [], in_Tools = []\<rparr>)"

record eventAccepted =
  acc_Queued :: bool
  acc_ItemID :: string
  acc_PendingID :: string
  acc_Denied :: bool
  acc_Reason :: string

record getSessionOptions =
  gs_IncludeItems :: "bool option"
  gs_IncludeLiveness :: "bool option"
  gs_RefreshState :: "bool option"

text \<open>url.Values with one value per name, in any order.\<close>

type_synonym urlQuery = "string gomap"

definition FormatBool :: "bool \<Rightarrow> string" where
  "FormatBool b = (if b then ''true'' else ''false'')"

definition GetSessionOptions_query :: "getSessionOptions \<Rightarrow> urlQuery" where
  "GetSessionOptions_query opts =
     fold (\<lambda>(name, v) q. case v of Some b \<Rightarrow> gput name (FormatBool b) q | None \<Rightarrow> q)
       [(''include_items'', gs_IncludeItems opts), (''include_liveness'', gs_IncludeLiveness opts),
        (''refresh_state'', gs_RefreshState opts)] []"

definition DeleteSessionOptions_query :: "bool \<Rightarrow> urlQuery" where
  "DeleteSessionOptions_query deleteBranch =
     (if deleteBranch then gput ''delete_branch'' ''true'' [] else [])"

text \<open>A nil list of harnesses is None.\<close>

record runnerInfo =
  rn_RunnerID :: string
  rn_Online :: bool
  rn_Harnesses :: "string list option"

text \<open>chat.go: the identifier the server will echo for an accepted prompt (None is a nil
  pointer).\<close>

definition anchorOf :: "eventAccepted option \<Rightarrow> string" where
  "anchorOf accepted = (case accepted of
      None \<Rightarrow> []
    | Some a \<Rightarrow> if acc_ItemID a \<noteq> [] then acc_ItemID a else acc_PendingID a)"

section \<open>Requests\<close>

text \<open>What the session operations hand to the client: a method, path segments, a query and a
  body. The update and fork requests have the fields the package sets or passes on.\<close>

record gitOptions =
  git_BranchName :: string
  git_BaseBranch :: "string option"

record sessionCreateRequest =
  cr_AgentID :: string
  cr_InitialItems :: "sessionEventInput list"
  cr_Title :: string
  cr_Labels :: "string gomap"
  cr_ParentSessionID :: string
  cr_SubAgentName :: string
  cr_HostType :: string
  cr_HostID :: string
  cr_Workspace :: string
  cr_Git :: "gitOptions option"
  cr_TerminalLaunchArgs :: "string list"
  cr_ModelOverride :: string
  cr_ReasoningEffort :: string
  cr_CostControlModeOverride :: string
  cr_HarnessOverride :: string

record forkRequest =
  fk_AgentID :: "string option"
  fk_Title :: "string option"
  fk_UpToResponseID :: "string option"

record updateSessionRequest =
  up_Archived :: "bool option"
  up_ExternalSessionID :: "string option"
  up_ModelOverride :: "string option"
  up_ReasoningEffort :: "string option"
  up_RunnerID :: "string option"
  up_Title :: "string option"

datatype requestBody =
    NoBody
  | BodyEvent sessionEventInput
  | BodyElicitation elicitationResult
  | BodyCreate sessionCreateRequest
  | BodyFork forkRequest
  | BodyUpdate updateSessionRequest

datatype httpMethod = GET | POST | PATCH | DELETE | PUT

record request =
  rq_Method :: httpMethod
  rq_Segments :: "string list"
  rq_Query :: urlQuery
  rq_Body :: requestBody

text \<open>One call of doJSON: the decoded reply or an error, in the caller's state.\<close>

type_synonym ('r, 'w) exchange = "request \<Rightarrow> 'w \<Rightarrow> (goerr + 'r) \<times> 'w"

end
