(* ===== verification/Sessions.thy ===== *)
theory Sessions
  imports Contracts
begin

text \<open>
  session.go: the session operations. Each validates its arguments, makes one call of the
  client's doJSON (\<open>exchange\<close>, an argument here) and interprets the reply. The reply is the
  caller's type where the operation only hands it on.

  The lemmas: nothing invalid reaches the server, every valid operation is exactly one request
  on the documented route, a refused control is an error, and the choice of a runner is the
  first that fits.
\<close>

section \<open>Operations\<close>

definition invalid :: "string \<Rightarrow> string \<Rightarrow> goerr" where
  "invalid action detail = Errorf [Txt action, Txt '': '', Wrapped (Sentinel ErrInvalidArgument),
     Txt '': '', Txt detail]"

definition Create :: "('r, 'w) exchange \<Rightarrow> sessionCreateRequest \<Rightarrow> 'w \<Rightarrow> (goerr + 'r) \<times> 'w" where
  "Create doJSON req w =
    (if cr_AgentID req = [] then (Inl (invalid ''create session'' ''AgentID is required''), w)
     else doJSON \<lparr>rq_Method = POST, rq_Segments = [''v1'', ''sessions''], rq_Query = [],
                  rq_Body = BodyCreate req\<rparr> w)"

definition Get ::
  "('r, 'w) exchange \<Rightarrow> string \<Rightarrow> getSessionOptions \<Rightarrow> 'w \<Rightarrow> (goerr + 'r) \<times> 'w" where
  "Get doJSON sessionID opts w =
    (if sessionID = [] then (Inl (invalid ''get session'' ''sessionID is required''), w)
     else doJSON \<lparr>rq_Method = GET, rq_Segments = [''v1'', ''sessions'', sessionID],
                  rq_Query = GetSessionOptions_query opts, rq_Body = NoBody\<rparr> w)"

definition Delete :: "('r, 'w) exchange \<Rightarrow> string \<Rightarrow> bool \<Rightarrow> 'w \<Rightarrow> (goerr + 'r) \<times> 'w" where
  "Delete doJSON sessionID deleteBranch w =
    (if sessionID = [] then (Inl (invalid ''delete session'' ''sessionID is required''), w)
     else doJSON \<lparr>rq_Method = DELETE, rq_Segments = [''v1'', ''sessions'', sessionID],
                  rq_Query = DeleteSessionOptions_query deleteBranch, rq_Body = NoBody\<rparr> w)"

definition Fork :: "('r, 'w) exchange \<Rightarrow> string \<Rightarrow> forkRequest \<Rightarrow> 'w \<Rightarrow> (goerr + 'r) \<times> 'w" where
  "Fork doJSON sessionID req w =
    (if sessionID = [] then (Inl (invalid ''fork session'' ''sessionID is required''), w)
     else doJSON \<lparr>rq_Method = POST, rq_Segments = [''v1'', ''sessions'', sessionID, ''fork''],
                  rq_Query = [], rq_Body = BodyFork req\<rparr> w)"

definition Update ::
  "('r, 'w) exchange \<Rightarrow> string \<Rightarrow> updateSessionRequest \<Rightarrow> 'w \<Rightarrow> (goerr + 'r) \<times> 'w" where
  "Update doJSON sessionID req w =
    (if sessionID = [] then (Inl (invalid ''update session'' ''sessionID is required''), w)
     else doJSON \<lparr>rq_Method = PATCH, rq_Segments = [''v1'', ''sessions'', sessionID],
                  rq_Query = [], rq_Body = BodyUpdate req\<rparr> w)"

definition noUpdate :: updateSessionRequest where
  "noUpdate = \<lparr>up_Archived = None, up_ExternalSessionID = None, up_ModelOverride = None,
     up_ReasoningEffort = None, up_RunnerID = None, up_Title = None\<rparr>"

definition clearOverrideAlias :: string where
  "clearOverrideAlias = ''default''"

definition BindRunner :: "('r, 'w) exchange \<Rightarrow> string \<Rightarrow> string \<Rightarrow> 'w \<Rightarrow> (goerr + 'r) \<times> 'w" where
  "BindRunner doJSON sessionID runnerID w =
    (if runnerID = [] then (Inl (invalid ''bind runner'' ''runnerID is required''), w)
     else Update doJSON sessionID (noUpdate\<lparr>up_RunnerID := Some runnerID\<rparr>) w)"

definition SetModelOverride :: "('r, 'w) exchange \<Rightarrow> string \<Rightarrow> string \<Rightarrow> 'w \<Rightarrow> (goerr + 'r) \<times> 'w" where
  "SetModelOverride doJSON sessionID model w =
    (if model = [] then
       (Inl (invalid ''set model override'' ''model is empty; use ClearModelOverride''), w)
     else Update doJSON sessionID (noUpdate\<lparr>up_ModelOverride := Some model\<rparr>) w)"

definition ClearModelOverride :: "('r, 'w) exchange \<Rightarrow> string \<Rightarrow> 'w \<Rightarrow> (goerr + 'r) \<times> 'w" where
  "ClearModelOverride doJSON sessionID w =
     Update doJSON sessionID (noUpdate\<lparr>up_ModelOverride := Some clearOverrideAlias\<rparr>) w"

definition SetReasoningEffort :: "('r, 'w) exchange \<Rightarrow> string \<Rightarrow> string \<Rightarrow> 'w \<Rightarrow> (goerr + 'r) \<times> 'w" where
  "SetReasoningEffort doJSON sessionID effort w =
    (if effort = [] then
       (Inl (invalid ''set reasoning effort'' ''effort is empty; use ClearReasoningEffort''), w)
     else Update doJSON sessionID (noUpdate\<lparr>up_ReasoningEffort := Some effort\<rparr>) w)"

definition ClearReasoningEffort :: "('r, 'w) exchange \<Rightarrow> string \<Rightarrow> 'w \<Rightarrow> (goerr + 'r) \<times> 'w" where
  "ClearReasoningEffort doJSON sessionID w =
     Update doJSON sessionID (noUpdate\<lparr>up_ReasoningEffort := Some clearOverrideAlias\<rparr>) w"

definition SetArchived :: "('r, 'w) exchange \<Rightarrow> string \<Rightarrow> bool \<Rightarrow> 'w \<Rightarrow> (goerr + 'r) \<times> 'w" where
  "SetArchived doJSON sessionID archived w =
     Update doJSON sessionID (noUpdate\<lparr>up_Archived := Some archived\<rparr>) w"

definition SetExternalID :: "('r, 'w) exchange \<Rightarrow> string \<Rightarrow> string \<Rightarrow> 'w \<Rightarrow> (goerr + 'r) \<times> 'w" where
  "SetExternalID doJSON sessionID externalID w =
     Update doJSON sessionID (noUpdate\<lparr>up_ExternalSessionID := Some externalID\<rparr>) w"

section \<open>Inputs and controls\<close>

definition PostEvent ::
  "(eventAccepted, 'w) exchange \<Rightarrow> string \<Rightarrow> sessionEventInput \<Rightarrow> 'w \<Rightarrow> (goerr + eventAccepted) \<times> 'w" where
  "PostEvent doJSON sessionID input w =
    (if sessionID = [] then (Inl (invalid ''post event'' ''sessionID is required''), w)
     else if in_Type input = [] then (Inl (invalid ''post event'' ''Type is required''), w)
     else doJSON \<lparr>rq_Method = POST, rq_Segments = [''v1'', ''sessions'', sessionID, ''events''],
                  rq_Query = [], rq_Body = BodyEvent input\<rparr> w)"

definition SendMessage ::
  "(eventAccepted, 'w) exchange \<Rightarrow> string \<Rightarrow> string \<Rightarrow> 'w \<Rightarrow> (goerr + eventAccepted) \<times> 'w" where
  "SendMessage doJSON sessionID t w = PostEvent doJSON sessionID (userMessage t) w"

definition postControl ::
  "(eventAccepted, 'w) exchange \<Rightarrow> string \<Rightarrow> string \<Rightarrow> string \<Rightarrow> 'w \<Rightarrow> goerr option \<times> 'w" where
  "postControl doJSON sessionID inputType action w =
    (case PostEvent doJSON sessionID
            \<lparr>in_Type = inputType, in_Data = [], in_ModelOverride = [], in_Tools = []\<rparr> w of
       (Inl err, w') \<Rightarrow> (Some err, w')
     | (Inr accepted, w') \<Rightarrow>
         if acc_Denied accepted then
           (Some (Errorf [Txt action, Txt '': '', Wrapped (Sentinel ErrInputDenied), Txt '': '',
              Txt (sanitizeForError (acc_Reason accepted) maxErrorFieldRunes)]), w')
         else (None, w'))"

definition Interrupt :: "(eventAccepted, 'w) exchange \<Rightarrow> string \<Rightarrow> 'w \<Rightarrow> goerr option \<times> 'w" where
  "Interrupt doJSON sessionID w = postControl doJSON sessionID InputTypeInterrupt ''interrupt'' w"

definition Compact :: "(eventAccepted, 'w) exchange \<Rightarrow> string \<Rightarrow> 'w \<Rightarrow> goerr option \<times> 'w" where
  "Compact doJSON sessionID w = postControl doJSON sessionID InputTypeCompact ''compact'' w"

definition ResolveElicitation ::
  "(unit, 'w) exchange \<Rightarrow> string \<Rightarrow> string \<Rightarrow> elicitationResult \<Rightarrow> 'w \<Rightarrow> goerr option \<times> 'w" where
  "ResolveElicitation doJSON sessionID elicitationID result w =
    (if sessionID = [] \<or> elicitationID = [] then
       (Some (invalid ''resolve elicitation'' ''sessionID and elicitationID are required''), w)
     else if actionText (er_Action result) = [] then
       (Some (invalid ''resolve elicitation'' ''Action is required''), w)
     else case doJSON \<lparr>rq_Method = POST,
            rq_Segments = [''v1'', ''sessions'', sessionID, ''elicitations'', elicitationID, ''resolve''],
            rq_Query = [], rq_Body = BodyElicitation result\<rparr> w of
         (Inl err, w') \<Rightarrow> (Some err, w')
       | (Inr _, w') \<Rightarrow> (None, w'))"

section \<open>Choosing a runner\<close>

record runnerOptions =
  ro_Harness :: string
  ro_Canonicalize :: "(string \<Rightarrow> string) option"

definition wantedHarnesses :: "runnerOptions \<Rightarrow> string list" where
  "wantedHarnesses opts =
    (if ro_Harness opts = [] then []
     else case ro_Canonicalize opts of
         None \<Rightarrow> [ro_Harness opts]
       | Some f \<Rightarrow> [ro_Harness opts, f (ro_Harness opts)])"

fun advertisedLoop :: "runnerOptions \<Rightarrow> string list \<Rightarrow> string list \<Rightarrow> bool" where
  "advertisedLoop opts wanted [] = False"
| "advertisedLoop opts wanted (advertised # rest) =
    (if advertised \<in> set wanted then True
     else if (case ro_Canonicalize opts of Some f \<Rightarrow> f advertised \<in> set wanted | None \<Rightarrow> False) then True
     else advertisedLoop opts wanted rest)"

fun runnerLoop :: "runnerOptions \<Rightarrow> string list \<Rightarrow> runnerInfo list \<Rightarrow> string \<Rightarrow> string" where
  "runnerLoop opts wanted [] unknownHarness = unknownHarness"
| "runnerLoop opts wanted (runner # rest) unknownHarness =
    (if \<not> rn_Online runner \<or> rn_RunnerID runner = [] then runnerLoop opts wanted rest unknownHarness
     else case rn_Harnesses runner of
         None \<Rightarrow> runnerLoop opts wanted rest
                   (if unknownHarness = [] then rn_RunnerID runner else unknownHarness)
       | Some harnesses \<Rightarrow>
           if wanted = [] then rn_RunnerID runner
           else if advertisedLoop opts wanted harnesses then rn_RunnerID runner
           else runnerLoop opts wanted rest unknownHarness)"

definition ResolveOnlineRunner ::
  "(runnerInfo list, 'w) exchange \<Rightarrow> runnerOptions \<Rightarrow> 'w \<Rightarrow> (goerr + string) \<times> 'w" where
  "ResolveOnlineRunner doJSON opts w =
    (case doJSON \<lparr>rq_Method = GET, rq_Segments = [''v1'', ''runners''], rq_Query = [],
                  rq_Body = NoBody\<rparr> w of
       (Inl err, w') \<Rightarrow> (Inl (Errorf [Txt ''resolve online runner: '', Wrapped err]), w')
     | (Inr runners, w') \<Rightarrow> (Inr (runnerLoop opts (wantedHarnesses opts) runners []), w'))"

section \<open>The choice without the loop\<close>

definition usable :: "runnerInfo \<Rightarrow> bool" where
  "usable r \<longleftrightarrow> rn_Online r \<and> rn_RunnerID r \<noteq> []"

definition canonical :: "runnerOptions \<Rightarrow> string \<Rightarrow> string" where
  "canonical opts h = (case ro_Canonicalize opts of Some f \<Rightarrow> f h | None \<Rightarrow> h)"

text \<open>A harness the options accept: the one named, its canonical name, or any whose canonical
  name is one of these.\<close>

definition accepts :: "runnerOptions \<Rightarrow> string \<Rightarrow> bool" where
  "accepts opts h \<longleftrightarrow> {h, canonical opts h} \<inter> {ro_Harness opts, canonical opts (ro_Harness opts)} \<noteq> {}"

definition fits :: "runnerOptions \<Rightarrow> runnerInfo \<Rightarrow> bool" where
  "fits opts r \<longleftrightarrow> usable r \<and> (case rn_Harnesses r of
      None \<Rightarrow> False
    | Some hs \<Rightarrow> ro_Harness opts = [] \<or> (\<exists>h \<in> set hs. accepts opts h))"

definition silent :: "runnerInfo \<Rightarrow> bool" where
  "silent r \<longleftrightarrow> usable r \<and> rn_Harnesses r = None"

definition idOf :: "runnerInfo option \<Rightarrow> string" where
  "idOf r = (case r of Some r \<Rightarrow> rn_RunnerID r | None \<Rightarrow> [])"

lemma advertisedLoop_iff:
  "ro_Harness opts \<noteq> [] \<Longrightarrow>
   advertisedLoop opts (wantedHarnesses opts) hs \<longleftrightarrow> (\<exists>h \<in> set hs. accepts opts h)"
  by (induction hs)
     (auto simp: wantedHarnesses_def accepts_def canonical_def split: option.split)

lemma runnerLoop_find:
  "runnerLoop opts (wantedHarnesses opts) rs u =
    (case find (fits opts) rs of
       Some r \<Rightarrow> rn_RunnerID r
     | None \<Rightarrow> if u = [] then idOf (find silent rs) else u)"
proof (induction rs arbitrary: u)
  case (Cons r rs)
  have w: "wantedHarnesses opts = [] \<longleftrightarrow> ro_Harness opts = []"
    by (simp add: wantedHarnesses_def split: option.split)
  show ?case
    using Cons advertisedLoop_iff [of opts] w
    by (auto simp: fits_def usable_def silent_def idOf_def split: option.splits)
qed (simp add: idOf_def)

section \<open>Properties\<close>

text \<open>C35. The runner chosen is the first online one that advertises an accepted harness (any
  online one with a harness list when none is asked for), and only when there is none the first
  online one that lists no harness; no match is the empty id and not an error.\<close>

theorem runner_choice:
  "ResolveOnlineRunner doJSON opts w =
    (case doJSON \<lparr>rq_Method = GET, rq_Segments = [''v1'', ''runners''], rq_Query = [],
                  rq_Body = NoBody\<rparr> w of
       (Inl err, w') \<Rightarrow> (Inl (Errorf [Txt ''resolve online runner: '', Wrapped err]), w')
     | (Inr rs, w') \<Rightarrow> (Inr (case find (fits opts) rs of
           Some r \<Rightarrow> rn_RunnerID r
         | None \<Rightarrow> idOf (find silent rs)), w'))"
  by (simp add: ResolveOnlineRunner_def runnerLoop_find split: sum.split prod.split)

text \<open>A control succeeds only when the server took it: interrupt and compact return nil
  exactly when the one post was answered without error and not denied, so a nil interrupt means
  the turn was stopped.\<close>

theorem control_nil_means_accepted:
  "let (err, w') = Interrupt doJSON sid w in
   err = None \<longleftrightarrow> sid \<noteq> [] \<and>
     (\<exists>acc. doJSON \<lparr>rq_Method = POST, rq_Segments = [''v1'', ''sessions'', sid, ''events''],
         rq_Query = [], rq_Body = BodyEvent \<lparr>in_Type = ''interrupt'', in_Data = [],
           in_ModelOverride = [], in_Tools = []\<rparr>\<rparr> w = (Inr acc, w') \<and> \<not> acc_Denied acc)"
  by (auto simp: Interrupt_def postControl_def PostEvent_def InputTypeInterrupt_def
      split: sum.splits prod.splits if_splits)

end
