(* ===== verification/Items.thy ===== *)
theory Items
  imports Event
begin

text \<open>
  blockstream.go and chat.go: reading an undeclared output item. Its fields are looked up by
  key and type, its arguments decoded, its text concatenated, and one-line summaries of it
  rendered, cut to a number of runes.

  \<open>goLib\<close> holds what the code takes from the standard library over untyped values:
  json.Unmarshal into a map, json.Marshal of a map, fmt.Sprint of a value and of a map, and
  strconv.Quote (the verb q). The lemmas hold for every such library.
\<close>

record goLib =
  lib_unmarshalMap :: "string \<Rightarrow> (string \<times> json) list option"
  lib_marshalMap :: "jmap \<Rightarrow> string option"
  lib_sprint :: "json \<Rightarrow> string"
  lib_sprintMap :: "jmap \<Rightarrow> string"
  lib_quote :: "string \<Rightarrow> string"

text \<open>The type switch of itemArguments: a map as it is, a string decoded, nothing otherwise. A
  nil map reads as an empty one.\<close>

definition itemArguments :: "goLib \<Rightarrow> jmap \<Rightarrow> jmap" where
  "itemArguments lib item = (case map_of item ''arguments'' of
      Some (JObj m) \<Rightarrow> m
    | Some (JStr raw) \<Rightarrow>
        if raw = [] then []
        else (case lib_unmarshalMap lib raw of None \<Rightarrow> [] | Some m \<Rightarrow> m)
    | _ \<Rightarrow> [])"

definition outputTextPart :: "json \<Rightarrow> string" where
  "outputTextPart part = (case part of
      JObj block \<Rightarrow> if itemString block ''type'' = ''output_text'' then itemString block ''text'' else []
    | _ \<Rightarrow> [])"

definition outputTextFromContent :: "jmap \<Rightarrow> string" where
  "outputTextFromContent item = (case map_of item ''content'' of
      Some (JArr parts) \<Rightarrow> concat (map outputTextPart parts)
    | _ \<Rightarrow> [])"

text \<open>The ellipsis, U+2026.\<close>

definition ellipsis :: string where
  "ellipsis = [CHR 0xE2, CHR 0x80, CHR 0xA6]"

definition truncateRunes :: "string \<Rightarrow> nat \<Rightarrow> string" where
  "truncateRunes s mx =
    (if RuneCount s \<le> mx then s else EncodeRunes (take mx (runes s)) @ ellipsis)"

definition maxArgsSummaryRunes :: nat where
  "maxArgsSummaryRunes = 80"

definition briefArgKeys :: "(string \<times> string) list" where
  "briefArgKeys = [(''Read'', ''file_path''), (''Write'', ''file_path''), (''Edit'', ''file_path''),
     (''Bash'', ''command''), (''Glob'', ''pattern''), (''Grep'', ''pattern''),
     (''web_search'', ''query'')]"

definition LastIndexByte :: "string \<Rightarrow> char \<Rightarrow> nat option" where
  "LastIndexByte s c = LastIndex ((=) c) s"

definition FormatToolArgsBrief :: "goLib \<Rightarrow> string \<Rightarrow> jmap \<Rightarrow> string" where
  "FormatToolArgsBrief lib name arguments =
    (if arguments = [] then []
     else
       let whole = (case lib_marshalMap lib arguments of
             None \<Rightarrow> truncateRunes (lib_sprintMap lib arguments) maxArgsSummaryRunes
           | Some encoded \<Rightarrow> truncateRunes encoded maxArgsSummaryRunes)
       in case map_of briefArgKeys name of
            None \<Rightarrow> whole
          | Some key \<Rightarrow> (case map_of arguments key of
              None \<Rightarrow> whole
            | Some value \<Rightarrow>
                let t = lib_sprint lib value;
                    t = (if key = ''file_path'' then
                           (case LastIndexByte t (CHR ''/'') of
                              Some slash \<Rightarrow> drop (slash + 1) t
                            | None \<Rightarrow> t)
                         else t)
                in truncateRunes t maxArgsSummaryRunes))"

definition formatNativeLabel :: "string \<Rightarrow> jmap \<Rightarrow> string" where
  "formatNativeLabel toolType data =
    (if toolType = ''web_search_call'' then
       (let action = (case map_of data ''action'' of Some (JObj m) \<Rightarrow> m | _ \<Rightarrow> []) in
        if itemString action ''type'' = ''search'' then
          ''web search: '' @ truncateRunes (itemString action ''query'') maxArgsSummaryRunes
        else if itemString action ''type'' = ''open_page'' then
          ''web open: '' @ truncateRunes (itemString action ''url'') maxArgsSummaryRunes
        else ''web search'')
     else if toolType = ''mcp_call'' then
       (if itemString data ''name'' \<noteq> [] then ''mcp: '' @ itemString data ''name'' else ''mcp call'')
     else ReplaceByte toolType (CHR ''_'') (CHR '' ''))"

section \<open>A summary is one bounded line of whole characters\<close>

lemma ellipsis_Encode: "ellipsis = EncodeRunes [0x2026]"
  by (simp add: ellipsis_def EncodeRunes_def EncodeRune_def validRune_def chr_def,
      simp add: char_of_def bit_Suc_0_iff)

lemma RuneCount_EncodeRunes:
  "\<forall>r \<in> set rs. validRune r \<Longrightarrow> RuneCount (EncodeRunes rs) = length rs"
  by (metis RuneCount_def length_map runes_EncodeRunes runes_def)

lemma truncate_Encode:
  assumes "mx < RuneCount s"
  shows "truncateRunes s mx = EncodeRunes (take mx (runes s) @ [0x2026])"
    and "RuneCount (truncateRunes s mx) = Suc mx"
proof -
  have len: "length (runes s) = RuneCount s" by (simp add: RuneCount_def runes_def)
  have v: "\<forall>r \<in> set (take mx (runes s) @ [0x2026]). validRune r"
    using validRune_runes by (auto simp: validRune_def dest: in_set_takeD)
  show t: "truncateRunes s mx = EncodeRunes (take mx (runes s) @ [0x2026])"
    using assms by (simp add: truncateRunes_def ellipsis_Encode EncodeRunes_def)
  show "RuneCount (truncateRunes s mx) = Suc mx"
    unfolding t RuneCount_EncodeRunes [OF v] using assms len by simp
qed

lemma RuneCount_truncate: "RuneCount (truncateRunes s mx) \<le> mx + 1"
proof (cases "mx < RuneCount s")
  case True
  then show ?thesis using truncate_Encode(2) by simp
qed (simp add: truncateRunes_def)

section \<open>Properties\<close>

text \<open>Whatever a tool call carries, its summary is at most 80 characters and an ellipsis, and
  cutting never splits a character: a cut text is the first 80 characters, encoded, with the
  ellipsis.\<close>

theorem args_summary_bounded:
  "RuneCount (FormatToolArgsBrief lib name args) \<le> maxArgsSummaryRunes + 1 \<and>
   (truncateRunes s mx = s \<or>
    truncateRunes s mx = EncodeRunes (take mx (runes s)) @ ellipsis \<and> mx < RuneCount s)"
proof
  have z: "RuneCount [] = 0" by (simp add: RuneCount_def)
  show "RuneCount (FormatToolArgsBrief lib name args) \<le> maxArgsSummaryRunes + 1"
    using RuneCount_truncate
    by (simp add: FormatToolArgsBrief_def z Let_def split: option.split)
  show "truncateRunes s mx = s \<or>
    truncateRunes s mx = EncodeRunes (take mx (runes s)) @ ellipsis \<and> mx < RuneCount s"
    by (simp add: truncateRunes_def)
qed

end
