(* ===== verification/Tools.thy ===== *)
theory Tools
  imports Items GoBase "HOL-Library.List_Lexorder" "HOL-Library.Char_ord"
begin

text \<open>
  tool.go and hooks.go: the tools a client runs for an agent and the hooks a turn fires.

  Caller code takes and returns the caller's state \<open>'w\<close>. A tool returns its output and error
  or panics; a hook returns or panics, and a panic is the text fmt.Sprint gives the recovered
  value. A nil hook and a nil registry are None.

  The lemmas: a registry holds exactly what was registered last, lists its names sorted and
  its schemas by name, and \<open>run\<close> always answers, with an error exactly when the tool is not
  registered, failed or panicked.
\<close>

section \<open>The registry\<close>

record toolCallInfo =
  ti_Name :: string
  ti_Arguments :: jmap
  ti_CallID :: string
  ti_ItemID :: string

datatype toolResult = ToolReturned string "goerr option" | ToolPanicked string

type_synonym 'w toolFunc = "toolCallInfo \<Rightarrow> 'w \<Rightarrow> toolResult \<times> 'w"

record 'w toolRegistry =
  reg_tools :: "'w toolFunc gomap"
  reg_schemas :: "jmap gomap"

definition NewToolRegistry :: "'w toolRegistry" where
  "NewToolRegistry = \<lparr>reg_tools = [], reg_schemas = []\<rparr>"

definition Register ::
  "string \<Rightarrow> jmap \<Rightarrow> 'w toolFunc option \<Rightarrow> 'w toolRegistry \<Rightarrow> goerr option \<times> 'w toolRegistry" where
  "Register name schema run r =
    (if name = [] then
       (Some (Errorf [Txt ''register tool: '', Wrapped (Sentinel ErrInvalidArgument),
          Txt '': name is required'']), r)
     else case run of
       None \<Rightarrow> (Some (Errorf [Txt ''register tool '', Quoted name, Txt '': '',
          Wrapped (Sentinel ErrInvalidArgument), Txt '': run is nil'']), r)
     | Some f \<Rightarrow> (None, r\<lparr>reg_tools := gput name f (reg_tools r),
                         reg_schemas := gput name schema (reg_schemas r)\<rparr>))"

text \<open>slices.Sorted of the keys: the byte order of strings.\<close>

definition Names :: "'w toolRegistry option \<Rightarrow> string list" where
  "Names r = (case r of None \<Rightarrow> [] | Some r \<Rightarrow> sort (map fst (reg_tools r)))"

definition Schemas :: "'w toolRegistry option \<Rightarrow> jmap list" where
  "Schemas r = (case r of
      None \<Rightarrow> []
    | Some r \<Rightarrow> concat (map (\<lambda>name. case map_of (reg_schemas r) name of
          Some schema \<Rightarrow> if 0 < length schema then [schema] else []
        | None \<Rightarrow> []) (Names (Some r))))"

definition lookup :: "'w toolRegistry option \<Rightarrow> string \<Rightarrow> 'w toolFunc option" where
  "lookup r name = (case r of None \<Rightarrow> None | Some r \<Rightarrow> map_of (reg_tools r) name)"

text \<open>The verb v over a list of strings.\<close>

definition namesText :: "string list \<Rightarrow> string" where
  "namesText names = ''['' @ Join names '' '' @ '']''"

definition registryRun ::
  "(string \<Rightarrow> string) \<Rightarrow> 'w toolRegistry option \<Rightarrow> toolCallInfo \<Rightarrow> 'w \<Rightarrow>
     (string \<times> goerr option) \<times> 'w" where
  "registryRun quote r info w =
    (let safeName = sanitizeForError (ti_Name info) maxToolNameRunes in
     case lookup r (ti_Name info) of
       None \<Rightarrow>
         ((''error: no tool named '' @ quote safeName @ '' is registered with this client'',
           Some (Errorf [Wrapped (Sentinel ErrToolNotRegistered), Txt '': '', Quoted safeName,
             Txt ''; registered: '', Txt (namesText (Names r))])), w)
     | Some run \<Rightarrow>
         (case run info w of
            (ToolPanicked recovered, w') \<Rightarrow>
              let reason = sanitizeForError recovered maxErrorFieldRunes in
              ((''error: the tool panicked: '' @ reason,
                Some (Errorf [Wrapped (Sentinel ErrToolFailed), Txt '': tool '', Quoted safeName,
                  Txt '' panicked: '', Txt reason])), w')
          | (ToolReturned output None, w') \<Rightarrow> ((output, None), w')
          | (ToolReturned output (Some err), w') \<Rightarrow>
              ((''error: '' @ errText quote err,
                Some (Errorf [Wrapped (Sentinel ErrToolFailed), Txt '': tool '', Quoted safeName,
                  Txt '': '', Wrapped err])), w')))"

section \<open>Hooks\<close>

record responseStartCtx =
  rsc_ResponseID :: string
  rsc_Model :: string

record responseEndCtx =
  rec_ResponseID :: string
  rec_Status :: string

record toolCallStartCtx =
  tcs_Name :: string
  tcs_CallID :: string
  tcs_AgentName :: string
  tcs_Arguments :: jmap
  tcs_ExecutedBy :: string

record toolCallEndCtx =
  tce_Name :: string
  tce_CallID :: string
  tce_Output :: string
  tce_Err :: "goerr option"

record retryCtx =
  rc_Source :: string
  rc_Attempt :: int
  rc_MaxAttempts :: int

record serverErrorCtx =
  sec_Message :: string
  sec_Source :: string
  sec_Code :: string

record fileOutputCtx =
  fo_FileID :: string
  fo_Filename :: string

record elicitationCtx =
  ec_SessionID :: string
  ec_ElicitationID :: string
  ec_Message :: string
  ec_Phase :: string
  ec_PolicyName :: string
  ec_Extra :: "jmap option"
  ec_ContentPreview :: string
  ec_Mode :: string
  ec_URL :: string
  ec_RequestedSchema :: "jmap option"
  ec_ResponseID :: string

text \<open>A hook of caller code: None when it returned, the text of the recovered value when it
  panicked. OnElicitation returns a verdict (Inr) or panics (Inl).\<close>

type_synonym ('p, 'w) hook = "'p \<Rightarrow> 'w \<Rightarrow> string option \<times> 'w"

record 'w streamHooks =
  OnResponseStart :: "(responseStartCtx, 'w) hook option"
  OnResponseEnd :: "(responseEndCtx, 'w) hook option"
  OnToolCallStart :: "(toolCallStartCtx, 'w) hook option"
  OnToolCallEnd :: "(toolCallEndCtx, 'w) hook option"
  OnReasoningStart :: "(string, 'w) hook option"
  OnRetry :: "(retryCtx, 'w) hook option"
  OnServerError :: "(serverErrorCtx, 'w) hook option"
  OnFileOutput :: "(fileOutputCtx, 'w) hook option"
  OnElicitation :: "(elicitationCtx \<Rightarrow> 'w \<Rightarrow> (string + bool) \<times> 'w) option"

definition panicErr :: "string \<Rightarrow> string \<Rightarrow> goerr" where
  "panicErr name recovered = Errorf [Wrapped (Sentinel ErrHookPanicked), Txt '': hook '', Txt name,
     Txt '': '', Txt (sanitizeForError recovered maxErrorFieldRunes)]"

definition fire ::
  "(goerr \<Rightarrow> 's \<Rightarrow> 's) \<Rightarrow> string \<Rightarrow> ('p, 's) hook option \<Rightarrow> 'p \<Rightarrow> 's \<Rightarrow> 's" where
  "fire report name hook payload s = (case hook of
      None \<Rightarrow> s
    | Some h \<Rightarrow>
        (case h payload s of
           (None, s') \<Rightarrow> s'
         | (Some recovered, s') \<Rightarrow> report (panicErr name recovered) s'))"

section \<open>The registry keeps what was registered\<close>

definition regOk :: "'w toolRegistry \<Rightarrow> bool" where
  "regOk r \<longleftrightarrow> gwf (reg_tools r) \<and> gkeys (reg_schemas r) = gkeys (reg_tools r)"

lemma regOk_New [simp]: "regOk NewToolRegistry"
  by (simp add: regOk_def NewToolRegistry_def)

lemma regOk_Register: "regOk r \<Longrightarrow> regOk (snd (Register name schema run r))"
  by (auto simp: regOk_def Register_def split: option.split)

lemma Register_ok: "name \<noteq> [] \<Longrightarrow> Register name schema (Some f) r =
    (None, r\<lparr>reg_tools := gput name f (reg_tools r), reg_schemas := gput name schema (reg_schemas r)\<rparr>)"
  by (simp add: Register_def)

lemma Names_sorted: "regOk r \<Longrightarrow> sorted (Names (Some r)) \<and> distinct (Names (Some r)) \<and>
    set (Names (Some r)) = gkeys (reg_tools r)"
  by (simp add: Names_def regOk_def gwf_def gkeys_def)

section \<open>Properties\<close>

text \<open>A registry is a map from names to tools: registering a tool makes it the one found under
  its name and leaves every other name alone, and the listing is exactly the names found, sorted
  and without repeats. Registrations without a name or without a function change nothing and
  say so.\<close>

theorem registry_map:
  assumes "regOk r"
  shows "let (err, r') = Register name schema run r in
    regOk r' \<and>
    (err = None \<longleftrightarrow> name \<noteq> [] \<and> run \<noteq> None) \<and>
    (err = None \<or> errIs ErrInvalidArgument (the err) \<and> r' = r) \<and>
    lookup (Some r') n = (if err = None \<and> n = name then run else lookup (Some r) n) \<and>
    (n \<in> set (Names (Some r')) \<longleftrightarrow> lookup (Some r') n \<noteq> None) \<and>
    sorted (Names (Some r')) \<and> distinct (Names (Some r'))"
proof -
  let ?r = "snd (Register name schema run r)"
  have ok: "regOk ?r" using assms by (rule regOk_Register)
  have n: "n \<in> set (Names (Some ?r)) \<longleftrightarrow> lookup (Some ?r) n \<noteq> None"
    using Names_sorted [OF ok] by (auto simp: gkeys_dom lookup_def)
  show ?thesis
    using ok n Names_sorted [OF ok]
    by (auto simp: Register_def lookup_def sentinelIs_def split: option.splits if_splits)
qed

theorem registry_map_witness:
  "lookup (Some (snd (Register ''deploy'' [] (Some (\<lambda>i w. (ToolReturned ''done'' None, w)))
     (NewToolRegistry :: nat toolRegistry)))) ''deploy'' \<noteq> None"
  using registry_map [of "NewToolRegistry :: nat toolRegistry" "''deploy''" "[]"
      "Some (\<lambda>i w. (ToolReturned ''done'' None, w))" "''deploy''"]
  by (simp add: Register_def)

text \<open>C34. Running a call always answers: with the tool's own output and no error exactly when
  the tool is registered and succeeded, and otherwise with an output that starts with
  \<open>error: \<close> and an error of this package. A name nobody registered runs no code, is
  ErrToolNotRegistered, and the answer to the server is the same whatever else is registered.\<close>

theorem run_answers:
  "let ((output, err), w') = registryRun quote r info w in
   (err = None \<longleftrightarrow>
      (\<exists>f. lookup r (ti_Name info) = Some f \<and> f info w = (ToolReturned output None, w'))) \<and>
   (err = None \<or> take 7 output = ''error: '' \<and>
      (errIs ErrToolNotRegistered (the err) \<or> errIs ErrToolFailed (the err))) \<and>
   ((\<exists>f. lookup r (ti_Name info) = Some f) \<or>
      w' = w \<and> errIs ErrToolNotRegistered (the err) \<and> output = fst (fst (registryRun quote None info w)))"
  by (cases "lookup r (ti_Name info)")
     (auto simp: registryRun_def lookup_def sentinelIs_def Let_def split: option.splits toolResult.splits prod.splits)

end
