(* ===== verification/Chat.thy ===== *)
theory Chat
  imports Turn Stream Sessions Tools
begin

text \<open>
  chat.go: one prompt and the turn it produces.

  \<open>chatEnv\<close> is what a turn is given: the options of the chat, the server's answers to its
  posts (doJSON of the client) and the caller's consumer and hooks, each in the caller's state
  \<open>'w\<close>. \<open>turnRun\<close> is the mutable state of one turn, a field per field of the code's. \<open>drive\<close> is
  the turn loop: a range over \<open>Stream\<close> whose subscription hook posts the prompt.

  The lemmas are invariants of a turn's log (what it yielded, ran, posted and answered), kept
  by every operation and, through the client interface of Stream, by the whole turn.
\<close>

section \<open>The chat and a turn's state\<close>

record 'w chatEnv =
  ch_sessionID :: string
  ch_lib :: goLib
  ch_maxToolCalls :: int
  ch_turn :: turnOptions
  ch_stream :: streamOptions
  ch_onSkipped :: "(skippedFrame \<Rightarrow> 'w \<Rightarrow> goerr option \<times> 'w) option"
  ch_tools :: "'w toolRegistry option"
  ch_hooks :: "'w streamHooks"
  ch_post :: "(eventAccepted, 'w) exchange"
  ch_resolve :: "(unit, 'w) exchange"
  ch_yield :: "(streamStep, 'w) yield"

definition DefaultMaxToolCalls :: nat where
  "DefaultMaxToolCalls = 1024"

text \<open>Chat: refuses an empty session and a second subscription hook.\<close>

definition newChat :: "string \<Rightarrow> bool \<Rightarrow> goerr option" where
  "newChat sessionID hasOnSubscribed =
    (if sessionID = [] then Some (Errorf [Txt ''chat: '', Wrapped (Sentinel ErrInvalidArgument),
       Txt '': sessionID is required''])
     else if hasOnSubscribed then Some (Errorf [Txt ''chat: '', Wrapped (Sentinel ErrInvalidArgument),
       Txt '': ChatOptions.Stream.OnSubscribed is reserved, '',
       Txt ''because a turn posts its prompt there''])
     else None)"

definition toolBudget :: "'w chatEnv \<Rightarrow> nat" where
  "toolBudget env =
    (if ch_maxToolCalls env = 0 then DefaultMaxToolCalls
     else if ch_maxToolCalls env < 0 then 0
     else nat (ch_maxToolCalls env))"

record 'w turnRun =
  run_tracker :: turnTracker
  run_dispatched :: "bool gomap"
  run_responseID :: string
  run_unfinishable :: bool
  run_announced :: "bool gomap"
  run_stopped :: bool
  run_world :: 'w

definition newTurnRun :: "'w chatEnv \<Rightarrow> 'w \<Rightarrow> 'w turnRun" where
  "newTurnRun env w = \<lparr>run_tracker = newTurnTracker (ch_turn env) (ch_sessionID env),
     run_dispatched = [], run_responseID = [], run_unfinishable = False, run_announced = [],
     run_stopped = False, run_world = w\<rparr>"

section \<open>Reporting\<close>

definition emit :: "'w chatEnv \<Rightarrow> streamStep \<Rightarrow> 'w turnRun \<Rightarrow> bool \<times> 'w turnRun" where
  "emit env x r =
    (if run_stopped r then (False, r)
     else let (go, w) = ch_yield env x (run_world r) in
       if go then (True, r\<lparr>run_world := w\<rparr>)
       else (False, r\<lparr>run_world := w, run_stopped := True\<rparr>))"

definition report :: "'w chatEnv \<Rightarrow> goerr \<Rightarrow> 'w turnRun \<Rightarrow> 'w turnRun" where
  "report env err r = snd (emit env (None, Some err) r)"

text \<open>A hook of the caller, run on the caller's state inside the turn's.\<close>

definition onWorld :: "('p, 'w) hook \<Rightarrow> ('p, 'w turnRun) hook" where
  "onWorld h p r = (let (res, w) = h p (run_world r) in (res, r\<lparr>run_world := w\<rparr>))"

definition fireHook :: "'w chatEnv \<Rightarrow> string \<Rightarrow> ('p, 'w) hook option \<Rightarrow> 'p \<Rightarrow> 'w turnRun \<Rightarrow> 'w turnRun" where
  "fireHook env name hook p r = fire (report env) name (map_option onWorld hook) p r"

section \<open>Tracking\<close>

definition beginResponse :: "string \<Rightarrow> 'w turnRun \<Rightarrow> 'w turnRun" where
  "beginResponse rid r =
    (if rid = [] \<or> run_responseID r = rid then r else r\<lparr>run_responseID := rid\<rparr>)"

text \<open>A nil event (None) matches no case.\<close>

definition track :: "event option \<Rightarrow> 'w turnRun \<Rightarrow> 'w turnRun" where
  "track evo r = (case map_option ev_body evo of
      None \<Rightarrow> r
    | Some body \<Rightarrow> (case body of
      ResponseCreatedEvent resp \<Rightarrow> beginResponse (resp_ID resp) r
    | InProgressEvent resp \<Rightarrow> beginResponse (resp_ID resp) r
    | QueuedEvent resp \<Rightarrow> beginResponse (resp_ID resp) r
    | e \<Rightarrow> r\<lparr>run_tracker := trackerStep e (run_tracker r)\<rparr>))"

section \<open>Responses\<close>

definition announceResponse :: "'w chatEnv \<Rightarrow> responseObject \<Rightarrow> 'w turnRun \<Rightarrow> 'w turnRun" where
  "announceResponse env resp r =
    (if resp_ID resp = [] \<or> boolAt (run_announced r) (resp_ID resp) then r
     else fireHook env ''OnResponseStart'' (OnResponseStart (ch_hooks env))
            \<lparr>rsc_ResponseID = resp_ID resp, rsc_Model = resp_Model resp\<rparr>
            (r\<lparr>run_announced := gput (resp_ID resp) True (run_announced r)\<rparr>))"

definition endResponse :: "'w chatEnv \<Rightarrow> responseObject \<Rightarrow> 'w turnRun \<Rightarrow> 'w turnRun" where
  "endResponse env resp r =
     fireHook env ''OnResponseEnd'' (OnResponseEnd (ch_hooks env))
       \<lparr>rec_ResponseID = resp_ID resp, rec_Status = resp_Status resp\<rparr>
       (announceResponse env resp r)"

section \<open>Tool calls\<close>

definition itemStatusActionRequired :: string where
  "itemStatusActionRequired = ''action_required''"

definition runTool :: "'w chatEnv \<Rightarrow> toolCallInfo \<Rightarrow> 'w turnRun \<Rightarrow> 'w turnRun" where
  "runTool env info r =
    (let ((output, runErr), w) =
           registryRun (lib_quote (ch_lib env)) (ch_tools env) info (run_world r);
         r = r\<lparr>run_world := w\<rparr>;
         r = fireHook env ''OnToolCallEnd'' (OnToolCallEnd (ch_hooks env))
               \<lparr>tce_Name = ti_Name info, tce_CallID = ti_CallID info, tce_Output = output,
                tce_Err = runErr\<rparr> r;
         (accepted, w) = PostEvent (ch_post env) (ch_sessionID env)
            \<lparr>in_Type = InputTypeFunctionCallOutput,
             in_Data = [(''call_id'', JStr (ti_CallID info)), (''output'', JStr output)],
             in_ModelOverride = [], in_Tools = []\<rparr> (run_world r);
         r = r\<lparr>run_world := w\<rparr>
     in case accepted of
          Inl err \<Rightarrow> report env (Errorf [Txt ''post output for tool '',
            Quoted (sanitizeForError (ti_Name info) maxToolNameRunes), Txt '': '', Wrapped err]) r
        | Inr acc \<Rightarrow>
            if acc_Denied acc then
              report env (Errorf [Txt ''post output for tool '',
                Quoted (sanitizeForError (ti_Name info) maxToolNameRunes), Txt '': '',
                Wrapped (Sentinel ErrInputDenied), Txt '': '',
                Txt (sanitizeForError (acc_Reason acc) maxErrorFieldRunes)]) r
            else (case runErr of None \<Rightarrow> r | Some e \<Rightarrow> report env e r))"

definition observeItem :: "'w chatEnv \<Rightarrow> jmap \<Rightarrow> 'w turnRun \<Rightarrow> 'w turnRun" where
  "observeItem env item r =
    (if itemString item ''type'' \<noteq> ''function_call'' then r
     else
       let callID = TrimSpace (itemString item ''call_id'');
           name = TrimSpace (itemString item ''name'')
       in if callID = [] \<or> name = [] then r
       else
         let awaitingClient = (itemString item ''status'' = itemStatusActionRequired);
             info = \<lparr>ti_Name = name, ti_Arguments = itemArguments (ch_lib env) item,
                     ti_CallID = callID, ti_ItemID = itemString item ''id''\<rparr>;
             r = fireHook env ''OnToolCallStart'' (OnToolCallStart (ch_hooks env))
                   \<lparr>tcs_Name = name, tcs_CallID = callID,
                    tcs_AgentName = itemString item ''agent_name'',
                    tcs_Arguments = ti_Arguments info,
                    tcs_ExecutedBy = (if awaitingClient then ''client'' else ''server'')\<rparr> r
         in if \<not> awaitingClient then r
         else if boolAt (run_dispatched r) callID then
           report env (Errorf [Wrapped (Sentinel ErrToolCallDuplicated), Txt '': '',
             Txt (sanitizeForError callID maxRequestIDRunes), Txt '' already ran'']) r
         else if 0 < toolBudget env \<and> toolBudget env \<le> length (run_dispatched r) then
           (report env (Errorf [Wrapped (Sentinel ErrToolCallBudget), Txt '': '',
              Num (int (toolBudget env)), Txt '' in one turn; raise ChatOptions.MaxToolCalls '',
              Txt ''if this turn is legitimate'']) r)\<lparr>run_unfinishable := True\<rparr>
         else runTool env info (r\<lparr>run_dispatched := gput callID True (run_dispatched r)\<rparr>))"

section \<open>Approvals\<close>

definition elicitationTarget :: "string \<Rightarrow> elicitationParams \<Rightarrow> string" where
  "elicitationTarget reading p = (case el_TargetSessionID p of
      Some named \<Rightarrow> if named \<noteq> [] then named else reading
    | None \<Rightarrow> reading)"

definition orEmpty :: "string option \<Rightarrow> string" where
  "orEmpty s = (case s of Some t \<Rightarrow> t | None \<Rightarrow> [])"

definition elicitationCtxOf :: "string \<Rightarrow> string \<Rightarrow> string \<Rightarrow> elicitationParams \<Rightarrow> elicitationCtx" where
  "elicitationCtxOf fallbackSession responseID eid p =
     \<lparr>ec_SessionID = elicitationTarget fallbackSession p, ec_ElicitationID = eid,
      ec_Message = el_Message p, ec_Phase = orEmpty (el_Phase p),
      ec_PolicyName = orEmpty (el_PolicyName p), ec_Extra = el_AdditionalProperties p,
      ec_ContentPreview = orEmpty (el_ContentPreview p), ec_Mode = orEmpty (el_Mode p),
      ec_URL = orEmpty (el_URL p), ec_RequestedSchema = el_RequestedSchema p,
      ec_ResponseID = responseID\<rparr>"

definition decideElicitation ::
  "'w chatEnv \<Rightarrow> string \<Rightarrow> elicitationParams \<Rightarrow> 'w turnRun \<Rightarrow> bool \<times> 'w turnRun" where
  "decideElicitation env eid p r = (case OnElicitation (ch_hooks env) of
      None \<Rightarrow> (False, r)
    | Some hook \<Rightarrow>
        (case hook (elicitationCtxOf (ch_sessionID env) (run_responseID r) eid p) (run_world r) of
           (Inr accept, w) \<Rightarrow> (accept, r\<lparr>run_world := w\<rparr>)
         | (Inl recovered, w) \<Rightarrow>
             (False, report env (Errorf [Wrapped (Sentinel ErrHookPanicked),
                Txt '': hook OnElicitation, declined: '',
                Txt (sanitizeForError recovered maxErrorFieldRunes)]) (r\<lparr>run_world := w\<rparr>))))"

definition resolveElicitation ::
  "'w chatEnv \<Rightarrow> string \<Rightarrow> elicitationParams \<Rightarrow> 'w turnRun \<Rightarrow> 'w turnRun" where
  "resolveElicitation env eid p r =
    (let (accept, r) = decideElicitation env eid p r;
         verdict = (if accept then ElicitationAccept else ElicitationDecline);
         (err, w) = ResolveElicitation (ch_resolve env) (elicitationTarget (ch_sessionID env) p) eid
            \<lparr>er_Action = verdict, er_Content = []\<rparr> (run_world r);
         r = r\<lparr>run_world := w\<rparr>
     in case err of
          None \<Rightarrow> r
        | Some e \<Rightarrow> report env (Errorf [Txt ''resolve elicitation '',
            Txt (sanitizeForError eid maxRequestIDRunes), Txt '': '', Wrapped e]) r)"

section \<open>The turn loop\<close>

definition act :: "'w chatEnv \<Rightarrow> event option \<Rightarrow> 'w turnRun \<Rightarrow> 'w turnRun" where
  "act env evo r = (case map_option ev_body evo of
      None \<Rightarrow> r
    | Some body \<Rightarrow> (case body of
      ResponseCreatedEvent resp \<Rightarrow> announceResponse env resp r
    | InProgressEvent resp \<Rightarrow> announceResponse env resp r
    | QueuedEvent resp \<Rightarrow> announceResponse env resp r
    | ReasoningStartedEvent \<Rightarrow>
        fireHook env ''OnReasoningStart'' (OnReasoningStart (ch_hooks env)) (run_responseID r) r
    | RetryEvent x \<Rightarrow> fireHook env ''OnRetry'' (OnRetry (ch_hooks env))
        \<lparr>rc_Source = retry_Source x, rc_Attempt = retry_Attempt x,
         rc_MaxAttempts = retry_MaxAttempts x\<rparr> r
    | ErrorEvent x \<Rightarrow> fireHook env ''OnServerError'' (OnServerError (ch_hooks env))
        \<lparr>sec_Message = err_Message x, sec_Source = err_Source x, sec_Code = err_Code x\<rparr> r
    | OutputFileDoneEvent fid fname \<Rightarrow> fireHook env ''OnFileOutput'' (OnFileOutput (ch_hooks env))
        \<lparr>fo_FileID = fid, fo_Filename = orEmpty fname\<rparr> r
    | ElicitationRequestEvent eid p \<Rightarrow> resolveElicitation env eid p r
    | OutputItemDoneEvent item \<Rightarrow> observeItem env item r
    | ResponseCompletedEvent resp \<Rightarrow> endResponse env resp r
    | ResponseCancelledEvent resp \<Rightarrow> endResponse env resp r
    | IncompleteEvent resp \<Rightarrow> endResponse env resp r
    | ResponseFailedEvent resp \<Rightarrow> endResponse env resp r
    | _ \<Rightarrow> r))"

text \<open>The body of the range loop: True to go on, False when drive returns.\<close>

definition driveBody :: "'w chatEnv \<Rightarrow> streamStep \<Rightarrow> 'w turnRun \<Rightarrow> bool \<times> 'w turnRun" where
  "driveBody env x r = (case x of
      (_, Some err) \<Rightarrow> (False, snd (emit env (None, Some err) r))
    | (evo, None) \<Rightarrow>
        let (go, r) = emit env (evo, None) (track evo r) in
        if \<not> go then (False, r)
        else
          let r = act env evo r in
          if run_stopped r \<or> run_unfinishable r then (False, r)
          else if ended (run_tracker r) then
            (False, case tr_failure (run_tracker r) of
                Some f \<Rightarrow> snd (emit env (None, Some f) r)
              | None \<Rightarrow> r)
          else (True, r))"

definition onSubscribedHook ::
  "'w chatEnv \<Rightarrow> string \<Rightarrow> subscription \<Rightarrow> 'w turnRun \<Rightarrow> goerr option \<times> 'w turnRun" where
  "onSubscribedHook env t sub r =
    (let (res, w) = SendMessage (ch_post env) (sub_SessionID sub) t (run_world r);
         r = r\<lparr>run_world := w\<rparr>
     in case res of
          Inl err \<Rightarrow> (Some (Errorf [Txt ''send prompt: '', Wrapped err]), r)
        | Inr accepted \<Rightarrow>
            if acc_Denied accepted then
              (Some (Errorf [Txt ''send prompt: '', Wrapped (Sentinel ErrInputDenied), Txt '': '',
                 Txt (sanitizeForError (acc_Reason accepted) maxErrorFieldRunes)]), r)
            else (None, r\<lparr>run_tracker := anchorOn (anchorOf (Some accepted)) (run_tracker r)\<rparr>))"

text \<open>The range over the stream: the flag records that the body returned from drive.\<close>

definition driveCalls :: "'w chatEnv \<Rightarrow> string \<Rightarrow> (bool \<times> 'w turnRun) streamCalls" where
  "driveCalls env t =
     \<lparr>onYield = (\<lambda>x (left, r). let (go, r') = driveBody env x r in (go, (\<not> go, r'))),
      onSubscribed = Some (\<lambda>sub (left, r).
        let (err, r') = onSubscribedHook env t sub r in (err, (left, r'))),
      onSkippedFrame = map_option (\<lambda>h fr (left, r).
        let (err, w) = h fr (run_world r) in (err, (left, r\<lparr>run_world := w\<rparr>))) (ch_onSkipped env)\<rparr>"

definition drive ::
  "jsonDeps \<Rightarrow> int \<Rightarrow> 'w chatEnv \<Rightarrow> string \<Rightarrow> opened \<Rightarrow> 'w \<Rightarrow> 'w turnRun" where
  "drive deps clientIdle env t conn w =
    (let (left, r) = Stream deps clientIdle (driveCalls env t) (ch_stream env) (ch_sessionID env) conn
           (False, newTurnRun env w)
     in if \<not> left \<and> \<not> ended (run_tracker r) \<and> \<not> run_stopped r \<and> \<not> run_unfinishable r then
          snd (emit env (None, Some (Errorf [Txt ''turn on session '', Txt (ch_sessionID env),
            Txt '': '', Wrapped (Sentinel ErrTurnIncomplete)])) r)
        else r)"

text \<open>One read of a turn. The mutex makes the claim atomic, so reads are a sequence of claims.\<close>

definition claim :: "bool \<Rightarrow> bool \<times> bool" where
  "claim read = (\<not> read, True)"

definition Events ::
  "jsonDeps \<Rightarrow> int \<Rightarrow> 'w chatEnv \<Rightarrow> string \<Rightarrow> opened \<Rightarrow> bool \<times> 'w \<Rightarrow> bool \<times> 'w" where
  "Events deps clientIdle env t conn rw =
    (let (mine, read) = claim (fst rw) in
     if mine then (read, run_world (drive deps clientIdle env t conn (snd rw)))
     else (read, snd (ch_yield env (None, Some (Errorf [Txt ''read turn on session '',
            Txt (ch_sessionID env), Txt '': '', Wrapped (Sentinel ErrTurnAlreadyRead)])) (snd rw))))"

section \<open>What a turn does, as a log\<close>

text \<open>The calls a turn makes of the outside, in order: a step yielded and whether the caller goes
  on, a prompt posted, a tool run, an output posted, a verdict asked for and one posted, and the
  response hooks.\<close>

datatype chatObs =
    ObsEmit streamStep bool
  | ObsPrompt
  | ObsTool toolCallInfo
  | ObsOutput string
  | ObsDecide string string bool
  | ObsResolve "string list" elicitationAction
  | ObsStart string
  | ObsEnd string

definition postObs :: "request \<Rightarrow> chatObs" where
  "postObs rq = (case rq_Body rq of
      BodyEvent input \<Rightarrow>
        if in_Type input = InputTypeFunctionCallOutput then ObsOutput (itemString (in_Data input) ''call_id'')
        else ObsPrompt
    | _ \<Rightarrow> ObsPrompt)"

definition resolveObs :: "request \<Rightarrow> chatObs" where
  "resolveObs rq = (case rq_Body rq of
      BodyElicitation res \<Rightarrow> ObsResolve (rq_Segments rq) (er_Action res)
    | _ \<Rightarrow> ObsResolve (rq_Segments rq) ElicitationCancel)"

type_synonym 'w logged = "'w \<times> chatObs list"

definition logHook :: "('p \<Rightarrow> chatObs) \<Rightarrow> ('p, 'w) hook \<Rightarrow> ('p, 'w logged) hook" where
  "logHook f h p = (\<lambda>(w, l). let (res, w') = h p w in (res, (w', l @ [f p])))"

definition liftHook :: "('p, 'w) hook \<Rightarrow> ('p, 'w logged) hook" where
  "liftHook h p = (\<lambda>(w, l). let (res, w') = h p w in (res, (w', l)))"

definition logHooks :: "'w streamHooks \<Rightarrow> 'w logged streamHooks" where
  "logHooks hs =
     \<lparr>OnResponseStart = map_option (logHook (\<lambda>p. ObsStart (rsc_ResponseID p))) (OnResponseStart hs),
      OnResponseEnd = map_option (logHook (\<lambda>p. ObsEnd (rec_ResponseID p))) (OnResponseEnd hs),
      OnToolCallStart = map_option liftHook (OnToolCallStart hs),
      OnToolCallEnd = map_option liftHook (OnToolCallEnd hs),
      OnReasoningStart = map_option liftHook (OnReasoningStart hs),
      OnRetry = map_option liftHook (OnRetry hs),
      OnServerError = map_option liftHook (OnServerError hs),
      OnFileOutput = map_option liftHook (OnFileOutput hs),
      OnElicitation = map_option (\<lambda>h c. \<lambda>(w, l). let (res, w') = h c w in
        (res, (w', l @ [ObsDecide (ec_SessionID c) (ec_ElicitationID c)
                          (case res of Inr b \<Rightarrow> b | Inl _ \<Rightarrow> False)]))) (OnElicitation hs)\<rparr>"

definition logTools :: "'w toolRegistry \<Rightarrow> 'w logged toolRegistry" where
  "logTools reg =
     \<lparr>reg_tools = map (\<lambda>(n, f). (n, \<lambda>i (w, l). let (res, w') = f i w in (res, (w', l @ [ObsTool i]))))
        (reg_tools reg),
      reg_schemas = reg_schemas reg\<rparr>"

definition logEnv :: "'w chatEnv \<Rightarrow> 'w logged chatEnv" where
  "logEnv env =
     \<lparr>ch_sessionID = ch_sessionID env, ch_lib = ch_lib env, ch_maxToolCalls = ch_maxToolCalls env,
      ch_turn = ch_turn env, ch_stream = ch_stream env,
      ch_onSkipped = map_option (\<lambda>h fr. \<lambda>(w, l). let (res, w') = h fr w in (res, (w', l)))
        (ch_onSkipped env),
      ch_tools = map_option logTools (ch_tools env),
      ch_hooks = logHooks (ch_hooks env),
      ch_post = (\<lambda>rq (w, l). let (res, w') = ch_post env rq w in (res, (w', l @ [postObs rq]))),
      ch_resolve = (\<lambda>rq (w, l). let (res, w') = ch_resolve env rq w in (res, (w', l @ [resolveObs rq]))),
      ch_yield = (\<lambda>x (w, l). let (go, w') = ch_yield env x w in (go, (w', l @ [ObsEmit x go])))\<rparr>"

section \<open>Reading the log\<close>

fun isEmit :: "chatObs \<Rightarrow> bool" where
  "isEmit (ObsEmit x go) = True"
| "isEmit _ = False"

fun goOf :: "chatObs \<Rightarrow> bool list" where
  "goOf (ObsEmit x go) = [go]"
| "goOf _ = []"

fun outputOf :: "chatObs \<Rightarrow> string list" where
  "outputOf (ObsOutput c) = [c]"
| "outputOf _ = []"

fun startOf :: "chatObs \<Rightarrow> string list" where
  "startOf (ObsStart rid) = [rid]"
| "startOf _ = []"

definition emits :: "chatObs list \<Rightarrow> bool list" where
  "emits l = concat (map goOf l)"

definition acts :: "chatObs list \<Rightarrow> chatObs list" where
  "acts l = filter (\<lambda>x. \<not> isEmit x) l"

definition outputs :: "chatObs list \<Rightarrow> string list" where
  "outputs l = concat (map outputOf l)"

definition starts :: "chatObs list \<Rightarrow> string list" where
  "starts l = concat (map startOf l)"

lemma log_append [simp]:
  "emits (l @ m) = emits l @ emits m" "acts (l @ m) = acts l @ acts m"
  "outputs (l @ m) = outputs l @ outputs m" "starts (l @ m) = starts l @ starts m"
  by (simp_all add: emits_def acts_def outputs_def starts_def)

lemma log_single [simp]:
  "emits [x] = goOf x" "acts [x] = (if isEmit x then [] else [x])"
  "outputs [x] = outputOf x" "starts [x] = startOf x"
  "emits [] = []" "acts [] = []" "outputs [] = []" "starts [] = []"
  by (simp_all add: emits_def acts_def outputs_def starts_def)

text \<open>Every tool that ran is answered at once, by a post of its own call id.\<close>

fun toolsAnswered :: "chatObs list \<Rightarrow> bool" where
  "toolsAnswered [] = True"
| "toolsAnswered (ObsTool i # rest) = (case rest of
      ObsOutput c # l \<Rightarrow> c = ti_CallID i \<and> toolsAnswered l
    | _ \<Rightarrow> False)"
| "toolsAnswered (x # l) = toolsAnswered l"

fun isTool :: "chatObs \<Rightarrow> bool" where
  "isTool (ObsTool i) = True"
| "isTool _ = False"

lemma toolsAnswered_append: "toolsAnswered l \<Longrightarrow> toolsAnswered m \<Longrightarrow> toolsAnswered (l @ m)"
  by (induction l rule: toolsAnswered.induct) (auto split: list.splits chatObs.splits)

lemma toolsAnswered_single [simp]: "toolsAnswered [x] \<longleftrightarrow> \<not> isTool x"
  by (cases x) simp_all

text \<open>An end that names a response comes after that response's start.\<close>

fun balanced :: "string set \<Rightarrow> chatObs list \<Rightarrow> bool" where
  "balanced S [] = True"
| "balanced S (ObsStart rid # l) = balanced (insert rid S) l"
| "balanced S (ObsEnd rid # l) = ((rid = [] \<or> rid \<in> S) \<and> balanced S l)"
| "balanced S (x # l) = balanced S l"

lemma balanced_append: "balanced S (l @ m) \<longleftrightarrow> balanced S l \<and> balanced (S \<union> set (starts l)) m"
proof (induction l arbitrary: S)
  case (Cons x l)
  then show ?case by (cases x) (simp_all add: starts_def)
qed simp

text \<open>An accept is posted right after the hook answered yes, to the session and for the request
  the hook was shown.\<close>

definition resolveRoute :: "string \<Rightarrow> string \<Rightarrow> string list" where
  "resolveRoute sid eid = [''v1'', ''sessions'', sid, ''elicitations'', eid, ''resolve'']"

fun approvalsOk :: "chatObs \<Rightarrow> chatObs list \<Rightarrow> bool" where
  "approvalsOk prev [] = True"
| "approvalsOk prev (x # l) =
    ((case x of
        ObsResolve route ElicitationAccept \<Rightarrow>
          (case prev of ObsDecide sid eid True \<Rightarrow> route = resolveRoute sid eid | _ \<Rightarrow> False)
      | _ \<Rightarrow> True) \<and> approvalsOk x l)"

lemma approvalsOk_append:
  "approvalsOk prev (l @ m) \<longleftrightarrow> approvalsOk prev l \<and> approvalsOk (last (prev # l)) m"
  by (induction l arbitrary: prev) auto

section \<open>Yielding changes nothing but the caller's side\<close>

definition logOf :: "'w logged turnRun \<Rightarrow> chatObs list" where
  "logOf r = snd (run_world r)"

definition stopInv :: "'w logged turnRun \<Rightarrow> bool" where
  "stopInv r \<longleftrightarrow> False \<notin> set (butlast (emits (logOf r))) \<and>
     (run_stopped r \<longleftrightarrow> emits (logOf r) \<noteq> [] \<and> \<not> last (emits (logOf r)))"

text \<open>What the side effects depend on: the log without the yields, and the turn's own fields.\<close>

definition actView :: "'w logged turnRun \<Rightarrow> chatObs list \<times> bool gomap \<times> bool gomap \<times> string \<times> bool \<times> turnTracker" where
  "actView r = (acts (logOf r), run_dispatched r, run_announced r, run_responseID r,
     run_unfinishable r, run_tracker r)"

lemma stopInv_yield:
  assumes "stopInv r" "\<not> run_stopped r" "logOf r' = logOf r @ [ObsEmit x go]" "run_stopped r' = (\<not> go)"
  shows "stopInv r'"
proof -
  have "False \<notin> set (emits (logOf r))"
    using assms(1,2) by (cases "emits (logOf r)" rule: rev_cases) (auto simp: stopInv_def)
  then show ?thesis using assms(3,4) by (simp add: stopInv_def)
qed

lemma stopInv_other:
  assumes "stopInv r" "emits (logOf r') = emits (logOf r)" "run_stopped r' = run_stopped r"
  shows "stopInv r'"
  using assms by (simp add: stopInv_def)

lemma emit_quiet:
  "actView (snd (emit (logEnv env) x r)) = actView r"
  "stopInv r \<Longrightarrow> stopInv (snd (emit (logEnv env) x r))"
  "fst (emit (logEnv env) x r) = (\<not> run_stopped (snd (emit (logEnv env) x r)))"
proof -
  obtain w l where w: "run_world r = (w, l)" by fastforce
  obtain go w' where y: "ch_yield env x w = (go, w')" by fastforce
  let ?r = "snd (emit (logEnv env) x r)"
  have e: "emit (logEnv env) x r = (if run_stopped r then (False, r)
      else (go, r\<lparr>run_world := (w', l @ [ObsEmit x go]), run_stopped := (\<not> go)\<rparr>))"
    by (simp add: emit_def logEnv_def w y)
  show "actView ?r = actView r" by (simp add: e actView_def logOf_def w)
  show "fst (emit (logEnv env) x r) = (\<not> run_stopped ?r)" by (simp add: e)
  show "stopInv r \<Longrightarrow> stopInv ?r"
    by (cases "run_stopped r") (simp add: e, rule stopInv_yield [of r], simp_all add: e logOf_def w)
qed

lemma report_quiet [simp]:
  "actView (report (logEnv env) err r) = actView r"
  "stopInv r \<Longrightarrow> stopInv (report (logEnv env) err r)"
  by (simp_all add: report_def emit_quiet)

text \<open>A hook that is not logged changes neither; a logged one adds its entry.\<close>

lemma fire_lift [simp]:
  "actView (fireHook (logEnv env) name (map_option liftHook h) p r) = actView r"
  "stopInv r \<Longrightarrow> stopInv (fireHook (logEnv env) name (map_option liftHook h) p r)"
proof -
  obtain w l where w: "run_world r = (w, l)" by fastforce
  have "actView (fireHook (logEnv env) name (map_option liftHook h) p r) = actView r \<and>
    (stopInv r \<longrightarrow> stopInv (fireHook (logEnv env) name (map_option liftHook h) p r))"
  proof (cases h)
    case (Some g)
    obtain res w' where g: "g p w = (res, w')" by fastforce
    let ?r = "r\<lparr>run_world := (w', l)\<rparr>"
    have q: "actView ?r = actView r" "stopInv ?r = stopInv r"
      by (simp_all add: actView_def stopInv_def logOf_def w)
    show ?thesis
      by (cases res) (simp_all add: fireHook_def fire_def Some onWorld_def liftHook_def w g q)
  qed (simp add: fireHook_def fire_def)
  then show "actView (fireHook (logEnv env) name (map_option liftHook h) p r) = actView r"
    "stopInv r \<Longrightarrow> stopInv (fireHook (logEnv env) name (map_option liftHook h) p r)" by auto
qed

lemma fire_log:
  assumes "\<not> isEmit (f p)"
  shows "actView (fireHook (logEnv env) name (map_option (logHook f) h) p r) =
      (case h of None \<Rightarrow> actView r
       | Some _ \<Rightarrow> (fst (actView r) @ [f p], snd (actView r)))"
    and "stopInv r \<Longrightarrow> stopInv (fireHook (logEnv env) name (map_option (logHook f) h) p r)"
proof -
  obtain w l where w: "run_world r = (w, l)" by fastforce
  have e: "goOf (f p) = []" using assms by (cases "f p") simp_all
  have "actView (fireHook (logEnv env) name (map_option (logHook f) h) p r) =
      (case h of None \<Rightarrow> actView r | Some _ \<Rightarrow> (fst (actView r) @ [f p], snd (actView r))) \<and>
    (stopInv r \<longrightarrow> stopInv (fireHook (logEnv env) name (map_option (logHook f) h) p r))"
  proof (cases h)
    case (Some g)
    obtain res w' where g: "g p w = (res, w')" by fastforce
    let ?r = "r\<lparr>run_world := (w', l @ [f p])\<rparr>"
    have q: "actView ?r = (fst (actView r) @ [f p], snd (actView r))" "stopInv r \<longrightarrow> stopInv ?r"
      using assms e by (simp_all add: actView_def stopInv_def logOf_def w)
    show ?thesis using q
      by (cases res) (simp_all add: fireHook_def fire_def Some onWorld_def logHook_def w g)
  qed (simp add: fireHook_def fire_def)
  then show "actView (fireHook (logEnv env) name (map_option (logHook f) h) p r) =
      (case h of None \<Rightarrow> actView r | Some _ \<Rightarrow> (fst (actView r) @ [f p], snd (actView r)))"
    "stopInv r \<Longrightarrow> stopInv (fireHook (logEnv env) name (map_option (logHook f) h) p r)" by auto
qed

section \<open>The invariant of a turn\<close>

definition allTrue :: "bool gomap \<Rightarrow> bool" where
  "allTrue m \<longleftrightarrow> gwf m \<and> (\<forall>k \<in> gkeys m. map_of m k = Some True)"

lemma allTrue_Nil [simp]: "allTrue []"
  by (simp add: allTrue_def)

lemma allTrue_put: "allTrue m \<Longrightarrow> allTrue (gput k True m)"
  by (auto simp: allTrue_def)

lemma boolAt_allTrue: "allTrue m \<Longrightarrow> boolAt m k \<longleftrightarrow> k \<in> gkeys m"
  by (auto simp: allTrue_def boolAt_def gkeys_dom split: option.split)

text \<open>Calls: answered at once, each call id at most once, within the budget.\<close>

definition callsInv :: "nat \<Rightarrow> chatObs list \<Rightarrow> bool gomap \<Rightarrow> bool" where
  "callsInv budget a d \<longleftrightarrow> toolsAnswered a \<and> distinct (outputs a) \<and> set (outputs a) \<subseteq> gkeys d \<and>
     allTrue d \<and> (budget = 0 \<or> length d \<le> budget)"

text \<open>Responses: one start each, and no end of a response without its start.\<close>

definition responsesInv :: "bool \<Rightarrow> chatObs list \<Rightarrow> bool gomap \<Rightarrow> bool" where
  "responsesInv hasStart a n \<longleftrightarrow> distinct (starts a) \<and> set (starts a) \<subseteq> gkeys n \<and> allTrue n \<and>
     (hasStart \<longrightarrow> set (starts a) = gkeys n \<and> balanced {} a)"

text \<open>The prompt comes first, once.\<close>

definition promptFirst :: "chatObs list \<Rightarrow> bool" where
  "promptFirst a \<longleftrightarrow> a \<noteq> [] \<and> hd a = ObsPrompt \<and> ObsPrompt \<notin> set (tl a)"

definition hasStart :: "'w chatEnv \<Rightarrow> bool" where
  "hasStart env \<longleftrightarrow> OnResponseStart (ch_hooks env) \<noteq> None"

definition viewInv :: "'w chatEnv \<Rightarrow> chatObs list \<times> bool gomap \<times> bool gomap \<times> 'x \<Rightarrow> bool" where
  "viewInv env v = (case v of (a, d, n, _) \<Rightarrow>
     callsInv (toolBudget env) a d \<and> responsesInv (hasStart env) a n \<and>
     approvalsOk ObsPrompt a \<and> promptFirst a)"

definition chatInv :: "'w chatEnv \<Rightarrow> 'w logged turnRun \<Rightarrow> bool" where
  "chatInv env r \<longleftrightarrow> stopInv r \<and> viewInv env (actView r)"

lemma chatInv_quiet:
  "chatInv env r \<Longrightarrow> actView r' = actView r \<Longrightarrow> (stopInv r \<Longrightarrow> stopInv r') \<Longrightarrow> chatInv env r'"
  by (simp add: chatInv_def)

lemma chatInv_emit: "chatInv env r \<Longrightarrow> chatInv env (snd (emit (logEnv env) x r))"
  by (erule chatInv_quiet) (simp_all add: emit_quiet)

lemma chatInv_report: "chatInv env r \<Longrightarrow> chatInv env (report (logEnv env) err r)"
  by (erule chatInv_quiet) simp_all

lemma chatInv_fire: "chatInv env r \<Longrightarrow> chatInv env (fireHook (logEnv env) name (map_option liftHook h) p r)"
  by (erule chatInv_quiet) simp_all

lemma logEnv_simps [simp]:
  "toolBudget (logEnv env) = toolBudget env" "ch_sessionID (logEnv env) = ch_sessionID env"
  "ch_lib (logEnv env) = ch_lib env" "ch_hooks (logEnv env) = logHooks (ch_hooks env)"
  "ch_tools (logEnv env) = map_option logTools (ch_tools env)"
  "ch_turn (logEnv env) = ch_turn env" "ch_stream (logEnv env) = ch_stream env"
  by (simp_all add: logEnv_def toolBudget_def)

lemma logHooks_simps [simp]:
  "OnResponseStart (logHooks hs) = map_option (logHook (\<lambda>p. ObsStart (rsc_ResponseID p))) (OnResponseStart hs)"
  "OnResponseEnd (logHooks hs) = map_option (logHook (\<lambda>p. ObsEnd (rec_ResponseID p))) (OnResponseEnd hs)"
  "OnToolCallStart (logHooks hs) = map_option liftHook (OnToolCallStart hs)"
  "OnToolCallEnd (logHooks hs) = map_option liftHook (OnToolCallEnd hs)"
  "OnReasoningStart (logHooks hs) = map_option liftHook (OnReasoningStart hs)"
  "OnRetry (logHooks hs) = map_option liftHook (OnRetry hs)"
  "OnServerError (logHooks hs) = map_option liftHook (OnServerError hs)"
  "OnFileOutput (logHooks hs) = map_option liftHook (OnFileOutput hs)"
  by (simp_all add: logHooks_def)

section \<open>Responses keep it\<close>

lemma viewInv_start:
  assumes "viewInv env (a, d, n, x)" "\<not> boolAt n rid"
  shows "viewInv env (a @ [ObsStart rid], d, gput rid True n, x)"
    and "\<not> hasStart env \<Longrightarrow> viewInv env (a, d, gput rid True n, x)"
proof -
  have n: "allTrue n" and new: "rid \<notin> set (starts a)"
    using assms by (auto simp: viewInv_def responsesInv_def boolAt_allTrue)
  have a: "a \<noteq> []" using assms(1) by (auto simp: viewInv_def promptFirst_def)
  show "viewInv env (a @ [ObsStart rid], d, gput rid True n, x)"
    using assms(1) new n a
    by (auto simp: viewInv_def callsInv_def responsesInv_def promptFirst_def allTrue_put
        toolsAnswered_append balanced_append approvalsOk_append)
  show "\<not> hasStart env \<Longrightarrow> viewInv env (a, d, gput rid True n, x)"
    using assms(1) n by (auto simp: viewInv_def responsesInv_def allTrue_put)
qed

lemma announce_view:
  "actView (announceResponse (logEnv env) resp r) =
    (case actView r of (a, d, n, x) \<Rightarrow>
       if resp_ID resp = [] \<or> boolAt n (resp_ID resp) then (a, d, n, x)
       else (if hasStart env then a @ [ObsStart (resp_ID resp)] else a, d, gput (resp_ID resp) True n, x))"
  "stopInv r \<Longrightarrow> stopInv (announceResponse (logEnv env) resp r)"
proof -
  let ?r = "r\<lparr>run_announced := gput (resp_ID resp) True (run_announced r)\<rparr>"
  have v: "actView ?r = (acts (logOf r), run_dispatched r, gput (resp_ID resp) True (run_announced r),
      run_responseID r, run_unfinishable r, run_tracker r)" "stopInv ?r = stopInv r"
    by (simp_all add: actView_def logOf_def stopInv_def)
  show "actView (announceResponse (logEnv env) resp r) =
    (case actView r of (a, d, n, x) \<Rightarrow>
       if resp_ID resp = [] \<or> boolAt n (resp_ID resp) then (a, d, n, x)
       else (if hasStart env then a @ [ObsStart (resp_ID resp)] else a, d, gput (resp_ID resp) True n, x))"
    by (simp add: announceResponse_def fire_log v split: option.split) (auto simp: actView_def hasStart_def)
  show "stopInv r \<Longrightarrow> stopInv (announceResponse (logEnv env) resp r)"
    by (simp add: announceResponse_def fire_log v)
qed

lemma chatInv_announce: "chatInv env r \<Longrightarrow> chatInv env (announceResponse (logEnv env) resp r)"
proof -
  assume c: "chatInv env r"
  obtain a d n x where v: "actView r = (a, d, n, x)" by (metis prod_cases4)
  have i: "viewInv env (a, d, n, x)" using c v by (simp add: chatInv_def)
  show ?thesis
    using c viewInv_start [OF i, of "resp_ID resp"] i
    by (simp add: chatInv_def announce_view v)
qed

lemma chatInv_endResponse: "chatInv env r \<Longrightarrow> chatInv env (endResponse (logEnv env) resp r)"
proof -
  assume c: "chatInv env r"
  let ?r = "announceResponse (logEnv env) resp r"
  obtain a d n x where v: "actView r = (a, d, n, x)" by (metis prod_cases4)
  obtain a' d' n' x' where v': "actView ?r = (a', d', n', x')" by (metis prod_cases4)
  have c': "chatInv env ?r" using c by (rule chatInv_announce)
  then have i: "viewInv env (a', d', n', x')" using v' by (simp add: chatInv_def)
  have known: "resp_ID resp = [] \<or> resp_ID resp \<in> gkeys n'"
    using announce_view(1) [of env resp r] v v' c
    by (auto simp: chatInv_def viewInv_def responsesInv_def boolAt_allTrue split: if_splits)
  have a': "a' \<noteq> []" using i by (auto simp: viewInv_def promptFirst_def)
  have "viewInv env (a' @ [ObsEnd (resp_ID resp)], d', n', x')"
    using i known a'
    by (auto simp: viewInv_def callsInv_def responsesInv_def promptFirst_def
        toolsAnswered_append balanced_append approvalsOk_append)
  then show ?thesis
    using c' i by (simp add: endResponse_def chatInv_def fire_log v' split: option.split)
qed

section \<open>How a turn ends\<close>

fun errOf :: "chatObs \<Rightarrow> goerr list" where
  "errOf (ObsEmit (_, Some err) go) = [err]"
| "errOf _ = []"

definition errs :: "chatObs list \<Rightarrow> goerr list" where
  "errs l = concat (map errOf l)"

lemma errs_append [simp]: "errs (l @ m) = errs l @ errs m" "errs [x] = errOf x" "errs [] = []"
  by (simp_all add: errs_def)

lemma errOf_emit [simp]: "errOf (ObsEmit x go) = (case snd x of Some e \<Rightarrow> [e] | None \<Rightarrow> [])"
  by (cases "ObsEmit x go" rule: errOf.cases) auto

text \<open>A turn that has reported nothing and whose caller still reads.\<close>

definition errFree :: "'w logged turnRun \<Rightarrow> bool" where
  "errFree r \<longleftrightarrow> errs (logOf r) = [] \<and> \<not> run_stopped r"

definition keeps :: "'w logged turnRun \<Rightarrow> 'w logged turnRun \<Rightarrow> bool" where
  "keeps r r' \<longleftrightarrow> (errFree r' \<longrightarrow> errFree r \<and> run_unfinishable r' = run_unfinishable r \<and>
     run_tracker r' = run_tracker r)"

lemma keeps_refl [simp]: "keeps r r"
  by (simp add: keeps_def)

lemma keeps_trans: "keeps r r' \<Longrightarrow> keeps r' r'' \<Longrightarrow> keeps r r''"
  by (auto simp: keeps_def)

lemma emit_err: "\<not> errFree (snd (emit (logEnv env) (e, Some err) r))"
  by (cases "run_world r") (auto simp: emit_def logEnv_def errFree_def logOf_def split: prod.split)

lemma emit_event: "keeps r (snd (emit (logEnv env) (e, None) r))"
  by (cases "run_world r") (auto simp: emit_def logEnv_def errFree_def logOf_def keeps_def split: prod.splits)

lemma report_err [simp]: "\<not> errFree (report (logEnv env) err r)"
  by (simp add: report_def emit_err)

lemma keeps_report [simp]: "keeps r (report (logEnv env) err r')"
  by (simp add: keeps_def)

lemma keeps_world:
  assumes "run_world r = (w, l)" "\<not> isEmit x"
  shows "keeps r (r\<lparr>run_world := (w', l @ [x])\<rparr>)" "keeps r (r\<lparr>run_world := (w', l)\<rparr>)"
  using assms by (cases x; simp add: keeps_def errFree_def logOf_def)+

lemma keeps_fire_lift [simp]: "keeps r (fireHook (logEnv env) name (map_option liftHook h) p r)"
proof (cases h)
  case (Some g)
  obtain w l where w: "run_world r = (w, l)" by fastforce
  obtain res w' where g: "g p w = (res, w')" by fastforce
  show ?thesis using keeps_world(2) [OF w, of ObsPrompt w']
    by (cases res) (simp_all add: fireHook_def fire_def Some onWorld_def liftHook_def w g)
qed (simp add: fireHook_def fire_def)

lemma keeps_fire_log:
  "\<not> isEmit (f p) \<Longrightarrow> keeps r (fireHook (logEnv env) name (map_option (logHook f) h) p r)"
proof (cases h)
  case (Some g)
  assume f: "\<not> isEmit (f p)"
  obtain w l where w: "run_world r = (w, l)" by fastforce
  obtain res w' where g: "g p w = (res, w')" by fastforce
  show ?thesis using keeps_world(1) [OF w f, of w']
    by (cases res) (simp_all add: fireHook_def fire_def Some onWorld_def logHook_def w g)
qed (simp add: fireHook_def fire_def)

lemma keeps_announce: "keeps r (announceResponse (logEnv env) resp r)"
proof -
  let ?r = "r\<lparr>run_announced := gput (resp_ID resp) True (run_announced r)\<rparr>"
  have "keeps r ?r" by (simp add: keeps_def errFree_def logOf_def)
  then show ?thesis
    by (simp add: announceResponse_def, intro impI, rule keeps_trans [OF _ keeps_fire_log]) simp_all
qed

lemma keeps_endResponse: "keeps r (endResponse (logEnv env) resp r)"
  by (simp add: endResponse_def) (rule keeps_trans [OF keeps_announce keeps_fire_log], simp)

section \<open>Tool calls keep it\<close>

lemma lookup_log:
  "lookup (map_option logTools t) name =
    map_option (\<lambda>f i. \<lambda>(w, l). let (res, w') = f i w in (res, (w', l @ [ObsTool i]))) (lookup t name)"
  by (cases t) (simp_all add: lookup_def logTools_def map_of_map)

lemma registryRun_log:
  "\<exists>w' m. snd (registryRun q (map_option logTools t) info (w, l)) = (w', l @ m) \<and>
     (m = [] \<or> m = [ObsTool info])"
  by (auto simp: registryRun_def lookup_log Let_def
      split: option.split prod.split toolResult.split)

text \<open>A change of the caller's state that appends to the log.\<close>

lemma world_append:
  assumes "run_world r = (w, l)" "\<not> isEmit x"
  shows "actView (r\<lparr>run_world := (w', l @ [x])\<rparr>) = (fst (actView r) @ [x], snd (actView r))"
    and "stopInv (r\<lparr>run_world := (w', l @ [x])\<rparr>) = stopInv r"
  using assms by (cases x; simp add: actView_def stopInv_def logOf_def)+

lemma world_same:
  assumes "run_world r = (w, l)"
  shows "actView (r\<lparr>run_world := (w', l)\<rparr>) = actView r"
    and "stopInv (r\<lparr>run_world := (w', l)\<rparr>) = stopInv r"
  using assms by (simp_all add: actView_def stopInv_def logOf_def)

definition outputRequest :: "string \<Rightarrow> toolCallInfo \<Rightarrow> string \<Rightarrow> request" where
  "outputRequest sid info output = \<lparr>rq_Method = POST,
     rq_Segments = [''v1'', ''sessions'', sid, ''events''], rq_Query = [],
     rq_Body = BodyEvent \<lparr>in_Type = InputTypeFunctionCallOutput,
       in_Data = [(''call_id'', JStr (ti_CallID info)), (''output'', JStr output)],
       in_ModelOverride = [], in_Tools = []\<rparr>\<rparr>"

lemma postObs_output: "postObs (outputRequest sid info output) = ObsOutput (ti_CallID info)"
  by (simp add: postObs_def outputRequest_def itemString_def)

text \<open>What follows the post of an output: at most a report.\<close>

definition afterPost ::
  "'w chatEnv \<Rightarrow> toolCallInfo \<Rightarrow> goerr option \<Rightarrow> goerr + eventAccepted \<Rightarrow> 'w turnRun \<Rightarrow> 'w turnRun" where
  "afterPost env info runErr accepted r = (case accepted of
      Inl err \<Rightarrow> report env (Errorf [Txt ''post output for tool '',
        Quoted (sanitizeForError (ti_Name info) maxToolNameRunes), Txt '': '', Wrapped err]) r
    | Inr acc \<Rightarrow>
        if acc_Denied acc then
          report env (Errorf [Txt ''post output for tool '',
            Quoted (sanitizeForError (ti_Name info) maxToolNameRunes), Txt '': '',
            Wrapped (Sentinel ErrInputDenied), Txt '': '',
            Txt (sanitizeForError (acc_Reason acc) maxErrorFieldRunes)]) r
        else (case runErr of None \<Rightarrow> r | Some e \<Rightarrow> report env e r))"

lemma afterPost_quiet [simp]:
  "actView (afterPost (logEnv env) info runErr accepted r) = actView r"
  "stopInv r \<Longrightarrow> stopInv (afterPost (logEnv env) info runErr accepted r)"
  by (simp_all add: afterPost_def split: sum.split option.split)

lemma keeps_afterPost: "keeps r r' \<Longrightarrow> keeps r (afterPost (logEnv env) info runErr accepted r')"
  by (simp add: afterPost_def split: sum.split option.split)

lemma runTool_steps:
  assumes "ch_sessionID env \<noteq> []"
    "registryRun (lib_quote (ch_lib env)) (ch_tools env) info (run_world r) = ((output, runErr), w1)"
    "fireHook env ''OnToolCallEnd'' (OnToolCallEnd (ch_hooks env))
       \<lparr>tce_Name = ti_Name info, tce_CallID = ti_CallID info, tce_Output = output, tce_Err = runErr\<rparr>
       (r\<lparr>run_world := w1\<rparr>) = r2"
    "ch_post env (outputRequest (ch_sessionID env) info output) (run_world r2) = (accepted, w3)"
  shows "runTool env info r = afterPost env info runErr accepted (r2\<lparr>run_world := w3\<rparr>)"
proof -
  have "InputTypeFunctionCallOutput \<noteq> []" by (simp add: InputTypeFunctionCallOutput_def)
  then show ?thesis
    using assms by (simp add: runTool_def afterPost_def PostEvent_def outputRequest_def) (simp add: Let_def)
qed

lemma runTool_view:
  assumes "ch_sessionID env \<noteq> []"
  shows "\<exists>m. actView (runTool (logEnv env) info r) =
      (fst (actView r) @ m @ [ObsOutput (ti_CallID info)], snd (actView r)) \<and>
      (m = [] \<or> m = [ObsTool info]) \<and> (stopInv r \<longrightarrow> stopInv (runTool (logEnv env) info r)) \<and> keeps r (runTool (logEnv env) info r)"
proof -
  obtain w l where w: "run_world r = (w, l)" by fastforce
  obtain out runErr w1 where run: "registryRun (lib_quote (ch_lib env)) (map_option logTools (ch_tools env)) info (w, l)
      = ((out, runErr), w1)" by (metis prod.exhaust)
  obtain w1' m where w1: "w1 = (w1', l @ m)" and m: "m = [] \<or> m = [ObsTool info]"
    using registryRun_log [of "lib_quote (ch_lib env)" "ch_tools env" info w l] run by auto
  let ?r1 = "r\<lparr>run_world := w1\<rparr>"
  let ?p = "\<lparr>tce_Name = ti_Name info, tce_CallID = ti_CallID info, tce_Output = out, tce_Err = runErr\<rparr>"
  let ?r2 = "fireHook (logEnv env) ''OnToolCallEnd'' (map_option liftHook (OnToolCallEnd (ch_hooks env))) ?p ?r1"
  obtain w2 l2 where w2: "run_world ?r2 = (w2, l2)" by fastforce
  obtain accepted w3 where post: "ch_post env (outputRequest (ch_sessionID env) info out) w2 = (accepted, w3)"
    by fastforce
  let ?r3 = "?r2\<lparr>run_world := (w3, l2 @ [ObsOutput (ti_CallID info)])\<rparr>"
  have v1: "actView ?r1 = (fst (actView r) @ m, snd (actView r))" "stopInv ?r1 = stopInv r"
    using m by (auto simp: actView_def stopInv_def logOf_def w w1)
  have v3: "actView ?r3 = (fst (actView r) @ m @ [ObsOutput (ti_CallID info)], snd (actView r))"
    "stopInv r \<longrightarrow> stopInv ?r3"
    using world_append [OF w2, of "ObsOutput (ti_CallID info)" w3] v1 by simp_all
  have k1: "keeps r ?r1"
    using m keeps_world [OF w, of "ObsTool info" w1'] w1 by auto
  have k: "keeps r ?r3"
    by (rule keeps_trans [OF keeps_trans [OF k1 keeps_fire_lift] keeps_world(1) [OF w2]]) simp
  have "runTool (logEnv env) info r = afterPost (logEnv env) info runErr accepted ?r3"
    by (rule runTool_steps)
      (use assms run post in \<open>simp_all add: w w2, simp add: logEnv_def postObs_output\<close>)
  then show ?thesis using v3 m keeps_afterPost [OF k] by (intro exI [of _ m]) simp
qed

lemma viewInv_output:
  assumes "viewInv env (a, d, n, x)" "\<not> boolAt d c" "toolBudget env = 0 \<or> length d < toolBudget env"
    "m = [] \<or> (\<exists>i. m = [ObsTool i] \<and> ti_CallID i = c)"
  shows "viewInv env (a @ m @ [ObsOutput c], gput c True d, n, x)"
proof -
  have d: "allTrue d" and new: "c \<notin> gkeys d"
    using assms(1,2) by (auto simp: viewInv_def callsInv_def boolAt_allTrue)
  have "gwf d" using d by (simp add: allTrue_def)
  moreover have "card (insert c (gkeys d)) = Suc (card (gkeys d))"
    using new by (simp add: gkeys_def)
  ultimately have len: "length (gput c True d) = Suc (length d)"
    by (simp add: length_gkeys)
  have out: "outputs m = []" "starts m = []" and m: "toolsAnswered (m @ [ObsOutput c])"
      "ObsPrompt \<notin> set m" "balanced S (m @ [ObsOutput c])" "approvalsOk q (m @ [ObsOutput c])" for S q
    using assms(4) by auto
  have a: "a \<noteq> []" using assms(1) by (auto simp: viewInv_def promptFirst_def)
  show ?thesis
    using assms(1,3) d new len out m a
    by (auto simp: viewInv_def callsInv_def responsesInv_def promptFirst_def allTrue_put
        toolsAnswered_append balanced_append approvalsOk_append)
qed

lemma chatInv_observeItem:
  assumes "ch_sessionID env \<noteq> []" "chatInv env r"
  shows "chatInv env (observeItem (logEnv env) item r)"
proof -
  let ?call = "TrimSpace (itemString item ''call_id'')" and ?name = "TrimSpace (itemString item ''name'')"
  let ?aw = "itemString item ''status'' = itemStatusActionRequired"
  let ?info = "\<lparr>ti_Name = ?name, ti_Arguments = itemArguments (ch_lib env) item,
      ti_CallID = ?call, ti_ItemID = itemString item ''id''\<rparr>"
  let ?p = "\<lparr>tcs_Name = ?name, tcs_CallID = ?call, tcs_AgentName = itemString item ''agent_name'',
      tcs_Arguments = itemArguments (ch_lib env) item,
      tcs_ExecutedBy = (if ?aw then ''client'' else ''server'')\<rparr>"
  let ?r1 = "fireHook (logEnv env) ''OnToolCallStart'' (map_option liftHook (OnToolCallStart (ch_hooks env))) ?p r"
  have c1: "chatInv env ?r1" using assms(2) by (rule chatInv_fire)
  let ?r2 = "?r1\<lparr>run_dispatched := gput ?call True (run_dispatched ?r1)\<rparr>"
  have budget: "chatInv env (report (logEnv env) err ?r1\<lparr>run_unfinishable := True\<rparr>)" for err
    using chatInv_report [OF c1, of err] by (simp add: chatInv_def actView_def stopInv_def viewInv_def logOf_def)
  have run: "\<not> boolAt (run_dispatched ?r1) ?call \<Longrightarrow>
      toolBudget env = 0 \<or> length (run_dispatched ?r1) < toolBudget env \<Longrightarrow>
      chatInv env (runTool (logEnv env) ?info ?r2)"
  proof -
    assume new: "\<not> boolAt (run_dispatched ?r1) ?call"
      and b: "toolBudget env = 0 \<or> length (run_dispatched ?r1) < toolBudget env"
    obtain a d n x where v: "actView ?r1 = (a, d, n, x)" by (metis prod_cases4)
    have d: "run_dispatched ?r1 = d" using v by (simp add: actView_def)
    have v2: "actView ?r2 = (a, gput ?call True d, n, x)" "stopInv ?r2 = stopInv ?r1"
      using v by (auto simp: actView_def stopInv_def logOf_def)
    obtain m where m: "actView (runTool (logEnv env) ?info ?r2) =
        (a @ m @ [ObsOutput ?call], gput ?call True d, n, x)" "m = [] \<or> m = [ObsTool ?info]"
        "stopInv ?r1 \<longrightarrow> stopInv (runTool (logEnv env) ?info ?r2)"
      using runTool_view [OF assms(1), of ?info ?r2] v2 by auto
    have "viewInv env (a @ m @ [ObsOutput ?call], gput ?call True d, n, x)"
      by (rule viewInv_output) (use c1 v new b m(2) d in \<open>auto simp: chatInv_def\<close>)
    then show ?thesis using c1 m(1,3) by (simp add: chatInv_def)
  qed
  show ?thesis
    using assms(2) c1 chatInv_report [OF c1] budget run
    by (cases ?aw) (simp_all add: observeItem_def Let_def not_le)
qed

section \<open>Approvals keep it\<close>

lemma decide_view:
  "\<exists>m accept r'. decideElicitation (logEnv env) eid p r = (accept, r') \<and>
     actView r' = (fst (actView r) @ m, snd (actView r)) \<and> (stopInv r \<longrightarrow> stopInv r') \<and>
     (accept \<and> m = [ObsDecide (elicitationTarget (ch_sessionID env) p) eid True] \<or>
      \<not> accept \<and> (m = [] \<or> m = [ObsDecide (elicitationTarget (ch_sessionID env) p) eid False]))"
proof (cases "OnElicitation (ch_hooks env)")
  case None
  then show ?thesis by (intro exI [of _ "[]"] exI [of _ False] exI [of _ r])
    (simp add: decideElicitation_def logHooks_def)
next
  case (Some h)
  obtain w l where w: "run_world r = (w, l)" by fastforce
  let ?c = "elicitationCtxOf (ch_sessionID env) (run_responseID r) eid p"
  let ?o = "ObsDecide (elicitationTarget (ch_sessionID env) p) eid"
  obtain res w' where h: "h ?c w = (res, w')" by fastforce
  have ids: "ec_SessionID ?c = elicitationTarget (ch_sessionID env) p" "ec_ElicitationID ?c = eid"
    by (simp_all add: elicitationCtxOf_def)
  have e: "\<not> isEmit (?o b)" for b by simp
  show ?thesis
  proof (cases res)
    case (Inl t)
    then show ?thesis
      using world_append [OF w e, of w' False]
      by (auto simp: decideElicitation_def logHooks_def Some w h ids)
  next
    case (Inr b)
    then show ?thesis
      using world_append [OF w e, of w' b]
      by (cases b) (auto simp: decideElicitation_def logHooks_def Some w h ids)
  qed
qed

lemma viewInv_append:
  assumes "viewInv env (a, d, n, x)" "outputs k = []" "starts k = []" "toolsAnswered k"
    "ObsPrompt \<notin> set k" "\<And>S. balanced S k" "\<And>prev. approvalsOk prev k"
  shows "viewInv env (a @ k, d, n, x)"
proof -
  have "a \<noteq> []" using assms(1) by (auto simp: viewInv_def promptFirst_def)
  then show ?thesis
    using assms
    by (simp add: viewInv_def callsInv_def responsesInv_def promptFirst_def
        toolsAnswered_append balanced_append approvalsOk_append)
qed

lemma chatInv_resolve:
  assumes "chatInv env r"
  shows "chatInv env (resolveElicitation (logEnv env) eid p r)"
proof -
  let ?t = "elicitationTarget (ch_sessionID env) p"
  obtain m accept r1 where d: "decideElicitation (logEnv env) eid p r = (accept, r1)"
      "actView r1 = (fst (actView r) @ m, snd (actView r))" "stopInv r \<longrightarrow> stopInv r1"
      "accept \<and> m = [ObsDecide ?t eid True] \<or> \<not> accept \<and> (m = [] \<or> m = [ObsDecide ?t eid False])"
    using decide_view [of env eid p r] by blast
  let ?v = "if accept then ElicitationAccept else ElicitationDecline"
  let ?res = "\<lparr>er_Action = ?v, er_Content = []\<rparr>"
  obtain w l where w: "run_world r1 = (w, l)" by fastforce
  obtain a dd n x where v: "actView r = (a, dd, n, x)" by (metis prod_cases4)
  have i: "viewInv env (a, dd, n, x)" using assms v by (simp add: chatInv_def)
  have a: "a \<noteq> []" using i by (auto simp: viewInv_def promptFirst_def)
  have keep: "viewInv env (a @ m @ k, dd, n, x)"
    if k: "k = [] \<or> k = [ObsResolve (resolveRoute ?t eid) ?v]" for k
  proof (rule viewInv_append [OF i])
    show "approvalsOk prev (m @ k)" for prev
      using d(4) k by (cases accept) auto
  qed (use d(4) k in auto)
  obtain err r2 where call: "ResolveElicitation (ch_resolve (logEnv env)) ?t eid ?res (run_world r1) = (err, r2)"
    by (metis prod.exhaust)
  have "\<exists>k w'. r2 = (w', l @ k) \<and> (k = [] \<or> k = [ObsResolve (resolveRoute ?t eid) ?v])"
  proof (cases "?t = [] \<or> eid = []")
    case True
    then have "r2 = (w, l @ [])" using call w by (simp add: ResolveElicitation_def)
    then show ?thesis by blast
  next
    case False
    then have "\<exists>w'. r2 = (w', l @ [ObsResolve (resolveRoute ?t eid) ?v])"
      using call w by (auto simp: ResolveElicitation_def logEnv_def resolveObs_def resolveRoute_def
          split: sum.splits prod.splits)
    then show ?thesis by blast
  qed
  then obtain k w' where r2: "r2 = (w', l @ k)" and k: "k = [] \<or> k = [ObsResolve (resolveRoute ?t eid) ?v]"
    by blast
  let ?r2 = "r1\<lparr>run_world := r2\<rparr>"
  have "actView ?r2 = (a @ m @ k, dd, n, x)" "stopInv ?r2 = stopInv r1"
    using d(2) v w r2 k by (auto simp: actView_def stopInv_def logOf_def)
  then have "chatInv env ?r2" using keep [OF k] assms d(3) by (simp add: chatInv_def)
  then show ?thesis
    using d(1) call by (simp add: resolveElicitation_def Let_def chatInv_report split: option.split)
qed

section \<open>A turn keeps it\<close>

lemma chatInv_act:
  assumes "ch_sessionID env \<noteq> []" "chatInv env r"
  shows "chatInv env (act (logEnv env) evo r)"
proof (cases evo)
  case (Some ev)
  then show ?thesis using assms
    by (cases "ev_body ev")
      (simp_all add: act_def chatInv_announce chatInv_endResponse chatInv_fire chatInv_observeItem chatInv_resolve)
qed (use assms in \<open>simp add: act_def\<close>)

text \<open>Tracking touches neither the log nor what the side effects keep.\<close>

lemma track_same:
  "run_world (track evo r) = run_world r" "run_stopped (track evo r) = run_stopped r"
  "run_dispatched (track evo r) = run_dispatched r" "run_announced (track evo r) = run_announced r"
  "run_unfinishable (track evo r) = run_unfinishable r"
proof -
  have "run_world (track evo r) = run_world r \<and> run_stopped (track evo r) = run_stopped r \<and>
    run_dispatched (track evo r) = run_dispatched r \<and> run_announced (track evo r) = run_announced r \<and>
    run_unfinishable (track evo r) = run_unfinishable r"
  proof (cases evo)
    case (Some ev)
    then show ?thesis by (cases "ev_body ev") (simp_all add: track_def beginResponse_def)
  qed (simp add: track_def)
  then show "run_world (track evo r) = run_world r" "run_stopped (track evo r) = run_stopped r"
    "run_dispatched (track evo r) = run_dispatched r" "run_announced (track evo r) = run_announced r"
    "run_unfinishable (track evo r) = run_unfinishable r" by simp_all
qed

lemma chatInv_track: "chatInv env r \<Longrightarrow> chatInv env (track evo r)"
  by (simp add: chatInv_def actView_def viewInv_def stopInv_def logOf_def track_same)

lemma chatInv_driveBody:
  assumes "ch_sessionID env \<noteq> []" "chatInv env r"
  shows "chatInv env (snd (driveBody (logEnv env) x r))"
proof -
  obtain evo erro where x: "x = (evo, erro)" by fastforce
  show ?thesis
  proof (cases erro)
    case (Some err)
    then show ?thesis using assms(2) x by (simp add: driveBody_def chatInv_emit)
  next
    case None
    obtain go r1 where e: "emit (logEnv env) (evo, None) (track evo r) = (go, r1)" by fastforce
    have c1: "chatInv env r1"
      using chatInv_emit [OF chatInv_track [OF assms(2), of evo], of "(evo, None)"] e by simp
    have c2: "chatInv env (act (logEnv env) evo r1)" by (rule chatInv_act [OF assms(1) c1])
    show ?thesis
      using c1 c2 x None e by (simp add: driveBody_def Let_def chatInv_emit split: option.split)
  qed
qed

section \<open>The turn over its stream\<close>

definition beforeTurn :: "bool \<times> 'w logged turnRun \<Rightarrow> bool" where
  "beforeTurn lr \<longleftrightarrow> (let r = snd lr in
     stopInv r \<and> acts (logOf r) = [] \<and> run_dispatched r = [] \<and> run_announced r = [])"

definition afterTurn :: "'w chatEnv \<Rightarrow> bool \<times> 'w logged turnRun \<Rightarrow> bool" where
  "afterTurn env lr \<longleftrightarrow> ch_sessionID env \<noteq> [] \<and> chatInv env (snd lr)"

lemma driveCalls_simps:
  "snd (onYield (driveCalls env t) x lr) = (let (go, r') = driveBody env x (snd lr) in (\<not> go, r'))"
  "onSubscribed (driveCalls env t) = Some (\<lambda>sub (left, r).
      let (err, r') = onSubscribedHook env t sub r in (err, (left, r')))"
  by (cases lr; simp add: driveCalls_def split: prod.split)+

lemma prompt_logged:
  assumes "ch_sessionID env \<noteq> []" "sub_SessionID sub = ch_sessionID env" "beforeTurn (left, r)"
  shows "chatInv env (snd (onSubscribedHook (logEnv env) t sub r))"
proof -
  obtain w l where w: "run_world r = (w, l)" by fastforce
  let ?rq = "\<lparr>rq_Method = POST, rq_Segments = [''v1'', ''sessions'', ch_sessionID env, ''events''],
      rq_Query = [], rq_Body = BodyEvent (userMessage t)\<rparr>"
  obtain res w' where p: "ch_post env ?rq w = (res, w')" by fastforce
  have rq: "postObs ?rq = ObsPrompt" "in_Type (userMessage t) \<noteq> []"
    by (simp_all add: postObs_def userMessage_def InputTypeMessage_def InputTypeFunctionCallOutput_def)
  let ?r = "r\<lparr>run_world := (w', l @ [ObsPrompt])\<rparr>"
  have i: "chatInv env ?r"
    using assms(3) w
    by (simp add: beforeTurn_def chatInv_def viewInv_def actView_def logOf_def stopInv_def callsInv_def
        responsesInv_def promptFirst_def outputs_def starts_def)
  have a: "chatInv env (?r\<lparr>run_tracker := x\<rparr>)" for x
    using i by (simp add: chatInv_def viewInv_def actView_def stopInv_def logOf_def)
  have "SendMessage (ch_post (logEnv env)) (ch_sessionID env) t (w, l) = (res, (w', l @ [ObsPrompt]))"
    using assms(1) rq p by (simp add: SendMessage_def PostEvent_def logEnv_def)
  then have "onSubscribedHook (logEnv env) t sub r = (case res of
      Inl err \<Rightarrow> (Some (Errorf [Txt ''send prompt: '', Wrapped err]), ?r)
    | Inr accepted \<Rightarrow>
        if acc_Denied accepted then
          (Some (Errorf [Txt ''send prompt: '', Wrapped (Sentinel ErrInputDenied), Txt '': '',
             Txt (sanitizeForError (acc_Reason accepted) maxErrorFieldRunes)]), ?r)
        else (None, ?r\<lparr>run_tracker := anchorOn (anchorOf (Some accepted)) (run_tracker r)\<rparr>))"
    using assms(2) w by (simp add: onSubscribedHook_def Let_def split: sum.split)
  then show ?thesis using i a by (simp split: sum.split)
qed

interpretation turn: stream_client "driveCalls (logEnv env) t" "ch_sessionID env" beforeTurn "afterTurn env" for env t
proof
  fix lr :: "bool \<times> 'a logged turnRun" and err
  assume "beforeTurn lr"
  moreover obtain left r where lr: "lr = (left, r)" by fastforce
  ultimately show "beforeTurn (snd (onYield (driveCalls (logEnv env) t) (None, Some err) lr))"
    using emit_quiet [where env = env and x = "(None, Some err)" and r = r]
    by (simp add: driveCalls_simps driveBody_def beforeTurn_def actView_def)
next
  fix h :: "subscription \<Rightarrow> bool \<times> 'a logged turnRun \<Rightarrow> goerr option \<times> bool \<times> 'a logged turnRun"
    and lr :: "bool \<times> 'a logged turnRun" and sub :: subscription
  assume h: "onSubscribed (driveCalls (logEnv env) t) = Some h" and sid: "ch_sessionID env \<noteq> []"
    "sub_SessionID sub = ch_sessionID env" and b: "beforeTurn lr"
  obtain left r where lr: "lr = (left, r)" by fastforce
  have "h sub lr = (let (err, r') = onSubscribedHook (logEnv env) t sub r in (err, (left, r')))"
    using h lr by (auto simp: driveCalls_simps)
  then show "afterTurn env (snd (h sub lr))"
    using prompt_logged [OF sid, of left r t] b lr sid(1) by (auto simp: afterTurn_def split: prod.split)
next
  fix lr :: "bool \<times> 'a logged turnRun"
  assume "onSubscribed (driveCalls (logEnv env) t) = None"
  then show "afterTurn env lr" by (simp add: driveCalls_simps)
next
  fix lr :: "bool \<times> 'a logged turnRun" and x
  assume "afterTurn env lr"
  then show "afterTurn env (snd (onYield (driveCalls (logEnv env) t) x lr))"
    using chatInv_driveBody [of env "snd lr" x]
    by (auto simp: driveCalls_simps afterTurn_def split: prod.split)
next
  fix g and fr :: skippedFrame and lr :: "bool \<times> 'a logged turnRun"
  assume g: "onSkippedFrame (driveCalls (logEnv env) t) = Some g" and i: "afterTurn env lr"
  obtain left r where lr: "lr = (left, r)" by fastforce
  obtain w l where w: "run_world r = (w, l)" by fastforce
  from g obtain k where "g = (\<lambda>fr (left, r). let (err, wl) = (\<lambda>(w, l). let (res, w') = k fr w in (res, (w', l)))
      (run_world r) in (err, (left, r\<lparr>run_world := wl\<rparr>)))"
    by (auto simp: driveCalls_def logEnv_def)
  then have "snd (g fr lr) = (left, r\<lparr>run_world := (snd (k fr w), l)\<rparr>)"
    by (simp add: lr w split: prod.split)
  then show "afterTurn env (snd (g fr lr))"
    using i world_same [OF w, of "snd (k fr w)"] lr by (simp add: afterTurn_def chatInv_def)
qed

definition turnLog :: "jsonDeps \<Rightarrow> int \<Rightarrow> 'w chatEnv \<Rightarrow> string \<Rightarrow> opened \<Rightarrow> 'w \<Rightarrow> chatObs list" where
  "turnLog deps d env t conn w = logOf (drive deps d (logEnv env) t conn (w, []))"

lemma drive_inv:
  "let r = drive deps d (logEnv env) t conn (w, []) in
     stopInv r \<and> (acts (logOf r) = [] \<or> viewInv env (actView r))"
proof -
  let ?s = "Stream deps d (driveCalls (logEnv env) t) (ch_stream env) (ch_sessionID env) conn
      (False, newTurnRun (logEnv env) (w, []))"
  obtain left r where s: "?s = (left, r)" by fastforce
  have "beforeTurn (False, newTurnRun (logEnv env) (w, []))"
    by (simp add: beforeTurn_def newTurnRun_def stopInv_def logOf_def)
  from turn.Stream_phase [OF this, where env = env and t = t and deps = deps and d = d and opts = "ch_stream env" and conn = conn]
  have i: "stopInv r \<and> (acts (logOf r) = [] \<or> viewInv env (actView r))"
    using s by (auto simp: beforeTurn_def afterTurn_def chatInv_def Let_def)
  let ?e = "\<lambda>x. snd (emit (logEnv env) x r)"
  have q: "actView (?e x) = actView r" "acts (logOf (?e x)) = acts (logOf r)" "stopInv r \<Longrightarrow> stopInv (?e x)" for x
    using emit_quiet(1) [where env = env and x = x and r = r] emit_quiet(2) [where env = env and x = x and r = r] by (simp_all add: actView_def)
  show ?thesis
    using i q by (simp add: drive_def s Let_def)
qed

section \<open>How a turn ends\<close>

lemma keeps_observeItem:
  assumes "ch_sessionID env \<noteq> []"
  shows "keeps r (observeItem (logEnv env) item r)"
proof -
  let ?call = "TrimSpace (itemString item ''call_id'')" and ?name = "TrimSpace (itemString item ''name'')"
  let ?info = "\<lparr>ti_Name = ?name, ti_Arguments = itemArguments (ch_lib env) item,
      ti_CallID = ?call, ti_ItemID = itemString item ''id''\<rparr>"
  have q: "keeps x (x\<lparr>run_dispatched := d\<rparr>)" for x :: "'a logged turnRun" and d
    by (simp add: keeps_def errFree_def logOf_def)
  have run: "keeps r r1 \<Longrightarrow> keeps r (runTool (logEnv env) ?info (r1\<lparr>run_dispatched := d\<rparr>))" for r1 d
    using runTool_view [OF assms, of ?info "r1\<lparr>run_dispatched := d\<rparr>"] q [of r1 d]
    by (blast intro: keeps_trans)
  have budget: "keeps r (report (logEnv env) err r1\<lparr>run_unfinishable := True\<rparr>)" for err r1
    using report_err [of env err r1] by (auto simp: keeps_def errFree_def logOf_def)
  show ?thesis
    by (simp add: observeItem_def Let_def run budget)
qed

lemma keeps_resolve: "keeps r (resolveElicitation (logEnv env) eid p r)"
proof -
  obtain w l where w: "run_world r = (w, l)" by fastforce
  obtain accept r1 where d: "decideElicitation (logEnv env) eid p r = (accept, r1)" by fastforce
  have k1: "keeps r r1"
  proof (cases "OnElicitation (ch_hooks env)")
    case None
    then show ?thesis using d by (simp add: decideElicitation_def logHooks_def)
  next
    case (Some h)
    let ?c = "elicitationCtxOf (ch_sessionID env) (run_responseID r) eid p"
    obtain res w' where h: "h ?c w = (res, w')" by fastforce
    show ?thesis
      using d keeps_world(1) [OF w, of "ObsDecide (ec_SessionID ?c) (ec_ElicitationID ?c) b" w' for b]
      by (cases res) (auto simp: decideElicitation_def logHooks_def Some w h)
  qed
  let ?v = "if accept then ElicitationAccept else ElicitationDecline"
  let ?res = "\<lparr>er_Action = ?v, er_Content = []\<rparr>"
  obtain w1 l1 where w1: "run_world r1 = (w1, l1)" by fastforce
  obtain err r2 where call: "ResolveElicitation (ch_resolve (logEnv env)) (elicitationTarget (ch_sessionID env) p)
      eid ?res (run_world r1) = (err, r2)"
    by (metis prod.exhaust)
  have "\<exists>w' x. (r2 = (w', l1 @ [x]) \<and> \<not> isEmit x) \<or> r2 = (w', l1)"
    using call unfolding w1 by (auto simp: ResolveElicitation_def logEnv_def resolveObs_def
        split: if_splits sum.splits prod.splits)
  then have "keeps r1 (r1\<lparr>run_world := r2\<rparr>)"
    using keeps_world(1) [OF w1] keeps_world(2) [OF w1, of ObsPrompt] by auto
  then have "keeps r (r1\<lparr>run_world := r2\<rparr>)" by (rule keeps_trans [OF k1])
  then show ?thesis
    using d call by (simp add: resolveElicitation_def Let_def split: option.split)
qed

lemma keeps_act:
  assumes "ch_sessionID env \<noteq> []"
  shows "keeps r (act (logEnv env) evo r)"
proof (cases evo)
  case (Some ev)
  then show ?thesis
    by (cases "ev_body ev")
      (simp_all add: act_def keeps_announce keeps_endResponse keeps_observeItem [OF assms] keeps_resolve)
qed (simp add: act_def)

text \<open>While nothing was reported and the caller reads: the turn can finish, has not failed, and the
  loop was left exactly if the turn was answered.\<close>

definition endInv :: "'w chatEnv \<Rightarrow> bool \<times> 'w logged turnRun \<Rightarrow> bool" where
  "endInv env lr \<longleftrightarrow> (let r = snd lr in
     errFree r \<longrightarrow> \<not> run_unfinishable r \<and> tr_failure (run_tracker r) = None \<and>
       (tr_id (run_tracker r) \<noteq> [] \<longleftrightarrow> fst lr))"

lemma endInv_driveBody:
  assumes "ch_sessionID env \<noteq> []" "endInv env (left, r)" "driveBody (logEnv env) x r = (go, r')"
  shows "endInv env (\<not> go, r')"
proof -
  obtain evo erro where x: "x = (evo, erro)" by fastforce
  show ?thesis
  proof (cases erro)
    case (Some e)
    then have "r' = snd (emit (logEnv env) (None, Some e) r)"
      using assms(3) x by (simp add: driveBody_def)
    then show ?thesis using emit_err [of env None e r] by (simp add: endInv_def)
  next
    case None
    let ?t = "track evo r"
    obtain g1 r1 where e: "emit (logEnv env) (evo, None) ?t = (g1, r1)" by fastforce
    let ?r2 = "act (logEnv env) evo r1"
    have g1: "g1 = (\<not> run_stopped r1)"
      using emit_quiet(3) [where env = env and x = "(evo, None)" and r = ?t] e by simp
    have "keeps ?t r1" using emit_event [of ?t env evo] e by simp
    then have k: "keeps ?t ?r2" using keeps_act [OF assms(1)] by (rule keeps_trans)
    have t: "errFree ?t = errFree r" by (simp add: errFree_def logOf_def track_same)
    have fin: "errFree ?r2 \<Longrightarrow> \<not> run_unfinishable ?r2"
      using k t assms(2) by (simp add: keeps_def endInv_def track_same)
    show ?thesis
    proof (cases "g1 \<and> \<not> run_stopped ?r2 \<and> \<not> run_unfinishable ?r2 \<and> ended (run_tracker ?r2)")
      case True
      then show ?thesis
        using assms(3) x None e emit_err [of env None _ ?r2] fin
        by (auto simp: driveBody_def Let_def endInv_def ended_def split: option.splits)
    next
      case False
      then show ?thesis
        using assms(3) x None e g1 fin
        by (auto simp: driveBody_def Let_def endInv_def ended_def errFree_def split: if_splits)
    qed
  qed
qed

lemma endInv_hook:
  assumes "endInv env (left, r)"
  shows "endInv env (left, snd (onSubscribedHook (logEnv env) t sub r))"
proof -
  obtain w l where w: "run_world r = (w, l)" by fastforce
  obtain res wl where p: "SendMessage (ch_post (logEnv env)) (sub_SessionID sub) t (w, l) = (res, wl)"
    by (metis prod.exhaust)
  have wl: "errs (snd wl) = errs l"
    using p by (auto simp: SendMessage_def PostEvent_def logEnv_def postObs_def
        split: if_splits prod.splits requestBody.splits)
  have i: "endInv env (left, r\<lparr>run_world := wl\<rparr>)"
    using assms wl w by (simp add: endInv_def errFree_def logOf_def)
  then have "endInv env (left, r\<lparr>run_world := wl, run_tracker := anchorOn a (run_tracker r)\<rparr>)" for a
    by (simp add: endInv_def errFree_def logOf_def anchorOn_def)
  with i show ?thesis
    by (simp add: onSubscribedHook_def w p Let_def split: sum.split)
qed

interpretation ending: stream_client "driveCalls (logEnv env) t" "ch_sessionID env"
    "endInv env" "\<lambda>lr. ch_sessionID env \<noteq> [] \<and> endInv env lr" for env t
proof
  fix lr :: "bool \<times> 'a logged turnRun" and err
  assume "endInv env lr"
  obtain left r where lr: "lr = (left, r)" by fastforce
  then show "endInv env (snd (onYield (driveCalls (logEnv env) t) (None, Some err) lr))"
    using emit_err [of env None err r] by (simp add: driveCalls_simps driveBody_def endInv_def)
next
  fix h :: "subscription \<Rightarrow> bool \<times> 'a logged turnRun \<Rightarrow> goerr option \<times> bool \<times> 'a logged turnRun"
    and lr :: "bool \<times> 'a logged turnRun" and sub :: subscription
  assume h: "onSubscribed (driveCalls (logEnv env) t) = Some h" and sid: "ch_sessionID env \<noteq> []"
    and e: "endInv env lr"
  obtain left r where lr: "lr = (left, r)" by fastforce
  have "h sub lr = (let (err, r') = onSubscribedHook (logEnv env) t sub r in (err, (left, r')))"
    using h lr by (auto simp: driveCalls_simps)
  then show "ch_sessionID env \<noteq> [] \<and> endInv env (snd (h sub lr))"
    using endInv_hook [of env left r t sub] e lr sid by (auto split: prod.split)
next
  fix lr :: "bool \<times> 'a logged turnRun"
  assume "onSubscribed (driveCalls (logEnv env) t) = None"
  then show "ch_sessionID env \<noteq> [] \<and> endInv env lr" by (simp add: driveCalls_simps)
next
  fix lr :: "bool \<times> 'a logged turnRun" and x
  assume a: "ch_sessionID env \<noteq> [] \<and> endInv env lr"
  obtain left r where lr: "lr = (left, r)" by fastforce
  obtain go r' where b: "driveBody (logEnv env) x r = (go, r')" by fastforce
  show "ch_sessionID env \<noteq> [] \<and> endInv env (snd (onYield (driveCalls (logEnv env) t) x lr))"
    using a lr b endInv_driveBody [OF _ _ b, of left] by (simp add: driveCalls_simps)
next
  fix g and fr :: skippedFrame and lr :: "bool \<times> 'a logged turnRun"
  assume g: "onSkippedFrame (driveCalls (logEnv env) t) = Some g"
    and i: "ch_sessionID env \<noteq> [] \<and> endInv env lr"
  obtain left r where lr: "lr = (left, r)" by fastforce
  obtain w l where w: "run_world r = (w, l)" by fastforce
  from g obtain k where "g = (\<lambda>fr (left, r). let (err, wl) = (\<lambda>(w, l). let (res, w') = k fr w in (res, (w', l)))
      (run_world r) in (err, (left, r\<lparr>run_world := wl\<rparr>)))"
    by (auto simp: driveCalls_def logEnv_def)
  then have "snd (g fr lr) = (left, r\<lparr>run_world := (snd (k fr w), l)\<rparr>)"
    by (simp add: lr w split: prod.split)
  then show "ch_sessionID env \<noteq> [] \<and> endInv env (snd (g fr lr))"
    using i lr w by (simp add: endInv_def errFree_def logOf_def)
qed

text \<open>A turn that reported no error and was read to its end was answered.\<close>

lemma drive_answered:
  assumes "errFree (drive deps d (logEnv env) t conn (w, []))"
  shows "tr_id (run_tracker (drive deps d (logEnv env) t conn (w, []))) \<noteq> []"
proof -
  let ?s = "Stream deps d (driveCalls (logEnv env) t) (ch_stream env) (ch_sessionID env) conn
      (False, newTurnRun (logEnv env) (w, []))"
  obtain left r where s: "?s = (left, r)" by fastforce
  have "endInv env (False, newTurnRun (logEnv env) (w, []))"
    by (simp add: endInv_def newTurnRun_def newTurnTracker_def)
  from ending.Stream_phase [OF this, where t = t and deps = deps and d = d and opts = "ch_stream env" and conn = conn]
  have i: "endInv env (left, r)" using s by auto
  have d: "drive deps d (logEnv env) t conn (w, []) =
      (if \<not> left \<and> \<not> ended (run_tracker r) \<and> \<not> run_stopped r \<and> \<not> run_unfinishable r then
         snd (emit (logEnv env) (None, Some (Errorf [Txt ''turn on session '', Txt (ch_sessionID env),
            Txt '': '', Wrapped (Sentinel ErrTurnIncomplete)])) r)
       else r)"
    by (simp add: drive_def s)
  show ?thesis
    using assms i emit_err [of env None _ r] unfolding d
    by (auto simp: endInv_def ended_def errFree_def split: if_splits)
qed

section \<open>Properties\<close>

text \<open>Nothing is yielded after the caller stopped reading: of all the steps a turn offers its
  caller, whatever the server, the tools and the hooks do, only the last can have been refused.\<close>

theorem turn_stops_with_caller:
  "False \<notin> set (butlast (emits (turnLog deps d env t conn w)))"
  using drive_inv [of deps d env t conn w] by (simp add: turnLog_def stopInv_def Let_def)

text \<open>C4. A turn posts its prompt at most once, and before everything else: no tool runs, no
  output or verdict is posted and no response is announced before the prompt is posted.\<close>

theorem prompt_first_once:
  "acts (turnLog deps d env t conn w) = [] \<or> promptFirst (acts (turnLog deps d env t conn w))"
  using drive_inv [of deps d env t conn w]
  by (auto simp: turnLog_def Let_def viewInv_def actView_def)

text \<open>C1. A call id runs at most once in a turn, within the budget, and is answered: every tool
  that runs is followed at once by the post of its own output, the posted outputs have distinct
  call ids, and there are at most \<open>toolBudget\<close> of them.\<close>

theorem tool_calls_once:
  "toolsAnswered (acts (turnLog deps d env t conn w)) \<and>
   distinct (outputs (turnLog deps d env t conn w)) \<and>
   (toolBudget env = 0 \<or> length (outputs (turnLog deps d env t conn w)) \<le> toolBudget env)"
proof -
  let ?r = "drive deps d (logEnv env) t conn (w, [])" and ?l = "turnLog deps d env t conn w"
  have o: "outputs (acts l) = outputs l" for l
  proof (induction l)
    case (Cons x l)
    then show ?case by (cases x) (simp_all add: outputs_def acts_def)
  qed simp
  show ?thesis
  proof (cases "acts ?l = []")
    case True
    then have "outputs ?l = []" using o [of ?l] by simp
    then show ?thesis using True by simp
  next
    case False
    then have v: "viewInv env (actView ?r)" using drive_inv [of deps d env t conn w]
      by (simp add: turnLog_def Let_def)
    then have c: "callsInv (toolBudget env) (acts ?l) (run_dispatched ?r)"
      by (simp add: viewInv_def actView_def turnLog_def)
    then have "length (outputs ?l) \<le> length (run_dispatched ?r)"
      using o [of ?l] length_gkeys [of "run_dispatched ?r"]
      by (auto simp: callsInv_def allTrue_def gkeys_def intro: card_mono simp flip: distinct_card)
    then show ?thesis using c o [of ?l] by (auto simp: callsInv_def)
  qed
qed

text \<open>C2. A turn accepts an approval only when the caller's hook, shown that request, answered yes
  just before, and posts the accept to the session and the request the hook was shown. A missing
  hook or one that panics declines.\<close>

theorem accepts_only_on_yes:
  "approvalsOk ObsPrompt (acts (turnLog deps d env t conn w))"
  using drive_inv [of deps d env t conn w]
  by (auto simp: turnLog_def Let_def viewInv_def actView_def)

text \<open>The response hooks are balanced: OnResponseStart fires at most once for a response, and
  when it is set, OnResponseEnd never fires for a response whose start has not.\<close>

theorem response_hooks_balanced:
  "distinct (starts (acts (turnLog deps d env t conn w))) \<and>
   (OnResponseStart (ch_hooks env) = None \<or> balanced {} (acts (turnLog deps d env t conn w)))"
  using drive_inv [of deps d env t conn w]
  by (auto simp: turnLog_def Let_def viewInv_def actView_def responsesInv_def hasStart_def)

text \<open>C3. Silence means an answer: a turn that its caller read to the end without being handed an
  error ended on a response that answers it. A stream that closes early, a failed, superseded or
  over-budget turn always hands the caller an error.\<close>

theorem silent_end_is_answer:
  "(\<exists>err. err \<in> set (errs (turnLog deps d env t conn w))) \<or>
   False \<in> set (emits (turnLog deps d env t conn w)) \<or>
   0 < length (tr_id (run_tracker (drive deps d (logEnv env) t conn (w, []))))"
proof -
  let ?r = "drive deps d (logEnv env) t conn (w, [])"
  have "run_stopped ?r \<Longrightarrow> False \<in> set (emits (logOf ?r))"
    using drive_inv [of deps d env t conn w] last_in_set [of "emits (logOf ?r)"]
    by (auto simp: stopInv_def Let_def)
  then show ?thesis using drive_answered [of deps d env t conn w]
    by (cases "errs (logOf ?r)") (auto simp: errFree_def turnLog_def)
qed

text \<open>A turn is read once: the first read claims it and every later one drives nothing, posts
  nothing and yields only ErrTurnAlreadyRead.\<close>

theorem turn_read_once:
  "let (read, w1) = Events deps d env t conn (False, w) in
     read \<and> w1 = run_world (drive deps d env t conn w) \<and>
     Events deps d env t conn2 (read, w1) =
       (True, snd (ch_yield env (None, Some (Errorf [Txt ''read turn on session '',
          Txt (ch_sessionID env), Txt '': '', Wrapped (Sentinel ErrTurnAlreadyRead)])) w1))"
  by (simp add: Events_def claim_def Let_def)

text \<open>A refused or failed post of a tool's output never marks the turn unfinishable, although
  the field's comment says it is set when the server refuses an answer: only the budget does.\<close>

theorem refused_output_not_unfinishable:
  "run_unfinishable (runTool env info r) = run_unfinishable r"
proof -
  have e: "run_unfinishable (snd (emit env x r)) = run_unfinishable r" for x and r :: "'a turnRun"
    by (simp add: emit_def split: prod.split)
  have f: "run_unfinishable (fireHook env n h p r) = run_unfinishable r"
    for n p and h :: "(toolCallEndCtx, 'a) hook option" and r :: "'a turnRun"
    by (auto simp: fireHook_def fire_def onWorld_def report_def e split: option.split prod.split)
  show ?thesis
    by (simp add: runTool_def Let_def report_def e f split: prod.split sum.split option.split)
qed

end
