(* ===== verification/IdleMonitor.thy ===== *)
theory IdleMonitor
  imports GoBase
begin

text \<open>
  stream.go: the idle monitor, which ends a stream whose transport has gone quiet.

  The atomics, the timer and the callback are one record, and each atomic access of the code is
  one operation on it, because the read loop and the callback run concurrently. \<open>check\<close> is
  the callback run without interference; \<open>cbBegin\<close>, \<open>cbElapsed\<close> and \<open>cbJudge\<close> are
  its atomic accesses, which \<open>mstep\<close> interleaves with the reader's operations and the clock.
  \<open>lag\<close> says whether the clock may advance while the callback is between two of them.

  The lemmas: the monitor fires only when the last recorded activity is a whole timeout old;
  without lag no silence longer than the timeout goes unnoticed; with lag the monitor can end
  a stream for the time the caller's own code took.
\<close>

section \<open>The monitor\<close>

text \<open>Where the callback of the timer is: not running, past its load of \<open>paused\<close>, or past
  its reading of the clock.\<close>

datatype callback = CbOff | CbStarted | CbUnpaused | CbRead int | CbRearm int

record monitor =
  im_timeout :: int
  im_now :: int
  im_last :: int
  im_paused :: bool
  im_fired :: bool
  im_timer :: "int option"
  im_stopped :: bool
  im_cb :: callback

definition alive :: "monitor \<Rightarrow> monitor" where
  "alive w = w\<lparr>im_last := im_now w\<rparr>"

definition newIdleMonitor :: "int \<Rightarrow> monitor" where
  "newIdleMonitor timeout =
    (let w = alive \<lparr>im_timeout = timeout, im_now = 0, im_last = 0, im_paused = False,
                    im_fired = False, im_timer = None, im_stopped = False, im_cb = CbOff\<rparr>
     in w\<lparr>im_timer := Some (im_now w + timeout)\<rparr>)"

definition suspend :: "monitor \<Rightarrow> monitor" where
  "suspend w = w\<lparr>im_paused := True\<rparr>"

definition unpause :: "monitor \<Rightarrow> monitor" where
  "unpause w = w\<lparr>im_paused := False\<rparr>"

definition resume :: "monitor \<Rightarrow> monitor" where
  "resume w = unpause (alive w)"

definition expired :: "monitor \<Rightarrow> bool" where
  "expired w = im_fired w"

definition rearm :: "int \<Rightarrow> monitor \<Rightarrow> monitor" where
  "rearm after w = (if im_stopped w then w else w\<lparr>im_timer := Some (im_now w + after)\<rparr>)"

definition stop :: "monitor \<Rightarrow> monitor" where
  "stop w = w\<lparr>im_timer := None, im_stopped := True\<rparr>"

definition check :: "monitor \<Rightarrow> monitor" where
  "check w =
    (if im_paused w then rearm (im_timeout w) w
     else let quiet = im_now w - im_last w; remaining = im_timeout w - quiet in
       if 0 < remaining then rearm remaining w else w\<lparr>im_fired := True\<rparr>)"

text \<open>monitoredReader.Read: a read that delivered bytes is activity.\<close>

definition monitoredRead :: "nat \<Rightarrow> monitor \<Rightarrow> monitor" where
  "monitoredRead n w = (if 0 < n then alive w else w)"

section \<open>The callback, access by access\<close>

definition cbFire :: "monitor \<Rightarrow> monitor" where
  "cbFire w = w\<lparr>im_timer := None, im_cb := CbStarted\<rparr>"

definition cbPaused :: "monitor \<Rightarrow> monitor" where
  "cbPaused w = w\<lparr>im_cb := (if im_paused w then CbRearm (im_timeout w) else CbUnpaused)\<rparr>"

definition cbElapsed :: "monitor \<Rightarrow> monitor" where
  "cbElapsed w = w\<lparr>im_cb := CbRead (im_now w)\<rparr>"

definition cbJudge :: "int \<Rightarrow> monitor \<Rightarrow> monitor" where
  "cbJudge elapsed w =
    (let quiet = elapsed - im_last w; remaining = im_timeout w - quiet in
     if 0 < remaining then w\<lparr>im_cb := CbRearm remaining\<rparr>
     else w\<lparr>im_fired := True, im_cb := CbOff\<rparr>)"

definition cbRearm :: "int \<Rightarrow> monitor \<Rightarrow> monitor" where
  "cbRearm after w = (rearm after w)\<lparr>im_cb := CbOff\<rparr>"

text \<open>The read loop, the other side: reading, out in the caller's code between suspend and
  resume, between the two accesses of resume, or done.\<close>

datatype reader = Reading | Outside | Resuming | Done

record session =
  ss_monitor :: monitor
  ss_reader :: reader

definition newSession :: "int \<Rightarrow> session" where
  "newSession timeout = \<lparr>ss_monitor = newIdleMonitor timeout, ss_reader = Reading\<rparr>"

text \<open>One access of either side, or the clock advancing. The callback starts when the timer's
  deadline has come. Without lag nothing that is ready waits: the clock stands still while the
  callback is due or running and while resume is between its two accesses.\<close>

datatype action =
    Arrive nat | Suspend | ResumeAlive | Unpause | Stop
  | Tick nat | TimerFires | LoadPaused | ReadClock | Judge | Rearm

definition due :: "monitor \<Rightarrow> int \<Rightarrow> bool" where
  "due w t = (case im_timer w of Some d \<Rightarrow> d \<le> t | None \<Rightarrow> False)"

definition mayTick :: "bool \<Rightarrow> nat \<Rightarrow> session \<Rightarrow> bool" where
  "mayTick lag n s \<longleftrightarrow> lag \<or>
     (ss_reader s \<noteq> Resuming \<and> im_cb (ss_monitor s) = CbOff \<and>
      (0 < n \<longrightarrow> \<not> due (ss_monitor s) (im_now (ss_monitor s) + int n - 1)))"

text \<open>The reader's part of an action: from which point of the loop it is taken, and to which
  it leads.\<close>

fun readerStep :: "action \<Rightarrow> reader \<Rightarrow> reader option" where
  "readerStep (Arrive n) r = (if r = Reading then Some Reading else None)"
| "readerStep Suspend r = (if r = Reading then Some Outside else None)"
| "readerStep ResumeAlive r = (if r = Outside then Some Resuming else None)"
| "readerStep Unpause r = (if r = Resuming then Some Reading else None)"
| "readerStep Stop r = (if r = Reading then Some Done else None)"
| "readerStep _ r = Some r"

text \<open>The callback's part: the access the callback takes next.\<close>

fun monitorStep :: "action \<Rightarrow> monitor \<Rightarrow> monitor option" where
  "monitorStep (Arrive n) w = Some (monitoredRead n w)"
| "monitorStep Suspend w = Some (suspend w)"
| "monitorStep ResumeAlive w = Some (alive w)"
| "monitorStep Unpause w = Some (unpause w)"
| "monitorStep Stop w = Some (stop w)"
| "monitorStep (Tick n) w = Some (w\<lparr>im_now := im_now w + int n\<rparr>)"
| "monitorStep TimerFires w =
    (if im_cb w = CbOff \<and> due w (im_now w) then Some (cbFire w) else None)"
| "monitorStep LoadPaused w = (if im_cb w = CbStarted then Some (cbPaused w) else None)"
| "monitorStep ReadClock w = (if im_cb w = CbUnpaused then Some (cbElapsed w) else None)"
| "monitorStep Judge w = (case im_cb w of CbRead e \<Rightarrow> Some (cbJudge e w) | _ \<Rightarrow> None)"
| "monitorStep Rearm w = (case im_cb w of CbRearm a \<Rightarrow> Some (cbRearm a w) | _ \<Rightarrow> None)"

definition perform :: "bool \<Rightarrow> action \<Rightarrow> session \<Rightarrow> session option" where
  "perform lag a s =
    (case (readerStep a (ss_reader s), monitorStep a (ss_monitor s)) of
       (Some r, Some w) \<Rightarrow>
         if (case a of Tick n \<Rightarrow> mayTick lag n s | _ \<Rightarrow> True)
         then Some \<lparr>ss_monitor = w, ss_reader = r\<rparr> else None
     | _ \<Rightarrow> None)"

inductive reachable :: "bool \<Rightarrow> int \<Rightarrow> session \<Rightarrow> bool" for lag timeout where
  reachable_new: "reachable lag timeout (newSession timeout)"
| reachable_step: "reachable lag timeout s \<Longrightarrow> perform lag a s = Some s' \<Longrightarrow> reachable lag timeout s'"

fun performAll :: "bool \<Rightarrow> action list \<Rightarrow> session \<Rightarrow> session option" where
  "performAll lag [] s = Some s"
| "performAll lag (a # as) s =
    (case perform lag a s of None \<Rightarrow> None | Some s' \<Rightarrow> performAll lag as s')"

lemma performAll_reachable:
  "performAll lag as s = Some s' \<Longrightarrow> reachable lag timeout s \<Longrightarrow> reachable lag timeout s'"
  by (induction "as" arbitrary: s) (auto split: option.splits intro: reachable_step)

section \<open>The callback alone is check\<close>

lemma callback_is_check:
  assumes "im_cb w = CbStarted" "ss_reader s = r"
  shows "\<exists>as. (as = [LoadPaused, Rearm] \<or> as = [LoadPaused, ReadClock, Judge] \<or>
      as = [LoadPaused, ReadClock, Judge, Rearm]) \<and>
    performAll lag as \<lparr>ss_monitor = w, ss_reader = r\<rparr> =
      Some \<lparr>ss_monitor = (check w)\<lparr>im_cb := CbOff\<rparr>, ss_reader = r\<rparr>"
proof (cases "im_paused w")
  case True
  then have "performAll lag [LoadPaused, Rearm] \<lparr>ss_monitor = w, ss_reader = r\<rparr> =
      Some \<lparr>ss_monitor = (check w)\<lparr>im_cb := CbOff\<rparr>, ss_reader = r\<rparr>"
    using assms by (simp add: perform_def cbPaused_def cbRearm_def check_def rearm_def)
  then show ?thesis by blast
next
  case False
  show ?thesis
  proof (cases "0 < im_timeout w - (im_now w - im_last w)")
    case True
    then have "performAll lag [LoadPaused, ReadClock, Judge, Rearm] \<lparr>ss_monitor = w, ss_reader = r\<rparr> =
        Some \<lparr>ss_monitor = (check w)\<lparr>im_cb := CbOff\<rparr>, ss_reader = r\<rparr>"
      using assms False
      by (simp add: perform_def cbPaused_def cbElapsed_def cbJudge_def cbRearm_def check_def rearm_def Let_def)
    then show ?thesis by blast
  next
    case short: False
    then have "performAll lag [LoadPaused, ReadClock, Judge] \<lparr>ss_monitor = w, ss_reader = r\<rparr> =
        Some \<lparr>ss_monitor = (check w)\<lparr>im_cb := CbOff\<rparr>, ss_reader = r\<rparr>"
      using assms False
      by (simp add: perform_def cbPaused_def cbElapsed_def cbJudge_def check_def Let_def)
    then show ?thesis by blast
  qed
qed

section \<open>What the monitor guarantees\<close>

text \<open>The clock only advances, activity is never in the future, and a reading the callback
  holds is no later than now.\<close>

definition clockInv :: "int \<Rightarrow> session \<Rightarrow> bool" where
  "clockInv timeout s \<longleftrightarrow> (let w = ss_monitor s in
     im_timeout w = timeout \<and> im_last w \<le> im_now w \<and>
     (case im_cb w of CbRead e \<Rightarrow> e \<le> im_now w | _ \<Rightarrow> True) \<and>
     (im_paused w \<longleftrightarrow> ss_reader s = Outside \<or> ss_reader s = Resuming) \<and>
     (im_stopped w \<longleftrightarrow> ss_reader s = Done) \<and> (im_stopped w \<longrightarrow> im_timer w = None))"

lemmas monitor_ops = alive_def suspend_def unpause_def resume_def rearm_def stop_def
  monitoredRead_def cbFire_def cbPaused_def cbElapsed_def cbJudge_def cbRearm_def

lemma session_fields:
  obtains t now l p f tm stp cb r where "s = \<lparr>ss_monitor = \<lparr>im_timeout = t, im_now = now,
      im_last = l, im_paused = p, im_fired = f, im_timer = tm, im_stopped = stp, im_cb = cb\<rparr>,
      ss_reader = r\<rparr>"
proof (cases s)
  case (fields w r)
  then show ?thesis by (cases w) (rule that, simp)
qed

lemma perform_SomeE:
  assumes "perform lag a s = Some s'"
  obtains r w where "readerStep a (ss_reader s) = Some r" "monitorStep a (ss_monitor s) = Some w"
    "s' = \<lparr>ss_monitor = w, ss_reader = r\<rparr>" "\<And>n. a = Tick n \<Longrightarrow> mayTick lag n s"
  using assms by (cases a) (auto simp: perform_def split: option.splits if_splits)

lemma clockInv_step:
  assumes "clockInv timeout s" "perform lag a s = Some s'"
  shows "clockInv timeout s'"
  using assms(2)
proof (rule perform_SomeE)
  fix r w
  assume st: "readerStep a (ss_reader s) = Some r" "monitorStep a (ss_monitor s) = Some w"
    and s': "s' = \<lparr>ss_monitor = w, ss_reader = r\<rparr>"
  obtain t now l p f tm stp cb r0 where s: "s = \<lparr>ss_monitor = \<lparr>im_timeout = t, im_now = now,
      im_last = l, im_paused = p, im_fired = f, im_timer = tm, im_stopped = stp, im_cb = cb\<rparr>,
      ss_reader = r0\<rparr>"
    by (rule session_fields)
  show ?thesis
    by (insert assms(1) st, unfold s s', cases cb; cases a;
        (simp add: clockInv_def Let_def split del: if_split)?;
        (simp add: monitor_ops Let_def split: if_split_asm)?; auto)
qed

lemma reachable_clockInv: "reachable lag timeout s \<Longrightarrow> clockInv timeout s"
proof (induction rule: reachable.induct)
  case reachable_new
  then show ?case by (simp add: clockInv_def newSession_def newIdleMonitor_def alive_def Let_def)
qed (rule clockInv_step)

text \<open>Without lag: while the reader reads and the monitor has not fired, the timer is armed no
  later than a timeout after the last activity, or the callback is about to judge it.\<close>

definition promptInv :: "int \<Rightarrow> session \<Rightarrow> bool" where
  "promptInv timeout s \<longleftrightarrow> (let w = ss_monitor s in
     (\<not> im_stopped w \<and> \<not> im_fired w \<longrightarrow>
       (case im_cb w of
          CbOff \<Rightarrow> (\<exists>d. im_timer w = Some d \<and> im_now w \<le> d \<and> d \<le> im_now w + timeout \<and>
            (\<not> im_paused w \<longrightarrow> d \<le> im_last w + timeout))
        | CbRearm a \<Rightarrow> 0 < a \<and> a \<le> timeout \<and> (\<not> im_paused w \<longrightarrow> im_now w + a \<le> im_last w + timeout)
        | CbRead e \<Rightarrow> e = im_now w
        | _ \<Rightarrow> True) \<and>
       (\<not> im_paused w \<longrightarrow> im_now w \<le> im_last w + timeout)) \<and>
     (ss_reader s = Resuming \<longrightarrow> im_last w = im_now w))"

lemma promptInv_step:
  assumes "clockInv timeout s" "promptInv timeout s" "perform False a s = Some s'" "0 < timeout"
  shows "promptInv timeout s'"
  using assms(3)
proof (rule perform_SomeE)
  fix r w
  assume st: "readerStep a (ss_reader s) = Some r" "monitorStep a (ss_monitor s) = Some w"
    "\<And>n. a = Tick n \<Longrightarrow> mayTick False n s"
    and s': "s' = \<lparr>ss_monitor = w, ss_reader = r\<rparr>"
  obtain t now l p f tm stp cb r0 where s: "s = \<lparr>ss_monitor = \<lparr>im_timeout = t, im_now = now,
      im_last = l, im_paused = p, im_fired = f, im_timer = tm, im_stopped = stp, im_cb = cb\<rparr>,
      ss_reader = r0\<rparr>"
    by (rule session_fields)
  show ?thesis
    by (insert assms(1,2,4) st, unfold s s', cases cb; cases a;
        (simp add: clockInv_def promptInv_def mayTick_def due_def Let_def split del: if_split)?;
        (simp add: monitor_ops Let_def split: if_split_asm option.split_asm)?; auto)
qed

lemma reachable_promptInv: "reachable False timeout s \<Longrightarrow> 0 < timeout \<Longrightarrow> promptInv timeout s"
proof (induction rule: reachable.induct)
  case reachable_new
  then show ?case by (simp add: promptInv_def newSession_def newIdleMonitor_def alive_def Let_def)
qed (use promptInv_step reachable_clockInv in blast)

section \<open>Properties\<close>




text \<open>No silence longer than the timeout goes unnoticed: while the reader is reading and the
  monitor has not fired, the last activity is at most a timeout old (for callbacks that run when
  they are due).\<close>

theorem silence_noticed:
  assumes "reachable False timeout s" "0 < timeout" "ss_reader s = Reading"
    "\<not> expired (ss_monitor s)"
  shows "im_now (ss_monitor s) - im_last (ss_monitor s) \<le> timeout"
  using reachable_promptInv [OF assms(1,2)] reachable_clockInv [OF assms(1)] assms(3,4)
  by (auto simp: promptInv_def clockInv_def expired_def Let_def)

theorem silence_noticed_witness:
  "im_now (ss_monitor (newSession 10)) - im_last (ss_monitor (newSession 10)) \<le> 10"
  by (rule silence_noticed [OF reachable_new])
     (simp_all add: newSession_def newIdleMonitor_def alive_def expired_def Let_def)

definition lateRun :: "action list" where
  "lateRun = [Tick 9, Arrive 1, Tick 1, TimerFires, LoadPaused, Suspend, Tick 100, ReadClock, Judge]"

text \<open>With lag between the callback's load of paused and its reading of the clock, a stream that
  delivered bytes on time is ended for the time spent in the caller's own code.\<close>

theorem lag_fires_while_paused:
  "\<exists>s. performAll True lateRun (newSession 10) = Some s \<and> expired (ss_monitor s) \<and>
     im_paused (ss_monitor s)"
  by (simp add: lateRun_def newSession_def newIdleMonitor_def perform_def mayTick_def due_def
      monitor_ops expired_def Let_def)

end
