(* ===== verification/Block.thy ===== *)
theory Block
  imports Items
begin

text \<open>
  block.go: what a caller renders.

  A block is its context and the fields of its variant. The time a block is stamped with is
  not represented, so \<open>blockAt\<close> is the context itself; Delay is a number of nanoseconds.
\<close>

record blockContext =
  bc_Agent :: string
  bc_Depth :: nat
  bc_Iteration :: nat

record toolExecution =
  te_Name :: string
  te_Arguments :: jmap
  te_ArgsSummary :: string
  te_CallID :: string
  te_AgentName :: string
  te_ExecutedBy :: string
  te_Output :: "string option"

datatype (plugins only: code size) block =
    ResponseStartBlock (Context: blockContext) (rs_Model: string) (rs_ResponseID: string)
  | ToolGroup (Context: blockContext) (tg_Executions: "toolExecution list")
  | ToolResultBlock (Context: blockContext) (tr_Name: string) (tr_CallID: string)
      (tr_AgentName: string) (tr_Output: string) (tr_Arguments: jmap) (tr_ArgsSummary: string)
  | NativeToolBlock (Context: blockContext) (nt_ToolType: string) (nt_Label: string) (nt_Data: jmap)
  | TextChunk (Context: blockContext) (tc_Text: string)
  | TextDone (Context: blockContext) (td_FullText: string) (td_HasCodeBlocks: bool)
  | ReasoningStartBlock (Context: blockContext)
  | ReasoningChunk (Context: blockContext) (rc_Text: string)
  | ReasoningBlock (Context: blockContext) (rb_ReasoningText: string) (rb_SummaryText: string)
  | ErrorBlock (Context: blockContext) (eb_Message: string) (eb_Source: string) (eb_Code: string)
  | RetryBlock (Context: blockContext) (rt_Source: string) (rt_Attempt: int) (rt_MaxAttempts: int)
      (rt_Delay: int)
  | CompactionBlock (Context: blockContext)
  | FileBlock (Context: blockContext) (fb_FileID: string) (fb_Filename: "string option")
  | ResponseEndBlock (Context: blockContext) (re_Status: string) (re_Response: "responseObject option")

text \<open>One step of a sequence of blocks: a block, or an error in its place.\<close>

type_synonym blockStep = "block option \<times> goerr option"

definition blockStep :: "block \<Rightarrow> blockStep" where
  "blockStep b = (Some b, None)"

end
