(* ===== verification/BlockStream.thy ===== *)
theory BlockStream
  imports Block Stream
begin

text \<open>
  blockstream.go: folding a session's events into blocks.

  \<open>blockState\<close> has the fields of the code's blockState. The code hands each block to a
  yield function and a stopped flag it holds; here they are the sink of the state, of any
  type, and \<open>emit\<close> says what handing a step to it does. \<open>Blocks\<close> runs the steps on the code's
  sink (\<open>emitSink\<close>: the flag and the consumer's state); the theorems also run them on a sink
  that keeps a list. The set-valued maps of the code are lists of keys.

  flushTextChunks and the scanning loop of appendReasoning are terminating functions: each
  pass drops at least one byte of the buffer.
\<close>

section \<open>State\<close>

definition defaultTextFlushThreshold :: int where
  "defaultTextFlushThreshold = 30"

record 'k blockState =
  bs_threshold :: int
  bs_ctx :: blockContext
  bs_started :: "bool gomap"
  bs_live :: "string gomap"
  bs_inText :: string
  bs_fullText :: string
  bs_inReasoning :: bool
  bs_reasoning :: string
  bs_reasoningText :: string
  bs_summaryText :: string
  bs_ended :: bool
  bs_chunked :: bool
  bs_executions :: "toolExecution gomap"
  bs_seenCalls :: "bool gomap"
  bs_seenResults :: "bool gomap"
  bs_sink :: 'k

definition newBlockState :: "int \<Rightarrow> 'k \<Rightarrow> 'k blockState" where
  "newBlockState threshold k =
    \<lparr> bs_threshold = threshold,
      bs_ctx = \<lparr> bc_Agent = [], bc_Depth = 0, bc_Iteration = 0 \<rparr>,
      bs_started = [], bs_live = [],
      bs_inText = [], bs_fullText = [],
      bs_inReasoning = False, bs_reasoning = [], bs_reasoningText = [], bs_summaryText = [],
      bs_ended = False, bs_chunked = False,
      bs_executions = [], bs_seenCalls = [], bs_seenResults = [],
      bs_sink = k \<rparr>"

type_synonym 'k emitter = "blockStep \<Rightarrow> 'k \<Rightarrow> 'k"

text \<open>emit: nothing reaches a caller that stopped.\<close>

definition emitSink :: "(blockStep, 'w) yield \<Rightarrow> (bool \<times> 'w) emitter" where
  "emitSink y step sink = (case sink of (stopped, w) \<Rightarrow>
     if stopped then (True, w) else (let (go, w') = y step w in (\<not> go, w')))"

definition emitStep :: "'k emitter \<Rightarrow> blockStep \<Rightarrow> 'k blockState \<Rightarrow> 'k blockState" where
  "emitStep emit step st = st\<lparr>bs_sink := emit step (bs_sink st)\<rparr>"

definition putBlock :: "'k emitter \<Rightarrow> block \<Rightarrow> 'k blockState \<Rightarrow> 'k blockState" where
  "putBlock emit b st = emitStep emit (blockStep b) st"

lemma putBlock_select [simp]:
  "bs_threshold (putBlock emit b st) = bs_threshold st"
  "bs_ctx (putBlock emit b st) = bs_ctx st"
  "bs_started (putBlock emit b st) = bs_started st"
  "bs_live (putBlock emit b st) = bs_live st"
  "bs_inText (putBlock emit b st) = bs_inText st"
  "bs_fullText (putBlock emit b st) = bs_fullText st"
  "bs_inReasoning (putBlock emit b st) = bs_inReasoning st"
  "bs_reasoning (putBlock emit b st) = bs_reasoning st"
  "bs_reasoningText (putBlock emit b st) = bs_reasoningText st"
  "bs_summaryText (putBlock emit b st) = bs_summaryText st"
  "bs_ended (putBlock emit b st) = bs_ended st"
  "bs_chunked (putBlock emit b st) = bs_chunked st"
  "bs_executions (putBlock emit b st) = bs_executions st"
  "bs_seenCalls (putBlock emit b st) = bs_seenCalls st"
  "bs_seenResults (putBlock emit b st) = bs_seenResults st"
  "bs_sink (putBlock emit b st) = emit (blockStep b) (bs_sink st)"
  by (simp_all add: putBlock_def emitStep_def)

section \<open>Text and reasoning\<close>

definition wordEnd :: "char \<Rightarrow> bool" where
  "wordEnd c \<longleftrightarrow> c = CHR '' '' \<or> c = CHR 0x0A \<or> c = CHR 0x09"

text \<open>flushTextChunks.\<close>

function flushTextChunks :: "'k emitter \<Rightarrow> 'k blockState \<Rightarrow> 'k blockState" where
  "flushTextChunks emit st =
    (if int (RuneCount (bs_inText st)) \<ge> bs_threshold st then
       (case LastIndex wordEnd (bs_inText st) of
          Some (Suc i) \<Rightarrow>
            flushTextChunks emit
              (putBlock emit (TextChunk (bs_ctx st) (take (Suc i + 1) (bs_inText st)))
                (st\<lparr>bs_inText := drop (Suc i + 1) (bs_inText st)\<rparr>))
        | _ \<Rightarrow> (putBlock emit (TextChunk (bs_ctx st) (bs_inText st)) st)\<lparr>bs_inText := []\<rparr>)
     else st)"
  by pat_completeness auto
termination
proof (relation "measure (\<lambda>(_, st). length (bs_inText st))")
  fix emit :: "'k emitter" and st :: "'k blockState" and a i
  assume "LastIndex wordEnd (bs_inText st) = Some a" "a = Suc i"
  then have "Suc i < length (bs_inText st)" using LastIndex_Some by fastforce
  then show "((emit, putBlock emit (TextChunk (bs_ctx st) (take (Suc i + 1) (bs_inText st)))
      (st\<lparr>bs_inText := drop (Suc i + 1) (bs_inText st)\<rparr>)), emit, st)
      \<in> measure (\<lambda>(_, st). length (bs_inText st))"
    by simp
qed simp

declare flushTextChunks.simps [simp del]

text \<open>closeText.\<close>

definition closeText :: "'k emitter \<Rightarrow> 'k blockState \<Rightarrow> 'k blockState" where
  "closeText emit st =
    (let st = (if bs_inText st \<noteq> [] then
                 (putBlock emit (TextChunk (bs_ctx st) (bs_inText st)) st)\<lparr>bs_inText := []\<rparr>
               else st)
     in if bs_fullText st = [] then st
        else let full = bs_fullText st; st = st\<lparr>bs_fullText := []\<rparr>
          in putBlock emit (TextDone (bs_ctx st) full (Contains full ''```'')) st)"

text \<open>beginReasoning.\<close>

definition beginReasoning :: "'k emitter \<Rightarrow> 'k blockState \<Rightarrow> 'k blockState" where
  "beginReasoning emit st =
    (if bs_inReasoning st then st
     else let st = st\<lparr>bs_inReasoning := True, bs_chunked := False\<rparr>
       in putBlock emit (ReasoningStartBlock (bs_ctx st)) st)"

text \<open>The loop of appendReasoning: lines are looked for from \<open>scanned\<close> on, and from the start
  of the buffer once a line has been cut off it.\<close>

function scanReasoning :: "'k emitter \<Rightarrow> nat \<Rightarrow> 'k blockState \<Rightarrow> 'k blockState" where
  "scanReasoning emit scanned st =
    (case IndexByte (drop scanned (bs_reasoning st)) (CHR 0x0A) of
       None \<Rightarrow> st
     | Some i \<Rightarrow>
         let line = i + scanned;
             t = take line (bs_reasoning st);
             st = st\<lparr>bs_reasoning := drop (line + 1) (bs_reasoning st)\<rparr>
         in if TrimSpace t = [] then scanReasoning emit 0 st
            else let st = st\<lparr>bs_chunked := True\<rparr>
              in scanReasoning emit 0 (putBlock emit (ReasoningChunk (bs_ctx st) t) st))"
  by pat_completeness auto
termination
proof (relation "measure (\<lambda>(_, _, st). length (bs_reasoning st))")
  fix emit :: "'k emitter" and scanned i line and st st1 st2 :: "'k blockState" and t
  assume i: "IndexByte (drop scanned (bs_reasoning st)) (CHR 0x0A) = Some i"
    and line: "line = i + scanned"
    and st1: "st1 = st\<lparr>bs_reasoning := drop (line + 1) (bs_reasoning st)\<rparr>"
  have "i < length (drop scanned (bs_reasoning st))" using IndexByte_Some [OF i] by simp
  then have less: "length (bs_reasoning st1) < length (bs_reasoning st)"
    by (simp add: st1 line)
  then show "((emit, 0, st1), emit, scanned, st) \<in> measure (\<lambda>(_, _, st). length (bs_reasoning st))"
    by simp
  assume st2: "st2 = st1\<lparr>bs_chunked := True\<rparr>"
  show "((emit, 0, putBlock emit (ReasoningChunk (bs_ctx st2) t) st2), emit, scanned, st)
      \<in> measure (\<lambda>(_, _, st). length (bs_reasoning st))"
    using less by (simp add: st2)
qed simp

declare scanReasoning.simps [simp del]

text \<open>appendReasoning.\<close>

definition appendReasoning :: "'k emitter \<Rightarrow> string \<Rightarrow> bool \<Rightarrow> 'k blockState \<Rightarrow> 'k blockState" where
  "appendReasoning emit delta summary st =
    (if delta = [] then st
     else
       let st = (if \<not> bs_inReasoning st then beginReasoning emit st else st);
           st = (if summary then st\<lparr>bs_summaryText := bs_summaryText st @ delta\<rparr>
                 else st\<lparr>bs_reasoningText := bs_reasoningText st @ delta\<rparr>);
           scanned = length (bs_reasoning st);
           st = st\<lparr>bs_reasoning := bs_reasoning st @ delta\<rparr>
       in scanReasoning emit scanned st)"

text \<open>closeReasoning.\<close>

definition closeReasoning :: "'k emitter \<Rightarrow> 'k blockState \<Rightarrow> 'k blockState" where
  "closeReasoning emit st =
    (if \<not> bs_inReasoning st then st
     else
       let rest = TrimSpace (bs_reasoning st);
           st = (if rest \<noteq> [] then
                   (let st = st\<lparr>bs_chunked := True\<rparr>
                    in putBlock emit (ReasoningChunk (bs_ctx st) rest) st)
                 else st);
           st = (if \<not> bs_chunked st \<and> (0 < length (bs_reasoningText st) \<or> 0 < length (bs_summaryText st))
                 then putBlock emit
                   (ReasoningBlock (bs_ctx st) (bs_reasoningText st) (bs_summaryText st)) st
                 else st)
       in st\<lparr>bs_inReasoning := False, bs_reasoning := [], bs_reasoningText := [],
             bs_summaryText := [], bs_chunked := False\<rparr>)"

text \<open>appendText.\<close>

definition appendText :: "'k emitter \<Rightarrow> string \<Rightarrow> 'k blockState \<Rightarrow> 'k blockState" where
  "appendText emit delta st =
    (if delta = [] then st
     else
       let st = closeReasoning emit st;
           st = st\<lparr>bs_inText := bs_inText st @ delta, bs_fullText := bs_fullText st @ delta\<rparr>
       in flushTextChunks emit st)"

section \<open>Responses and attribution\<close>

text \<open>announceResponse.\<close>

definition announceStart :: "'k emitter \<Rightarrow> responseObject \<Rightarrow> 'k blockState \<Rightarrow> 'k blockState" where
  "announceStart emit resp st =
    (if resp_ID resp = [] \<or> resp_ID resp \<in> gkeys (bs_started st) then st
     else
       let st = st\<lparr>bs_started := gput (resp_ID resp) True (bs_started st)\<rparr>
       in putBlock emit (ResponseStartBlock (bs_ctx st) (resp_Model resp) (resp_ID resp)) st)"

text \<open>recomputeAttribution: the range over a map of one entry.\<close>

definition recomputeAttribution :: "'k blockState \<Rightarrow> 'k blockState" where
  "recomputeAttribution st =
    (case bs_live st of
       [(_, model)] \<Rightarrow>
         st\<lparr>bs_ctx := (bs_ctx st)\<lparr>bc_Agent := model, bc_Depth := CountByte model (CHR ''.'')\<rparr>\<rparr>
     | _ \<Rightarrow> st\<lparr>bs_ctx := (bs_ctx st)\<lparr>bc_Agent := [], bc_Depth := 0\<rparr>\<rparr>)"

text \<open>startResponse.\<close>

definition startResponse :: "'k emitter \<Rightarrow> responseObject \<Rightarrow> 'k blockState \<Rightarrow> 'k blockState" where
  "startResponse emit resp st =
    (if resp_ID resp = [] then st
     else
       let st = (if map_of (bs_live st) (resp_ID resp) = None \<or> resp_Model resp \<noteq> []
                 then st\<lparr>bs_live := gput (resp_ID resp) (resp_Model resp) (bs_live st)\<rparr> else st);
           st = recomputeAttribution (st\<lparr>bs_ended := False\<rparr>)
       in announceStart emit resp st)"

text \<open>endResponse. Its response is never nil: the four callers pass one.\<close>

definition endBlock :: "'k emitter \<Rightarrow> string \<Rightarrow> responseObject \<Rightarrow> 'k blockState \<Rightarrow> 'k blockState" where
  "endBlock emit status resp st =
    (let st = closeText emit st;
         st = closeReasoning emit st;
         st = putBlock emit (ResponseEndBlock (bs_ctx st) status (Some resp)) st;
         st = recomputeAttribution (st\<lparr>bs_live := gdel (resp_ID resp) (bs_live st)\<rparr>)
     in st\<lparr>bs_ended := True,
           bs_ctx := (bs_ctx st)\<lparr>bc_Iteration := bc_Iteration (bs_ctx st) + 1\<rparr>\<rparr>)"

section \<open>Items\<close>

text \<open>foldToolCall.\<close>

definition foldToolCall :: "goLib \<Rightarrow> 'k emitter \<Rightarrow> jmap \<Rightarrow> 'k blockState \<Rightarrow> 'k blockState" where
  "foldToolCall lib emit item st =
    (let callID = itemString item ''call_id'' in
     if callID = [] then st
     else
       let name = itemString item ''name'';
           arguments = itemArguments lib item;
           fresh = \<lparr> te_Name = name, te_Arguments = arguments,
                     te_ArgsSummary = FormatToolArgsBrief lib name arguments,
                     te_CallID = callID, te_AgentName = itemString item ''agent_name'',
                     te_ExecutedBy = ''server'', te_Output = None \<rparr>;
           (execution, st) = (case map_of (bs_executions st) callID of
               Some prior \<Rightarrow> (prior, st)
             | None \<Rightarrow> (fresh, st\<lparr>bs_executions := gput callID fresh (bs_executions st)\<rparr>))
       in if callID \<in> gkeys (bs_seenCalls st) then st
          else
            let st = st\<lparr>bs_seenCalls := gput callID True (bs_seenCalls st)\<rparr>;
                st = closeReasoning emit st;
                st = closeText emit st
            in putBlock emit (ToolGroup (bs_ctx st) [execution]) st)"

text \<open>foldToolResult. The executions of the code are pointers that only this map holds.\<close>

definition foldToolResult :: "'k emitter \<Rightarrow> jmap \<Rightarrow> 'k blockState \<Rightarrow> 'k blockState" where
  "foldToolResult emit item st =
    (let callID = itemString item ''call_id'' in
     if callID = [] \<or> callID \<in> gkeys (bs_seenResults st) then st
     else
       let out = itemString item ''output'';
           execution = (case map_of (bs_executions st) callID of
               Some prior \<Rightarrow> prior
             | None \<Rightarrow> \<lparr> te_Name = itemString item ''name'', te_Arguments = [], te_ArgsSummary = [],
                         te_CallID = callID, te_AgentName = [], te_ExecutedBy = [],
                         te_Output = None \<rparr>);
           execution = execution\<lparr>te_Output := Some out\<rparr>;
           st = st\<lparr>bs_executions := gput callID execution (bs_executions st),
                   bs_seenResults := gput callID True (bs_seenResults st)\<rparr>
       in putBlock emit (ToolResultBlock (bs_ctx st) (te_Name execution) callID
            (te_AgentName execution) out (te_Arguments execution) (te_ArgsSummary execution)) st)"

text \<open>foldMessage.\<close>

definition foldMessage :: "'k emitter \<Rightarrow> jmap \<Rightarrow> 'k blockState \<Rightarrow> 'k blockState" where
  "foldMessage emit item st =
    (let t = outputTextFromContent item in
     if t = [] then closeText emit st
     else closeText emit (st\<lparr>bs_fullText := t\<rparr>))"

text \<open>foldNativeTool. A nil map falls back to the item; a decoded object is never nil.\<close>

definition foldNativeTool :: "'k emitter \<Rightarrow> jmap \<Rightarrow> 'k blockState \<Rightarrow> 'k blockState" where
  "foldNativeTool emit item st =
    (let toolType = itemString item ''type'';
         data = (case map_of item ''data'' of Some (JObj m) \<Rightarrow> m | _ \<Rightarrow> item)
     in putBlock emit (NativeToolBlock (bs_ctx st) toolType (formatNativeLabel toolType data) data) st)"

text \<open>foldItem.\<close>

definition foldItem :: "goLib \<Rightarrow> 'k emitter \<Rightarrow> jmap \<Rightarrow> 'k blockState \<Rightarrow> 'k blockState" where
  "foldItem lib emit item st =
    (let t = itemString item ''type'' in
     if t = ''function_call'' then foldToolCall lib emit item st
     else if t = ''function_call_output'' then foldToolResult emit item st
     else if t = ''message'' then foldMessage emit item st
     else if t = [] then st
     else foldNativeTool emit item st)"

section \<open>The fold\<close>

text \<open>A float64 number of seconds as a Duration: truncated toward zero.\<close>

definition delayNanos :: "rat \<Rightarrow> int" where
  "delayNanos seconds =
    (if seconds < 0 then - \<lfloor>- seconds * 1000000000\<rfloor> else \<lfloor>seconds * 1000000000\<rfloor>)"

text \<open>fold, the switch over the body of an event.\<close>

definition foldEvent :: "goLib \<Rightarrow> 'k emitter \<Rightarrow> eventBody \<Rightarrow> 'k blockState \<Rightarrow> 'k blockState" where
  "foldEvent lib emit e st =
    (case e of
       ResponseCreatedEvent r \<Rightarrow> startResponse emit r st
     | QueuedEvent r \<Rightarrow> announceStart emit r st
     | InProgressEvent r \<Rightarrow> startResponse emit r st
     | ReasoningStartedEvent \<Rightarrow> beginReasoning emit st
     | ReasoningTextDeltaEvent delta \<Rightarrow> appendReasoning emit delta False st
     | ReasoningSummaryTextDeltaEvent delta \<Rightarrow> appendReasoning emit delta True st
     | OutputTextDeltaEvent delta \<Rightarrow> appendText emit delta st
     | OutputItemDoneEvent item \<Rightarrow> foldItem lib emit item st
     | CompactionInProgressEvent \<Rightarrow> putBlock emit (CompactionBlock (bs_ctx st)) st
     | RetryEvent r \<Rightarrow> putBlock emit (RetryBlock (bs_ctx st) (retry_Source r) (retry_Attempt r)
         (retry_MaxAttempts r) (delayNanos (retry_DelaySeconds r))) st
     | ErrorEvent r \<Rightarrow> putBlock emit (ErrorBlock (bs_ctx st) (err_Message r) (err_Source r) (err_Code r)) st
     | OutputFileDoneEvent fid name \<Rightarrow> putBlock emit (FileBlock (bs_ctx st) fid name) st
     | ResponseCompletedEvent r \<Rightarrow> endBlock emit (resp_Status r) r st
     | ResponseFailedEvent r \<Rightarrow> endBlock emit (resp_Status r) r st
     | IncompleteEvent r \<Rightarrow> endBlock emit (resp_Status r) r st
     | ResponseCancelledEvent r \<Rightarrow> endBlock emit (resp_Status r) r st
     | _ \<Rightarrow> st)"

text \<open>What a sequence leaves behind is still the answer, unless a response just ended.\<close>

definition salvage :: "'k emitter \<Rightarrow> 'k blockState \<Rightarrow> 'k blockState" where
  "salvage emit st = (if bs_ended st then st else closeReasoning emit (closeText emit st))"

text \<open>The body of the loop of Blocks; a nil event folds to nothing.\<close>

definition blocksBody ::
  "goLib \<Rightarrow> 'k emitter \<Rightarrow> ('k \<Rightarrow> bool) \<Rightarrow> streamStep \<Rightarrow> 'k blockState \<Rightarrow> bool \<times> 'k blockState" where
  "blocksBody lib emit stopped step st =
    (case step of
       (_, Some err) \<Rightarrow> (False, emitStep emit (None, Some err) (salvage emit st))
     | (Some e, None) \<Rightarrow>
         let st = foldEvent lib emit (ev_body e) st in (\<not> stopped (bs_sink st), st)
     | (None, None) \<Rightarrow> (\<not> stopped (bs_sink st), st))"

definition flushThreshold :: "int \<Rightarrow> int" where
  "flushThreshold configured = (if configured \<le> 0 then defaultTextFlushThreshold else configured)"

definition Blocks ::
  "goLib \<Rightarrow> int \<Rightarrow> (streamStep, bool \<times> (bool \<times> 'w) blockState) seq \<Rightarrow> (blockStep, 'w) seq" where
  "Blocks lib configured events y w =
    (let st = newBlockState (flushThreshold configured) (False, w);
         (whole, st) = forRange events (blocksBody lib (emitSink y) fst) st
     in snd (bs_sink (if whole then salvage (emitSink y) st else st)))"

end
