(* ===== verification/Folding.thy ===== *)
theory Folding
  imports BlockStream
begin

text \<open>
  What the fold of blockstream.go shows a caller.

  The locale \<open>sink_map\<close> relates two sinks by a function and proves once that every
  operation of the fold commutes with it. Its two interpretations give the shape of every
  result here: the code's sink is what its consumer makes of the list of steps, and an
  operation only adds to that list. So a run of \<open>Blocks\<close> offers \<open>blocksOut\<close> of its events,
  whatever the consumer, and the rest of the theory is about that list.
\<close>

section \<open>Sinks\<close>

definition mapSink :: "('k \<Rightarrow> 'j) \<Rightarrow> 'k blockState \<Rightarrow> 'j blockState" where
  "mapSink h st =
    \<lparr> bs_threshold = bs_threshold st, bs_ctx = bs_ctx st, bs_started = bs_started st,
      bs_live = bs_live st, bs_inText = bs_inText st, bs_fullText = bs_fullText st,
      bs_inReasoning = bs_inReasoning st, bs_reasoning = bs_reasoning st,
      bs_reasoningText = bs_reasoningText st, bs_summaryText = bs_summaryText st,
      bs_ended = bs_ended st, bs_chunked = bs_chunked st, bs_executions = bs_executions st,
      bs_seenCalls = bs_seenCalls st, bs_seenResults = bs_seenResults st,
      bs_sink = h (bs_sink st) \<rparr>"

lemma mapSink_select [simp]:
  "bs_threshold (mapSink h st) = bs_threshold st" "bs_ctx (mapSink h st) = bs_ctx st"
  "bs_started (mapSink h st) = bs_started st" "bs_live (mapSink h st) = bs_live st"
  "bs_inText (mapSink h st) = bs_inText st" "bs_fullText (mapSink h st) = bs_fullText st"
  "bs_inReasoning (mapSink h st) = bs_inReasoning st"
  "bs_reasoning (mapSink h st) = bs_reasoning st"
  "bs_reasoningText (mapSink h st) = bs_reasoningText st"
  "bs_summaryText (mapSink h st) = bs_summaryText st"
  "bs_ended (mapSink h st) = bs_ended st" "bs_chunked (mapSink h st) = bs_chunked st"
  "bs_executions (mapSink h st) = bs_executions st"
  "bs_seenCalls (mapSink h st) = bs_seenCalls st"
  "bs_seenResults (mapSink h st) = bs_seenResults st"
  "bs_sink (mapSink h st) = h (bs_sink st)"
  by (simp_all add: mapSink_def)

lemma mapSink_update:
  "(mapSink h st)\<lparr>bs_ctx := a1\<rparr> = mapSink h (st\<lparr>bs_ctx := a1\<rparr>)"
  "(mapSink h st)\<lparr>bs_started := a2\<rparr> = mapSink h (st\<lparr>bs_started := a2\<rparr>)"
  "(mapSink h st)\<lparr>bs_live := a3\<rparr> = mapSink h (st\<lparr>bs_live := a3\<rparr>)"
  "(mapSink h st)\<lparr>bs_inText := a4\<rparr> = mapSink h (st\<lparr>bs_inText := a4\<rparr>)"
  "(mapSink h st)\<lparr>bs_fullText := a4\<rparr> = mapSink h (st\<lparr>bs_fullText := a4\<rparr>)"
  "(mapSink h st)\<lparr>bs_inReasoning := a5\<rparr> = mapSink h (st\<lparr>bs_inReasoning := a5\<rparr>)"
  "(mapSink h st)\<lparr>bs_reasoning := a4\<rparr> = mapSink h (st\<lparr>bs_reasoning := a4\<rparr>)"
  "(mapSink h st)\<lparr>bs_reasoningText := a4\<rparr> = mapSink h (st\<lparr>bs_reasoningText := a4\<rparr>)"
  "(mapSink h st)\<lparr>bs_summaryText := a4\<rparr> = mapSink h (st\<lparr>bs_summaryText := a4\<rparr>)"
  "(mapSink h st)\<lparr>bs_ended := a5\<rparr> = mapSink h (st\<lparr>bs_ended := a5\<rparr>)"
  "(mapSink h st)\<lparr>bs_chunked := a5\<rparr> = mapSink h (st\<lparr>bs_chunked := a5\<rparr>)"
  "(mapSink h st)\<lparr>bs_executions := a6\<rparr> = mapSink h (st\<lparr>bs_executions := a6\<rparr>)"
  "(mapSink h st)\<lparr>bs_seenCalls := a2\<rparr> = mapSink h (st\<lparr>bs_seenCalls := a2\<rparr>)"
  "(mapSink h st)\<lparr>bs_seenResults := a2\<rparr> = mapSink h (st\<lparr>bs_seenResults := a2\<rparr>)"
  by (simp_all add: mapSink_def)

lemma mapSink_if:
  "(if b then mapSink h x else mapSink h y) = mapSink h (if b then x else y)"
  "(case xs of [] \<Rightarrow> mapSink h x | z # zs \<Rightarrow> mapSink h (f z zs)) =
    mapSink h (case xs of [] \<Rightarrow> x | z # zs \<Rightarrow> f z zs)"
  "(case p of (u, v) \<Rightarrow> mapSink h (g u v)) = mapSink h (case p of (u, v) \<Rightarrow> g u v)"
  by (simp_all split: list.split prod.split)

lemmas pull_sink = mapSink_update mapSink_if

lemma mapSink_new [simp]: "mapSink h (newBlockState n k) = newBlockState n (h k)"
  by (simp add: mapSink_def newBlockState_def)

locale sink_map =
  fixes h :: "'k \<Rightarrow> 'j" and emit :: "'k emitter" and emit' :: "'j emitter"
  assumes hom: "h (emit step k) = emit' step (h k)"
begin

lemma map_emit: "emitStep emit' step (mapSink h st) = mapSink h (emitStep emit step st)"
  by (simp add: emitStep_def mapSink_def hom)

lemma map_put: "putBlock emit' b (mapSink h st) = mapSink h (putBlock emit b st)"
  by (simp add: putBlock_def map_emit)

lemma map_flush: "flushTextChunks emit' (mapSink h st) = mapSink h (flushTextChunks emit st)"
proof (induction st rule: measure_induct_rule [of "\<lambda>st. length (bs_inText st)"])
  case (less st)
  show ?case
  proof (cases "int (RuneCount (bs_inText st)) \<ge> bs_threshold st")
    case True
    show ?thesis
    proof (cases "LastIndex wordEnd (bs_inText st)")
      case (Some n)
      then have "n < length (bs_inText st)" by (simp add: LastIndex_Some)
      then show ?thesis using True Some less
        by (cases n) (simp_all add: flushTextChunks.simps [of _ st]
            flushTextChunks.simps [of _ "mapSink h st"] map_put pull_sink)
    qed (use True in \<open>simp add: flushTextChunks.simps map_put pull_sink\<close>)
  qed (simp add: flushTextChunks.simps)
qed

lemma map_scan: "scanReasoning emit' n (mapSink h st) = mapSink h (scanReasoning emit n st)"
proof (induction st arbitrary: n rule: measure_induct_rule [of "\<lambda>st. length (bs_reasoning st)"])
  case (less st)
  show ?case
  proof (cases "IndexByte (drop n (bs_reasoning st)) (CHR 0x0A)")
    case (Some i)
    then have "i < length (drop n (bs_reasoning st))" using IndexByte_Some by blast
    then show ?thesis using Some less
      by (simp add: scanReasoning.simps [of _ n st] scanReasoning.simps [of _ n "mapSink h st"]
          Let_def map_put pull_sink)
  qed (simp add: scanReasoning.simps)
qed

lemma map_closeText: "closeText emit' (mapSink h st) = mapSink h (closeText emit st)"
  by (simp add: closeText_def Let_def pull_sink map_put)

lemma map_begin: "beginReasoning emit' (mapSink h st) = mapSink h (beginReasoning emit st)"
  by (simp add: beginReasoning_def Let_def pull_sink map_put)

lemma map_closeReasoning: "closeReasoning emit' (mapSink h st) = mapSink h (closeReasoning emit st)"
  by (simp add: closeReasoning_def Let_def pull_sink map_put)

lemma map_appendReasoning:
  "appendReasoning emit' d b (mapSink h st) = mapSink h (appendReasoning emit d b st)"
  by (simp add: appendReasoning_def Let_def pull_sink map_begin map_scan)

lemma map_appendText: "appendText emit' d (mapSink h st) = mapSink h (appendText emit d st)"
  by (simp add: appendText_def Let_def pull_sink map_closeReasoning map_flush)

lemma map_announce: "announceStart emit' r (mapSink h st) = mapSink h (announceStart emit r st)"
  by (simp add: announceStart_def Let_def pull_sink map_put)

lemma map_recompute: "recomputeAttribution (mapSink h st) = mapSink h (recomputeAttribution st)"
  by (simp add: recomputeAttribution_def pull_sink split: list.split)

lemma map_start: "startResponse emit' r (mapSink h st) = mapSink h (startResponse emit r st)"
  by (simp add: startResponse_def Let_def pull_sink map_announce map_recompute)

lemma map_end: "endBlock emit' s r (mapSink h st) = mapSink h (endBlock emit s r st)"
  by (simp add: endBlock_def Let_def pull_sink map_recompute map_put map_closeReasoning map_closeText)

lemma map_call: "foldToolCall lib emit' i (mapSink h st) = mapSink h (foldToolCall lib emit i st)"
  by (simp add: foldToolCall_def Let_def pull_sink map_put map_closeReasoning map_closeText split: option.split)

lemma map_result: "foldToolResult emit' i (mapSink h st) = mapSink h (foldToolResult emit i st)"
  by (simp add: foldToolResult_def Let_def pull_sink map_put)

lemma map_message: "foldMessage emit' i (mapSink h st) = mapSink h (foldMessage emit i st)"
  by (simp add: foldMessage_def Let_def pull_sink map_closeText)

lemma map_native: "foldNativeTool emit' i (mapSink h st) = mapSink h (foldNativeTool emit i st)"
  by (simp add: foldNativeTool_def Let_def pull_sink map_put)

lemma map_item: "foldItem lib emit' i (mapSink h st) = mapSink h (foldItem lib emit i st)"
  by (simp add: foldItem_def Let_def pull_sink map_call map_result map_message map_native)

lemma map_fold: "foldEvent lib emit' e (mapSink h st) = mapSink h (foldEvent lib emit e st)"
  by (simp add: foldEvent_def map_start map_announce map_begin map_appendReasoning map_appendText
      map_item map_put map_end split: eventBody.split)

lemma map_salvage: "salvage emit' (mapSink h st) = mapSink h (salvage emit st)"
  by (simp add: salvage_def pull_sink map_closeReasoning map_closeText)

end

section \<open>The list of steps\<close>

definition emitList :: "blockStep list emitter" where
  "emitList step steps = steps @ [step]"

lemma emitList_apply [simp]:
  "emitList (blockStep b) steps = steps @ [blockStep b]"
  "emitList (x, y) steps = steps @ [(x, y)]"
  by (simp_all add: emitList_def)

text \<open>What a consumer has made of a list of steps: whether it stopped, and its state.\<close>

definition heard :: "(blockStep, 'w) yield \<Rightarrow> 'w \<Rightarrow> blockStep list \<Rightarrow> bool \<times> 'w" where
  "heard y w steps = (let (go, w') = feed steps y w in (\<not> go, w'))"

interpretation hears: sink_map "heard y w" emitList "emitSink y" for y :: "(blockStep, 'w) yield" and w
proof
  show "heard y w (emitList step k) = emitSink y step (heard y w k)" for step k
    by (simp add: heard_def emitList_def emitSink_def feed_append Let_def split: prod.split)
qed

interpretation grows: sink_map "(@) before" emitList emitList for before :: "blockStep list"
  by unfold_locales (simp add: emitList_def)

lemma heard_stopped: "fst (heard y w xs) \<Longrightarrow> heard y w (xs @ ys) = heard y w xs"
  by (simp add: heard_def feed_append split: prod.splits)

text \<open>A state with its list of steps cut off, and put back.\<close>

definition unsink :: "blockStep list blockState \<Rightarrow> blockStep list blockState" where
  "unsink st = st\<lparr>bs_sink := []\<rparr>"

lemma unsink_back: "st = mapSink ((@) (bs_sink st)) (unsink st)"
  by (simp add: mapSink_def unsink_def)

text \<open>The run of \<open>Blocks\<close> on the list sink, and the steps it offers.\<close>

definition blocksFrom ::
  "goLib \<Rightarrow> blockStep list blockState \<Rightarrow> streamStep list \<Rightarrow> blockStep list" where
  "blocksFrom lib st steps =
    (let (whole, st) = feed steps (blocksBody lib emitList (\<lambda>_. False)) st
     in bs_sink (if whole then salvage emitList st else st))"

definition blocksOut :: "goLib \<Rightarrow> int \<Rightarrow> streamStep list \<Rightarrow> blockStep list" where
  "blocksOut lib configured = blocksFrom lib (newBlockState (flushThreshold configured) [])"

lemma blocksBody_simps [simp]:
  "blocksBody lib em sp (ev, Some err) st =
    (False, emitStep em (None, Some err) (salvage em st))"
  "blocksBody lib em sp (Some e, None) st =
    (\<not> sp (bs_sink (foldEvent lib em (ev_body e) st)), foldEvent lib em (ev_body e) st)"
  "blocksBody lib em sp (None, None) st = (\<not> sp (bs_sink st), st)"
  by (simp_all add: blocksBody_def Let_def split: option.split)

lemma body_grows:
  "blocksBody lib emitList (\<lambda>_. False) step (mapSink ((@) before) st) =
   (let (go, st') = blocksBody lib emitList (\<lambda>_. False) step st in (go, mapSink ((@) before) st'))"
  by (simp add: blocksBody_def Let_def grows.map_fold grows.map_salvage grows.map_emit
      split: prod.split option.split)

lemma blocksFrom_grows:
  "blocksFrom lib (mapSink ((@) before) st) steps = before @ blocksFrom lib st steps"
proof (induction steps arbitrary: st)
  case (Cons x xs)
  obtain go st' where "blocksBody lib emitList (\<lambda>_. False) x st = (go, st')"
    by (cases "blocksBody lib emitList (\<lambda>_. False) x st")
  then show ?case using Cons.IH [of st']
    by (simp add: blocksFrom_def body_grows)
qed (simp add: blocksFrom_def grows.map_salvage)

lemma blocksFrom_extends: "\<exists>more. blocksFrom lib st steps = bs_sink st @ more"
  using blocksFrom_grows [of lib "bs_sink st" "unsink st" steps] unsink_back [of st] by metis

lemma consumer_run:
  "(let (whole, st') = feed steps (blocksBody lib (emitSink y) fst) (mapSink (heard y w) st)
    in bs_sink (if whole then salvage (emitSink y) st' else st')) =
   heard y w (blocksFrom lib st steps)"
proof (induction steps arbitrary: st)
  case Nil
  then show ?case by (simp add: blocksFrom_def hears.map_salvage)
next
  case (Cons x xs)
  obtain ev er where x: "x = (ev, er)" by (cases x)
  show ?case
  proof (cases er)
    case (Some err)
    then show ?thesis
      by (simp add: x blocksFrom_def hears.map_salvage hears.map_emit)
  next
    case None
    define st1 where "st1 = (case ev of Some e \<Rightarrow> foldEvent lib emitList (ev_body e) st | None \<Rightarrow> st)"
    have go: "blocksBody lib (emitSink y) fst x (mapSink (heard y w) st) =
        (\<not> fst (heard y w (bs_sink st1)), mapSink (heard y w) st1)"
      by (cases ev) (simp_all add: x None st1_def hears.map_fold)
    have list: "blocksFrom lib st (x # xs) = blocksFrom lib st1 xs"
      by (cases ev) (simp_all add: x None blocksFrom_def st1_def)
    show ?thesis
    proof (cases "fst (heard y w (bs_sink st1))")
      case True
      then show ?thesis
        using blocksFrom_extends [of lib st1 xs] heard_stopped [OF True] by (auto simp: go list)
    next
      case False
      then show ?thesis using Cons.IH [of st1] by (simp add: go list)
    qed
  qed
qed

lemma Blocks_heard:
  assumes "denotes events steps"
  shows "Blocks lib configured events y w = snd (heard y w (blocksOut lib configured steps))"
proof -
  have s: "newBlockState n (False, w) = mapSink (heard y w) (newBlockState n [])" for n
    by (simp add: heard_def)
  show ?thesis
    unfolding Blocks_def forRange_denotes [OF assms] blocksOut_def consumer_run [symmetric] s
    by (simp split: prod.split)
qed

lemma denotes_Blocks:
  "denotes events steps \<Longrightarrow> denotes (Blocks lib configured events) (blocksOut lib configured steps)"
  by (simp add: denotes_def [of "Blocks lib configured events"] Blocks_heard heard_def Let_def
      split: prod.split)

text \<open>Events without errors are folded one after the other, and what is left is salvaged.\<close>

definition ok :: "event \<Rightarrow> streamStep" where
  "ok e = (Some e, None)"

definition foldAll ::
  "goLib \<Rightarrow> event list \<Rightarrow> blockStep list blockState \<Rightarrow> blockStep list blockState" where
  "foldAll lib es = fold (\<lambda>e. foldEvent lib emitList (ev_body e)) es"

definition startState :: "int \<Rightarrow> blockStep list blockState" where
  "startState configured = newBlockState (flushThreshold configured) []"

lemma feed_oks:
  "feed (map ok es @ rest) (blocksBody lib emitList (\<lambda>_. False)) st =
   feed rest (blocksBody lib emitList (\<lambda>_. False)) (foldAll lib es st)"
  by (induction es arbitrary: st) (simp_all add: ok_def foldAll_def)

lemma blocksOut_oks:
  "blocksOut lib configured (map ok es) =
   bs_sink (salvage emitList (foldAll lib es (startState configured)))"
  using feed_oks [of es "[]"] by (simp add: blocksOut_def blocksFrom_def startState_def)

lemma blocksOut_err:
  "blocksOut lib configured (map ok es @ (ev, Some err) # rest) =
   blocksOut lib configured (map ok es) @ [(None, Some err)]"
  unfolding blocksOut_oks
  by (simp add: blocksOut_def blocksFrom_def feed_oks startState_def emitStep_def emitList_def)

section \<open>Operations that only draw text\<close>

text \<open>The part of the state the text and reasoning operations leave alone.\<close>

definition frame where
  "frame st = (bs_threshold st, bs_ctx st, bs_started st, bs_live st, bs_ended st,
     bs_executions st, bs_seenCalls st, bs_seenResults st)"

text \<open>The keys a caller tells blocks apart by, with the kind of block in front.\<close>

fun blockKeys :: "block \<Rightarrow> (string \<times> string) list" where
  "blockKeys (ResponseStartBlock _ _ rid) = [(''start'', rid)]"
| "blockKeys (ToolGroup _ xs) = map (\<lambda>x. (''call'', te_CallID x)) xs"
| "blockKeys (ToolResultBlock _ _ cid _ _ _ _) = [(''result'', cid)]"
| "blockKeys _ = []"

definition drawn :: "blockContext \<Rightarrow> block \<Rightarrow> bool" where
  "drawn c b \<longleftrightarrow> Context b = c \<and> blockKeys b = []"

definition drew :: "blockStep list blockState \<Rightarrow> blockStep list blockState \<Rightarrow> bool" where
  "drew st st' \<longleftrightarrow> frame st' = frame st \<and>
     (\<exists>bs. bs_sink st' = bs_sink st @ map blockStep bs \<and> list_all (drawn (bs_ctx st)) bs)"

lemma drew_refl [simp]: "drew st st"
  by (auto simp: drew_def)

lemma drew_trans: "drew st st1 \<Longrightarrow> drew st1 st2 \<Longrightarrow> drew st st2"
  unfolding drew_def frame_def by (auto simp: list_all_append simp flip: map_append)

lemma drew_ctx: "drew st st' \<Longrightarrow> bs_ctx st' = bs_ctx st"
  by (simp add: drew_def frame_def)

lemma drew_put [simp]:
  "drew st st' \<Longrightarrow> drawn (bs_ctx st) b \<Longrightarrow> drew st (putBlock emitList b st')"
  by (auto simp: drew_def frame_def emitList_def list_all_append intro: exI [of _ "_ @ [b]"])

lemma drew_fields [simp]:
  "drew st (st'\<lparr>bs_inText := a\<rparr>) = drew st st'"
  "drew st (st'\<lparr>bs_fullText := a\<rparr>) = drew st st'"
  "drew st (st'\<lparr>bs_inReasoning := b\<rparr>) = drew st st'"
  "drew st (st'\<lparr>bs_reasoning := a\<rparr>) = drew st st'"
  "drew st (st'\<lparr>bs_reasoningText := a\<rparr>) = drew st st'"
  "drew st (st'\<lparr>bs_summaryText := a\<rparr>) = drew st st'"
  "drew st (st'\<lparr>bs_chunked := b\<rparr>) = drew st st'"
  by (simp_all add: drew_def frame_def)

lemma drawn_text [simp]:
  "drawn c (TextChunk c t)" "drawn c (TextDone c t b)" "drawn c (ReasoningStartBlock c)"
  "drawn c (ReasoningChunk c t)" "drawn c (ReasoningBlock c t u)"
  by (simp_all add: drawn_def)

lemma drew_flush [simp]: "drew st (flushTextChunks emitList st)"
proof (induction st rule: measure_induct_rule [of "\<lambda>st. length (bs_inText st)"])
  case (less st)
  show ?case
  proof (cases "LastIndex wordEnd (bs_inText st)")
    case None
    then show ?thesis by (simp add: flushTextChunks.simps)
  next
    case (Some n)
    then have n: "n < length (bs_inText st)" by (simp add: LastIndex_Some)
    define st1 where "st1 = putBlock emitList
      (TextChunk (bs_ctx st) (take (n + 1) (bs_inText st))) (st\<lparr>bs_inText := drop (n + 1) (bs_inText st)\<rparr>)"
    have "drew st st1" by (simp add: st1_def)
    moreover have "drew st1 (flushTextChunks emitList st1)"
      using n by (intro less.IH) (simp add: st1_def)
    ultimately have "drew st (flushTextChunks emitList st1)" by (rule drew_trans)
    then show ?thesis using Some by (cases n) (simp_all add: flushTextChunks.simps [of _ st] st1_def)
  qed
qed

lemma drew_scan [simp]: "drew st (scanReasoning emitList n st)"
proof (induction st arbitrary: n rule: measure_induct_rule [of "\<lambda>st. length (bs_reasoning st)"])
  case (less st)
  show ?case
  proof (cases "IndexByte (drop n (bs_reasoning st)) (CHR 0x0A)")
    case None
    then show ?thesis by (simp add: scanReasoning.simps)
  next
    case (Some i)
    then have i: "i < length (drop n (bs_reasoning st))" using IndexByte_Some by blast
    define st1 where "st1 = st\<lparr>bs_reasoning := drop (i + n + 1) (bs_reasoning st)\<rparr>"
    define t where "t = take (i + n) (bs_reasoning st)"
    define st2 where "st2 = (if TrimSpace t = [] then st1
      else putBlock emitList (ReasoningChunk (bs_ctx st) t) (st1\<lparr>bs_chunked := True\<rparr>))"
    have "drew st st2" by (simp add: st2_def st1_def)
    moreover have "drew st2 (scanReasoning emitList 0 st2)"
      using i by (intro less.IH) (simp add: st2_def st1_def)
    moreover have "scanReasoning emitList n st = scanReasoning emitList 0 st2"
      using Some by (simp add: scanReasoning.simps [of _ n st] st2_def st1_def t_def Let_def)
    ultimately show ?thesis by (metis drew_trans)
  qed
qed

lemma drew_closeText [simp]: "drew st (closeText emitList st)"
  by (simp add: closeText_def Let_def)

lemma drew_begin [simp]: "drew st (beginReasoning emitList st)"
  by (simp add: beginReasoning_def Let_def)

lemma drew_closeReasoning [simp]: "drew st (closeReasoning emitList st)"
  by (simp add: closeReasoning_def Let_def)

lemma drew_appendReasoning [simp]: "drew st (appendReasoning emitList d b st)"
  unfolding appendReasoning_def Let_def
  by (auto intro: drew_trans [OF _ drew_scan])

lemma drew_appendText [simp]: "drew st (appendText emitList d st)"
  unfolding appendText_def Let_def
  by (auto intro: drew_trans [OF _ drew_flush])

lemma drew_close2 [simp]:
  "drew st (closeText emitList (closeReasoning emitList st))"
  "drew st (closeReasoning emitList (closeText emitList st))"
  by (rule drew_trans [OF drew_closeReasoning drew_closeText])
     (rule drew_trans [OF drew_closeText drew_closeReasoning])

section \<open>Text is conserved\<close>

fun chunkOf :: "blockStep \<Rightarrow> string" where
  "chunkOf (Some (TextChunk _ t), _) = t"
| "chunkOf _ = []"

definition chunkText :: "blockStep list \<Rightarrow> string" where
  "chunkText steps = concat (map chunkOf steps)"

fun deltaOf :: "eventBody \<Rightarrow> string" where
  "deltaOf (OutputTextDeltaEvent delta) = delta"
| "deltaOf _ = []"

definition deltaText :: "event list \<Rightarrow> string" where
  "deltaText es = concat (map (deltaOf \<circ> ev_body) es)"

text \<open>The response an event starts, or ends.\<close>

fun starting :: "eventBody \<Rightarrow> responseObject option" where
  "starting (ResponseCreatedEvent r) = Some r"
| "starting (InProgressEvent r) = Some r"
| "starting _ = None"

fun ending :: "eventBody \<Rightarrow> responseObject option" where
  "ending (ResponseCompletedEvent r) = Some r"
| "ending (ResponseFailedEvent r) = Some r"
| "ending (IncompleteEvent r) = Some r"
| "ending (ResponseCancelledEvent r) = Some r"
| "ending _ = None"

text \<open>Whether the last response to start or end in a history ended, and the text since the
  last end.\<close>

fun endedStep :: "eventBody \<Rightarrow> bool \<Rightarrow> bool" where
  "endedStep e was =
    (case ending e of Some _ \<Rightarrow> True
     | None \<Rightarrow> (case starting e of Some r \<Rightarrow> was \<and> resp_ID r = [] | None \<Rightarrow> was))"

definition endedAfter :: "event list \<Rightarrow> bool" where
  "endedAfter es = fold (endedStep \<circ> ev_body) es False"

definition sinceEnd :: "event list \<Rightarrow> string" where
  "sinceEnd es = fold (\<lambda>e t. if ending (ev_body e) = None then t @ deltaOf (ev_body e) else []) es []"

definition said :: "blockStep list blockState \<Rightarrow> string" where
  "said st = chunkText (bs_sink st) @ bs_inText st"

definition short :: "blockStep list blockState \<Rightarrow> bool" where
  "short st \<longleftrightarrow> int (RuneCount (bs_inText st)) < bs_threshold st"

lemma chunkText_append [simp]: "chunkText (xs @ ys) = chunkText xs @ chunkText ys"
  by (simp add: chunkText_def)

lemma chunkText_single [simp]: "chunkText [s] = chunkOf s"
  by (simp add: chunkText_def)

lemma chunkText_Nil [simp]: "chunkText [] = []"
  by (simp add: chunkText_def)

lemma sink_put [simp]: "bs_sink (putBlock emitList b st) = bs_sink st @ [blockStep b]"
  by (simp add: emitList_def)

lemma RuneCount_Nil [simp]: "RuneCount [] = 0"
  by (simp add: RuneCount_def)

lemma flush_text:
  "said (flushTextChunks emitList st) = said st"
  "0 < bs_threshold st \<Longrightarrow> short (flushTextChunks emitList st)"
proof (induction st rule: measure_induct_rule [of "\<lambda>st. length (bs_inText st)"])
  case (less st)
  define st1 where "st1 n = putBlock emitList
      (TextChunk (bs_ctx st) (take (n + 1) (bs_inText st))) (st\<lparr>bs_inText := drop (n + 1) (bs_inText st)\<rparr>)" for n
  have IH: "said (flushTextChunks emitList (st1 n)) = said st"
    "0 < bs_threshold st \<Longrightarrow> short (flushTextChunks emitList (st1 n))"
    if "LastIndex wordEnd (bs_inText st) = Some n" for n
  proof -
    have "n < length (bs_inText st)" using that by (simp add: LastIndex_Some)
    then have l: "length (bs_inText (st1 n)) < length (bs_inText st)" by (simp add: st1_def)
    have "said (st1 n) = said st" by (simp add: said_def st1_def blockStep_def)
    then show "said (flushTextChunks emitList (st1 n)) = said st"
      using less(1) [OF l] by simp
    show "short (flushTextChunks emitList (st1 n))" if "0 < bs_threshold st"
      using less(2) [OF l] that by (simp add: st1_def)
  qed
  show "said (flushTextChunks emitList st) = said st"
  proof (cases "LastIndex wordEnd (bs_inText st)")
    case None
    then show ?thesis by (simp add: flushTextChunks.simps said_def blockStep_def)
  next
    case (Some n)
    then show ?thesis using IH(1) [OF Some]
      by (cases n) (simp_all add: flushTextChunks.simps [of _ st] st1_def, simp add: said_def blockStep_def)
  qed
  show "short (flushTextChunks emitList st)" if t: "0 < bs_threshold st"
  proof (cases "LastIndex wordEnd (bs_inText st)")
    case None
    then show ?thesis using t by (simp add: flushTextChunks.simps short_def)
  next
    case (Some n)
    then show ?thesis using IH(2) [OF Some t] t
      by (cases n) (simp_all add: flushTextChunks.simps [of _ st] st1_def, simp_all add: short_def)
  qed
qed

lemma inText_begin [simp]: "bs_inText (beginReasoning em st) = bs_inText st"
  by (simp add: beginReasoning_def Let_def)

lemma inText_closeReasoning [simp]: "bs_inText (closeReasoning em st) = bs_inText st"
  by (simp add: closeReasoning_def Let_def)

lemma inText_scan [simp]: "bs_inText (scanReasoning em n st) = bs_inText st"
  by (induction em n st rule: scanReasoning.induct)
     (subst scanReasoning.simps, simp add: Let_def split: option.split)

lemma inText_appendReasoning [simp]: "bs_inText (appendReasoning em d b st) = bs_inText st"
  by (simp add: appendReasoning_def Let_def)

lemma inText_closeText [simp]: "bs_inText (closeText em st) = []"
  by (simp add: closeText_def Let_def)

lemma chunkText_scan [simp]:
  "chunkText (bs_sink (scanReasoning emitList n st)) = chunkText (bs_sink st)"
proof (induction st arbitrary: n rule: measure_induct_rule [of "\<lambda>st. length (bs_reasoning st)"])
  case (less st)
  show ?case
  proof (cases "IndexByte (drop n (bs_reasoning st)) (CHR 0x0A)")
    case None
    then show ?thesis by (simp add: scanReasoning.simps)
  next
    case (Some i)
    then have "i < length (drop n (bs_reasoning st))" using IndexByte_Some by blast
    then show ?thesis using Some less.IH
      by (simp add: scanReasoning.simps [of _ n st] Let_def blockStep_def)
  qed
qed

lemma chunkText_begin [simp]: "chunkText (bs_sink (beginReasoning emitList st)) = chunkText (bs_sink st)"
  by (simp add: beginReasoning_def Let_def blockStep_def)

lemma chunkText_closeReasoning [simp]:
  "chunkText (bs_sink (closeReasoning emitList st)) = chunkText (bs_sink st)"
  by (simp add: closeReasoning_def Let_def blockStep_def)

lemma chunkText_appendReasoning [simp]:
  "chunkText (bs_sink (appendReasoning emitList d b st)) = chunkText (bs_sink st)"
  by (simp add: appendReasoning_def Let_def)

lemma chunkText_closeText [simp]: "chunkText (bs_sink (closeText emitList st)) = said st"
  by (simp add: closeText_def Let_def said_def blockStep_def)

lemma text_keep [simp]:
  "said (st\<lparr>bs_fullText := a\<rparr>) = said st" "said (st\<lparr>bs_started := b\<rparr>) = said st"
  "said (st\<lparr>bs_live := c\<rparr>) = said st" "said (st\<lparr>bs_ended := d\<rparr>) = said st"
  "said (st\<lparr>bs_ctx := e\<rparr>) = said st" "said (st\<lparr>bs_executions := f\<rparr>) = said st"
  "said (st\<lparr>bs_seenCalls := g\<rparr>) = said st" "said (st\<lparr>bs_seenResults := g\<rparr>) = said st"
  "said (recomputeAttribution st) = said st"
  by (simp_all add: said_def recomputeAttribution_def split: list.split prod.split)

lemma said_put [simp]: "said (putBlock emitList b st) = chunkText (bs_sink st) @ chunkOf (blockStep b) @ bs_inText st"
  by (simp add: said_def)

lemma said_ops [simp]:
  "said (beginReasoning emitList st) = said st"
  "said (appendReasoning emitList d b st) = said st"
  "said (closeReasoning emitList st) = said st"
  "said (closeText emitList st) = said st"
  by (simp_all add: said_def)

lemma said_appendText [simp]: "said (appendText emitList d st) = said st @ d"
  by (simp add: appendText_def Let_def flush_text, simp add: said_def)

lemma said_announce [simp]: "said (announceStart emitList r st) = said st"
  by (simp add: announceStart_def Let_def blockStep_def, simp add: said_def)

lemma said_start [simp]: "said (startResponse emitList r st) = said st"
  by (simp add: startResponse_def Let_def)

lemma said_end [simp]: "said (endBlock emitList s r st) = said st"
  by (simp add: endBlock_def Let_def blockStep_def)

lemma said_item [simp]: "said (foldItem lib emitList i st) = said st"
proof -
  have "said (foldToolCall lib emitList i st) = said st"
    by (simp add: foldToolCall_def Let_def blockStep_def split: option.split)
  moreover have "said (foldToolResult emitList i st) = said st"
    by (simp add: foldToolResult_def Let_def blockStep_def, simp add: said_def)
  moreover have "said (foldMessage emitList i st) = said st"
    by (simp add: foldMessage_def Let_def)
  moreover have "said (foldNativeTool emitList i st) = said st"
    by (simp add: foldNativeTool_def Let_def blockStep_def, simp add: said_def)
  ultimately show ?thesis by (simp add: foldItem_def Let_def)
qed

lemma said_fold: "said (foldEvent lib emitList e st) = said st @ deltaOf e"
  by (cases e) (simp_all add: foldEvent_def blockStep_def, simp_all add: said_def)

text \<open>What is not yet drawn: an end leaves nothing, and no event but a delta adds to it.\<close>

definition shrinks where
  "shrinks st st' \<longleftrightarrow> bs_inText st' = bs_inText st \<or> bs_inText st' = []"

lemma shrinks_item: "shrinks st (foldItem lib emitList i st)"
  by (simp add: shrinks_def foldItem_def foldToolCall_def foldToolResult_def foldMessage_def
      foldNativeTool_def Let_def split: option.split)

lemma inText_announce [simp]: "bs_inText (announceStart em r st) = bs_inText st"
  by (simp add: announceStart_def Let_def)

lemma inText_recompute [simp]: "bs_inText (recomputeAttribution st) = bs_inText st"
  by (simp add: recomputeAttribution_def split: list.split)

lemma inText_start [simp]: "bs_inText (startResponse em r st) = bs_inText st"
  by (simp add: startResponse_def Let_def)

lemma inText_end [simp]: "bs_inText (endBlock em s r st) = []"
  by (simp add: endBlock_def Let_def)

definition suffix_of :: "string \<Rightarrow> string \<Rightarrow> bool" where
  "suffix_of t s \<longleftrightarrow> (\<exists>pre. s = pre @ t)"

lemma suffix_refl [simp]: "suffix_of t t" and suffix_Nil [simp]: "suffix_of [] t"
  by (simp_all add: suffix_of_def)

lemma suffix_drop [simp]: "suffix_of (drop n s) s"
  unfolding suffix_of_def by (rule exI [of _ "take n s"]) simp

lemma suffix_trans: "suffix_of t s \<Longrightarrow> suffix_of s u \<Longrightarrow> suffix_of t u"
  by (auto simp: suffix_of_def)

lemma suffix_append: "suffix_of t s \<Longrightarrow> suffix_of (t @ d) (s @ d)"
  by (auto simp: suffix_of_def)

lemma flush_suffix: "suffix_of (bs_inText (flushTextChunks emitList st)) (bs_inText st)"
proof (induction st rule: measure_induct_rule [of "\<lambda>st. length (bs_inText st)"])
  case (less st)
  define st1 where "st1 n = putBlock emitList
      (TextChunk (bs_ctx st) (take (n + 1) (bs_inText st))) (st\<lparr>bs_inText := drop (n + 1) (bs_inText st)\<rparr>)" for n
  show ?case
  proof (cases "LastIndex wordEnd (bs_inText st)")
    case None
    then show ?thesis by (simp add: flushTextChunks.simps)
  next
    case (Some n)
    then have n: "n < length (bs_inText st)" by (simp add: LastIndex_Some)
    have "suffix_of (bs_inText (flushTextChunks emitList (st1 n))) (bs_inText (st1 n))"
      using n by (intro less.IH) (simp add: st1_def)
    then have "suffix_of (bs_inText (flushTextChunks emitList (st1 n))) (bs_inText st)"
      by (rule suffix_trans) (simp add: st1_def)
    then show ?thesis using Some
      by (cases n) (simp_all add: flushTextChunks.simps [of _ st] st1_def)
  qed
qed

lemma inText_appendText: "suffix_of (bs_inText (appendText emitList d st)) (bs_inText st @ d)"
proof (cases "d = []")
  case False
  define st1 where "st1 = (closeReasoning emitList st)\<lparr>bs_inText := bs_inText st @ d,
     bs_fullText := bs_fullText (closeReasoning emitList st) @ d\<rparr>"
  have "suffix_of (bs_inText (flushTextChunks emitList st1)) (bs_inText st1)" by (rule flush_suffix)
  then show ?thesis using False by (simp add: appendText_def Let_def st1_def)
qed (simp add: appendText_def)

text \<open>One event: the threshold stays, what is held stays short, and is text since the last end.\<close>

lemma drawing_frame [simp]:
  "bs_threshold (beginReasoning emitList st) = bs_threshold st"
  "bs_threshold (closeReasoning emitList st) = bs_threshold st"
  "bs_threshold (closeText emitList st) = bs_threshold st"
  "bs_threshold (appendText emitList d st) = bs_threshold st"
  "bs_threshold (appendReasoning emitList d b st) = bs_threshold st"
  "bs_ctx (beginReasoning emitList st) = bs_ctx st"
  "bs_ctx (closeReasoning emitList st) = bs_ctx st"
  "bs_ctx (closeText emitList st) = bs_ctx st"
  "bs_ctx (appendText emitList d st) = bs_ctx st"
  "bs_ctx (appendReasoning emitList d b st) = bs_ctx st"
  "bs_started (beginReasoning emitList st) = bs_started st"
  "bs_started (closeReasoning emitList st) = bs_started st"
  "bs_started (closeText emitList st) = bs_started st"
  "bs_started (appendText emitList d st) = bs_started st"
  "bs_started (appendReasoning emitList d b st) = bs_started st"
  "bs_live (beginReasoning emitList st) = bs_live st"
  "bs_live (closeReasoning emitList st) = bs_live st"
  "bs_live (closeText emitList st) = bs_live st"
  "bs_live (appendText emitList d st) = bs_live st"
  "bs_live (appendReasoning emitList d b st) = bs_live st"
  "bs_ended (beginReasoning emitList st) = bs_ended st"
  "bs_ended (closeReasoning emitList st) = bs_ended st"
  "bs_ended (closeText emitList st) = bs_ended st"
  "bs_ended (appendText emitList d st) = bs_ended st"
  "bs_ended (appendReasoning emitList d b st) = bs_ended st"
  "bs_executions (beginReasoning emitList st) = bs_executions st"
  "bs_executions (closeReasoning emitList st) = bs_executions st"
  "bs_executions (closeText emitList st) = bs_executions st"
  "bs_executions (appendText emitList d st) = bs_executions st"
  "bs_executions (appendReasoning emitList d b st) = bs_executions st"
  "bs_seenCalls (beginReasoning emitList st) = bs_seenCalls st"
  "bs_seenCalls (closeReasoning emitList st) = bs_seenCalls st"
  "bs_seenCalls (closeText emitList st) = bs_seenCalls st"
  "bs_seenCalls (appendText emitList d st) = bs_seenCalls st"
  "bs_seenCalls (appendReasoning emitList d b st) = bs_seenCalls st"
  "bs_seenResults (beginReasoning emitList st) = bs_seenResults st"
  "bs_seenResults (closeReasoning emitList st) = bs_seenResults st"
  "bs_seenResults (closeText emitList st) = bs_seenResults st"
  "bs_seenResults (appendText emitList d st) = bs_seenResults st"
  "bs_seenResults (appendReasoning emitList d b st) = bs_seenResults st"
  using drew_begin [of st] drew_closeReasoning [of st] drew_closeText [of st] drew_appendText [of st d]
    drew_appendReasoning [of st d b]
  by (simp_all add: drew_def frame_def)

lemma threshold_fold [simp]: "bs_threshold (foldEvent lib emitList e st) = bs_threshold st"
  by (cases e) (simp_all add: foldEvent_def startResponse_def announceStart_def endBlock_def
      recomputeAttribution_def foldItem_def foldToolCall_def foldToolResult_def foldMessage_def
      foldNativeTool_def Let_def split: option.split list.split)

lemma short_appendText: "short st \<Longrightarrow> 0 < bs_threshold st \<Longrightarrow> short (appendText emitList d st)"
  by (simp add: appendText_def Let_def flush_text)

lemma ended_announce [simp]: "bs_ended (announceStart em r st) = bs_ended st"
  by (simp add: announceStart_def Let_def)

lemma ended_recompute [simp]: "bs_ended (recomputeAttribution st) = bs_ended st"
  by (simp add: recomputeAttribution_def split: list.split)

lemma ended_item [simp]: "bs_ended (foldItem lib emitList i st) = bs_ended st"
  by (simp add: foldItem_def foldToolCall_def foldToolResult_def foldMessage_def
      foldNativeTool_def Let_def split: option.split)

lemma ended_fold: "bs_ended (foldEvent lib emitList e st) = endedStep e (bs_ended st)"
  by (cases e) (simp_all add: foldEvent_def startResponse_def endBlock_def Let_def)

lemma held_fold:
  "suffix_of (bs_inText (foldEvent lib emitList e st))
     (if ending e = None then bs_inText st @ deltaOf e else [])"
proof -
  have "suffix_of (bs_inText (foldItem lib emitList i st)) (bs_inText st)" for i
    using shrinks_item [of st lib i] by (auto simp: shrinks_def)
  then show ?thesis
    using inText_appendText by (cases e) (simp_all add: foldEvent_def)
qed

lemma short_shrinks: "shrinks st st' \<Longrightarrow> bs_threshold st' = bs_threshold st \<Longrightarrow>
  short st \<Longrightarrow> 0 < bs_threshold st \<Longrightarrow> short st'"
  by (auto simp: shrinks_def short_def)

lemma shrinks_simps [simp]:
  "bs_inText st' = bs_inText st \<Longrightarrow> shrinks st st'" "bs_inText st' = [] \<Longrightarrow> shrinks st st'"
  by (simp_all add: shrinks_def)

lemma shrinks_fold: "deltaOf e = [] \<Longrightarrow> shrinks st (foldEvent lib emitList e st)"
  by (cases e) (simp_all add: foldEvent_def shrinks_item appendText_def)

lemma short_fold:
  assumes "short st" "0 < bs_threshold st"
  shows "short (foldEvent lib emitList e st)"
proof (cases "deltaOf e = []")
  case True
  then show ?thesis using short_shrinks [OF shrinks_fold] assms by simp
next
  case False
  then obtain d where "e = OutputTextDeltaEvent d" by (cases e) auto
  then show ?thesis using short_appendText assms by (simp add: foldEvent_def)
qed

lemma foldAll_snoc: "foldAll lib (es @ [e]) st = foldEvent lib emitList (ev_body e) (foldAll lib es st)"
  by (simp add: foldAll_def)

lemma threshold_pos: "0 < flushThreshold c"
  by (simp add: flushThreshold_def defaultTextFlushThreshold_def)

lemma text_history:
  fixes lib es c defines "st \<equiv> foldAll lib es (startState c)"
  shows "said st = deltaText es \<and> bs_threshold st = flushThreshold c \<and> short st \<and>
    bs_ended st = endedAfter es \<and> suffix_of (bs_inText st) (sinceEnd es)"
  unfolding st_def
proof (induction es rule: rev_induct)
  case Nil
  then show ?case
    using threshold_pos [of c]
    by (simp add: foldAll_def startState_def newBlockState_def said_def deltaText_def short_def
        endedAfter_def sinceEnd_def)
next
  case (snoc e es)
  let ?st = "foldAll lib es (startState c)"
  have "suffix_of (bs_inText (foldEvent lib emitList (ev_body e) ?st)) (sinceEnd (es @ [e]))"
    using held_fold [of lib "ev_body e" ?st] snoc.IH
      suffix_append [of "bs_inText ?st" "sinceEnd es" "deltaOf (ev_body e)"]
    by (auto simp: sinceEnd_def split: if_splits elim: suffix_trans)
  then show ?case
    using snoc.IH threshold_pos [of c]
    by (simp add: foldAll_snoc said_fold deltaText_def short_fold ended_fold endedAfter_def)
qed

section \<open>The context of a block\<close>

text \<open>The responses speaking after a history, each with its model, as a map; and the model a
  block can be credited to: the one of the only response speaking, or nobody.\<close>

fun liveStep :: "eventBody \<Rightarrow> (string \<rightharpoonup> string) \<Rightarrow> (string \<rightharpoonup> string)" where
  "liveStep e m =
    (case ending e of Some r \<Rightarrow> m(resp_ID r := None)
     | None \<Rightarrow> (case starting e of
         Some r \<Rightarrow> if resp_ID r = [] then m
           else if resp_Model r = [] \<and> m (resp_ID r) \<noteq> None then m
           else m(resp_ID r \<mapsto> resp_Model r)
       | None \<Rightarrow> m))"

definition speaking :: "event list \<Rightarrow> (string \<rightharpoonup> string)" where
  "speaking es = fold (liveStep \<circ> ev_body) es (\<lambda>_. None)"

definition endsIn :: "event list \<Rightarrow> nat" where
  "endsIn es = length (filter (\<lambda>e. ending (ev_body e) \<noteq> None) es)"

definition soleSpeaker :: "(string \<rightharpoonup> string) \<Rightarrow> string \<Rightarrow> bool" where
  "soleSpeaker m agent \<longleftrightarrow>
    (if \<exists>rid model. m = [rid \<mapsto> model] then \<exists>rid. m = [rid \<mapsto> agent] else agent = [])"

definition credited :: "(string \<rightharpoonup> string) \<Rightarrow> nat \<Rightarrow> blockContext \<Rightarrow> bool" where
  "credited m ends c \<longleftrightarrow> soleSpeaker m (bc_Agent c) \<and>
     bc_Depth c = CountByte (bc_Agent c) (CHR ''.'') \<and> bc_Iteration c = ends"

definition added :: "(block \<Rightarrow> bool) \<Rightarrow> blockStep list blockState \<Rightarrow> blockStep list blockState \<Rightarrow> bool" where
  "added P st st' \<longleftrightarrow> (\<exists>bs. bs_sink st' = bs_sink st @ map blockStep bs \<and> list_all P bs)"

lemma added_refl [simp]: "bs_sink st' = bs_sink st \<Longrightarrow> added P st st'"
  by (simp add: added_def)

lemma added_trans: "added P st st1 \<Longrightarrow> added P st1 st2 \<Longrightarrow> added P st st2"
  unfolding added_def by (auto simp: list_all_append simp flip: map_append)

lemma added_put [simp]: "added P st st' \<Longrightarrow> P b \<Longrightarrow> added P st (putBlock emitList b st')"
  by (auto simp: added_def list_all_append intro: exI [of _ "_ @ [b]"])

lemma added_fields [simp]:
  "added P st (st'\<lparr>bs_started := a\<rparr>) = added P st st'"
  "added P st (st'\<lparr>bs_live := b\<rparr>) = added P st st'"
  "added P st (st'\<lparr>bs_ctx := c\<rparr>) = added P st st'"
  "added P st (st'\<lparr>bs_ended := d\<rparr>) = added P st st'"
  "added P st (st'\<lparr>bs_executions := e\<rparr>) = added P st st'"
  "added P st (st'\<lparr>bs_seenCalls := a\<rparr>) = added P st st'"
  "added P st (st'\<lparr>bs_seenResults := a\<rparr>) = added P st st'"
  "added P st (recomputeAttribution st') = added P st st'"
  by (simp_all add: added_def recomputeAttribution_def split: list.split prod.split)

lemma added_from: "bs_sink st0 = bs_sink st \<Longrightarrow> added P st st' \<Longrightarrow> added P st0 st'"
  by (simp add: added_def)

lemma drew_added: "drew st st' \<Longrightarrow> added (\<lambda>b. Context b = bs_ctx st) st st'"
  by (auto simp: drew_def added_def drawn_def list_all_iff)

lemma added_item: "added (\<lambda>b. Context b = bs_ctx st) st (foldItem lib emitList i st)"
proof -
  let ?P = "\<lambda>b. Context b = bs_ctx st"
  have "added ?P st (foldToolCall lib emitList i st)"
  proof -
    have close: "added ?P st (closeText emitList (closeReasoning emitList st'))"
      if "bs_sink st' = bs_sink st" "bs_ctx st' = bs_ctx st" for st'
      using drew_added [OF drew_close2(1), of st'] that by (metis added_from)
    show ?thesis
      by (simp add: foldToolCall_def Let_def close split: option.split)
  qed
  moreover have "added ?P st (foldToolResult emitList i st)"
    by (simp add: foldToolResult_def Let_def)
  moreover have "added ?P st (foldMessage emitList i st)"
    using drew_added [OF drew_closeText, of st]
      drew_added [OF drew_closeText, of "st\<lparr>bs_fullText := outputTextFromContent i\<rparr>"]
    by (simp add: foldMessage_def Let_def added_def)
  moreover have "added ?P st (foldNativeTool emitList i st)"
    by (simp add: foldNativeTool_def Let_def)
  ultimately show ?thesis by (simp add: foldItem_def Let_def)
qed

lemma ctx_announce [simp]: "bs_ctx (announceStart em r st) = bs_ctx st"
  by (simp add: announceStart_def Let_def)

lemma sink_recompute [simp]: "bs_sink (recomputeAttribution st) = bs_sink st"
  by (simp add: recomputeAttribution_def split: list.split)

lemma added_announce: "added (\<lambda>b. Context b = bs_ctx st) st (announceStart emitList r st)"
  by (simp add: announceStart_def Let_def)

lemma added_start:
  "added (\<lambda>b. Context b = bs_ctx (startResponse emitList r st)) st (startResponse emitList r st)"
proof (cases "resp_ID r = []")
  case False
  define st1 where "st1 = recomputeAttribution ((if map_of (bs_live st) (resp_ID r) = None \<or> resp_Model r \<noteq> []
     then st\<lparr>bs_live := gput (resp_ID r) (resp_Model r) (bs_live st)\<rparr> else st)\<lparr>bs_ended := False\<rparr>)"
  have st: "startResponse emitList r st = announceStart emitList r st1"
    using False by (simp add: startResponse_def st1_def Let_def)
  have "bs_sink st = bs_sink st1" by (simp add: st1_def)
  then show ?thesis
    using added_announce [of st1 r] unfolding st by (simp add: added_from)
qed (simp add: startResponse_def)

lemma added_end: "added (\<lambda>b. Context b = bs_ctx st) st (endBlock emitList s r st)"
  using drew_added [OF drew_close2(2), of st] by (simp add: endBlock_def Let_def)

text \<open>Every block an event makes has the context of the state: the one after it for an event
  that starts a response, else the one before it.\<close>

lemma added_fold:
  "added (\<lambda>b. Context b = (if starting e = None then bs_ctx st
      else bs_ctx (foldEvent lib emitList e st))) st (foldEvent lib emitList e st)"
  by (cases e) (simp_all add: foldEvent_def added_announce added_start added_end added_item drew_added)

lemma recompute_ctx:
  assumes "gwf (bs_live st)"
  shows "credited (map_of (bs_live st)) (bc_Iteration (bs_ctx st)) (bs_ctx (recomputeAttribution st))"
proof -
  consider "bs_live st = []" | id model where "bs_live st = [(id, model)]"
    | a b rest where "bs_live st = a # b # rest"
    by (metis list.exhaust surj_pair)
  then show ?thesis
  proof cases
    case 1
    then show ?thesis by (simp add: recomputeAttribution_def credited_def soleSpeaker_def fun_eq_iff CountByte_def)
  next
    case 2
    then show ?thesis by (auto simp add: recomputeAttribution_def credited_def soleSpeaker_def)
  next
    case 3
    have "map_of (bs_live st) \<noteq> [id \<mapsto> model]" for id model
    proof
      assume "map_of (bs_live st) = [id \<mapsto> model]"
      then have "gkeys (bs_live st) = {id}" by (simp add: gkeys_dom)
      then have "length (bs_live st) = 1" using length_gkeys [OF assms] by simp
      then show False using 3 by simp
    qed
    then show ?thesis using 3 by (simp add: recomputeAttribution_def credited_def soleSpeaker_def CountByte_def)
  qed
qed

definition wellCredited :: "(string \<rightharpoonup> string) \<Rightarrow> nat \<Rightarrow> blockStep list blockState \<Rightarrow> bool" where
  "wellCredited m ends st \<longleftrightarrow> gwf (bs_live st) \<and> map_of (bs_live st) = m \<and> credited m ends (bs_ctx st)"

lemma live_recompute [simp]: "bs_live (recomputeAttribution st) = bs_live st"
  by (simp add: recomputeAttribution_def split: list.split)

lemma live_announce [simp]: "bs_live (announceStart em r st) = bs_live st"
  by (simp add: announceStart_def Let_def)

lemma frame_item [simp]:
  "bs_live (foldItem lib emitList i st) = bs_live st" "bs_ctx (foldItem lib emitList i st) = bs_ctx st"
  by (simp_all add: foldItem_def foldToolCall_def foldToolResult_def foldMessage_def
      foldNativeTool_def Let_def split: option.split)

lemma credited_start:
  assumes "wellCredited m n st" "starting e = Some r"
  shows "wellCredited (liveStep e m) n (startResponse emitList r st)"
proof (cases "resp_ID r = []")
  case True
  then show ?thesis using assms by (cases e) (auto simp: startResponse_def)
next
  case False
  define st1 where "st1 = (if map_of (bs_live st) (resp_ID r) = None \<or> resp_Model r \<noteq> []
     then st\<lparr>bs_live := gput (resp_ID r) (resp_Model r) (bs_live st)\<rparr> else st)\<lparr>bs_ended := False\<rparr>"
  have st: "startResponse emitList r st = announceStart emitList r (recomputeAttribution st1)"
    using False by (simp add: startResponse_def st1_def Let_def)
  have g: "gwf (bs_live st1)" and live: "map_of (bs_live st1) = liveStep e m"
    and n: "bc_Iteration (bs_ctx st1) = n"
    using assms False by (cases e; auto simp: st1_def wellCredited_def credited_def)+
  show ?thesis
    using recompute_ctx [OF g] by (simp add: st wellCredited_def g live n)
qed

lemma credited_end:
  assumes "wellCredited m n st" "ending e = Some r"
  shows "wellCredited (liveStep e m) (Suc n) (endBlock emitList s r st)"
proof -
  define st1 where "st1 = (putBlock emitList (ResponseEndBlock (bs_ctx st) s (Some r))
     (closeReasoning emitList (closeText emitList st)))\<lparr>bs_live := gdel (resp_ID r) (bs_live st)\<rparr>"
  have g: "gwf (bs_live st1)" and live: "map_of (bs_live st1) = liveStep e m"
    and n: "bc_Iteration (bs_ctx st1) = n"
    using assms by (simp_all add: st1_def wellCredited_def credited_def)
  have "endBlock emitList s r st = (recomputeAttribution st1)\<lparr>bs_ended := True,
     bs_ctx := (bs_ctx (recomputeAttribution st1))\<lparr>bc_Iteration := bc_Iteration (bs_ctx (recomputeAttribution st1)) + 1\<rparr>\<rparr>"
    by (simp add: endBlock_def Let_def st1_def)
  moreover have "bc_Iteration (bs_ctx (recomputeAttribution st1)) = n"
    using recompute_ctx [OF g] n by (simp add: credited_def)
  ultimately show ?thesis
    using recompute_ctx [OF g] by (simp add: wellCredited_def credited_def g live n)
qed

lemma credited_fold:
  assumes "wellCredited m n st"
  shows "wellCredited (liveStep e m) (if ending e = None then n else Suc n) (foldEvent lib emitList e st)"
proof -
  have q: "wellCredited m n (announceStart emitList r st)" for r
    using assms by (simp add: wellCredited_def)
  show ?thesis
    using assms credited_start [OF assms, of e] credited_end [OF assms, of e] q
    by (cases e) (auto simp: foldEvent_def, auto simp: wellCredited_def)
qed

lemma credited_history: "wellCredited (speaking es) (endsIn es) (foldAll lib es (startState c))"
proof (induction es rule: rev_induct)
  case Nil
  then show ?case
    by (simp add: foldAll_def startState_def newBlockState_def wellCredited_def speaking_def endsIn_def
        credited_def soleSpeaker_def CountByte_def fun_eq_iff)
next
  case (snoc e es)
  then show ?case
    using credited_fold [OF snoc.IH, of "ev_body e" lib]
    by (cases "ending (ev_body e)") (simp_all add: foldAll_snoc speaking_def endsIn_def del: liveStep.simps)
qed

section \<open>Every call, result and response is drawn once\<close>

fun stepKeys :: "blockStep \<Rightarrow> (string \<times> string) list" where
  "stepKeys (Some b, _) = blockKeys b"
| "stepKeys (None, _) = []"

definition drawnKeys :: "blockStep list \<Rightarrow> (string \<times> string) list" where
  "drawnKeys steps = concat (map stepKeys steps)"

definition rememberedKeys :: "blockStep list blockState \<Rightarrow> (string \<times> string) set" where
  "rememberedKeys st = Pair ''start'' ` gkeys (bs_started st) \<union> Pair ''call'' ` gkeys (bs_seenCalls st)
     \<union> Pair ''result'' ` gkeys (bs_seenResults st)"

definition executionsKeyed :: "blockStep list blockState \<Rightarrow> bool" where
  "executionsKeyed st \<longleftrightarrow> (\<forall>k x. map_of (bs_executions st) k = Some x \<longrightarrow> te_CallID x = k)"

definition drawnOnce :: "blockStep list blockState \<Rightarrow> bool" where
  "drawnOnce st \<longleftrightarrow> executionsKeyed st \<and> distinct (drawnKeys (bs_sink st)) \<and>
     set (drawnKeys (bs_sink st)) \<subseteq> rememberedKeys st"

lemma drawnKeys_append [simp]: "drawnKeys (xs @ ys) = drawnKeys xs @ drawnKeys ys"
  by (simp add: drawnKeys_def)

lemma drawnKeys_single [simp]: "drawnKeys [s] = stepKeys s"
  by (simp add: drawnKeys_def)

lemma drawnKeys_blocks: "drawnKeys (map blockStep bs) = concat (map blockKeys bs)"
  by (simp add: drawnKeys_def blockStep_def comp_def)

lemma stepKeys_block [simp]: "stepKeys (blockStep b) = blockKeys b"
  by (simp add: blockStep_def)

lemma drew_keys: "drew st st' \<Longrightarrow> drawnKeys (bs_sink st') = drawnKeys (bs_sink st)"
  by (auto simp: drew_def drawnKeys_blocks drawn_def list_all_iff)

lemma drew_once:
  assumes "drew st st'" "drawnOnce st"
  shows "drawnOnce st'"
proof -
  have "frame st' = frame st" using assms(1) by (simp add: drew_def)
  then show ?thesis
    using assms(2) drew_keys [OF assms(1)]
    by (simp add: drawnOnce_def executionsKeyed_def rememberedKeys_def frame_def)
qed

lemma once_put:
  assumes "drawnOnce st" "drawnKeys (bs_sink st') = drawnKeys (bs_sink st) @ blockKeys b"
    "rememberedKeys st \<subseteq> rememberedKeys st'" "executionsKeyed st'"
    "blockKeys b = [] \<or> (\<exists>k. blockKeys b = [k] \<and> k \<notin> rememberedKeys st \<and> k \<in> rememberedKeys st')"
  shows "drawnOnce st'"
  using assms by (auto simp: drawnOnce_def)

lemma once_plain:
  "drawnOnce st \<Longrightarrow> blockKeys b = [] \<Longrightarrow> drawnOnce (putBlock emitList b st)"
  by (rule once_put [where b = b]) (auto simp: rememberedKeys_def drawnOnce_def executionsKeyed_def)

lemma once_announce: "drawnOnce st \<Longrightarrow> drawnOnce (announceStart emitList r st)"
  by (cases "resp_ID r = [] \<or> resp_ID r \<in> gkeys (bs_started st)")
     (auto simp: announceStart_def Let_def rememberedKeys_def drawnOnce_def executionsKeyed_def
       intro!: once_put [of st _ "ResponseStartBlock (bs_ctx st) (resp_Model r) (resp_ID r)"])

lemma once_fields [simp]:
  "drawnOnce (st\<lparr>bs_live := a\<rparr>) = drawnOnce st" "drawnOnce (st\<lparr>bs_ctx := b\<rparr>) = drawnOnce st"
  "drawnOnce (st\<lparr>bs_ended := c\<rparr>) = drawnOnce st" "drawnOnce (st\<lparr>bs_fullText := d\<rparr>) = drawnOnce st"
  by (simp_all add: drawnOnce_def executionsKeyed_def rememberedKeys_def)

lemma once_recompute [simp]: "drawnOnce (recomputeAttribution st) = drawnOnce st"
  by (simp add: recomputeAttribution_def split: list.split prod.split)

lemma once_call:
  assumes "drawnOnce st"
  shows "drawnOnce (foldToolCall lib emitList i st)"
proof (cases "itemString i ''call_id'' = []")
  case False
  let ?id = "itemString i ''call_id''"
  define fresh where "fresh = \<lparr> te_Name = itemString i ''name'', te_Arguments = itemArguments lib i,
     te_ArgsSummary = FormatToolArgsBrief lib (itemString i ''name'') (itemArguments lib i),
     te_CallID = ?id, te_AgentName = itemString i ''agent_name'',
     te_ExecutedBy = ''server'', te_Output = None \<rparr>"
  define x where "x = (case map_of (bs_executions st) ?id of Some prior \<Rightarrow> prior | None \<Rightarrow> fresh)"
  define st1 where "st1 = (if map_of (bs_executions st) ?id = None
     then st\<lparr>bs_executions := gput ?id fresh (bs_executions st)\<rparr> else st)"
  define st2 where "st2 = closeText emitList (closeReasoning emitList
     (st1\<lparr>bs_seenCalls := gput ?id True (bs_seenCalls st1)\<rparr>))"
  have def: "foldToolCall lib emitList i st = (if ?id \<in> gkeys (bs_seenCalls st1) then st1
      else putBlock emitList (ToolGroup (bs_ctx st2) [x]) st2)"
    using False by (simp add: foldToolCall_def fresh_def st1_def st2_def x_def Let_def split: option.split)
  have keyed: "executionsKeyed st" using assms by (simp add: drawnOnce_def)
  then have x: "te_CallID x = ?id"
    by (auto simp: x_def fresh_def executionsKeyed_def split: option.split)
  have st1: "drawnOnce st1"
    using assms by (auto simp: st1_def drawnOnce_def executionsKeyed_def rememberedKeys_def fresh_def)
  have "drew (st1\<lparr>bs_seenCalls := gput ?id True (bs_seenCalls st1)\<rparr>) st2" by (simp add: st2_def)
  then have k: "drawnKeys (bs_sink st2) = drawnKeys (bs_sink st1)" and f: "executionsKeyed st2 = executionsKeyed st1"
    "rememberedKeys st2 = insert (''call'', ?id) (rememberedKeys st1)"
    using drew_keys by (fastforce, auto simp: drew_def frame_def executionsKeyed_def rememberedKeys_def)
  show ?thesis
  proof (cases "?id \<in> gkeys (bs_seenCalls st1)")
    case True
    then show ?thesis by (simp add: def st1)
  next
    case False
    have same: "executionsKeyed (putBlock emitList b st2) = executionsKeyed st2"
      "rememberedKeys (putBlock emitList b st2) = rememberedKeys st2" for b
      by (simp_all add: executionsKeyed_def rememberedKeys_def)
    have "drawnOnce (putBlock emitList (ToolGroup (bs_ctx st2) [x]) st2)"
      using st1 False
      by (intro once_put [OF st1, where b = "ToolGroup (bs_ctx st2) [x]"])
         (auto simp: k f same x drawnOnce_def, auto simp: rememberedKeys_def)
    then show ?thesis using False by (simp add: def)
  qed
qed (simp add: foldToolCall_def assms)

lemma once_result:
  assumes "drawnOnce st"
  shows "drawnOnce (foldToolResult emitList i st)"
proof (cases "itemString i ''call_id'' = [] \<or> itemString i ''call_id'' \<in> gkeys (bs_seenResults st)")
  case True
  then show ?thesis using assms by (auto simp: foldToolResult_def Let_def)
next
  case False
  let ?id = "itemString i ''call_id''"
  define x where "x = (case map_of (bs_executions st) ?id of Some prior \<Rightarrow> prior
     | None \<Rightarrow> \<lparr> te_Name = itemString i ''name'', te_Arguments = [], te_ArgsSummary = [],
         te_CallID = ?id, te_AgentName = [], te_ExecutedBy = [], te_Output = None \<rparr>)
     \<lparr>te_Output := Some (itemString i ''output'')\<rparr>"
  define st1 where "st1 = st\<lparr>bs_executions := gput ?id x (bs_executions st),
     bs_seenResults := gput ?id True (bs_seenResults st)\<rparr>"
  define b where "b = ToolResultBlock (bs_ctx st1) (te_Name x) ?id (te_AgentName x)
     (itemString i ''output'') (te_Arguments x) (te_ArgsSummary x)"
  have def: "foldToolResult emitList i st = putBlock emitList b st1"
    using False by (simp add: foldToolResult_def Let_def st1_def x_def b_def)
  have keyed: "executionsKeyed st" using assms by (simp add: drawnOnce_def)
  then have x: "te_CallID x = ?id"
    by (auto simp: x_def executionsKeyed_def split: option.split)
  have "executionsKeyed (putBlock emitList b st1)"
    using keyed x by (simp add: executionsKeyed_def st1_def)
  moreover have "rememberedKeys (putBlock emitList b st1) = insert (''result'', ?id) (rememberedKeys st)"
    by (auto simp: rememberedKeys_def st1_def)
  moreover have "(''result'', ?id) \<notin> rememberedKeys st"
    using False by (auto simp: rememberedKeys_def)
  moreover have "blockKeys b = [(''result'', ?id)]" "drawnKeys (bs_sink st1) = drawnKeys (bs_sink st)"
    by (simp_all add: b_def st1_def)
  ultimately show ?thesis
    unfolding def by (intro once_put [OF assms, where b = b]) auto
qed

lemma once_item: "drawnOnce st \<Longrightarrow> drawnOnce (foldItem lib emitList i st)"
  by (simp add: foldItem_def foldMessage_def foldNativeTool_def Let_def once_call once_result once_plain
      drew_once [OF drew_closeText])

lemma once_fold: "drawnOnce st \<Longrightarrow> drawnOnce (foldEvent lib emitList e st)"
  by (cases e) (simp_all add: foldEvent_def startResponse_def endBlock_def Let_def once_item once_plain
      once_announce drew_once [OF drew_begin] drew_once [OF drew_appendText]
      drew_once [OF drew_appendReasoning] drew_once [OF drew_close2(2)])

interpretation drawing: once_log "\<lambda>e. foldEvent lib emitList (ev_body e)" executionsKeyed
  "\<lambda>st. drawnKeys (bs_sink st)" rememberedKeys for lib
  by unfold_locales (use once_fold in \<open>auto simp: drawnOnce_def\<close>)

section \<open>Chunks end where words do\<close>

text \<open>A chunk ends at white space, unless there is none after its first character.\<close>

definition wholeWords :: "string \<Rightarrow> bool" where
  "wholeWords t \<longleftrightarrow> wordEnd (last t) \<or> list_all (\<lambda>c. \<not> wordEnd c) (tl t)"

fun textOf :: "blockStep \<Rightarrow> string list" where
  "textOf (Some (TextChunk _ t), _) = [t]"
| "textOf _ = []"

definition textChunks :: "blockStep list \<Rightarrow> string list" where
  "textChunks steps = concat (map textOf steps)"

lemma textChunks_append [simp]: "textChunks (xs @ ys) = textChunks xs @ textChunks ys"
  by (simp add: textChunks_def)

lemma textChunks_single [simp]: "textChunks [s] = textOf s"
  by (simp add: textChunks_def)

lemma LastIndex_word:
  assumes "LastIndex wordEnd s = Some n"
  shows "wholeWords (take (Suc n) s)"
proof -
  have "n < length s" "wordEnd (s ! n)" using LastIndex_Some [OF assms] by auto
  then show ?thesis by (simp add: wholeWords_def take_Suc_conv_app_nth)
qed

lemma LastIndex_unbroken:
  assumes "LastIndex wordEnd s = None \<or> LastIndex wordEnd s = Some 0"
  shows "wholeWords s"
proof (cases s)
  case (Cons c t)
  have "LastIndex wordEnd t = None" using assms Cons by (auto split: option.splits)
  then show ?thesis by (simp add: wholeWords_def Cons LastIndex_None list_all_iff)
qed (use assms in \<open>simp add: wholeWords_def\<close>)

lemma flush_words:
  "\<exists>ts. textChunks (bs_sink (flushTextChunks emitList st)) = textChunks (bs_sink st) @ ts \<and>
     list_all wholeWords ts"
proof (induction st rule: measure_induct_rule [of "\<lambda>st. length (bs_inText st)"])
  case (less st)
  define st1 where "st1 n = putBlock emitList
      (TextChunk (bs_ctx st) (take (Suc n) (bs_inText st))) (st\<lparr>bs_inText := drop (Suc n) (bs_inText st)\<rparr>)" for n
  show ?case
  proof (cases "LastIndex wordEnd (bs_inText st) = None \<or> LastIndex wordEnd (bs_inText st) = Some 0")
    case True
    then show ?thesis using LastIndex_unbroken [OF True]
      by (cases "LastIndex wordEnd (bs_inText st)")
         (auto simp: flushTextChunks.simps [of _ st] blockStep_def)
  next
    case False
    then obtain m where m: "LastIndex wordEnd (bs_inText st) = Some (Suc m)"
      by (metis not_None_eq old.nat.exhaust)
    have "Suc m < length (bs_inText st)" using LastIndex_Some [OF m] by simp
    then have "\<exists>ts. textChunks (bs_sink (flushTextChunks emitList (st1 (Suc m)))) =
        textChunks (bs_sink (st1 (Suc m))) @ ts \<and> list_all wholeWords ts"
      by (intro less.IH) (simp add: st1_def)
    then show ?thesis using m LastIndex_word [OF m]
      by (auto simp: flushTextChunks.simps [of _ st] st1_def blockStep_def)
  qed
qed

lemma textChunks_closeReasoning [simp]:
  "textChunks (bs_sink (closeReasoning emitList st)) = textChunks (bs_sink st)"
  by (simp add: closeReasoning_def Let_def blockStep_def)

lemma append_words:
  "\<exists>ts. textChunks (bs_sink (appendText emitList d st)) = textChunks (bs_sink st) @ ts \<and>
     list_all wholeWords ts"
  using flush_words [of "(closeReasoning emitList st)\<lparr>bs_inText := bs_inText (closeReasoning emitList st) @ d,
     bs_fullText := bs_fullText (closeReasoning emitList st) @ d\<rparr>"]
  by (auto simp: appendText_def Let_def)

section \<open>Reasoning is drawn by line\<close>

text \<open>The lines of a text; the last one is what follows the last line break.\<close>

fun splitLines :: "string \<Rightarrow> string list" where
  "splitLines [] = [[]]"
| "splitLines (c # s) = (if c = CHR 0x0A then [] # splitLines s
     else (c # hd (splitLines s)) # tl (splitLines s))"

fun reasonOf :: "blockStep \<Rightarrow> string list" where
  "reasonOf (Some (ReasoningChunk _ t), _) = [t]"
| "reasonOf _ = []"

definition reasonTexts :: "blockStep list \<Rightarrow> string list" where
  "reasonTexts steps = concat (map reasonOf steps)"

definition nonblank :: "string \<Rightarrow> bool" where
  "nonblank t \<longleftrightarrow> TrimSpace t \<noteq> []"

lemma reasonTexts_append [simp]: "reasonTexts (xs @ ys) = reasonTexts xs @ reasonTexts ys"
  by (simp add: reasonTexts_def)

lemma reasonTexts_single [simp]: "reasonTexts [s] = reasonOf s"
  by (simp add: reasonTexts_def)

lemma splitLines_nonempty [simp]: "splitLines s \<noteq> []"
  by (cases s) auto

lemma splitLines_append:
  "splitLines (s @ d) = butlast (splitLines s) @ splitLines (last (splitLines s) @ d)"
proof (induction s)
  case (Cons c s)
  obtain l ls where "splitLines s = l # ls" by (metis list.exhaust splitLines_nonempty)
  then show ?case using Cons.IH by (cases ls) auto
qed simp

lemma splitLines_one: "CHR 0x0A \<notin> set s \<Longrightarrow> splitLines s = [s]"
  by (induction s) auto

lemma splitLines_last: "CHR 0x0A \<notin> set (last (splitLines s))"
proof (induction s)
  case (Cons c s)
  obtain l ls where "splitLines s = l # ls" by (metis list.exhaust splitLines_nonempty)
  then show ?case using Cons.IH by (cases ls) auto
qed simp

lemma splitLines_break: "CHR 0x0A \<notin> set a \<Longrightarrow> splitLines (a @ CHR 0x0A # b) = a # splitLines b"
  by (induction a) auto

lemma scan_lines:
  assumes "CHR 0x0A \<notin> set (take n (bs_reasoning st))"
  shows "reasonTexts (bs_sink (scanReasoning emitList n st)) =
      reasonTexts (bs_sink st) @ filter nonblank (butlast (splitLines (bs_reasoning st))) \<and>
    bs_reasoning (scanReasoning emitList n st) = last (splitLines (bs_reasoning st))"
  using assms
proof (induction st arbitrary: n rule: measure_induct_rule [of "\<lambda>st. length (bs_reasoning st)"])
  case (less st)
  let ?r = "bs_reasoning st"
  show ?case
  proof (cases "IndexByte (drop n ?r) (CHR 0x0A)")
    case None
    then have "CHR 0x0A \<notin> set (take n ?r @ drop n ?r)"
      using less.prems by (simp only: IndexByte_None set_append) blast
    then have "CHR 0x0A \<notin> set ?r" by simp
    then show ?thesis using None by (simp add: scanReasoning.simps splitLines_one)
  next
    case (Some i)
    then have i: "i < length (drop n ?r)" "drop n ?r ! i = CHR 0x0A" "CHR 0x0A \<notin> set (take i (drop n ?r))"
      using IndexByte_Some by blast+
    define a where "a = take (i + n) ?r"
    define b where "b = drop (Suc (i + n)) ?r"
    have r: "?r = a @ CHR 0x0A # b"
      using i(1,2) id_take_nth_drop [of "i + n" ?r] by (simp add: a_def b_def add.commute)
    have "a = take n ?r @ take i (drop n ?r)" using take_add [of n i ?r] by (simp add: a_def add.commute)
    then have a: "CHR 0x0A \<notin> set a" using less.prems i(3) by simp
    define st2 where "st2 = (if TrimSpace a = [] then st\<lparr>bs_reasoning := b\<rparr>
      else putBlock emitList (ReasoningChunk (bs_ctx st) a) (st\<lparr>bs_reasoning := b, bs_chunked := True\<rparr>))"
    have scan: "scanReasoning emitList n st = scanReasoning emitList 0 st2"
      using Some by (simp add: scanReasoning.simps [of _ n st] Let_def st2_def a_def b_def)
    have "length (bs_reasoning st2) < length ?r" by (simp add: st2_def r)
    from less.IH [OF this, of 0]
    have "reasonTexts (bs_sink (scanReasoning emitList n st)) =
        reasonTexts (bs_sink st2) @ filter nonblank (butlast (splitLines b))"
      "bs_reasoning (scanReasoning emitList n st) = last (splitLines b)"
      by (simp_all add: scan st2_def)
    moreover have "nonblank a = (TrimSpace a \<noteq> [])" by (simp add: nonblank_def)
    ultimately show ?thesis
      using splitLines_break [OF a, of b] by (simp add: r st2_def blockStep_def)
  qed
qed

lemma reasoning_begin [simp]:
  "bs_reasoning (beginReasoning em st) = bs_reasoning st"
  "bs_inReasoning (beginReasoning em st)"
  "reasonTexts (bs_sink (beginReasoning emitList st)) = reasonTexts (bs_sink st)"
  by (simp_all add: beginReasoning_def Let_def blockStep_def)

lemma inReasoning_scan [simp]: "bs_inReasoning (scanReasoning em n st) = bs_inReasoning st"
  by (induction em n st rule: scanReasoning.induct)
     (subst scanReasoning.simps, simp add: Let_def split: option.split)

lemma append_lines:
  assumes "CHR 0x0A \<notin> set (bs_reasoning st)"
  shows "reasonTexts (bs_sink (appendReasoning emitList d b st)) = reasonTexts (bs_sink st) @
      filter nonblank (butlast (splitLines (bs_reasoning st @ d)))"
    and "bs_reasoning (appendReasoning emitList d b st) = last (splitLines (bs_reasoning st @ d))"
    and "bs_inReasoning (appendReasoning emitList d b st) = (bs_inReasoning st \<or> d \<noteq> [])"
proof -
  define st1 where "st1 = (if bs_inReasoning st then st else beginReasoning emitList st)"
  define st2 where "st2 = (if b then st1\<lparr>bs_summaryText := bs_summaryText st1 @ d\<rparr>
     else st1\<lparr>bs_reasoningText := bs_reasoningText st1 @ d\<rparr>)"
  define st3 where "st3 = st2\<lparr>bs_reasoning := bs_reasoning st @ d\<rparr>"
  have def: "appendReasoning emitList d b st = (if d = [] then st
      else scanReasoning emitList (length (bs_reasoning st)) st3)"
    by (simp add: appendReasoning_def Let_def st1_def st2_def st3_def)
  have r: "bs_reasoning st3 = bs_reasoning st @ d" "bs_inReasoning st3"
    "reasonTexts (bs_sink st3) = reasonTexts (bs_sink st)"
    by (simp_all add: st1_def st2_def st3_def)
  have "CHR 0x0A \<notin> set (take (length (bs_reasoning st)) (bs_reasoning st3))"
    using assms by (simp add: r)
  note scan_lines [OF this]
  then show "reasonTexts (bs_sink (appendReasoning emitList d b st)) = reasonTexts (bs_sink st) @
      filter nonblank (butlast (splitLines (bs_reasoning st @ d)))"
    "bs_reasoning (appendReasoning emitList d b st) = last (splitLines (bs_reasoning st @ d))"
    using assms by (simp_all add: def r splitLines_one)
  show "bs_inReasoning (appendReasoning emitList d b st) = (bs_inReasoning st \<or> d \<noteq> [])"
    by (simp add: def r)
qed

definition appendAll :: "(string \<times> bool) list \<Rightarrow> blockStep list blockState \<Rightarrow> blockStep list blockState" where
  "appendAll ds = fold (\<lambda>(d, b). appendReasoning emitList d b) ds"

lemma append_all_lines:
  fixes ds
  assumes "CHR 0x0A \<notin> set (bs_reasoning st)"
  defines "whole \<equiv> bs_reasoning st @ concat (map fst ds)"
  shows "reasonTexts (bs_sink (appendAll ds st)) =
      reasonTexts (bs_sink st) @ filter nonblank (butlast (splitLines whole)) \<and>
    bs_reasoning (appendAll ds st) = last (splitLines whole) \<and>
    bs_inReasoning (appendAll ds st) = (bs_inReasoning st \<or> concat (map fst ds) \<noteq> [])"
  unfolding whole_def
proof (induction ds rule: rev_induct)
  case Nil
  then show ?case using assms by (simp add: appendAll_def splitLines_one)
next
  case (snoc x ds)
  obtain d b where x: "x = (d, b)" by (cases x)
  let ?w = "bs_reasoning st @ concat (map fst ds)"
  have no: "CHR 0x0A \<notin> set (bs_reasoning (appendAll ds st))"
    using snoc.IH splitLines_last by simp
  have s: "splitLines (?w @ d) = butlast (splitLines ?w) @ splitLines (last (splitLines ?w) @ d)"
    by (rule splitLines_append)
  show ?case
    using snoc.IH append_lines [OF no, of d b] s
    by (auto simp: x appendAll_def butlast_append)
qed

lemma close_lines:
  "reasonTexts (bs_sink (closeReasoning emitList st)) = reasonTexts (bs_sink st) @
     (if bs_inReasoning st \<and> nonblank (bs_reasoning st) then [TrimSpace (bs_reasoning st)] else [])"
  by (simp add: closeReasoning_def Let_def blockStep_def nonblank_def)

text \<open>The blocks of a turn that said one short word.\<close>

lemma sample_blocks:
  "blocksOut lib 0 (map ok [Ev [] (OutputTextDeltaEvent ''hi'')]) =
     [blockStep (TextChunk \<lparr>bc_Agent = [], bc_Depth = 0, bc_Iteration = 0\<rparr> ''hi''),
      blockStep (TextDone \<lparr>bc_Agent = [], bc_Depth = 0, bc_Iteration = 0\<rparr> ''hi'' False)]"
proof -
  have "EncodeRunes (map byte ''hi'') = ''hi''" by (rule EncodeRunes_ascii) (simp add: byte_def)
  then have n: "RuneCount ''hi'' = 2"
    using RuneCount_EncodeRunes [of "map byte ''hi''"] by (simp add: validRune_def byte_def)
  show ?thesis
    unfolding blocksOut_oks
    by (simp add: startState_def newBlockState_def foldAll_def foldEvent_def appendText_def
        flushTextChunks.simps n flushThreshold_def defaultTextFlushThreshold_def closeReasoning_def
        closeText_def salvage_def Let_def HasPrefix_def putBlock_def emitStep_def)
qed

section \<open>Properties\<close>

text \<open>C37. Whatever consumer reads the blocks and wherever it stops, it is offered the same steps in
  the same order and none after it stopped; an error of the events comes in its place, after
  everything gathered before it, and is the last step.\<close>

theorem blocks_error_last:
  assumes "denotes events (map ok es @ (ev, Some err) # rest)"
  shows "denotes (Blocks lib configured events)
    (blocksOut lib configured (map ok es) @ [(None, Some err)])"
  using denotes_Blocks [OF assms] by (simp add: blocksOut_err)

theorem blocks_error_last_witness:
  "\<forall>lib. denotes (Blocks lib 0 (seqOf [ok (Ev [] (OutputTextDeltaEvent ''hi'')), (None, Some (Sentinel ErrNotFound))]))
     [blockStep (TextChunk \<lparr>bc_Agent = [], bc_Depth = 0, bc_Iteration = 0\<rparr> ''hi''),
      blockStep (TextDone \<lparr>bc_Agent = [], bc_Depth = 0, bc_Iteration = 0\<rparr> ''hi'' False),
      (None, Some (Sentinel ErrNotFound))]"
proof
  fix lib
  show "denotes (Blocks lib 0 (seqOf [ok (Ev [] (OutputTextDeltaEvent ''hi'')), (None, Some (Sentinel ErrNotFound))]))
     [blockStep (TextChunk \<lparr>bc_Agent = [], bc_Depth = 0, bc_Iteration = 0\<rparr> ''hi''),
      blockStep (TextDone \<lparr>bc_Agent = [], bc_Depth = 0, bc_Iteration = 0\<rparr> ''hi'' False),
      (None, Some (Sentinel ErrNotFound))]"
    using blocks_error_last [of "seqOf [ok (Ev [] (OutputTextDeltaEvent ''hi'')), (None, Some (Sentinel ErrNotFound))]"
        "[Ev [] (OutputTextDeltaEvent ''hi'')]" None "Sentinel ErrNotFound" "[]" lib 0]
    unfolding sample_blocks by simp
qed

text \<open>C22. No text is lost or repeated: the chunks drawn, one after the other, are the deltas
  received, up to a rest that is shorter than the threshold and that arrived after the last
  response had ended. Unless a response has just ended there is no rest.\<close>

theorem text_conserved:
  "\<exists>rest. chunkText (blocksOut lib configured (map ok es)) @ rest = deltaText es \<and>
     int (RuneCount rest) < flushThreshold configured \<and>
     suffix_of rest (if endedAfter es then sinceEnd es else [])"
proof -
  let ?st = "foldAll lib es (startState configured)"
  note h = text_history [of lib es configured]
  show ?thesis
  proof (cases "endedAfter es")
    case True
    then show ?thesis
      using h by (intro exI [of _ "bs_inText ?st"]) (auto simp: blocksOut_oks salvage_def said_def short_def)
  next
    case False
    then show ?thesis
      using h threshold_pos [of configured] by (intro exI [of _ "[]"]) (simp add: blocksOut_oks salvage_def)
  qed
qed

text \<open>A tool call, a tool result and the start of a response are each drawn at most once,
  however often the server reports them.\<close>

theorem drawn_once:
  "distinct (drawnKeys (blocksOut lib configured (map ok es)))"
proof -
  have "distinct (drawnKeys (bs_sink (foldAll lib es (startState configured))))"
    unfolding foldAll_def
    by (rule drawing.distinct_logged)
       (simp_all add: startState_def newBlockState_def executionsKeyed_def drawnKeys_def)
  then show ?thesis
    using drew_keys [OF drew_close2(2), of "foldAll lib es (startState configured)"]
    by (simp add: blocksOut_oks salvage_def)
qed

text \<open>C23. What an event draws is credited by the history alone: to the one response that is
  speaking when the event is drawn, or to nobody when none or several are, with the depth its
  name has, and with the number of responses ended before.\<close>

theorem credited_by_history:
  "added (\<lambda>b. credited (speaking (if starting (ev_body e) = None then es else es @ [e])) (endsIn es) (Context b))
     (foldAll lib es (startState configured)) (foldAll lib (es @ [e]) (startState configured))"
proof -
  let ?st = "foldAll lib es (startState configured)"
  have before: "credited (speaking es) (endsIn es) (bs_ctx ?st)"
    using credited_history [of es lib configured] by (simp add: wellCredited_def)
  have after: "credited (speaking (es @ [e])) (endsIn (es @ [e])) (bs_ctx (foldAll lib (es @ [e]) (startState configured)))"
    using credited_history [of "es @ [e]" lib configured] by (simp add: wellCredited_def)
  have ends: "endsIn (es @ [e]) = endsIn es" if "starting (ev_body e) = Some r" for r
    using that by (cases "ev_body e") (simp_all add: endsIn_def)
  show ?thesis
    using added_fold [of "ev_body e" ?st lib] before after ends
    unfolding foldAll_snoc added_def
    by (cases "starting (ev_body e)") (auto simp: list_all_iff)
qed

text \<open>Folding a delta ends, holds back less than a threshold of text, and draws chunks that end
  where words end, a run without a boundary excepted.\<close>

theorem chunks_whole_words:
  fixes lib es configured
  defines "st \<equiv> foldAll lib es (startState configured)"
  shows "\<exists>ts. textChunks (bs_sink (foldEvent lib emitList (OutputTextDeltaEvent d) st)) =
       textChunks (bs_sink st) @ ts \<and> list_all wholeWords ts \<and>
     int (RuneCount (bs_inText (foldEvent lib emitList (OutputTextDeltaEvent d) st))) <
       flushThreshold configured"
proof -
  have "short (foldEvent lib emitList (OutputTextDeltaEvent d) st)"
    "bs_threshold st = flushThreshold configured"
    using text_history [of lib es configured] threshold_pos [of configured]
    by (auto simp: st_def intro!: short_fold)
  then show ?thesis
    using append_words [where st = st and d = d] by (simp add: short_def) (simp add: foldEvent_def)
qed

text \<open>C36. Scanning only what arrived finds the lines a scan of the whole section would: the chunks
  drawn for a section of reasoning are its complete lines that are not blank, in order,
  however it was cut into deltas, and closing it draws what follows the last line break.\<close>

theorem reasoning_by_line:
  fixes st ds
  assumes "bs_reasoning st = []"
  defines "ls \<equiv> splitLines (concat (map fst ds))"
  shows "reasonTexts (bs_sink (closeReasoning emitList (appendAll ds st))) =
    reasonTexts (bs_sink st) @ filter nonblank (butlast ls) @
      (if nonblank (last ls) then [TrimSpace (last ls)] else [])"
proof -
  have blank: "\<not> nonblank []" by (simp add: nonblank_def TrimSpace_def dropTail_def unsegs_def)
  show ?thesis
    using append_all_lines [of st ds] assms blank
    by (cases "concat (map fst ds) = []") (auto simp: close_lines)
qed

theorem reasoning_by_line_witness:
  "reasonTexts (bs_sink (closeReasoning emitList (appendAll [(''a'', False), (''b'', False)] (startState 0)))) = [''ab'']"
proof -
  have "TrimSpace ''ab'' = ''ab''" by (rule TrimSpace_visible(1)) (simp add: visible_def byte_def)
  then show ?thesis
    using reasoning_by_line [of "startState 0" "[(''a'', False), (''b'', False)]"]
    by (simp add: startState_def newBlockState_def reasonTexts_def nonblank_def)
qed

end
