(* ===== verification/Transform.thy ===== *)
theory Transform
  imports Folding
begin

text \<open>
  transform.go: changing what a sequence of blocks renders.

  Each transform is the code's range loop over the sequence it wraps. The interpretations of
  the two interfaces of GoBase say what it makes of the list a sequence denotes: a filter of
  it, or the output of a machine with a state; the properties are about those lists. A nil
  block is \<open>None\<close>. Pipe is polymorphic in the type of its sequences.
\<close>

section \<open>Transforms\<close>

definition Pipe :: "'q \<Rightarrow> ('q \<Rightarrow> 'q) list \<Rightarrow> 'q" where
  "Pipe sq transforms = fold (\<lambda>transform sq. transform sq) transforms sq"

fun anyMatch :: "(block option \<Rightarrow> bool) list \<Rightarrow> block option \<Rightarrow> bool" where
  "anyMatch [] b = False"
| "anyMatch (matches # predicates) b = (matches b \<or> anyMatch predicates b)"

text \<open>IsBlock of a variant, given by its discriminator.\<close>

definition IsBlock :: "(block \<Rightarrow> bool) \<Rightarrow> block option \<Rightarrow> bool" where
  "IsBlock variant b = (case b of None \<Rightarrow> False | Some b \<Rightarrow> variant b)"

type_synonym 's blockYield = "(blockStep, 's) yield"

definition SkipBlocks ::
  "(block option \<Rightarrow> bool) list \<Rightarrow> (blockStep, bool \<times> 's) seq \<Rightarrow> (blockStep, 's) seq" where
  "SkipBlocks dropping sq y s = snd (forRange sq (\<lambda>(b, err) s.
     if err \<noteq> None then y (b, err) s
     else if anyMatch dropping b then (True, s)
     else y (b, None) s) s)"

definition OnlyBlocks ::
  "(block option \<Rightarrow> bool) list \<Rightarrow> (blockStep, bool \<times> 's) seq \<Rightarrow> (blockStep, 's) seq" where
  "OnlyBlocks keep sq y s = snd (forRange sq (\<lambda>(b, err) s.
     if err \<noteq> None then y (b, err) s
     else if \<not> anyMatch keep b then (True, s)
     else y (b, None) s) s)"

definition OnlyAgent :: "string \<Rightarrow> (blockStep, bool \<times> 's) seq \<Rightarrow> (blockStep, 's) seq" where
  "OnlyAgent agent sq y s = snd (forRange sq (\<lambda>(b, err) s.
     if err \<noteq> None then y (b, err) s
     else if agent \<noteq> [] \<and> (case b of None \<Rightarrow> False | Some b \<Rightarrow> bc_Agent (Context b) \<noteq> agent)
     then (True, s)
     else y (b, None) s) s)"

text \<open>The state of the loop is the end held back and the consumer's.\<close>

definition SkipIntermediateEnds ::
  "(blockStep, bool \<times> block option \<times> 's) seq \<Rightarrow> (blockStep, 's) seq" where
  "SkipIntermediateEnds sq y s =
    (let (whole, (held, s)) = forRange sq (\<lambda>(b, err) (held, s).
         if err \<noteq> None then (let (go, s) = y (b, err) s in (go, (held, s)))
         else if IsBlock is_ResponseEndBlock b then (True, (b, s))
         else (let (go, s) = y (b, None) s in (go, (None, s)))) (None, s)
     in if whole \<and> held \<noteq> None then snd (y (held, None) s) else s)"

definition mergeFlush :: "'s blockYield \<Rightarrow> blockContext \<Rightarrow> string \<Rightarrow> 's \<Rightarrow> bool \<times> 's" where
  "mergeFlush y ctx accumulated s =
    (if accumulated = [] then (True, s)
     else y (Some (TextDone ctx accumulated (Contains accumulated ''```'')), None) s)"

definition zeroContext :: blockContext where
  "zeroContext = \<lparr> bc_Agent = [], bc_Depth = 0, bc_Iteration = 0 \<rparr>"

definition MergeTextAcrossIterations ::
  "(blockStep, bool \<times> (string \<times> blockContext) \<times> 's) seq \<Rightarrow> (blockStep, 's) seq" where
  "MergeTextAcrossIterations sq y s =
    (let (whole, ((accumulated, ctx), s)) = forRange sq (\<lambda>(b, err) ((accumulated, ctx), s).
         if err \<noteq> None then (let (go, s) = y (b, err) s in (go, ((accumulated, ctx), s)))
         else (case b of
             Some (TextDone c full _) \<Rightarrow> (True, ((accumulated @ full, c), s))
           | Some (ResponseEndBlock c _ _) \<Rightarrow>
               (let (go, s) = mergeFlush y c accumulated s in
                if \<not> go then (False, (([], ctx), s))
                else (let (go, s) = y (b, None) s in (go, (([], ctx), s))))
           | _ \<Rightarrow> (let (go, s) = y (b, None) s in (go, ((accumulated, ctx), s)))))
         (([], zeroContext), s)
     in if whole then snd (mergeFlush y ctx accumulated s) else s)"

section \<open>What they make of a list\<close>

definition kept :: "(block option \<Rightarrow> bool) \<Rightarrow> blockStep \<Rightarrow> bool" where
  "kept wanted step \<longleftrightarrow> snd step \<noteq> None \<or> wanted (fst step)"

interpretation skipping: filter_transform "SkipBlocks dropping" "kept (\<lambda>b. \<not> anyMatch dropping b)" for dropping
  by unfold_locales (auto simp: SkipBlocks_def kept_def fun_eq_iff intro!: arg_cong [of _ _ "\<lambda>f. snd (forRange _ f _)"])

interpretation keeping: filter_transform "OnlyBlocks keep" "kept (anyMatch keep)" for keep
  by unfold_locales (auto simp: OnlyBlocks_def kept_def fun_eq_iff intro!: arg_cong [of _ _ "\<lambda>f. snd (forRange _ f _)"])

definition ofAgent :: "string \<Rightarrow> block option \<Rightarrow> bool" where
  "ofAgent agent b \<longleftrightarrow> agent = [] \<or> (case b of None \<Rightarrow> True | Some b \<Rightarrow> bc_Agent (Context b) = agent)"

interpretation agent: filter_transform "OnlyAgent agent" "kept (ofAgent agent)" for agent
  by unfold_locales (auto simp: OnlyAgent_def kept_def ofAgent_def fun_eq_iff split: option.splits
      intro!: arg_cong [of _ _ "\<lambda>f. snd (forRange _ f _)"])

definition isEndStep :: "blockStep \<Rightarrow> bool" where
  "isEndStep step \<longleftrightarrow> snd step = None \<and> IsBlock is_ResponseEndBlock (fst step)"

definition endsStep :: "block option \<Rightarrow> blockStep \<Rightarrow> block option \<times> blockStep list" where
  "endsStep held step =
    (if snd step \<noteq> None then (held, [step])
     else if isEndStep step then (fst step, [])
     else (None, [step]))"

definition endsFin :: "block option \<Rightarrow> blockStep list" where
  "endsFin held = (case held of None \<Rightarrow> [] | Some b \<Rightarrow> [(held, None)])"

lemma feed_single: "feed [x] y s = y x s"
  by (simp add: Let_def split: prod.split)

lemma ends_body:
  "(\<lambda>(b, err) (held, s).
      if err \<noteq> None then (let (go, s) = y (b, err) s in (go, (held, s)))
      else if IsBlock is_ResponseEndBlock b then (True, (b, s))
      else (let (go, s) = y (b, None) s in (go, (None, s)))) =
   (\<lambda>x (held, s). let (held', os) = endsStep held x; (go, s') = feed os y s in (go, (held', s')))"
  by (auto simp: fun_eq_iff endsStep_def isEndStep_def feed_single simp del: feed.simps(2) split: prod.split)

interpretation ends: state_transform SkipIntermediateEnds endsStep endsFin None
proof
  show "SkipIntermediateEnds sq y s = (let (whole, (st, s')) = forRange sq
      (\<lambda>x (st, s). let (st', os) = endsStep st x; (go, s') = feed os y s in (go, (st', s')))
      (None, s) in if whole then snd (feed (endsFin st) y s') else s')" for sq y and s :: 's
    unfolding SkipIntermediateEnds_def ends_body
    by (auto simp: endsFin_def feed_single simp del: feed.simps(2) split: prod.split option.split)
qed

definition textBlock :: "blockContext \<Rightarrow> string \<Rightarrow> blockStep list" where
  "textBlock ctx t = (if t = [] then [] else [blockStep (TextDone ctx t (Contains t ''```''))])"

definition mergeStep ::
  "string \<times> blockContext \<Rightarrow> blockStep \<Rightarrow> (string \<times> blockContext) \<times> blockStep list" where
  "mergeStep st step =
    (if snd step \<noteq> None then (st, [step])
     else case fst step of
       Some (TextDone c full _) \<Rightarrow> ((fst st @ full, c), [])
     | Some (ResponseEndBlock c _ _) \<Rightarrow> (([], snd st), textBlock c (fst st) @ [step])
     | _ \<Rightarrow> (st, [step]))"

definition mergeFin :: "string \<times> blockContext \<Rightarrow> blockStep list" where
  "mergeFin st = textBlock (snd st) (fst st)"

lemma feed_textBlock: "feed (textBlock c t) y s = mergeFlush y c t s"
  by (simp add: textBlock_def mergeFlush_def blockStep_def Let_def split: prod.split)

lemma merge_body:
  "(\<lambda>(b, err) ((accumulated, ctx), s).
      if err \<noteq> None then (let (go, s) = y (b, err) s in (go, ((accumulated, ctx), s)))
      else (case b of
          Some (TextDone c full _) \<Rightarrow> (True, ((accumulated @ full, c), s))
        | Some (ResponseEndBlock c _ _) \<Rightarrow>
            (let (go, s) = mergeFlush y c accumulated s in
             if \<not> go then (False, (([], ctx), s))
             else (let (go, s) = y (b, None) s in (go, (([], ctx), s))))
        | _ \<Rightarrow> (let (go, s) = y (b, None) s in (go, ((accumulated, ctx), s))))) =
   (\<lambda>x (st, s). let (st', os) = mergeStep st x; (go, s') = feed os y s in (go, (st', s')))"
  by (auto simp: fun_eq_iff mergeStep_def feed_single feed_append feed_textBlock simp del: feed.simps(2)
      split: prod.split option.split block.split)

interpretation merging: state_transform MergeTextAcrossIterations mergeStep mergeFin "([], zeroContext)"
proof
  show "MergeTextAcrossIterations sq y s = (let (whole, (st, s')) = forRange sq
      (\<lambda>x (st, s). let (st', os) = mergeStep st x; (go, s') = feed os y s in (go, (st', s')))
      (([], zeroContext), s) in if whole then snd (feed (mergeFin st) y s') else s')" for sq y and s :: 's
    unfolding MergeTextAcrossIterations_def merge_body
    by (auto simp: mergeFin_def feed_textBlock split: prod.split)
qed

section \<open>Ends and texts\<close>

text \<open>The end a caller is left with: the last block of the sequence when it is an end.\<close>

definition finalEnd :: "blockStep list \<Rightarrow> blockStep list" where
  "finalEnd steps = (let shown = filter (\<lambda>s. snd s = None) steps in
     if 0 < length shown \<and> isEndStep (last shown) then [last shown] else [])"

lemma ends_out:
  "machineOut endsStep endsFin held steps =
   filter (\<lambda>s. \<not> isEndStep s) steps @
     (if list_all (\<lambda>s. snd s \<noteq> None) steps then endsFin held else finalEnd steps)"
proof (induction steps arbitrary: held)
  case (Cons x xs)
  have blank: "list_all (\<lambda>s. snd s \<noteq> None) xs \<longleftrightarrow> filter (\<lambda>s. snd s = None) xs = []"
    by (auto simp: filter_empty_conv list_all_iff)
  consider "snd x \<noteq> None" | "snd x = None" "isEndStep x" | "snd x = None" "\<not> isEndStep x" by blast
  then show ?case
  proof cases
    case 1
    then have "endsStep held x = (held, [x])" "\<not> isEndStep x" "finalEnd (x # xs) = finalEnd xs"
      by (auto simp: endsStep_def isEndStep_def finalEnd_def)
    then show ?thesis using 1 Cons.IH by simp
  next
    case 2
    then obtain b where "x = (Some b, None)"
      by (cases x) (auto simp: isEndStep_def IsBlock_def split: option.splits)
    then show ?thesis
      using 2 Cons.IH [of "Some b"] blank
      by (auto simp: endsStep_def finalEnd_def endsFin_def Let_def)
  next
    case 3
    then show ?thesis
      using Cons.IH [of None] blank by (auto simp: endsStep_def finalEnd_def endsFin_def Let_def)
  qed
qed (simp add: finalEnd_def)

text \<open>The texts drawn up to each end, and after the last one.\<close>

fun sections :: "blockStep list \<Rightarrow> string list list" where
  "sections [] = [[]]"
| "sections (x # xs) =
    (if isEndStep x then [] # sections xs
     else case x of
       (Some (TextDone _ t _), None) \<Rightarrow> (t # hd (sections xs)) # tl (sections xs)
     | _ \<Rightarrow> sections xs)"

definition joined :: "string list \<Rightarrow> string list" where
  "joined ts = (if concat ts = [] then [] else [concat ts])"

definition isTextDone :: "blockStep \<Rightarrow> bool" where
  "isTextDone s \<longleftrightarrow> snd s = None \<and> IsBlock is_TextDone (fst s)"

lemma sections_nonempty [simp]: "sections xs \<noteq> []"
  by (induction xs) (auto split: prod.split option.split block.split)

lemma isTextDone_pair:
  "isTextDone (b, err) \<longleftrightarrow> err = None \<and> (\<exists>c t f. b = Some (TextDone c t f))"
  by (cases b) (auto simp: isTextDone_def IsBlock_def is_TextDone_def)

lemma textBlock_done [simp]: "filter (\<lambda>s. \<not> isTextDone s) (textBlock c t) = []"
  by (simp add: textBlock_def isTextDone_def IsBlock_def blockStep_def)

lemma merge_rest:
  "filter (\<lambda>s. \<not> isTextDone s) (machineOut mergeStep mergeFin st steps) = filter (\<lambda>s. \<not> isTextDone s) steps"
proof (induction steps arbitrary: st)
  case (Cons x xs)
  obtain b err where x: "x = (b, err)" by (cases x)
  have "filter (\<lambda>s. \<not> isTextDone s) (snd (mergeStep st x)) = (if isTextDone x then [] else [x])"
    by (auto simp: x mergeStep_def isTextDone_pair split: option.split block.split)
  then show ?case using Cons.IH by (simp add: split_def Let_def)
qed (simp add: mergeFin_def)

lemma joined_Nil [simp]: "joined ([] # ts) = joined ts" "joined [] = []"
  by (simp_all add: joined_def)

lemma sections_other:
  "\<not> isEndStep x \<Longrightarrow> \<not> isTextDone x \<Longrightarrow> sections (x # xs) = sections xs"
  by (cases x) (auto simp: isTextDone_def IsBlock_def split: option.split block.split)

lemma sections_text:
  "sections (textBlock c t @ xs) = (joined [t] @ hd (sections xs)) # tl (sections xs)"
  by (simp add: textBlock_def joined_def blockStep_def isEndStep_def IsBlock_def)

lemma sections_end: "isEndStep x \<Longrightarrow> sections (x # xs) = [] # sections xs"
  by simp

lemma merge_sections:
  "sections (machineOut mergeStep mergeFin (acc, c) steps) =
   joined (acc # hd (sections steps)) # map joined (tl (sections steps))"
proof (induction steps arbitrary: acc c)
  case Nil
  then show ?case using sections_text [of c acc "[]"] by (simp add: mergeFin_def)
next
  case (Cons x xs)
  consider "isEndStep x" | "isTextDone x" | "\<not> isEndStep x" "\<not> isTextDone x" by blast
  then show ?case
  proof cases
    case 1
    then obtain k st r where x: "x = (Some (ResponseEndBlock k st r), None)"
      by (cases x) (auto simp: isEndStep_def IsBlock_def is_ResponseEndBlock_def split: option.splits)
    have "sections (machineOut mergeStep mergeFin (acc, c) (x # xs)) =
        joined [acc] # sections (machineOut mergeStep mergeFin ([], c) xs)"
      using 1 by (simp add: mergeStep_def x sections_text)
    then show ?thesis using 1 Cons.IH [of "[]" c]
      by (cases "sections xs") (simp_all add: sections_nonempty [of xs])
  next
    case 2
    then obtain k t f where x: "x = (Some (TextDone k t f), None)"
      by (cases x) (auto simp: isTextDone_def IsBlock_def is_TextDone_def split: option.splits)
    have e: "\<not> isEndStep x" by (simp add: x isEndStep_def IsBlock_def)
    show ?thesis
      using e Cons.IH [of "acc @ t" k] by (simp add: x mergeStep_def joined_def)
  next
    case 3
    then have "mergeStep (acc, c) x = ((acc, c), [x])"
      by (cases x) (auto simp: mergeStep_def isEndStep_def isTextDone_def IsBlock_def
          split: option.split block.split)
    then show ?thesis using Cons.IH [of acc c] by (simp add: sections_other [OF 3] del: sections.simps)
  qed
qed

lemma only_ends:
  assumes "denotes sq steps"
  shows "denotes (SkipIntermediateEnds sq) (filter (\<lambda>s. \<not> isEndStep s) steps @ finalEnd steps)"
proof -
  have "list_all (\<lambda>s. snd s \<noteq> None) steps \<Longrightarrow> finalEnd steps = []"
    by (simp add: finalEnd_def list_all_iff filter_empty_conv)
  then show ?thesis
    using ends.denotes_machine [OF assms] by (simp add: ends_out endsFin_def split: if_splits)
qed

section \<open>Properties\<close>

text \<open>The three filters keep the order, never drop an error, and keep exactly the blocks their
  caller asked for; skipping and keeping by the same predicates split the blocks in two.\<close>

theorem filters_keep_errors:
  assumes "denotes sq steps" "denotes sq' steps" "denotes sq'' steps"
  shows "denotes (SkipBlocks predicates sq) (filter (\<lambda>(b, err). err \<noteq> None \<or> \<not> anyMatch predicates b) steps) \<and>
    denotes (OnlyBlocks predicates sq') (filter (\<lambda>(b, err). err \<noteq> None \<or> anyMatch predicates b) steps) \<and>
    denotes (OnlyAgent agent sq'') (filter (\<lambda>(b, err). err \<noteq> None \<or> ofAgent agent b) steps)"
proof -
  have k: "kept w = (\<lambda>(b, err). err \<noteq> None \<or> w b)" for w by (auto simp: kept_def fun_eq_iff)
  show ?thesis
    using skipping.denotes_filter [OF assms(1), of predicates] keeping.denotes_filter [OF assms(2), of predicates]
      agent.denotes_filter [OF assms(3), of agent]
    by (simp only: k simp_thms)
qed

theorem filters_keep_errors_witness:
  "denotes (SkipBlocks [IsBlock is_ReasoningChunk]
      (seqOf [blockStep (ReasoningChunk zeroContext ''a''), (None, Some (Sentinel ErrNotFound))]))
     [(None, Some (Sentinel ErrNotFound))]"
  using filters_keep_errors [OF denotes_seqOf denotes_seqOf denotes_seqOf, THEN conjunct1,
      of "[IsBlock is_ReasoningChunk]"
         "[blockStep (ReasoningChunk zeroContext ''a''), (None, Some (Sentinel ErrNotFound))]"]
  by (simp add: blockStep_def IsBlock_def)

text \<open>After SkipIntermediateEnds everything but ends arrives in order, and at most one end does:
  the last block of the sequence when it is one, after everything else.\<close>

theorem only_final_end:
  assumes "denotes sq steps"
  shows "denotes (SkipIntermediateEnds sq) (filter (\<lambda>s. \<not> isEndStep s) steps @ finalEnd steps)"
  using assms by (rule only_ends)

theorem only_final_end_witness:
  "denotes (SkipIntermediateEnds (seqOf [blockStep (ResponseEndBlock zeroContext ''completed'' None),
      blockStep (TextChunk zeroContext ''a'')])) [blockStep (TextChunk zeroContext ''a'')]"
  using only_final_end [OF denotes_seqOf, of "[blockStep (ResponseEndBlock zeroContext ''completed'' None),
      blockStep (TextChunk zeroContext ''a'')]"]
  by (simp add: blockStep_def isEndStep_def IsBlock_def finalEnd_def)

text \<open>Merging changes nothing but the finished texts: every other step arrives unchanged and in
  order, and for each response the texts it finished arrive once, joined in order, before
  its end; what follows the last end is reported too.\<close>

theorem merge_conserves_text:
  assumes "denotes sq steps"
  shows "\<exists>out. denotes (MergeTextAcrossIterations sq) out \<and>
    filter (\<lambda>s. \<not> isTextDone s) out = filter (\<lambda>s. \<not> isTextDone s) steps \<and>
    sections out = map joined (sections steps)"
proof (intro exI conjI)
  let ?out = "machineOut mergeStep mergeFin ([], zeroContext) steps"
  show "denotes (MergeTextAcrossIterations sq) ?out" using assms by (rule merging.denotes_machine)
  show "filter (\<lambda>s. \<not> isTextDone s) ?out = filter (\<lambda>s. \<not> isTextDone s) steps" by (rule merge_rest)
  show "sections ?out = map joined (sections steps)"
    using merge_sections [of "[]" zeroContext steps] by (cases "sections steps") simp_all
qed

theorem merge_conserves_text_witness:
  "\<exists>out. denotes (MergeTextAcrossIterations (seqOf [blockStep (TextDone zeroContext ''a'' False),
      blockStep (TextDone zeroContext ''b'' False)])) out \<and> sections out = [[''ab'']]"
  using merge_conserves_text [OF denotes_seqOf, of "[blockStep (TextDone zeroContext ''a'' False),
      blockStep (TextDone zeroContext ''b'' False)]"]
  by (auto simp: blockStep_def isEndStep_def IsBlock_def joined_def)

end
