(* ===== verification/Query.thy ===== *)
theory Query
  imports Transform
begin

text \<open>
  query.go: a whole turn as its answer and its files.

  A query reads the blocks of the sequence of events its turn yields (\<open>events\<close>, an argument)
  through two transforms. Its state beside the consumer's is the answer it builds, the files,
  and the error that made it return.

  The lemmas: a turn without an error gives exactly the text and the files its blocks carry;
  a turn that fails gives its files and the error, and no text.
\<close>

section \<open>Query\<close>

record queryResult =
  qr_Text :: string
  qr_Files :: "block list"

definition queryBlocks where
  "queryBlocks lib events = MergeTextAcrossIterations (SkipIntermediateEnds (Blocks lib 0 events))"

type_synonym queryLocals = "string \<times> block list \<times> goerr option"

definition queryBody :: "blockStep \<Rightarrow> queryLocals \<times> 's \<Rightarrow> bool \<times> (queryLocals \<times> 's)" where
  "queryBody step st = (case st of ((answer, files, failure), s) \<Rightarrow>
    (case step of
       (_, Some err) \<Rightarrow> (False, ((answer, files, Some err), s))
     | (Some (TextDone _ full _), None) \<Rightarrow> (True, ((answer @ full, files, failure), s))
     | (Some (FileBlock c fid name), None) \<Rightarrow>
         (True, ((answer, files @ [FileBlock c fid name], failure), s))
     | _ \<Rightarrow> (True, ((answer, files, failure), s))))"

definition Query where
  "Query lib events s =
    (let (_, ((answer, files, failure), s)) = forRange (queryBlocks lib events) queryBody (([], [], None), s)
     in case failure of
          Some err \<Rightarrow> (\<lparr>qr_Text = [], qr_Files = files\<rparr>, Some err, s)
        | None \<Rightarrow> (\<lparr>qr_Text = answer, qr_Files = files\<rparr>, None, s))"

section \<open>QueryStream\<close>

text \<open>The stream's own state: its files, and whether its text has been read.\<close>

record queryStream =
  qs_files :: "block list"
  qs_read :: bool

definition NewQueryStream :: queryStream where
  "NewQueryStream = \<lparr>qs_files = [], qs_read = False\<rparr>"

definition queryClaim :: "queryStream \<Rightarrow> bool \<times> queryStream" where
  "queryClaim q = (if qs_read q then (False, q) else (True, q\<lparr>qs_read := True\<rparr>))"

definition addFile :: "block \<Rightarrow> queryStream \<Rightarrow> queryStream" where
  "addFile b q = q\<lparr>qs_files := qs_files q @ [b]\<rparr>"

definition QueryStream_Files :: "queryStream \<Rightarrow> block list" where
  "QueryStream_Files q = qs_files q"

text \<open>Text: yields a chunk or an error, and keeps the files. An empty string goes with an
  error.\<close>

definition textBody ::
  "(string \<times> goerr option, 's) yield \<Rightarrow> blockStep \<Rightarrow> queryStream \<times> 's \<Rightarrow> bool \<times> (queryStream \<times> 's)" where
  "textBody y step st = (case st of (q, s) \<Rightarrow>
    (case step of
       (_, Some err) \<Rightarrow> (let (go, s) = y ([], Some err) s in (go, (q, s)))
     | (Some (TextChunk _ t), None) \<Rightarrow> (let (go, s) = y (t, None) s in (go, (q, s)))
     | (Some (FileBlock c fid name), None) \<Rightarrow> (True, (addFile (FileBlock c fid name) q, s))
     | _ \<Rightarrow> (True, (q, s))))"

definition QueryStream_Text where
  "QueryStream_Text lib sessionID events q y s =
    (let (fresh, q) = queryClaim q in
     if \<not> fresh then
       (q, snd (y ([], Some (Errorf [Txt ''read query stream on session '', Txt sessionID, Txt '': '',
         Wrapped (Sentinel ErrTurnAlreadyRead)])) s))
     else snd (forRange (Blocks lib 0 events) (textBody y) (q, s)))"

section \<open>Steps without an error\<close>

fun doneOf :: "blockStep \<Rightarrow> string list" where
  "doneOf (Some (TextDone _ t _), None) = [t]"
| "doneOf _ = []"

fun fileOf :: "blockStep \<Rightarrow> block list" where
  "fileOf (Some (FileBlock c fid name), None) = [FileBlock c fid name]"
| "fileOf _ = []"

definition doneText :: "blockStep list \<Rightarrow> string" where
  "doneText steps = concat (concat (map doneOf steps))"

definition filesOf :: "blockStep list \<Rightarrow> block list" where
  "filesOf steps = concat (map fileOf steps)"

lemma plain_feed:
  "list_all (\<lambda>s. snd s = None) steps \<Longrightarrow>
   feed steps queryBody ((answer, files, None), s) =
     (True, ((answer @ doneText steps, files @ filesOf steps, None), s))"
proof (induction steps arbitrary: answer files)
  case (Cons x xs)
  obtain b where x: "x = (b, None)" using Cons.prems by (cases x) simp
  then show ?case
    using Cons by (auto simp: queryBody_def doneText_def filesOf_def split: option.split block.split)
qed (simp add: doneText_def filesOf_def)

lemma foldAll_blocks: "\<exists>bs. bs_sink (foldAll lib es (startState c)) = map blockStep bs"
proof (induction es rule: rev_induct)
  case Nil
  have "bs_sink (foldAll lib [] (startState c)) = map blockStep []"
    by (simp add: foldAll_def startState_def newBlockState_def)
  then show ?case by blast
next
  case (snoc e es)
  then obtain bs where "bs_sink (foldAll lib es (startState c)) = map blockStep bs" by blast
  moreover obtain more where "bs_sink (foldAll lib (es @ [e]) (startState c)) =
      bs_sink (foldAll lib es (startState c)) @ map blockStep more"
    using added_fold [of "ev_body e" "foldAll lib es (startState c)" lib]
    by (auto simp: foldAll_snoc added_def)
  ultimately show ?case by (metis map_append)
qed

lemma blocksOut_plain: "list_all (\<lambda>s. snd s = None) (blocksOut lib c (map ok es))"
proof -
  let ?st = "foldAll lib es (startState c)"
  obtain bs where bs: "bs_sink ?st = map blockStep bs" using foldAll_blocks by blast
  obtain more where more: "bs_sink (closeReasoning emitList (closeText emitList ?st)) = bs_sink ?st @ map blockStep more"
    using drew_close2(2) [of ?st] unfolding drew_def by blast
  have "\<exists>all. bs_sink (salvage emitList ?st) = map blockStep all"
  proof (cases "bs_ended ?st")
    case True
    then show ?thesis using bs by (auto simp: salvage_def)
  next
    case False
    then have "bs_sink (salvage emitList ?st) = map blockStep (bs @ more)"
      using more bs by (simp add: salvage_def)
    then show ?thesis by blast
  qed
  then obtain all where "bs_sink (salvage emitList ?st) = map blockStep all" by blast
  then show ?thesis by (simp add: blocksOut_oks blockStep_def list_all_length)
qed

text \<open>The texts and files the two transforms leave.\<close>

lemma doneText_sections: "doneText steps = concat (concat (sections steps))"
proof (induction steps)
  case (Cons x xs)
  have split: "concat (concat (sections xs)) = concat (hd (sections xs)) @ concat (concat (tl (sections xs)))"
    by (cases "sections xs") simp_all
  consider "isEndStep x" | k t f where "x = (Some (TextDone k t f), None)" | "\<not> isEndStep x" "\<not> isTextDone x"
    by (metis isTextDone_pair surj_pair)
  then show ?case
  proof cases
    case 1
    then have "doneOf x = []" by (cases x rule: doneOf.cases) (auto simp: isEndStep_def IsBlock_def)
    then show ?thesis using 1 Cons.IH by (simp add: doneText_def)
  next
    case 2
    then have "\<not> isEndStep x" by (simp add: isEndStep_def IsBlock_def)
    then show ?thesis using 2 Cons.IH split by (simp add: doneText_def)
  next
    case 3
    then have "doneOf x = []" by (cases x rule: doneOf.cases) (auto simp: isTextDone_pair)
    then show ?thesis using Cons.IH sections_other [OF 3, of xs] by (simp add: doneText_def del: sections.simps)
  qed
qed (simp add: doneText_def)

lemma doneText_joined:
  assumes "sections out = map joined (sections steps)"
  shows "doneText out = doneText steps"
proof -
  have "concat (joined ts) = concat ts" for ts by (simp add: joined_def)
  then have "concat (concat (map joined tss)) = concat (concat tss)" for tss
    by (induction tss) simp_all
  then show ?thesis by (simp add: doneText_sections assms)
qed

lemma filesOf_rest:
  "filesOf steps = filesOf (filter (\<lambda>s. \<not> isTextDone s) steps)"
  "filesOf steps = filesOf (filter (\<lambda>s. \<not> isEndStep s) steps)"
proof -
  have "isTextDone x \<Longrightarrow> fileOf x = []" "isEndStep x \<Longrightarrow> fileOf x = []" for x
    by (cases x rule: fileOf.cases; auto simp: isTextDone_def isEndStep_def IsBlock_def)+
  then show "filesOf steps = filesOf (filter (\<lambda>s. \<not> isTextDone s) steps)"
    "filesOf steps = filesOf (filter (\<lambda>s. \<not> isEndStep s) steps)"
    by (induction steps) (simp_all add: filesOf_def)
qed

lemma queryBlocks_denotes:
  assumes "denotes events steps"
  shows "denotes (queryBlocks lib events) (machineOut mergeStep mergeFin ([], zeroContext)
    (filter (\<lambda>s. \<not> isEndStep s) (blocksOut lib 0 steps) @ finalEnd (blocksOut lib 0 steps)))"
  unfolding queryBlocks_def
  by (rule merging.denotes_machine, rule only_ends, rule denotes_Blocks, rule assms)

lemma merge_plain:
  "list_all (\<lambda>s. snd s = None) steps \<Longrightarrow> list_all (\<lambda>s. snd s = None) (machineOut mergeStep mergeFin st steps)"
proof (induction steps arbitrary: st)
  case Nil
  then show ?case by (simp add: mergeFin_def textBlock_def blockStep_def)
next
  case (Cons x xs)
  obtain b where x: "x = (b, None)" using Cons.prems by (cases x) simp
  have "list_all (\<lambda>s. snd s = None) (snd (mergeStep st x))"
    by (simp add: x mergeStep_def textBlock_def blockStep_def split: option.split block.split)
  then show ?case using Cons by (simp add: split_def Let_def)
qed

text \<open>Up to an error the transforms have handed on everything but finished texts and ends.\<close>

lemma merge_error:
  "list_all (\<lambda>s. snd s = None) steps \<Longrightarrow>
   \<exists>pre post. machineOut mergeStep mergeFin st (steps @ (x, Some err) # rest) = pre @ (x, Some err) # post \<and>
     list_all (\<lambda>s. snd s = None) pre \<and>
     filter (\<lambda>s. \<not> isTextDone s) pre = filter (\<lambda>s. \<not> isTextDone s) steps"
proof (induction steps arbitrary: st)
  case Nil
  have "machineOut mergeStep mergeFin st ((x, Some err) # rest) =
      [] @ (x, Some err) # machineOut mergeStep mergeFin st rest"
    by (simp add: mergeStep_def)
  then show ?case by fastforce
next
  case (Cons a steps)
  obtain b where a: "a = (b, None)" using Cons.prems by (cases a) simp
  obtain st1 os where m: "mergeStep st a = (st1, os)" by (cases "mergeStep st a")
  have "list_all (\<lambda>s. snd s = None) (snd (mergeStep st a))"
    "filter (\<lambda>s. \<not> isTextDone s) (snd (mergeStep st a)) = (if isTextDone a then [] else [a])"
    by (auto simp: a mergeStep_def isTextDone_pair textBlock_def blockStep_def split: option.split block.split)
  then have os: "list_all (\<lambda>s. snd s = None) os"
    "filter (\<lambda>s. \<not> isTextDone s) os = (if isTextDone a then [] else [a])" by (simp_all add: m)
  obtain pre post where "machineOut mergeStep mergeFin st1 (steps @ (x, Some err) # rest) = pre @ (x, Some err) # post"
    "list_all (\<lambda>s. snd s = None) pre"
    "filter (\<lambda>s. \<not> isTextDone s) pre = filter (\<lambda>s. \<not> isTextDone s) steps"
    using Cons.IH [of st1] Cons.prems by auto
  then show ?case using os by (intro exI [of _ "os @ pre"] exI [of _ post]) (simp add: m)
qed

lemma queryBody_error: "queryBody (x, Some err) ((answer, files, failure), s) = (False, ((answer, files, Some err), s))"
  by (simp add: queryBody_def split: option.split block.split)

lemma feed_error:
  assumes "list_all (\<lambda>s. snd s = None) pre"
  shows "feed (pre @ (x, Some err) # post) queryBody (([], [], None), s) =
    (False, ((doneText pre, filesOf pre, Some err), s))"
  using plain_feed [OF assms, of "[]" "[]" s] by (simp add: feed_append queryBody_error)

lemma filter_plain: "list_all P xs \<Longrightarrow> list_all P (filter Q xs)"
  by (simp add: list_all_iff)

lemma finalEnd_ends: "list_all isEndStep (finalEnd xs)"
  by (simp add: finalEnd_def Let_def)

lemma ends_nothing:
  "list_all isEndStep xs \<Longrightarrow> filesOf xs = [] \<and> doneText xs = [] \<and> list_all (\<lambda>s. snd s = None) xs"
proof (induction xs)
  case (Cons x xs)
  then have "fileOf x = []" "doneOf x = []" "snd x = None"
    by (cases x rule: fileOf.cases; auto simp: isEndStep_def IsBlock_def)
       (cases x rule: doneOf.cases; use Cons in \<open>auto simp: isEndStep_def IsBlock_def\<close>)+
  then show ?case using Cons by (simp add: filesOf_def doneText_def)
qed (simp add: filesOf_def doneText_def)

lemma doneText_ends: "doneText (filter (\<lambda>s. \<not> isEndStep s) xs) = doneText xs"
proof (induction xs)
  case (Cons x xs)
  then show ?case using ends_nothing [of "[x]"] by (auto simp: doneText_def)
qed (simp add: doneText_def)

section \<open>Properties\<close>

text \<open>A query of a turn without an error answers with exactly the finished texts of the turn's
  blocks, in order, and with every file it produced.\<close>

theorem query_answer:
  assumes "denotes events (map ok es)"
  shows "\<exists>s'. Query lib events s =
    (\<lparr>qr_Text = doneText (blocksOut lib 0 (map ok es)), qr_Files = filesOf (blocksOut lib 0 (map ok es))\<rparr>,
     None, s')"
proof -
  let ?xs = "blocksOut lib 0 (map ok es)"
  let ?in = "filter (\<lambda>s. \<not> isEndStep s) ?xs @ finalEnd ?xs"
  let ?ys = "machineOut mergeStep mergeFin ([], zeroContext) ?in"
  note noEnd = ends_nothing [OF finalEnd_ends, of ?xs]
  have plain: "list_all (\<lambda>s. snd s = None) ?in"
    unfolding list_all_append using filter_plain [OF blocksOut_plain] noEnd by blast
  have "sections ?ys = map joined (sections ?in)"
    using merge_sections [of "[]" zeroContext ?in] by (cases "sections ?in") simp_all
  then have "doneText ?ys = doneText ?in" by (rule doneText_joined)
  also have "\<dots> = doneText ?xs"
    using doneText_ends [of ?xs] noEnd by (simp add: doneText_def)
  finally have t: "doneText ?ys = doneText ?xs" .
  have "filesOf ?ys = filesOf ?in"
    using filesOf_rest(1) [of ?ys] filesOf_rest(1) [of ?in] by (simp add: merge_rest)
  also have "\<dots> = filesOf ?xs" using filesOf_rest(2) [of ?xs] noEnd by (simp add: filesOf_def)
  finally have f: "filesOf ?ys = filesOf ?xs" .
  show ?thesis
    by (simp add: Query_def forRange_denotes [OF queryBlocks_denotes [OF assms]]
        plain_feed [OF merge_plain [OF plain]] t f)
qed

theorem query_answer_witness:
  "\<forall>lib. \<exists>s'. Query lib (seqOf [ok (Ev [] (OutputTextDeltaEvent ''hi''))]) () =
     (\<lparr>qr_Text = ''hi'', qr_Files = []\<rparr>, None, s')"
proof
  fix lib
  have "denotes (seqOf [ok (Ev [] (OutputTextDeltaEvent ''hi''))]) (map ok [Ev [] (OutputTextDeltaEvent ''hi'')])"
    by simp
  from query_answer [OF this, of lib "()"]
  show "\<exists>s'. Query lib (seqOf [ok (Ev [] (OutputTextDeltaEvent ''hi''))]) () =
      (\<lparr>qr_Text = ''hi'', qr_Files = []\<rparr>, None, s')"
    unfolding sample_blocks by (simp add: doneText_def filesOf_def blockStep_def)
qed

text \<open>A query whose turn fails returns the error with the files gathered before it and with no
  text, whatever text the turn had produced.\<close>

theorem query_error_drops_text:
  assumes "denotes events (map ok es @ (ev, Some err) # rest)"
  shows "\<exists>s'. Query lib events s =
    (\<lparr>qr_Text = [], qr_Files = filesOf (blocksOut lib 0 (map ok es))\<rparr>, Some err, s')"
proof -
  let ?xs = "blocksOut lib 0 (map ok es)"
  let ?in = "filter (\<lambda>s. \<not> isEndStep s) ?xs"
  have x: "blocksOut lib 0 (map ok es @ (ev, Some err) # rest) = ?xs @ [(None, Some err)]"
    by (rule blocksOut_err)
  obtain pre post where m: "machineOut mergeStep mergeFin ([], zeroContext)
      (?in @ (None, Some err) # finalEnd (?xs @ [(None, Some err)])) = pre @ (None, Some err) # post"
    and pre: "list_all (\<lambda>s. snd s = None) pre"
      "filter (\<lambda>s. \<not> isTextDone s) pre = filter (\<lambda>s. \<not> isTextDone s) ?in"
    using merge_error [OF filter_plain [OF blocksOut_plain]] by blast
  have f: "filesOf pre = filesOf ?xs"
    using filesOf_rest(1) [of pre] filesOf_rest(1) [of ?in] filesOf_rest(2) [of ?xs] pre(2) by simp
  have y: "denotes (queryBlocks lib events) (pre @ (None, Some err) # post)"
    using queryBlocks_denotes [OF assms, of lib] m by (simp add: x isEndStep_def)
  show ?thesis
    by (simp add: Query_def forRange_denotes [OF y] feed_error [OF pre(1)] f)
qed

theorem query_error_drops_text_witness:
  "\<forall>lib. \<exists>s'. Query lib (seqOf [ok (Ev [] (OutputTextDeltaEvent ''hi'')), (None, Some (Sentinel ErrNotFound))]) () =
     (\<lparr>qr_Text = [], qr_Files = []\<rparr>, Some (Sentinel ErrNotFound), s')"
proof
  fix lib
  have "denotes (seqOf [ok (Ev [] (OutputTextDeltaEvent ''hi'')), (None, Some (Sentinel ErrNotFound))])
      (map ok [Ev [] (OutputTextDeltaEvent ''hi'')] @ (None, Some (Sentinel ErrNotFound)) # [])"
    by simp
  from query_error_drops_text [OF this, of lib "()"]
  show "\<exists>s'. Query lib (seqOf [ok (Ev [] (OutputTextDeltaEvent ''hi'')), (None, Some (Sentinel ErrNotFound))]) () =
      (\<lparr>qr_Text = [], qr_Files = []\<rparr>, Some (Sentinel ErrNotFound), s')"
    unfolding sample_blocks by (simp add: filesOf_def blockStep_def)
qed

end
