(* ===== verification/Listing.thy ===== *)
theory Listing
  imports Sessions GoBase
begin

text \<open>
  list.go and the listings of session.go: walking a cursor-paged listing.

  \<open>pageSeq\<close> is a sequence whose loop makes requests between its steps, so a fetch takes and
  returns the state its consumer's yield does: the caller's state, with what the server and
  the network are in. The zero value beside an error is None. The loop is a function whose
  termination is the page cap.

  The lemmas run a walk with a log (\<open>logFetch\<close>, \<open>logYield\<close>) of the requests, the replies and
  the steps, and state what every walk does against any server.
\<close>

section \<open>Pages and queries\<close>

record 'a page =
  pg_Data :: "'a list"
  pg_FirstID :: string
  pg_LastID :: string
  pg_HasMore :: bool

record listAgentsOptions =
  la_Limit :: int
  la_After :: string
  la_Before :: string
  la_Order :: string

record listSessionsOptions =
  ls_Limit :: int
  ls_After :: string
  ls_Before :: string
  ls_AgentID :: string
  ls_AgentName :: string
  ls_Order :: string
  ls_SortBy :: string
  ls_SearchQuery :: string
  ls_IncludeArchived :: bool
  ls_Kind :: string
  ls_Project :: string
  ls_Pinned :: bool

record sessionItemsOptions =
  si_Limit :: int
  si_After :: string
  si_Before :: string
  si_Order :: string

text \<open>query.Set for each entry that is set; a map's entries in any order, as their names differ.\<close>

definition setNonEmpty :: "(string \<times> string) list \<Rightarrow> urlQuery \<Rightarrow> urlQuery" where
  "setNonEmpty entries query =
     fold (\<lambda>(name, v) q. if v \<noteq> [] then gput name v q else q) entries query"

definition setTrue :: "(string \<times> bool) list \<Rightarrow> urlQuery \<Rightarrow> urlQuery" where
  "setTrue entries query = fold (\<lambda>(name, v) q. if v then gput name ''true'' q else q) entries query"

definition setPageQuery :: "urlQuery \<Rightarrow> int \<Rightarrow> string \<Rightarrow> string \<Rightarrow> string \<Rightarrow> urlQuery" where
  "setPageQuery query limit after before order =
    (let query = (if limit \<noteq> 0 then gput ''limit'' (Itoa limit) query else query)
     in setNonEmpty [(''after'', after), (''before'', before), (''order'', order)] query)"

definition ListAgentsOptions_query :: "listAgentsOptions \<Rightarrow> urlQuery" where
  "ListAgentsOptions_query opts =
     setPageQuery [] (la_Limit opts) (la_After opts) (la_Before opts) (la_Order opts)"

definition ListSessionsOptions_query :: "listSessionsOptions \<Rightarrow> urlQuery" where
  "ListSessionsOptions_query opts =
    (let query = setPageQuery [] (ls_Limit opts) (ls_After opts) (ls_Before opts) (ls_Order opts);
         query = setNonEmpty [(''agent_id'', ls_AgentID opts), (''agent_name'', ls_AgentName opts),
           (''sort_by'', ls_SortBy opts), (''search_query'', ls_SearchQuery opts),
           (''kind'', ls_Kind opts), (''project'', ls_Project opts)] query
     in setTrue [(''include_archived'', ls_IncludeArchived opts), (''pinned'', ls_Pinned opts)] query)"

definition SessionItemsOptions_query :: "sessionItemsOptions \<Rightarrow> urlQuery" where
  "SessionItemsOptions_query opts =
     setPageQuery [] (si_Limit opts) (si_After opts) (si_Before opts) (si_Order opts)"

text \<open>The fields common to every item of ListItems.\<close>

definition SessionItem_ID :: "jmap \<Rightarrow> string" where
  "SessionItem_ID i = itemString i ''id''"

definition SessionItem_ResponseID :: "jmap \<Rightarrow> string" where
  "SessionItem_ResponseID i = itemString i ''response_id''"

definition SessionItem_Type :: "jmap \<Rightarrow> string" where
  "SessionItem_Type i = itemString i ''type''"

definition SessionItem_Status :: "jmap \<Rightarrow> string" where
  "SessionItem_Status i = itemString i ''status''"

definition SessionItem_CreatedBy :: "jmap \<Rightarrow> string" where
  "SessionItem_CreatedBy i = itemString i ''created_by''"

text \<open>A conversion of a float64 to int64 truncates toward zero (in range).\<close>

definition SessionItem_CreatedAt :: "jmap \<Rightarrow> int" where
  "SessionItem_CreatedAt i = (case map_of i ''created_at'' of
      Some (JNum seconds) \<Rightarrow> if seconds < 0 then - \<lfloor>- seconds\<rfloor> else \<lfloor>seconds\<rfloor>
    | _ \<Rightarrow> 0)"

section \<open>The walk\<close>

type_synonym 'a walkStep = "'a option \<times> goerr option"
type_synonym ('a, 's) fetcher = "string \<Rightarrow> 's \<Rightarrow> (goerr + 'a page) \<times> 's"

definition maxListingPages :: nat where
  "maxListingPages = 10000"

definition offer :: "('a walkStep, 's) yield \<Rightarrow> ('a, 's) yield" where
  "offer y x s = y (Some x, None) s"

definition walkErr :: "('a walkStep, 's) yield \<Rightarrow> goerr \<Rightarrow> 's \<Rightarrow> 's" where
  "walkErr y err s = snd (y (None, Some err) s)"

definition unbounded :: "errpart list \<Rightarrow> goerr" where
  "unbounded detail = Errorf (Wrapped (Sentinel ErrListingUnbounded) # detail)"

function pageLoop ::
  "('a, 's) fetcher \<Rightarrow> ('a walkStep, 's) yield \<Rightarrow> nat \<Rightarrow> string \<Rightarrow> bool gomap \<Rightarrow> 's \<Rightarrow> 's" where
  "pageLoop fetch y pages cursor seen s =
    (if maxListingPages \<le> pages then
       walkErr y (unbounded [Txt '': stopped after '', Num (int maxListingPages), Txt '' pages'']) s
     else case fetch cursor s of
         (Inl err, s) \<Rightarrow> walkErr y err s
       | (Inr page, s) \<Rightarrow>
           let (go, s) = feed (pg_Data page) (offer y) s in
           if \<not> go then s
           else if \<not> pg_HasMore page then s
           else if pg_Data page = [] then
             walkErr y (unbounded [Txt '': page '', Num (int pages + 1),
               Txt '' claimed more while returning nothing'']) s
           else if pg_LastID page = [] then
             walkErr y (unbounded [Txt '': page '', Num (int pages + 1),
               Txt '' claimed more with no cursor to follow'']) s
           else if pg_LastID page \<in> gkeys seen then
             walkErr y (unbounded [Txt '': cursor '', Quoted (pg_LastID page),
               Txt '' repeated after '', Num (int pages + 1), Txt '' pages'']) s
           else pageLoop fetch y (pages + 1) (pg_LastID page) (gput (pg_LastID page) True seen) s)"
  by pat_completeness auto
termination by (relation "measure (\<lambda>(_, _, pages, _). maxListingPages - pages)") auto

declare pageLoop.simps [simp del]

definition pageSeq :: "('a, 's) fetcher \<Rightarrow> ('a walkStep, 's) seq" where
  "pageSeq fetch y s = pageLoop fetch y 0 [] [] s"

text \<open>gateFetch: a slot is taken for one fetch and given back before the next. Waiting for a
  slot ends with one, or with the end of the context (\<open>acquire\<close>).\<close>

definition gateFetch ::
  "('s \<Rightarrow> goerr option \<times> 's) \<Rightarrow> ('s \<Rightarrow> 's) \<Rightarrow> ('a, 's) fetcher \<Rightarrow> ('a, 's) fetcher" where
  "gateFetch acquire release fetch cursor s =
    (case acquire s of
       (Some err, s) \<Rightarrow> (Inl err, s)
     | (None, s) \<Rightarrow> let (reply, s) = fetch cursor s in (reply, release s))"

section \<open>The listings of session.go\<close>

definition errSeq :: "goerr \<Rightarrow> ('a walkStep, 's) seq" where
  "errSeq err y s = walkErr y err s"

text \<open>The fetch of every listing: its query, with the cursor of the walk over the After of the
  options.\<close>

definition pageFetch ::
  "('a page, 's) exchange \<Rightarrow> string list \<Rightarrow> urlQuery \<Rightarrow> ('a, 's) fetcher" where
  "pageFetch doJSON segments query cursor s =
    doJSON \<lparr>rq_Method = GET, rq_Segments = segments,
      rq_Query = (if cursor \<noteq> [] then gput ''after'' cursor query else query),
      rq_Body = NoBody\<rparr> s"

definition ListSessions ::
  "('a page, 's) exchange \<Rightarrow> listSessionsOptions \<Rightarrow> ('a walkStep, 's) seq" where
  "ListSessions doJSON opts =
     pageSeq (pageFetch doJSON [''v1'', ''sessions''] (ListSessionsOptions_query opts))"

definition ListItems ::
  "(jmap page, 's) exchange \<Rightarrow> string \<Rightarrow> sessionItemsOptions \<Rightarrow> (jmap walkStep, 's) seq" where
  "ListItems doJSON sessionID opts =
    (if sessionID = [] then errSeq (invalid ''list session items'' ''sessionID is required'')
     else pageSeq (pageFetch doJSON [''v1'', ''sessions'', sessionID, ''items'']
       (SessionItemsOptions_query opts)))"

definition childPages :: "('a page, 's) exchange \<Rightarrow> string \<Rightarrow> ('a, 's) fetcher" where
  "childPages doJSON sessionID =
     pageFetch doJSON [''v1'', ''sessions'', sessionID, ''child_sessions''] []"

definition Children :: "('a page, 's) exchange \<Rightarrow> string \<Rightarrow> ('a walkStep, 's) seq" where
  "Children doJSON sessionID =
    (if sessionID = [] then errSeq (invalid ''list child sessions'' ''sessionID is required'')
     else pageSeq (childPages doJSON sessionID))"

definition ListAgents ::
  "('a page, 's) exchange \<Rightarrow> listAgentsOptions \<Rightarrow> ('a walkStep, 's) seq" where
  "ListAgents doJSON opts =
     pageSeq (pageFetch doJSON [''v1'', ''agents''] (ListAgentsOptions_query opts))"

section \<open>Resolving an agent by name\<close>

record agentObject =
  ag_ID :: string
  ag_Name :: string

record agentSearch =
  as_seen :: "string list"
  as_seenRunes :: nat
  as_truncated :: bool
  as_result :: "(goerr + agentObject) option"

definition maxNamesInError :: nat where
  "maxNamesInError = 20"

definition maxNamesRunes :: nat where
  "maxNamesRunes = 400"

text \<open>The body of the loop; a result ends it. An error step has no agent.\<close>

definition resolveBody ::
  "string \<Rightarrow> agentObject walkStep \<Rightarrow> agentSearch \<times> 'w \<Rightarrow> bool \<times> (agentSearch \<times> 'w)" where
  "resolveBody agentName step st = (case st of (search, w) \<Rightarrow>
    (case step of
       (_, Some err) \<Rightarrow>
         (False, (search\<lparr>as_result := Some (Inl (Errorf [Txt ''resolve agent '',
            Quoted (sanitizeForError agentName maxAgentNameRunes), Txt '': '', Wrapped err]))\<rparr>, w))
     | (None, None) \<Rightarrow> (True, (search, w))
     | (Some agent, None) \<Rightarrow>
         if ag_Name agent = agentName then (False, (search\<lparr>as_result := Some (Inr agent)\<rparr>, w))
         else
           let name = sanitizeForError (ag_Name agent) maxAgentNameRunes in
           if length (as_seen search) < maxNamesInError \<and>
              as_seenRunes search + length name \<le> maxNamesRunes
           then (True, (search\<lparr>as_seen := as_seen search @ [name],
                              as_seenRunes := as_seenRunes search + length name\<rparr>, w))
           else (True, (search\<lparr>as_truncated := True\<rparr>, w))))"

definition listedNames :: "agentSearch \<Rightarrow> string" where
  "listedNames search =
    (let listed = Join (as_seen search) '', '';
         listed = (if as_truncated search then listed @ '', ...'' else listed)
     in if listed = [] then ''none'' else listed)"

text \<open>The client's request as one in the state of the loop around it.\<close>

definition inLoop :: "('r, 'w) exchange \<Rightarrow> ('r, bool \<times> 'l \<times> 'w) exchange" where
  "inLoop doJSON rq s = (case s of (left, (locals, w)) \<Rightarrow>
     let (reply, w) = doJSON rq w in (reply, (left, (locals, w))))"

definition ResolveAgent ::
  "(agentObject page, 'w) exchange \<Rightarrow> string \<Rightarrow> 'w \<Rightarrow> (goerr + agentObject) \<times> 'w" where
  "ResolveAgent doJSON agentName w =
    (if agentName = [] then (Inl (invalid ''resolve agent'' ''agentName is required''), w)
     else
       let (_, (search, w)) = forRange
             (ListAgents (inLoop doJSON) \<lparr>la_Limit = 1000, la_After = [], la_Before = [], la_Order = []\<rparr>)
             (resolveBody agentName)
             (\<lparr>as_seen = [], as_seenRunes = 0, as_truncated = False, as_result = None\<rparr>, w)
       in (case as_result search of
             Some result \<Rightarrow> (result, w)
           | None \<Rightarrow> (Inl (Errorf [Txt ''resolve agent '',
                 Quoted (sanitizeForError agentName maxAgentNameRunes), Txt '': '',
                 Wrapped (Sentinel ErrNotFound), Txt '': registered agents are '',
                 Txt (listedNames search)]), w)))"

section \<open>A walk with a log\<close>

datatype 'a walkObs = Asked string "goerr + 'a page" | Offered "'a walkStep" bool

definition logFetch :: "('a, 's) fetcher \<Rightarrow> ('a, 's \<times> 'a walkObs list) fetcher" where
  "logFetch fetch cursor sl = (case sl of (s, lg) \<Rightarrow>
     let (reply, s') = fetch cursor s in (reply, (s', lg @ [Asked cursor reply])))"

definition logYield :: "('a walkStep, 's) yield \<Rightarrow> ('a walkStep, 's \<times> 'a walkObs list) yield" where
  "logYield y x sl = (case sl of (s, lg) \<Rightarrow>
     let (go, s') = y x s in (go, (s', lg @ [Offered x go])))"

definition walkLog :: "('a, 's) fetcher \<Rightarrow> ('a walkStep, 's) yield \<Rightarrow> 's \<Rightarrow> 'a walkObs list" where
  "walkLog fetch y s = snd (pageSeq (logFetch fetch) (logYield y) (s, []))"

text \<open>The cursors asked for, the items received and offered, and whether the walk goes on after
  an observation.\<close>

fun askedOf :: "'a walkObs \<Rightarrow> string list" where
  "askedOf (Asked c _) = [c]"
| "askedOf _ = []"

fun gotOf :: "'a walkObs \<Rightarrow> 'a list" where
  "gotOf (Asked _ (Inr p)) = pg_Data p"
| "gotOf _ = []"

fun itemOf :: "'a walkObs \<Rightarrow> 'a list" where
  "itemOf (Offered (Some x, None) _) = [x]"
| "itemOf _ = []"

fun goesOn :: "'a walkObs \<Rightarrow> bool" where
  "goesOn (Asked _ _) = True"
| "goesOn (Offered (_, err) go) = (err = None \<and> go)"

definition asked :: "'a walkObs list \<Rightarrow> string list" where
  "asked lg = concat (map askedOf lg)"

definition got :: "'a walkObs list \<Rightarrow> 'a list" where
  "got lg = concat (map gotOf lg)"

definition items :: "'a walkObs list \<Rightarrow> 'a list" where
  "items lg = concat (map itemOf lg)"

definition saidDone :: "'a walkObs list \<Rightarrow> bool" where
  "saidDone lg = list_ex (\<lambda>ob. case ob of Asked _ (Inr p) \<Rightarrow> \<not> pg_HasMore p | _ \<Rightarrow> False) lg"

lemma walkObs_append [simp]:
  "asked (xs @ ys) = asked xs @ asked ys" "got (xs @ ys) = got xs @ got ys"
  "items (xs @ ys) = items xs @ items ys"
  "asked (ob # ys) = askedOf ob @ asked ys" "got (ob # ys) = gotOf ob @ got ys"
  "items (ob # ys) = itemOf ob @ items ys"
  "asked [] = []" "got [] = []" "items [] = []"
  by (simp_all add: asked_def got_def items_def)

lemma saidDone_append [simp]: "saidDone (xs @ ys) \<longleftrightarrow> saidDone xs \<or> saidDone ys"
  "saidDone (Offered x go # ys) \<longleftrightarrow> saidDone ys"
  "saidDone (Asked c (Inr p) # ys) \<longleftrightarrow> \<not> pg_HasMore p \<or> saidDone ys"
  "saidDone (Asked c (Inl e) # ys) \<longleftrightarrow> saidDone ys" "saidDone [] \<longleftrightarrow> False"
  by (simp_all add: saidDone_def)

definition offered :: "'a list \<Rightarrow> 'a walkObs list" where
  "offered xs = map (\<lambda>x. Offered (Some x, None) True) xs"

lemma offered_simps [simp]:
  "asked (offered xs) = []" "got (offered xs) = []" "items (offered xs) = xs"
  "list_all goesOn (offered xs)" "\<not> saidDone (offered xs)"
  by (induction xs) (simp_all add: offered_def asked_def got_def items_def saidDone_def)

lemma offer_step:
  "offer (logYield y) x (s, lg) =
     (let (go, s') = y (Some x, None) s in (go, (s', lg @ [Offered (Some x, None) go])))"
  by (simp add: offer_def logYield_def)

lemma offer_log:
  "feed xs (offer (logYield y)) (s, lg) = (go, (s', lg')) \<Longrightarrow>
   if go then lg' = lg @ offered xs
   else \<exists>pre x. lg' = lg @ offered pre @ [Offered (Some x, None) False]"
proof (induction xs arbitrary: s lg)
  case (Cons x xs)
  obtain g s1 where y: "y (Some x, None) s = (g, s1)" by (cases "y (Some x, None) s")
  show ?case
  proof (cases g)
    case True
    then have "feed xs (offer (logYield y)) (s1, lg @ [Offered (Some x, None) True]) = (go, (s', lg'))"
      using Cons.prems y by (simp add: offer_step)
    from Cons.IH [OF this] show ?thesis
      by (cases go) (auto simp: offered_def intro: exI [of _ "x # _"])
  next
    case False
    then have "\<not> go \<and> lg' = lg @ offered [] @ [Offered (Some x, None) False]"
      using Cons.prems y by (simp add: offer_step offered_def)
    then show ?thesis by auto
  qed
qed (simp add: offered_def)

text \<open>The walk over its log alone: every reply of the server and every answer of the consumer.\<close>

inductive walks :: "nat \<Rightarrow> string \<Rightarrow> bool gomap \<Rightarrow> 'a walkObs list \<Rightarrow> 'a walkObs list \<Rightarrow> bool" where
  capped: "maxListingPages \<le> pages \<Longrightarrow> walks pages c seen lg (lg @ [Offered (None, Some err) go])"
| failed: "pages < maxListingPages \<Longrightarrow>
    walks pages c seen lg (lg @ [Asked c (Inl err), Offered (None, Some err) go])"
| stopped: "pages < maxListingPages \<Longrightarrow>
    walks pages c seen lg (lg @ Asked c (Inr page) # offered pre @ [Offered (Some x, None) False])"
| finished: "pages < maxListingPages \<Longrightarrow> \<not> pg_HasMore page \<Longrightarrow>
    walks pages c seen lg (lg @ Asked c (Inr page) # offered (pg_Data page))"
| refused: "pages < maxListingPages \<Longrightarrow>
    walks pages c seen lg (lg @ Asked c (Inr page) # offered (pg_Data page) @ [Offered (None, Some err) go])"
| onward: "pages < maxListingPages \<Longrightarrow> pg_LastID page \<noteq> [] \<Longrightarrow> pg_LastID page \<notin> gkeys seen \<Longrightarrow>
    walks (pages + 1) (pg_LastID page) (gput (pg_LastID page) True seen)
      (lg @ Asked c (Inr page) # offered (pg_Data page)) lg' \<Longrightarrow>
    walks pages c seen lg lg'"

lemma walkErr_log: "\<exists>go. snd (walkErr (logYield y) err (s, lg)) = lg @ [Offered (None, Some err) go]"
  by (simp add: walkErr_def logYield_def split: prod.split)

lemma pageLoop_walks:
  "walks pages c seen lg (snd (pageLoop (logFetch fetch) (logYield y) pages c seen (s, lg)))"
proof (induction "maxListingPages - pages" arbitrary: pages c seen s lg rule: less_induct)
  case less
  let ?run = "pageLoop (logFetch fetch) (logYield y) pages c seen (s, lg)"
  have error: "\<exists>go. snd (walkErr (logYield y) err (s', l)) = l @ [Offered (None, Some err) go]" for err s' l
    by (rule walkErr_log)
  show ?case
  proof (cases "pages < maxListingPages")
    case False
    then show ?thesis
      using error [of _ s lg] capped [of pages c seen lg] by (subst pageLoop.simps) (auto, metis)
  next
    case True
    obtain reply s1 where f: "fetch c s = (reply, s1)" by (cases "fetch c s")
    show ?thesis
    proof (cases reply)
      case (Inl err)
      then show ?thesis
        using True f error [of err s1 "lg @ [Asked c (Inl err)]"] failed [OF True, of c seen lg err]
        by (subst pageLoop.simps) (auto simp: logFetch_def)
    next
      case (Inr page)
      let ?l = "lg @ [Asked c (Inr page)]"
      obtain go s2 l2 where o: "feed (pg_Data page) (offer (logYield y)) (s1, ?l) = (go, (s2, l2))"
        by (metis prod.exhaust)
      note l2 = offer_log [OF o]
      show ?thesis
      proof (cases go)
        case False
        then obtain pre x where "l2 = ?l @ offered pre @ [Offered (Some x, None) False]" using l2 by auto
        then show ?thesis
          using True f Inr o False stopped [OF True, of c seen lg page pre x]
          by (subst pageLoop.simps) (simp add: logFetch_def)
      next
        case go: True
        then have l2: "l2 = lg @ Asked c (Inr page) # offered (pg_Data page)" using l2 by simp
        show ?thesis
        proof (cases "pg_HasMore page")
          case False
          then show ?thesis
            using True f Inr o go l2 finished [OF True False, of c seen lg]
            by (subst pageLoop.simps) (simp add: logFetch_def)
        next
          case more: True
          show ?thesis
          proof (cases "pg_Data page = [] \<or> pg_LastID page = [] \<or> pg_LastID page \<in> gkeys seen")
            case stuck: True
            have "\<exists>err. ?run = walkErr (logYield y) err (s2, l2)"
              using True f Inr o go more stuck
              by (subst pageLoop.simps) (auto simp: logFetch_def)
            then obtain err where "?run = walkErr (logYield y) err (s2, l2)" by blast
            then show ?thesis
              using error [of err s2 l2] refused [OF True, of c seen lg page err] l2 by auto
          next
            case False
            then have "?run = pageLoop (logFetch fetch) (logYield y) (pages + 1) (pg_LastID page)
                (gput (pg_LastID page) True seen) (s2, l2)"
              using True f Inr o go more by (subst pageLoop.simps) (simp add: logFetch_def)
            moreover have "walks (pages + 1) (pg_LastID page) (gput (pg_LastID page) True seen) l2
                (snd (pageLoop (logFetch fetch) (logYield y) (pages + 1) (pg_LastID page)
                  (gput (pg_LastID page) True seen) (s2, l2)))"
              by (rule less.hyps) (use True in simp)
            ultimately show ?thesis
              using onward [OF True, of page seen lg c] False l2 by simp
          qed
        qed
      qed
    qed
  qed
qed

lemma walkLog_walks: "walks 0 [] [] [] (walkLog fetch y s)"
  unfolding walkLog_def pageSeq_def by (rule pageLoop_walks)

lemma walks_asked:
  "walks pages c seen lg lg' \<Longrightarrow> distinct (asked lg @ [c]) \<Longrightarrow>
   set (asked lg @ [c]) = insert [] (gkeys seen) \<Longrightarrow> length (asked lg) = pages \<Longrightarrow>
   pages \<le> maxListingPages \<Longrightarrow>
   distinct (asked lg') \<and> length (asked lg') \<le> maxListingPages \<and> (\<exists>cs. asked lg' = asked lg @ cs)"
proof (induction rule: walks.induct)
  case (onward pages page seen lg c lg')
  have "distinct (asked lg') \<and> length (asked lg') \<le> maxListingPages \<and>
      (\<exists>cs. asked lg' = asked (lg @ Asked c (Inr page) # offered (pg_Data page)) @ cs)"
  proof (rule onward.IH)
    have "pg_LastID page \<notin> set (asked lg @ [c])" using onward by auto
    then show "distinct (asked (lg @ Asked c (Inr page) # offered (pg_Data page)) @ [pg_LastID page])"
      using onward.prems(1) by auto
    show "set (asked (lg @ Asked c (Inr page) # offered (pg_Data page)) @ [pg_LastID page]) =
        insert [] (gkeys (gput (pg_LastID page) True seen))"
      using onward.prems(2) insert_commute [of "pg_LastID page" "[]" "gkeys seen"]
      by (simp add: insert_commute [of c "pg_LastID page"])
  qed (use onward in \<open>simp_all\<close>)
  then show ?case by auto
qed auto

lemma walks_log:
  "walks pages c seen lg lg' \<Longrightarrow> list_all goesOn lg \<Longrightarrow> items lg = got lg \<Longrightarrow>
   list_all goesOn (butlast lg') \<and>
   (list_all goesOn lg' \<longrightarrow> items lg' = got lg' \<and> saidDone lg')"
proof (induction rule: walks.induct)
  case (finished pages page c seen lg)
  have "\<forall>ob \<in> set (offered (pg_Data page)). goesOn ob" using offered_simps(4) by (simp only: list_all_iff)
  with finished show ?case by (auto simp: list_all_iff butlast_append dest: in_set_butlastD)
qed (simp_all add: butlast_append)

section \<open>A listing that answers as documented\<close>

text \<open>A server that answers a cursor with a page, and the pages a walk from a cursor reads: each
  but the last says there is more and carries items and a cursor.\<close>

fun pagesFrom :: "(string \<Rightarrow> 'a page) \<Rightarrow> string \<Rightarrow> 'a page list \<Rightarrow> bool" where
  "pagesFrom server c [] = False"
| "pagesFrom server c [p] = (server c = p \<and> \<not> pg_HasMore p)"
| "pagesFrom server c (p # q # ps) = (server c = p \<and> pg_HasMore p \<and> 0 < length (pg_Data p) \<and>
     0 < length (pg_LastID p) \<and> pagesFrom server (pg_LastID p) (q # ps))"

definition serve :: "(string \<Rightarrow> 'a page) \<Rightarrow> ('a, 's) fetcher" where
  "serve server c s = (Inr (server c), s)"

definition steps :: "'a list \<Rightarrow> 'a walkStep list" where
  "steps xs = map (\<lambda>x. (Some x, None)) xs"

lemma feed_offer: "feed xs (offer y) s = feed (steps xs) y s"
  by (induction xs arbitrary: s) (simp_all add: steps_def offer_def split: prod.split)

lemma steps_append [simp]: "steps (xs @ ys) = steps xs @ steps ys" "steps [] = []"
  by (simp_all add: steps_def)

lemma pageLoop_serves:
  "pagesFrom server c ps \<Longrightarrow> distinct (map pg_LastID (butlast ps)) \<Longrightarrow>
   set (map pg_LastID (butlast ps)) \<inter> gkeys seen = {} \<Longrightarrow> pages + length ps \<le> maxListingPages \<Longrightarrow>
   pageLoop (serve server) y pages c seen s = snd (feed (steps (concat (map pg_Data ps))) y s)"
proof (induction server c ps arbitrary: pages seen s rule: pagesFrom.induct)
  case (2 server c p)
  then show ?case
    by (subst pageLoop.simps) (simp add: serve_def feed_offer split: prod.split)
next
  case (3 server c p q ps)
  have IH: "pageLoop (serve server) y (pages + 1) (pg_LastID p) (gput (pg_LastID p) True seen) s' =
      snd (feed (steps (concat (map pg_Data (q # ps)))) y s')" for s'
    by (rule "3.IH") (use "3.prems" in \<open>auto split: if_splits\<close>)
  show ?case
    using "3.prems" IH
    by (subst pageLoop.simps) (auto simp: serve_def feed_offer feed_append split: prod.split)
qed simp

text \<open>ResolveAgent over such a listing.\<close>

lemma feed_resolve:
  "as_result search = None \<Longrightarrow> \<exists>search'.
     feed (steps agents) (resolveBody name) (search, w) =
       (find (\<lambda>a. ag_Name a = name) agents = None, (search', w)) \<and>
     as_result search' = map_option Inr (find (\<lambda>a. ag_Name a = name) agents)"
proof (induction agents arbitrary: search)
  case (Cons a agents)
  show ?case
  proof (cases "ag_Name a = name")
    case True
    then show ?thesis by (simp add: steps_def resolveBody_def)
  next
    case False
    obtain search1 where b: "resolveBody name (Some a, None) (search, w) = (True, (search1, w))"
      "as_result search1 = None"
      using False Cons.prems by (cases "length (as_seen search) < maxNamesInError \<and>
          as_seenRunes search + length (sanitizeForError (ag_Name a) maxAgentNameRunes) \<le> maxNamesRunes")
        (simp_all add: resolveBody_def Let_def)
    show ?thesis using Cons.IH [OF b(2)] False b(1) by (simp add: steps_def)
  qed
qed (simp add: steps_def)

definition agentsRequest :: "string \<Rightarrow> request" where
  "agentsRequest c = \<lparr>rq_Method = GET, rq_Segments = [''v1'', ''agents''],
     rq_Query = (if c \<noteq> [] then gput ''after'' c [(''limit'', ''1000'')] else [(''limit'', ''1000'')]),
     rq_Body = NoBody\<rparr>"

lemma agents_query:
  "ListAgentsOptions_query \<lparr>la_Limit = 1000, la_After = [], la_Before = [], la_Order = []\<rparr> =
   [(''limit'', ''1000'')]"
proof -
  have "Itoa 1000 = ''1000''"
    by (simp add: Itoa_def decNat.simps digitChar_def chr_def char_of_def bit_Suc_0_iff)
  then show ?thesis
    by (simp add: ListAgentsOptions_query_def setPageQuery_def setNonEmpty_def gput_def)
qed

lemma agents_fetch:
  assumes "\<And>rq w. doJSON rq w = (Inr (reply rq), w)"
  shows "pageFetch (inLoop doJSON) [''v1'', ''agents''] [(''limit'', ''1000'')] =
    serve (\<lambda>c. reply (agentsRequest c))"
  by (rule ext)+ (auto simp: pageFetch_def inLoop_def assms serve_def agentsRequest_def Let_def)

lemma resolve_agent_first:
  assumes doJSON: "\<And>rq w. doJSON rq w = (Inr (reply rq), w)"
    and pages: "pagesFrom (\<lambda>c. reply (agentsRequest c)) [] ps" "distinct (map pg_LastID (butlast ps))"
      "length ps \<le> maxListingPages"
    and name: "name \<noteq> []"
  shows "case find (\<lambda>a. ag_Name a = name) (concat (map pg_Data ps)) of
      Some a \<Rightarrow> ResolveAgent doJSON name w = (Inr a, w)
    | None \<Rightarrow> (\<exists>err. ResolveAgent doJSON name w = (Inl err, w) \<and> errIs ErrNotFound err)"
proof -
  let ?opts = "\<lparr>la_Limit = 1000, la_After = [], la_Before = [], la_Order = []\<rparr>"
  have "denotes (ListAgents (inLoop doJSON) ?opts) (steps (concat (map pg_Data ps)))"
    using pages(3) by (simp add: ListAgents_def denotes_def pageSeq_def agents_query agents_fetch [OF doJSON]
        pageLoop_serves [OF pages(1,2), where seen = "[]" and pages = 0])
  note run = forRange_denotes [OF this, of "resolveBody name"]
  obtain search' where "feed (steps (concat (map pg_Data ps))) (resolveBody name)
      (\<lparr>as_seen = [], as_seenRunes = 0, as_truncated = False, as_result = None\<rparr>, w) =
       (find (\<lambda>a. ag_Name a = name) (concat (map pg_Data ps)) = None, (search', w))"
    "as_result search' = map_option Inr (find (\<lambda>a. ag_Name a = name) (concat (map pg_Data ps)))"
    using feed_resolve [of "\<lparr>as_seen = [], as_seenRunes = 0, as_truncated = False, as_result = None\<rparr>"]
    by fastforce
  then show ?thesis
    using name by (simp add: ResolveAgent_def run sentinelIs_def split: option.split)
qed

section \<open>Properties\<close>

text \<open>C38. Against any server, and whatever its consumer does, a walk asks for no cursor twice and
  makes at most maxListingPages requests.\<close>

theorem listing_bounded:
  "distinct (asked (walkLog fetch y s)) \<and> length (asked (walkLog fetch y s)) \<le> maxListingPages"
  using walks_asked [OF walkLog_walks [of fetch y s]] by simp

text \<open>C25. A walk that ends without an error, and was not stopped by its consumer, is the whole
  listing: the server said that there is no more, and every item of every page was handed on,
  in order. An error is the last thing a walk does.\<close>

theorem quiet_listing_whole:
  "list_all goesOn (butlast (walkLog fetch y s)) \<and>
   (if list_all goesOn (walkLog fetch y s)
    then items (walkLog fetch y s) = got (walkLog fetch y s) \<and> saidDone (walkLog fetch y s)
    else True)"
  using walks_log [OF walkLog_walks [of fetch y s]] by simp

text \<open>Against a server that pages as documented, in at most maxListingPages pages, a walk hands
  on exactly the items of the listing.\<close>

theorem listing_served:
  assumes "pagesFrom server [] ps" "distinct (map pg_LastID (butlast ps))" "length ps \<le> maxListingPages"
  shows "denotes (pageSeq (serve server)) (steps (concat (map pg_Data ps)))"
  using assms(3)
  by (simp add: denotes_def pageSeq_def pageLoop_serves [OF assms(1,2), where seen = "[]" and pages = 0])

theorem listing_served_witness:
  "collected (pageSeq (serve (\<lambda>c. if c = []
       then \<lparr>pg_Data = [1::nat, 2], pg_FirstID = ''a'', pg_LastID = ''b'', pg_HasMore = True\<rparr>
       else \<lparr>pg_Data = [3], pg_FirstID = ''c'', pg_LastID = ''c'', pg_HasMore = False\<rparr>))) =
     [(Some 1, None), (Some 2, None), (Some 3, None)]"
proof -
  let ?p = "\<lparr>pg_Data = [1::nat, 2], pg_FirstID = ''a'', pg_LastID = ''b'', pg_HasMore = True\<rparr>"
  let ?q = "\<lparr>pg_Data = [3::nat], pg_FirstID = ''c'', pg_LastID = ''c'', pg_HasMore = False\<rparr>"
  have "collected (pageSeq (serve (\<lambda>c. if c = [] then ?p else ?q))) = steps (concat (map pg_Data [?p, ?q]))"
    by (rule denotes_collected, rule listing_served) (simp_all add: maxListingPages_def)
  then show ?thesis by (simp add: steps_def)
qed

end
