(* ===== verification/Tree.thy ===== *)
theory Tree
  imports Listing
begin

text \<open>
  tree.go: walking a session's subtree with one goroutine per node.

  The tree is a value; a goroutine holds its node as a path from the root (\<open>updAt\<close>). A state
  of the walk is the tree, the goroutines still running, and what they share under the mutex:
  the number of nodes admitted and the first error. \<open>treeStep\<close> is one atomic move of any one
  goroutine: its listing answers, it takes the next child, or it returns. What a listing
  answers is any value allowed by \<open>reply\<close>; \<open>listChildren\<close> is the listing itself.

  The lemmas: the walk ends under every schedule, admits no more nodes than its cap, and a
  complete answer of SubtreeBusy is the truth about every session below the root.
\<close>

section \<open>Sessions and nodes\<close>

record childSummary =
  cs_ID :: string
  cs_Busy :: "bool option"
  cs_CurrentTaskStatus :: "string option"

definition terminalTaskStatuses :: "string list" where
  "terminalTaskStatuses = [''completed'', ''failed'', ''cancelled'']"

definition IsTerminalTaskStatus :: "string \<Rightarrow> bool" where
  "IsTerminalTaskStatus status = List.member terminalTaskStatuses status"

definition ChildSessionBusy :: "childSummary \<Rightarrow> bool" where
  "ChildSessionBusy child = (case cs_Busy child of
      Some busy \<Rightarrow> busy
    | None \<Rightarrow> (case cs_CurrentTaskStatus child of
        None \<Rightarrow> False
      | Some status \<Rightarrow> \<not> IsTerminalTaskStatus status))"

record treeOptions =
  to_MaxDepth :: int
  to_Concurrency :: int
  to_MaxNodes :: int

definition withDefaults :: "treeOptions \<Rightarrow> treeOptions" where
  "withDefaults o0 =
    (let o1 = (if to_MaxDepth o0 \<le> 0 then o0\<lparr>to_MaxDepth := 3\<rparr> else o0);
         o2 = (if to_Concurrency o1 \<le> 0 then o1\<lparr>to_Concurrency := 4\<rparr> else o1)
     in if to_MaxNodes o2 \<le> 0 then o2\<lparr>to_MaxNodes := 1000\<rparr> else o2)"

text \<open>A node without its children; the root has no summary.\<close>

record nodeInfo =
  tn_Session :: "childSummary option"
  tn_ID :: string
  tn_Depth :: nat
  tn_Truncated :: bool
  tn_Repeated :: bool
  tn_Err :: "goerr option"

datatype treeNode = TreeNode (node: nodeInfo) (tn_Children: "treeNode list")

text \<open>Writing to the node a path leads to.\<close>

fun updAt :: "nat list \<Rightarrow> (treeNode \<Rightarrow> treeNode) \<Rightarrow> treeNode \<Rightarrow> treeNode" where
  "updAt [] f t = f t"
| "updAt (i # p) f (TreeNode n ks) = TreeNode n (ks[i := updAt p f (ks ! i)])"

fun nodeAt :: "treeNode \<Rightarrow> nat list \<Rightarrow> treeNode option" where
  "nodeAt t [] = Some t"
| "nodeAt (TreeNode n ks) (i # p) = (if i < length ks then nodeAt (ks ! i) p else None)"

definition setInfo :: "(nodeInfo \<Rightarrow> nodeInfo) \<Rightarrow> treeNode \<Rightarrow> treeNode" where
  "setInfo g t = TreeNode (g (node t)) (tn_Children t)"

definition addChild :: "nodeInfo \<Rightarrow> treeNode \<Rightarrow> treeNode" where
  "addChild n t = TreeNode (node t) (tn_Children t @ [TreeNode n []])"

section \<open>The walk\<close>

datatype walkTask =
    Listing "nat list" "string list"
  | Expanding "nat list" "string list" "childSummary list"

record walkState =
  ws_tree :: treeNode
  ws_tasks :: "walkTask list"
  ws_visited :: int
  ws_firstErr :: "goerr option"

text \<open>listChildren: drains one node's listing through the gate.\<close>

definition drainBody ::
  "childSummary walkStep \<Rightarrow> (childSummary list \<times> goerr option) \<times> 'w \<Rightarrow>
   bool \<times> ((childSummary list \<times> goerr option) \<times> 'w)" where
  "drainBody step st = (case st of ((children, failure), w) \<Rightarrow>
    (case step of
       (_, Some err) \<Rightarrow> (False, ((children, Some err), w))
     | (Some child, None) \<Rightarrow> (True, ((children @ [child], failure), w))
     | (None, None) \<Rightarrow> (True, ((children, failure), w))))"

definition gateInLoop :: "('w \<Rightarrow> 'r \<times> 'w) \<Rightarrow> bool \<times> 'l \<times> 'w \<Rightarrow> 'r \<times> (bool \<times> 'l \<times> 'w)" where
  "gateInLoop act s = (case s of (left, (locals, w)) \<Rightarrow>
     let (r, w) = act w in (r, (left, (locals, w))))"

definition listChildren ::
  "('w \<Rightarrow> goerr option \<times> 'w) \<Rightarrow> ('w \<Rightarrow> 'w) \<Rightarrow> (childSummary page, 'w) exchange \<Rightarrow> string \<Rightarrow> 'w \<Rightarrow>
   (goerr + childSummary list) \<times> 'w" where
  "listChildren acquire release doJSON nodeID w =
    (let (_, ((children, failure), w)) = forRange
           (pageSeq (gateFetch (gateInLoop acquire) (\<lambda>s. snd (gateInLoop (\<lambda>w. ((), release w)) s))
             (childPages (inLoop doJSON) nodeID)))
           drainBody (([], None), w)
     in case failure of Some err \<Rightarrow> (Inl err, w) | None \<Rightarrow> (Inr children, w))"

definition recordErr :: "goerr \<Rightarrow> walkState \<Rightarrow> walkState" where
  "recordErr err st = (if ws_firstErr st = None then st\<lparr>ws_firstErr := Some err\<rparr> else st)"

definition admit :: "treeOptions \<Rightarrow> walkState \<Rightarrow> bool \<times> walkState" where
  "admit opts st =
    (if to_MaxNodes opts \<le> ws_visited st then (False, st)
     else (True, st\<lparr>ws_visited := ws_visited st + 1\<rparr>))"

text \<open>A goroutine's listing has answered: what it writes, and what it goes on with.\<close>

definition listed ::
  "treeOptions \<Rightarrow> nat list \<Rightarrow> string list \<Rightarrow> nat \<Rightarrow> goerr + childSummary list \<Rightarrow> walkState \<Rightarrow>
   walkState \<times> walkTask list" where
  "listed opts path ancestors depth reply st =
    (case reply of
       Inl err \<Rightarrow>
         (recordErr err (st\<lparr>ws_tree := updAt path (setInfo (\<lambda>n. n\<lparr>tn_Err := Some err\<rparr>)) (ws_tree st)\<rparr>), [])
     | Inr children \<Rightarrow>
         if to_MaxDepth opts \<le> int depth then
           (st\<lparr>ws_tree := updAt path (setInfo (\<lambda>n. n\<lparr>tn_Truncated := 0 < length children\<rparr>)) (ws_tree st)\<rparr>, [])
         else (st, [Expanding path ancestors children]))"

definition childNode :: "childSummary \<Rightarrow> nat \<Rightarrow> nodeInfo" where
  "childNode child depth =
    \<lparr>tn_Session = Some child, tn_ID = cs_ID child, tn_Depth = depth + 1,
     tn_Truncated = False, tn_Repeated = False, tn_Err = None\<rparr>"

text \<open>One round of the loop over the children: the node it appends, and the goroutine it starts.\<close>

definition expandOne ::
  "treeOptions \<Rightarrow> nat list \<Rightarrow> string list \<Rightarrow> nat \<Rightarrow> nat \<Rightarrow> childSummary \<Rightarrow> walkState \<Rightarrow>
   walkState \<times> walkTask list" where
  "expandOne opts path ancestors depth index child st =
    (let next = childNode child depth in
     if cs_ID child \<in> set ancestors then
       (st\<lparr>ws_tree := updAt path (addChild (next\<lparr>tn_Repeated := True\<rparr>)) (ws_tree st)\<rparr>, [])
     else
       let (admitted, st) = admit opts st in
       if \<not> admitted then
         (st\<lparr>ws_tree := updAt path (addChild (next\<lparr>tn_Truncated := True\<rparr>)) (ws_tree st)\<rparr>, [])
       else
         (st\<lparr>ws_tree := updAt path (addChild next) (ws_tree st)\<rparr>,
          [Listing (path @ [index]) (cs_ID child # ancestors)]))"

inductive treeStep ::
  "treeOptions \<Rightarrow> (string \<Rightarrow> goerr + childSummary list \<Rightarrow> bool) \<Rightarrow> walkState \<Rightarrow> walkState \<Rightarrow> bool"
  for opts reply where
  listing: "ws_tasks st = before @ Listing path ancestors # after \<Longrightarrow>
    nodeAt (ws_tree st) path = Some t \<Longrightarrow> reply (tn_ID (node t)) answer \<Longrightarrow>
    listed opts path ancestors (tn_Depth (node t)) answer st = (st', rest) \<Longrightarrow>
    treeStep opts reply st (st'\<lparr>ws_tasks := before @ rest @ after\<rparr>)"
| child: "ws_tasks st = before @ Expanding path ancestors (c # cs) # after \<Longrightarrow>
    nodeAt (ws_tree st) path = Some t \<Longrightarrow>
    expandOne opts path ancestors (tn_Depth (node t)) (length (tn_Children t)) c st = (st', started) \<Longrightarrow>
    treeStep opts reply st (st'\<lparr>ws_tasks := before @ Expanding path ancestors cs # after @ started\<rparr>)"
| return: "ws_tasks st = before @ Expanding path ancestors [] # after \<Longrightarrow>
    treeStep opts reply st (st\<lparr>ws_tasks := before @ after\<rparr>)"

definition rootInfo :: "string \<Rightarrow> nodeInfo" where
  "rootInfo sessionID =
    \<lparr>tn_Session = None, tn_ID = sessionID, tn_Depth = 0, tn_Truncated = False,
     tn_Repeated = False, tn_Err = None\<rparr>"

definition walkStart :: "string \<Rightarrow> walkState" where
  "walkStart sessionID =
    \<lparr>ws_tree = TreeNode (rootInfo sessionID) [], ws_tasks = [Listing [] [sessionID]],
     ws_visited = 1, ws_firstErr = None\<rparr>"

text \<open>What ChildrenTree may return: the tree, if any, and the error.\<close>

inductive ChildrenTree ::
  "(string \<Rightarrow> goerr + childSummary list \<Rightarrow> bool) \<Rightarrow> string \<Rightarrow> treeOptions \<Rightarrow>
   treeNode option \<Rightarrow> goerr option \<Rightarrow> bool" for reply where
  refused: "ChildrenTree reply [] opts None
    (Some (invalid ''walk child sessions'' ''sessionID is required''))"
| walked: "sessionID \<noteq> [] \<Longrightarrow> (treeStep (withDefaults opts) reply)\<^sup>*\<^sup>* (walkStart sessionID) st \<Longrightarrow>
    ws_tasks st = [] \<Longrightarrow> ChildrenTree reply sessionID opts (Some (ws_tree st)) (ws_firstErr st)"

text \<open>The visit of SubtreeBusy: whether something hides work, and whether work was found.\<close>

fun visit :: "treeNode \<Rightarrow> bool \<times> bool \<Rightarrow> bool \<times> bool" where
  "visit (TreeNode n ks) (incomplete, busy) =
    fold visit ks
      (incomplete \<or> tn_Truncated n \<or> tn_Err n \<noteq> None,
       busy \<or> (0 < tn_Depth n \<and> (case tn_Session n of None \<Rightarrow> False | Some c \<Rightarrow> ChildSessionBusy c)))"

definition subtreeAnswer :: "treeNode option \<Rightarrow> bool \<times> bool" where
  "subtreeAnswer found =
    (case found of
       None \<Rightarrow> (False, False)
     | Some t \<Rightarrow> let (incomplete, busy) = visit t (False, False)
         in if busy then (True, True) else (False, \<not> incomplete))"

definition SubtreeBusy ::
  "(string \<Rightarrow> goerr + childSummary list \<Rightarrow> bool) \<Rightarrow> string \<Rightarrow> treeOptions \<Rightarrow>
   bool \<Rightarrow> bool \<Rightarrow> goerr option \<Rightarrow> bool" where
  "SubtreeBusy reply sessionID opts busy whole err \<longleftrightarrow>
    (\<exists>found. ChildrenTree reply sessionID opts found err \<and> subtreeAnswer found = (busy, whole))"

section \<open>The nodes of a tree by path\<close>

definition infoAt :: "treeNode \<Rightarrow> nat list \<Rightarrow> (nodeInfo \<times> nat) option" where
  "infoAt t p = map_option (\<lambda>u. (node u, length (tn_Children u))) (nodeAt t p)"

lemma nodeAt_append: "nodeAt t (p @ q) = (case nodeAt t p of Some u \<Rightarrow> nodeAt u q | None \<Rightarrow> None)"
  by (induction t p rule: nodeAt.induct) auto

lemma nodeAt_updAt:
  "nodeAt t p = Some u \<Longrightarrow> nodeAt (updAt p f t) (p @ q) = nodeAt (f u) q"
proof (induction p arbitrary: t)
  case (Cons i p)
  then show ?case by (cases t) (auto split: if_splits)
qed simp

lemma nodeAt_updAt_other:
  "nodeAt t p = Some u \<Longrightarrow> \<nexists>r. q = p @ r \<Longrightarrow> infoAt (updAt p f t) q = infoAt t q"
proof (induction p arbitrary: t q)
  case (Cons i p)
  obtain n ks where t: "t = TreeNode n ks" by (cases t)
  then have i: "i < length ks" "nodeAt (ks ! i) p = Some u" using Cons.prems(1) by (auto split: if_splits)
  show ?case
  proof (cases q)
    case Nil
    then show ?thesis by (simp add: t infoAt_def)
  next
    case (Cons j r)
    show ?thesis
    proof (cases "j = i")
      case True
      then have "\<nexists>s. r = p @ s" using Cons.prems(2) Cons by auto
      then show ?thesis using Cons.IH [OF i(2)] i(1) Cons True by (simp add: t infoAt_def)
    next
      case False
      then show ?thesis using Cons by (simp add: t infoAt_def)
    qed
  qed
qed auto

lemma infoAt_some: "infoAt t p = Some (n, k) \<longleftrightarrow> (\<exists>u. nodeAt t p = Some u \<and> node u = n \<and> length (tn_Children u) = k)"
  by (auto simp: infoAt_def)

lemma infoAt_setInfo:
  assumes "infoAt t p = Some (n, k)"
  shows "infoAt (updAt p (setInfo g) t) = (infoAt t)(p \<mapsto> (g n, k))"
proof
  fix q
  obtain u where u: "nodeAt t p = Some u" "node u = n" "length (tn_Children u) = k"
    using assms by (auto simp: infoAt_some)
  show "infoAt (updAt p (setInfo g) t) q = ((infoAt t)(p \<mapsto> (g n, k))) q"
  proof (cases "\<exists>r. q = p @ r")
    case True
    then obtain r where q: "q = p @ r" by blast
    show ?thesis
    proof (cases r)
      case Nil
      then show ?thesis using nodeAt_updAt [OF u(1), of "setInfo g" "[]"] u
        by (simp add: q infoAt_def setInfo_def)
    next
      case (Cons i s)
      have "nodeAt (setInfo g u) (i # s) = nodeAt u (i # s)" by (cases u) (simp add: setInfo_def)
      then show ?thesis using nodeAt_updAt [OF u(1), of "setInfo g" r] nodeAt_append [of t p r] u(1)
        by (simp add: q infoAt_def Cons)
    qed
  qed (use nodeAt_updAt_other [OF u(1)] in auto)
qed

lemma infoAt_child_none: "infoAt t p = Some (n, k) \<Longrightarrow> infoAt t (p @ k # r) = None"
proof -
  have "nodeAt u (length (tn_Children u) # r) = None" for u by (cases u) simp
  then show "infoAt t p = Some (n, k) \<Longrightarrow> infoAt t (p @ k # r) = None"
    by (auto simp: infoAt_def nodeAt_append)
qed

lemma infoAt_addChild:
  assumes "infoAt t p = Some (n, k)"
  shows "infoAt (updAt p (addChild c) t) = (infoAt t)(p \<mapsto> (n, k + 1), p @ [k] \<mapsto> (c, 0))"
proof
  fix q
  obtain u where u: "nodeAt t p = Some u" "node u = n" "length (tn_Children u) = k"
    using assms by (auto simp: infoAt_some)
  show "infoAt (updAt p (addChild c) t) q = ((infoAt t)(p \<mapsto> (n, k + 1), p @ [k] \<mapsto> (c, 0))) q"
  proof (cases "\<exists>r. q = p @ r")
    case True
    then obtain r where q: "q = p @ r" by blast
    have new: "nodeAt (updAt p (addChild c) t) q = nodeAt (addChild c u) r"
      unfolding q by (rule nodeAt_updAt [OF u(1)])
    show ?thesis
    proof (cases r)
      case Nil
      then show ?thesis using new u by (simp add: q infoAt_def addChild_def)
    next
      case (Cons i s)
      have old: "nodeAt t q = nodeAt u (i # s)" using u(1) by (simp add: q nodeAt_append Cons)
      obtain m ks where t: "u = TreeNode m ks" by (cases u)
      have k: "k = length ks" using u(3) by (simp add: t)
      show ?thesis
        using new old infoAt_child_none [OF assms, of s]
        by (cases s) (auto simp: q Cons t k infoAt_def addChild_def nth_append)
    qed
  qed (use nodeAt_updAt_other [OF u(1)] in auto)
qed

section \<open>What the visit finds\<close>

fun nodes :: "treeNode \<Rightarrow> nodeInfo list" where
  "nodes (TreeNode n ks) = n # concat (map nodes ks)"

definition hidesWork :: "nodeInfo \<Rightarrow> bool" where
  "hidesWork n \<longleftrightarrow> tn_Truncated n \<or> tn_Err n \<noteq> None"

definition hasWork :: "nodeInfo \<Rightarrow> bool" where
  "hasWork n \<longleftrightarrow> 0 < tn_Depth n \<and> (case tn_Session n of None \<Rightarrow> False | Some c \<Rightarrow> ChildSessionBusy c)"

lemma visit_nodes:
  "visit t (i, b) = (i \<or> list_ex hidesWork (nodes t), b \<or> list_ex hasWork (nodes t))"
proof (induction t arbitrary: i b)
  case (TreeNode n ks)
  have "fold visit ks (i, b) =
      (i \<or> list_ex hidesWork (concat (map nodes ks)), b \<or> list_ex hasWork (concat (map nodes ks)))" for i b
    using TreeNode.IH by (induction ks arbitrary: i b) auto
  moreover have "list_ex hidesWork (nodes (TreeNode n ks)) \<longleftrightarrow>
      tn_Truncated n \<or> tn_Err n \<noteq> None \<or> list_ex hidesWork (concat (map nodes ks))"
    "list_ex hasWork (nodes (TreeNode n ks)) \<longleftrightarrow>
      (0 < tn_Depth n \<and> (case tn_Session n of None \<Rightarrow> False | Some c \<Rightarrow> ChildSessionBusy c)) \<or>
      list_ex hasWork (concat (map nodes ks))"
    by (simp_all add: hidesWork_def [of n] hasWork_def [of n])
  ultimately show ?case by (simp add: disj_assoc)
qed

lemma nodes_infoAt: "n \<in> set (nodes t) \<longleftrightarrow> (\<exists>p k. infoAt t p = Some (n, k))"
proof (induction t arbitrary: n)
  case (TreeNode m ks)
  have "(\<exists>p k. infoAt (TreeNode m ks) p = Some (n, k)) \<longleftrightarrow>
      m = n \<or> (\<exists>t \<in> set ks. \<exists>p k. infoAt t p = Some (n, k))"
    (is "?l \<longleftrightarrow> ?r")
  proof
    assume ?l
    then obtain p k where "infoAt (TreeNode m ks) p = Some (n, k)" by blast
    then show ?r by (cases p) (auto simp: infoAt_def split: if_splits intro!: bexI [OF _ nth_mem])
  next
    assume ?r
    then consider "m = n" | i p k where "i < length ks" "infoAt (ks ! i) p = Some (n, k)"
      by (auto simp: in_set_conv_nth)
    then show ?l
    proof cases
      case 1
      then have "infoAt (TreeNode m ks) [] = Some (n, length ks)" by (simp add: infoAt_def)
      then show ?thesis by blast
    next
      case 2
      then have "infoAt (TreeNode m ks) (i # p) = Some (n, k)" by (simp add: infoAt_def)
      then show ?thesis by blast
    qed
  qed
  then show ?case using TreeNode.IH by auto
qed

section \<open>An invariant of the walk\<close>

type_synonym nodeMap = "nat list \<rightharpoonup> nodeInfo \<times> nat"

text \<open>A session is known when a node that is not a repeat describes it; the first children of a
  node are given by their summaries.\<close>

definition known :: "nodeMap \<Rightarrow> string \<Rightarrow> bool" where
  "known M x \<longleftrightarrow> (\<exists>q n k. M q = Some (n, k) \<and> \<not> tn_Repeated n \<and> tn_ID n = x)"

definition childrenAre :: "nodeMap \<Rightarrow> nat list \<Rightarrow> childSummary list \<Rightarrow> bool" where
  "childrenAre M p cs \<longleftrightarrow> (\<forall>i < length cs. \<exists>m k. M (p @ [i]) = Some (m, k) \<and> tn_Session m = Some (cs ! i))"

fun taskPath :: "walkTask \<Rightarrow> nat list" where
  "taskPath (Listing p _) = p"
| "taskPath (Expanding p _ _) = p"

fun taskOk :: "(string \<Rightarrow> childSummary list) \<Rightarrow> nodeMap \<Rightarrow> walkTask \<Rightarrow> bool" where
  "taskOk kids M (Listing p ancestors) \<longleftrightarrow>
     (\<exists>n. M p = Some (n, 0) \<and> \<not> tn_Repeated n) \<and> (\<forall>x \<in> set ancestors. known M x)"
| "taskOk kids M (Expanding p ancestors cs) \<longleftrightarrow>
     (\<exists>n drawn. M p = Some (n, length drawn) \<and> \<not> tn_Repeated n \<and> kids (tn_ID n) = drawn @ cs \<and>
        childrenAre M p drawn) \<and> (\<forall>x \<in> set ancestors. known M x)"

definition nodeOk :: "nodeMap \<Rightarrow> nat list \<Rightarrow> nodeInfo \<Rightarrow> bool" where
  "nodeOk M p n \<longleftrightarrow> tn_Depth n = length p \<and>
     (p = [] \<or> (\<exists>c. tn_Session n = Some c \<and> tn_ID n = cs_ID c)) \<and>
     (\<not> tn_Repeated n \<or> known M (tn_ID n))"

definition settled :: "(string \<Rightarrow> childSummary list) \<Rightarrow> nodeMap \<Rightarrow> nat list \<Rightarrow> nodeInfo \<Rightarrow> bool" where
  "settled kids M p n \<longleftrightarrow> hidesWork n \<or> tn_Repeated n \<or> childrenAre M p (kids (tn_ID n))"

definition walkInv :: "(string \<Rightarrow> childSummary list) \<Rightarrow> string \<Rightarrow> nodeMap \<Rightarrow> walkTask list \<Rightarrow> bool" where
  "walkInv kids sid M tasks \<longleftrightarrow>
     (\<exists>n k. M [] = Some (n, k) \<and> \<not> tn_Repeated n \<and> tn_ID n = sid) \<and>
     (\<forall>p n k. M p = Some (n, k) \<longrightarrow> nodeOk M p n \<and> (p \<in> taskPath ` set tasks \<or> settled kids M p n)) \<and>
     distinct (map taskPath tasks) \<and> (\<forall>t \<in> set tasks. taskOk kids M t)"

text \<open>What a step changes of a map: it adds nodes, and of an old one only its outcome.\<close>

definition grew :: "nodeMap \<Rightarrow> nodeMap \<Rightarrow> bool" where
  "grew M M' \<longleftrightarrow> (\<forall>p n k. M p = Some (n, k) \<longrightarrow> (\<exists>n' k'. M' p = Some (n', k') \<and>
     tn_Session n' = tn_Session n \<and> tn_ID n' = tn_ID n \<and> tn_Depth n' = tn_Depth n \<and>
     tn_Repeated n' = tn_Repeated n))"

lemma grew_known: "grew M M' \<Longrightarrow> known M x \<Longrightarrow> known M' x"
  unfolding grew_def known_def by metis

lemma grew_children: "grew M M' \<Longrightarrow> childrenAre M p cs \<Longrightarrow> childrenAre M' p cs"
  unfolding grew_def childrenAre_def by metis

lemma grew_nodeOk: "grew M M' \<Longrightarrow> nodeOk M p n \<Longrightarrow> nodeOk M' p n"
  using grew_known by (auto simp: nodeOk_def)

lemma grew_settled: "grew M M' \<Longrightarrow> settled kids M p n \<Longrightarrow> settled kids M' p n"
  using grew_children by (auto simp: settled_def)

lemma grew_taskOk:
  assumes "grew M M'" "M' (taskPath t) = M (taskPath t)" "taskOk kids M t"
  shows "taskOk kids M' t"
  using assms grew_known [OF assms(1)] grew_children [OF assms(1)] by (cases t) auto

text \<open>Replacing the task of one path.\<close>

lemma distinct_around:
  "distinct (b @ a) \<Longrightarrow> distinct r \<Longrightarrow> distinct s \<Longrightarrow> set r \<subseteq> {x} \<Longrightarrow> x \<notin> set (b @ a) \<Longrightarrow> x \<notin> set s \<Longrightarrow>
   set s \<inter> set (b @ a) = {} \<Longrightarrow> distinct (b @ r @ a @ s)"
  by auto

lemma taskOk_dom: "taskOk kids M t \<Longrightarrow> M (taskPath t) \<noteq> None"
  by (cases t) auto

lemma walkInv_replace:
  assumes inv: "walkInv kids sid M (before @ t # after)"
    and grew: "grew M M'"
    and new: "\<And>q. q \<noteq> taskPath t \<Longrightarrow> M' q = M q \<or>
        M q = None \<and> (\<exists>n k. M' q = Some (n, k) \<and> nodeOk M' q n \<and>
          (q \<in> taskPath ` set started \<or> settled kids M' q n))"
    and here: "\<And>n k. M' (taskPath t) = Some (n, k) \<Longrightarrow> nodeOk M' (taskPath t) n \<and>
        (taskPath t \<in> taskPath ` set rest \<or> settled kids M' (taskPath t) n)"
    and rest: "\<forall>x \<in> set rest. taskOk kids M' x \<and> taskPath x = taskPath t" "length rest \<le> 1"
    and started: "\<forall>x \<in> set started. taskOk kids M' x \<and> M (taskPath x) = None \<and> taskPath x \<noteq> taskPath t"
      "length started \<le> 1"
  shows "walkInv kids sid M' (before @ rest @ after @ started)"
proof -
  let ?p = "taskPath t"
  have nodes: "nodeOk M q n \<and> (q \<in> taskPath ` set (before @ t # after) \<or> settled kids M q n)"
    if "M q = Some (n, k)" for q n k using inv that by (auto simp: walkInv_def)
  have ok: "x \<in> set (before @ after) \<Longrightarrow> taskOk kids M x" for x
    using inv by (auto simp: walkInv_def)
  have dist: "distinct (map taskPath (before @ t # after))" using inv by (simp add: walkInv_def)
  have apart: "?p \<notin> taskPath ` set (before @ after)" "distinct (map taskPath (before @ after))"
    using dist by auto
  have other: "taskPath x \<noteq> ?p" "M' (taskPath x) = M (taskPath x)" if "x \<in> set (before @ after)" for x
  proof -
    show "taskPath x \<noteq> ?p" using apart(1) that by (metis imageI)
    then show "M' (taskPath x) = M (taskPath x)" using new [of "taskPath x"] taskOk_dom [OF ok [OF that]] by auto
  qed
  have "\<exists>n k. M' [] = Some (n, k) \<and> \<not> tn_Repeated n \<and> tn_ID n = sid"
    using inv grew unfolding walkInv_def grew_def by metis
  moreover have "nodeOk M' q n \<and> (q \<in> taskPath ` set (before @ rest @ after @ started) \<or> settled kids M' q n)"
    if m: "M' q = Some (n, k)" for q n k
  proof (cases "q = ?p")
    case True
    then show ?thesis using here m by auto
  next
    case False
    show ?thesis
    proof (cases "M q = None")
      case True
      then show ?thesis using new [OF False] m by auto
    next
      case same: False
      then have "M q = Some (n, k)" using new [OF False] m by auto
      then show ?thesis
        using nodes [of q n k] False grew_nodeOk [OF grew] grew_settled [OF grew] by auto
    qed
  qed
  moreover have "distinct (map taskPath (before @ rest @ after @ started))"
  proof -
    have "taskPath x \<notin> taskPath ` set (before @ after)" if "x \<in> set started" for x
    proof
      assume "taskPath x \<in> taskPath ` set (before @ after)"
      then obtain z where "z \<in> set (before @ after)" "taskPath x = taskPath z" by auto
      then show False using taskOk_dom [OF ok, of z] started(1) that by auto
    qed
    then have "taskPath ` set started \<inter> taskPath ` set (before @ after) = {}" by auto
    moreover have "taskPath ` set rest \<subseteq> {?p}" "?p \<notin> taskPath ` set started" using rest(1) started(1) by auto
    moreover have "distinct (map taskPath rest)" "distinct (map taskPath started)"
      using rest(2) started(2) by (auto simp: le_Suc_eq length_Suc_conv)
    ultimately show ?thesis
      using apart distinct_around [of "map taskPath before" "map taskPath after" "map taskPath rest"
          "map taskPath started" ?p]
      by (simp only: map_append set_append set_map image_Un simp_thms not_False_eq_True)
  qed
  moreover have "\<forall>x \<in> set (before @ rest @ after @ started). taskOk kids M' x"
    using rest(1) started(1) grew_taskOk [OF grew other(2) ok] by auto
  ultimately show ?thesis by (auto simp: walkInv_def)
qed

lemma nodeOk_here:
  "walkInv kids sid M tasks \<Longrightarrow> M p = Some (n, k) \<Longrightarrow> nodeOk M p n"
  by (auto simp: walkInv_def)

lemma listing_inv:
  assumes inv: "walkInv kids sid (infoAt (ws_tree st)) (before @ Listing p ancestors # after)"
    and static: "\<And>cs. answer = Inr cs \<Longrightarrow> cs = kids (tn_ID n)"
    and here: "infoAt (ws_tree st) p = Some (n, k)"
    and listed: "listed opts p ancestors (tn_Depth n) answer st = (st', rest)"
  shows "walkInv kids sid (infoAt (ws_tree st')) (before @ rest @ after)"
proof -
  let ?M = "infoAt (ws_tree st)" and ?M' = "infoAt (ws_tree st')"
  have task: "taskOk kids ?M (Listing p ancestors)" using inv by (simp add: walkInv_def)
  then have k: "k = 0" and fresh: "\<not> tn_Repeated n" using here by auto
  have nok: "nodeOk ?M p n" using nodeOk_here [OF inv here] .
  have outcome: "walkInv kids sid ?M' (before @ [] @ after @ [])"
    if m: "?M' = ?M(p \<mapsto> (n1, 0))" and g: "tn_Session n1 = tn_Session n" "tn_ID n1 = tn_ID n"
      "tn_Depth n1 = tn_Depth n" "tn_Repeated n1 = tn_Repeated n" "settled kids ?M' p n1" for n1
  proof (rule walkInv_replace [OF inv])
    show grew: "grew ?M ?M'" using here g by (auto simp: grew_def m)
    show "nodeOk ?M' (taskPath (Listing p ancestors)) n' \<and> (taskPath (Listing p ancestors) \<in> taskPath ` set [] \<or>
        settled kids ?M' (taskPath (Listing p ancestors)) n')"
      if "?M' (taskPath (Listing p ancestors)) = Some (n', k')" for n' k'
      using that g grew_nodeOk [OF grew nok] by (auto simp: m nodeOk_def)
  qed (auto simp: m)
  show ?thesis
  proof (cases answer)
    case (Inl err)
    then have m: "?M' = ?M(p \<mapsto> (n\<lparr>tn_Err := Some err\<rparr>, 0))" and r: "rest = []"
      using listed infoAt_setInfo [OF here, of "\<lambda>n. n\<lparr>tn_Err := Some err\<rparr>"] k
      by (auto simp: listed_def recordErr_def)
    show ?thesis
      using outcome [OF m] by (simp add: r settled_def hidesWork_def)
  next
    case (Inr cs)
    then have cs: "cs = kids (tn_ID n)" using static by simp
    show ?thesis
    proof (cases "to_MaxDepth opts \<le> int (tn_Depth n)")
      case True
      then have m: "?M' = ?M(p \<mapsto> (n\<lparr>tn_Truncated := 0 < length cs\<rparr>, 0))" and r: "rest = []"
        using listed infoAt_setInfo [OF here, of "\<lambda>n. n\<lparr>tn_Truncated := 0 < length cs\<rparr>"] k Inr
        by (auto simp: listed_def)
      show ?thesis
        using outcome [OF m] by (simp add: r settled_def hidesWork_def childrenAre_def cs [symmetric])
    next
      case False
      then have st: "st' = st" and r: "rest = [Expanding p ancestors cs]"
        using listed Inr by (auto simp: listed_def)
      have "walkInv kids sid ?M (before @ [Expanding p ancestors cs] @ after @ [])"
      proof (rule walkInv_replace [OF inv])
        show "\<forall>x \<in> set [Expanding p ancestors cs]. taskOk kids ?M x \<and> taskPath x = taskPath (Listing p ancestors)"
          using task cs here k by (auto simp: childrenAre_def)
      qed (use nodeOk_here [OF inv] in \<open>auto simp: grew_def\<close>)
      then show ?thesis by (simp add: st r)
    qed
  qed
qed

lemma return_inv:
  assumes inv: "walkInv kids sid M (before @ Expanding p ancestors [] # after)"
  shows "walkInv kids sid M (before @ after)"
proof -
  have "taskOk kids M (Expanding p ancestors [])" using inv by (simp add: walkInv_def)
  then obtain n where n: "M p = Some (n, length (kids (tn_ID n)))" "childrenAre M p (kids (tn_ID n))" by auto
  have "walkInv kids sid M (before @ [] @ after @ [])"
    by (rule walkInv_replace [OF inv]) (use n nodeOk_here [OF inv] in \<open>auto simp: grew_def settled_def\<close>)
  then show ?thesis by simp
qed

lemma child_inv:
  assumes inv: "walkInv kids sid (infoAt (ws_tree st)) (before @ Expanding p ancestors (c # cs) # after)"
    and here: "infoAt (ws_tree st) p = Some (n, k)"
    and expand: "expandOne opts p ancestors (tn_Depth n) k c st = (st', started)"
  shows "walkInv kids sid (infoAt (ws_tree st')) (before @ Expanding p ancestors cs # after @ started)"
proof -
  let ?M = "infoAt (ws_tree st)" and ?M' = "infoAt (ws_tree st')"
  have task: "taskOk kids ?M (Expanding p ancestors (c # cs))" using inv by (simp add: walkInv_def)
  then obtain drawn where drawn: "k = length drawn" "kids (tn_ID n) = drawn @ c # cs" "childrenAre ?M p drawn"
    and fresh: "\<not> tn_Repeated n" and anc: "\<forall>x \<in> set ancestors. known ?M x" using here by auto
  have nok: "nodeOk ?M p n" using nodeOk_here [OF inv here] .
  have none: "?M (p @ [k]) = None" using infoAt_child_none [OF here, of "[]"] .
  obtain m where m: "?M' = ?M(p \<mapsto> (n, k + 1), p @ [k] \<mapsto> (m, 0))"
    and m': "tn_Session m = Some c" "tn_ID m = cs_ID c" "tn_Depth m = tn_Depth n + 1"
    and started: "started = [Listing (p @ [k]) (cs_ID c # ancestors)] \<and> \<not> tn_Repeated m \<or>
       started = [] \<and> tn_Truncated m \<and> \<not> tn_Repeated m \<or> started = [] \<and> tn_Repeated m \<and> cs_ID c \<in> set ancestors"
  proof (cases "cs_ID c \<in> set ancestors")
    case True
    then show ?thesis
      using that [of "(childNode c (tn_Depth n))\<lparr>tn_Repeated := True\<rparr>"] expand infoAt_addChild [OF here]
      by (auto simp: expandOne_def childNode_def Let_def)
  next
    case fresh: False
    show ?thesis
    proof (cases "to_MaxNodes opts \<le> ws_visited st")
      case True
      then show ?thesis
        using fresh that [of "(childNode c (tn_Depth n))\<lparr>tn_Truncated := True\<rparr>"] expand infoAt_addChild [OF here]
        by (auto simp: expandOne_def childNode_def admit_def Let_def)
    next
      case False
      then show ?thesis
        using fresh that [of "childNode c (tn_Depth n)"] expand infoAt_addChild [OF here]
        by (auto simp: expandOne_def childNode_def admit_def Let_def)
    qed
  qed
  have grew: "grew ?M ?M'" using here none by (auto simp: grew_def m)
  have anc': "\<forall>x \<in> set ancestors. known ?M' x" using anc grew_known [OF grew] by blast
  have child: "childrenAre ?M' p (drawn @ [c])"
    using grew_children [OF grew drawn(3)] drawn(1) m'
    by (auto simp: childrenAre_def nth_append less_Suc_eq) (simp add: m)
  have mk: "known ?M' (cs_ID c)" if "\<not> tn_Repeated m" using that m' by (auto simp: known_def m)
  have mok: "nodeOk ?M' (p @ [k]) m"
    using started m' nok anc' by (auto simp: nodeOk_def)
  have "walkInv kids sid ?M' (before @ [Expanding p ancestors cs] @ after @ started)"
  proof (rule walkInv_replace [OF inv grew])
    show "?M' q = ?M q \<or> ?M q = None \<and> (\<exists>n k. ?M' q = Some (n, k) \<and> nodeOk ?M' q n \<and>
        (q \<in> taskPath ` set started \<or> settled kids ?M' q n))"
      if "q \<noteq> taskPath (Expanding p ancestors (c # cs))" for q
      using that none mok started by (auto simp: m settled_def hidesWork_def)
    show "nodeOk ?M' (taskPath (Expanding p ancestors (c # cs))) n' \<and>
        (taskPath (Expanding p ancestors (c # cs)) \<in> taskPath ` set [Expanding p ancestors cs] \<or>
         settled kids ?M' (taskPath (Expanding p ancestors (c # cs))) n')"
      if "?M' (taskPath (Expanding p ancestors (c # cs))) = Some (n', k')" for n' k'
      using that grew_nodeOk [OF grew nok] by (auto simp: m)
    show "\<forall>x \<in> set [Expanding p ancestors cs]. taskOk kids ?M' x \<and>
        taskPath x = taskPath (Expanding p ancestors (c # cs))"
      using child drawn fresh anc' by (auto simp: m intro!: exI [of _ "drawn @ [c]"])
    show "\<forall>x \<in> set started. taskOk kids ?M' x \<and> ?M (taskPath x) = None \<and>
        taskPath x \<noteq> taskPath (Expanding p ancestors (c # cs))"
    proof -
      have "?M' (p @ [k]) = Some (m, 0)" by (simp add: m)
      then have "taskOk kids ?M' (Listing (p @ [k]) (cs_ID c # ancestors))" if "\<not> tn_Repeated m"
        using that mk anc' by simp
      note spawned = this
      consider "started = [Listing (p @ [k]) (cs_ID c # ancestors)]" "\<not> tn_Repeated m" | "started = []"
        using started by blast
      then show ?thesis by cases (use none spawned in \<open>simp_all del: taskOk.simps\<close>)
    qed
  qed (use started in auto)
  then show ?thesis by simp
qed

lemma step_inv:
  assumes static: "\<And>x cs. reply x (Inr cs) \<Longrightarrow> cs = kids x"
    and step: "treeStep opts reply st st'"
    and inv: "walkInv kids sid (infoAt (ws_tree st)) (ws_tasks st)"
  shows "walkInv kids sid (infoAt (ws_tree st')) (ws_tasks st')"
  using step inv
proof (cases rule: treeStep.cases)
  case (listing before path ancestors after t answer st1 rest)
  have here: "infoAt (ws_tree st) path = Some (node t, length (tn_Children t))"
    using listing by (simp add: infoAt_def)
  then show ?thesis
    using listing_inv [OF _ _ here, of kids sid before ancestors after answer opts st1 rest] static listing inv
    by auto
next
  case (child before path ancestors c cs after t st1 started)
  have here: "infoAt (ws_tree st) path = Some (node t, length (tn_Children t))"
    using child by (simp add: infoAt_def)
  then show ?thesis
    using child_inv [OF _ here, of kids sid before ancestors c cs after opts st1 started] child inv by auto
next
  case (return before path ancestors after)
  then show ?thesis using return_inv inv by auto
qed

lemma start_inv: "walkInv kids sid (infoAt (ws_tree (walkStart sid))) (ws_tasks (walkStart sid))"
proof -
  have m: "infoAt (TreeNode (rootInfo sid) []) = [[] \<mapsto> (rootInfo sid, 0)]"
  proof
    fix p show "infoAt (TreeNode (rootInfo sid) []) p = [[] \<mapsto> (rootInfo sid, 0)] p"
      by (cases p) (simp_all add: infoAt_def)
  qed
  have k: "known [[] \<mapsto> (rootInfo sid, 0)] sid" by (simp add: known_def rootInfo_def)
  show ?thesis
    using k by (auto simp: walkStart_def walkInv_def m nodeOk_def) (auto simp: rootInfo_def)
qed

lemma walk_inv:
  assumes static: "\<And>x cs. reply x (Inr cs) \<Longrightarrow> cs = kids x"
    and run: "(treeStep opts reply)\<^sup>*\<^sup>* (walkStart sid) st"
  shows "walkInv kids sid (infoAt (ws_tree st)) (ws_tasks st)"
  using run
proof (induction rule: rtranclp_induct)
  case base
  show ?case by (rule start_inv)
next
  case (step y z)
  show ?case by (rule step_inv [OF _ step.hyps(2) step.IH]) (rule static)
qed

section \<open>The walk sees the subtree, and ends\<close>

text \<open>The sessions below one, when each session's children do not change.\<close>

inductive below :: "(string \<Rightarrow> childSummary list) \<Rightarrow> string \<Rightarrow> childSummary \<Rightarrow> bool" for kids sid where
  child: "c \<in> set (kids sid) \<Longrightarrow> below kids sid c"
| deeper: "below kids sid c \<Longrightarrow> d \<in> set (kids (cs_ID c)) \<Longrightarrow> below kids sid d"

lemma seen_below:
  assumes inv: "walkInv kids sid M []"
    and plain: "\<And>p n k. M p = Some (n, k) \<Longrightarrow> \<not> hidesWork n"
    and c: "below kids sid c"
  shows "known M (cs_ID c) \<and> (\<exists>p n k. M p = Some (n, k) \<and> p \<noteq> [] \<and> tn_Session n = Some c)"
proof -
  have step: "known M (cs_ID d) \<and> (\<exists>p n k. M p = Some (n, k) \<and> p \<noteq> [] \<and> tn_Session n = Some d)"
    if kx: "known M x" and dk: "d \<in> set (kids x)" for x d
  proof -
    obtain q n k where q: "M q = Some (n, k)" "\<not> tn_Repeated n" "tn_ID n = x"
      using kx unfolding known_def by blast
    then have "childrenAre M q (kids x)"
      using inv plain [OF q(1)] by (auto simp: walkInv_def settled_def)
    moreover obtain i where "i < length (kids x)" "kids x ! i = d" using dk by (auto simp: in_set_conv_nth)
    ultimately obtain m j where m: "M (q @ [i]) = Some (m, j)" "tn_Session m = Some d"
      by (auto simp: childrenAre_def)
    then have "nodeOk M (q @ [i]) m" using nodeOk_here [OF inv] by blast
    then have ok: "tn_ID m = cs_ID d" "\<not> tn_Repeated m \<or> known M (tn_ID m)"
      using m by (auto simp: nodeOk_def)
    then have "known M (cs_ID d)" using m(1) unfolding known_def by metis
    then show ?thesis using m by blast
  qed
  have "known M sid" using inv by (auto simp: walkInv_def known_def)
  with c show ?thesis by induction (use step in blast)+
qed

definition belowInv :: "(string \<Rightarrow> childSummary list) \<Rightarrow> string \<Rightarrow> nodeMap \<Rightarrow> bool" where
  "belowInv kids sid M \<longleftrightarrow> (\<forall>p n k. M p = Some (n, k) \<longrightarrow>
     (case tn_Session n of None \<Rightarrow> tn_ID n = sid | Some c \<Rightarrow> tn_ID n = cs_ID c \<and> below kids sid c))"

lemma belowInv_at:
  "belowInv kids sid M \<Longrightarrow> M p = Some (n, k) \<Longrightarrow>
   (case tn_Session n of None \<Rightarrow> tn_ID n = sid | Some c \<Rightarrow> tn_ID n = cs_ID c \<and> below kids sid c)"
  unfolding belowInv_def by blast

lemma belowInv_put:
  assumes "belowInv kids sid M" "M p = Some (n, k)" "tn_Session n' = tn_Session n" "tn_ID n' = tn_ID n"
  shows "belowInv kids sid (M(p \<mapsto> (n', j)))"
proof -
  have "case tn_Session n' of None \<Rightarrow> tn_ID n' = sid | Some c \<Rightarrow> tn_ID n' = cs_ID c \<and> below kids sid c"
    unfolding assms(3,4) by (rule belowInv_at [OF assms(1,2)])
  then show ?thesis using assms(1) unfolding belowInv_def by (metis fun_upd_apply option.inject prod.inject)
qed

lemma below_step:
  assumes step: "treeStep opts reply st st'"
    and inv: "walkInv kids sid (infoAt (ws_tree st)) (ws_tasks st)"
    and below: "belowInv kids sid (infoAt (ws_tree st))"
  shows "belowInv kids sid (infoAt (ws_tree st'))"
  using step
proof (cases rule: treeStep.cases)
  case (listing before path ancestors after t answer st1 rest)
  have here: "infoAt (ws_tree st) path = Some (node t, length (tn_Children t))"
    using listing by (simp add: infoAt_def)
  consider g where "ws_tree st1 = updAt path (setInfo g) (ws_tree st)"
      "tn_Session (g (node t)) = tn_Session (node t)" "tn_ID (g (node t)) = tn_ID (node t)"
    | "ws_tree st1 = ws_tree st"
    using listing that
    by (cases answer; cases "to_MaxDepth opts \<le> int (tn_Depth (node t))")
       (fastforce simp: listed_def recordErr_def split: if_splits)+
  then show ?thesis
    using belowInv_put [OF below here] below infoAt_setInfo [OF here] listing by cases auto
next
  case (child before path ancestors c cs after t st1 started)
  have here: "infoAt (ws_tree st) path = Some (node t, length (tn_Children t))"
    using child by (simp add: infoAt_def)
  have "taskOk kids (infoAt (ws_tree st)) (Expanding path ancestors (c # cs))"
    using inv child by (simp add: walkInv_def)
  then have c: "c \<in> set (kids (tn_ID (node t)))" using here by auto
  have "case tn_Session (node t) of None \<Rightarrow> tn_ID (node t) = sid
      | Some d \<Rightarrow> tn_ID (node t) = cs_ID d \<and> below kids sid d"
    by (rule belowInv_at [OF below here])
  then have b: "below kids sid c"
    using c by (auto split: option.splits intro: below.intros)
  obtain m where "ws_tree st1 = updAt path (addChild m) (ws_tree st)" "tn_Session m = Some c" "tn_ID m = cs_ID c"
    using child by (auto simp: expandOne_def admit_def childNode_def Let_def split: if_splits)
  then show ?thesis
    using below b here child infoAt_addChild [OF here, of m] by (auto simp: belowInv_def)
next
  case (return before path ancestors after)
  then show ?thesis using below by simp
qed

lemma walk_below:
  assumes static: "\<And>x cs. reply x (Inr cs) \<Longrightarrow> cs = kids x"
    and run: "(treeStep opts reply)\<^sup>*\<^sup>* (walkStart sid) st"
  shows "belowInv kids sid (infoAt (ws_tree st))"
  using run
proof (induction rule: rtranclp_induct)
  case base
  have "infoAt (TreeNode (rootInfo sid) []) p = Some (n, k) \<Longrightarrow> n = rootInfo sid" for p n k
    by (cases p) (simp_all add: infoAt_def)
  then show ?case by (fastforce simp: walkStart_def belowInv_def rootInfo_def)
next
  case (step y z)
  have "walkInv kids sid (infoAt (ws_tree y)) (ws_tasks y)"
    by (rule walk_inv [OF _ step.hyps(1)]) (rule static)
  then show ?case using below_step step by blast
qed

text \<open>A step admits a node, or ends a listing, or shortens the work of the goroutines.\<close>

fun listingTask :: "walkTask \<Rightarrow> nat" where
  "listingTask (Listing _ _) = 1"
| "listingTask _ = 0"

fun expandingWork :: "walkTask \<Rightarrow> nat" where
  "expandingWork (Expanding _ _ cs) = Suc (length cs)"
| "expandingWork _ = 0"

definition walkMeasure :: "treeOptions \<Rightarrow> walkState \<Rightarrow> nat \<times> nat \<times> nat" where
  "walkMeasure opts st =
    (nat (to_MaxNodes opts - ws_visited st), sum_list (map listingTask (ws_tasks st)),
     sum_list (map expandingWork (ws_tasks st)))"

lemma step_measure:
  assumes "treeStep opts reply st st'"
  shows "(walkMeasure opts st', walkMeasure opts st) \<in> less_than <*lex*> less_than <*lex*> less_than"
  using assms
proof (cases rule: treeStep.cases)
  case (listing before path ancestors after t answer st1 rest)
  have "ws_visited st1 = ws_visited st" "sum_list (map listingTask rest) = 0"
    using listing by (auto simp: listed_def recordErr_def split: sum.splits if_splits)
  then show ?thesis using listing by (simp add: walkMeasure_def)
next
  case (child before path ancestors c cs after t st1 started)
  then have "ws_visited st1 = ws_visited st \<and> started = [] \<or>
      ws_visited st1 = ws_visited st + 1 \<and> ws_visited st < to_MaxNodes opts"
    by (auto simp: expandOne_def admit_def Let_def split: if_splits)
  then show ?thesis using child by (auto simp: walkMeasure_def)
next
  case (return before path ancestors after)
  then show ?thesis by (simp add: walkMeasure_def)
qed

section \<open>Properties\<close>


text \<open>C24. When the children of each session do not change during the walk, a conclusive answer of
  SubtreeBusy is the truth, however the requests interleave and whatever cycles the tree has:
  some session below the named one is busy exactly when it says so.\<close>

theorem subtree_busy_exact:
  assumes "\<And>x cs. reply x (Inr cs) \<Longrightarrow> cs = kids x"
    and "sid \<noteq> []" "SubtreeBusy reply sid opts busy True err"
  shows "busy \<longleftrightarrow> (\<exists>c. below kids sid c \<and> ChildSessionBusy c)"
proof -
  obtain st where run: "(treeStep (withDefaults opts) reply)\<^sup>*\<^sup>* (walkStart sid) st" "ws_tasks st = []"
    and answer: "subtreeAnswer (Some (ws_tree st)) = (busy, True)"
    using assms(2,3) by (auto simp: SubtreeBusy_def elim!: ChildrenTree.cases)
  let ?M = "infoAt (ws_tree st)"
  have inv: "walkInv kids sid ?M []" using walk_inv [OF assms(1) run(1)] run(2) by simp
  have below: "belowInv kids sid ?M" using walk_below [OF assms(1) run(1)] .
  have busy: "busy \<longleftrightarrow> list_ex hasWork (nodes (ws_tree st))"
    and whole: "\<not> busy \<Longrightarrow> \<not> list_ex hidesWork (nodes (ws_tree st))"
    using answer by (auto simp: subtreeAnswer_def visit_nodes split: if_splits)
  show ?thesis
  proof
    assume busy
    then obtain p n k where "?M p = Some (n, k)" "hasWork n"
      using busy nodes_infoAt by (auto simp: list_ex_iff)
    then show "\<exists>c. below kids sid c \<and> ChildSessionBusy c"
      using below by (fastforce simp: hasWork_def belowInv_def split: option.splits)
  next
    assume "\<exists>c. below kids sid c \<and> ChildSessionBusy c"
    then obtain c where c: "below kids sid c" "ChildSessionBusy c" by blast
    show busy
    proof (rule ccontr)
      assume "\<not> busy"
      then have plain: "\<not> hidesWork n" if "?M p = Some (n, k)" for p n k
        using that whole nodes_infoAt [of n "ws_tree st"] by (auto simp: list_ex_iff)
      have "known ?M (cs_ID c) \<and> (\<exists>p n k. ?M p = Some (n, k) \<and> p \<noteq> [] \<and> tn_Session n = Some c)"
        by (rule seen_below [OF inv _ c(1)]) (rule plain)
      then obtain p n k where n: "?M p = Some (n, k)" "p \<noteq> []" "tn_Session n = Some c" by blast
      then have "hasWork n" using nodeOk_here [OF inv n(1)] c(2) by (simp add: hasWork_def nodeOk_def)
      then show False using n(1) \<open>\<not> busy\<close> busy nodes_infoAt by (auto simp: list_ex_iff)
    qed
  qed
qed

text \<open>A root with one idle child, walked to the end.\<close>

definition oneChild :: childSummary where
  "oneChild = \<lparr>cs_ID = ''c'', cs_Busy = Some False, cs_CurrentTaskStatus = None\<rparr>"

definition oneKid :: "string \<Rightarrow> childSummary list" where
  "oneKid x = (if x = ''r'' then [oneChild] else [])"

definition answersOne :: "string \<Rightarrow> goerr + childSummary list \<Rightarrow> bool" where
  "answersOne x answer \<longleftrightarrow> answer = Inr (oneKid x)"

definition smallTree :: treeOptions where
  "smallTree = \<lparr>to_MaxDepth = 0, to_Concurrency = 0, to_MaxNodes = 0\<rparr>"

lemma smallTree_defaults [simp]:
  "withDefaults smallTree = \<lparr>to_MaxDepth = 3, to_Concurrency = 4, to_MaxNodes = 1000\<rparr>"
  by (simp add: withDefaults_def smallTree_def Let_def)

definition oneWalked :: "walkTask list \<Rightarrow> walkState" where
  "oneWalked tasks =
    \<lparr>ws_tree = TreeNode (rootInfo ''r'') [TreeNode (childNode oneChild 0) []], ws_tasks = tasks,
     ws_visited = 2, ws_firstErr = None\<rparr>"

lemma one_walk:
  "(treeStep (withDefaults smallTree) answersOne)\<^sup>*\<^sup>* (walkStart ''r'') (oneWalked [])"
proof -
  let ?s = "treeStep (withDefaults smallTree) answersOne"
  let ?e = "Expanding [] [''r''] []" and ?anc = "[''c'', ''r'']"
  have "?s (walkStart ''r'') ((walkStart ''r'')\<lparr>ws_tasks := [] @ [Expanding [] [''r''] [oneChild]] @ []\<rparr>)"
    by (rule treeStep.listing [where before = "[]" and answer = "Inr (oneKid ''r'')"])
       (auto simp: walkStart_def answersOne_def oneKid_def rootInfo_def listed_def)
  moreover have "?s ((walkStart ''r'')\<lparr>ws_tasks := [] @ [Expanding [] [''r''] [oneChild]] @ []\<rparr>)
      ((oneWalked [Expanding [] [''r''] [oneChild]])\<lparr>ws_tasks := [] @ Expanding [] [''r''] [] # [] @ [Listing [0] ?anc]\<rparr>)"
    by (rule treeStep.child [where before = "[]" and cs = "[]" and c = oneChild and t = "TreeNode (rootInfo ''r'') []"])
       (auto simp: walkStart_def oneWalked_def expandOne_def rootInfo_def admit_def oneChild_def addChild_def
         childNode_def Let_def)
  moreover have "?s (oneWalked [?e, Listing [0] ?anc]) ((oneWalked [?e, Listing [0] ?anc])\<lparr>ws_tasks := [?e] @ [Expanding [0] ?anc []] @ []\<rparr>)"
    by (rule treeStep.listing [where before = "[?e]" and answer = "Inr (oneKid ''c'')"])
       (auto simp: oneWalked_def answersOne_def oneKid_def childNode_def oneChild_def listed_def)
  moreover have "?s (oneWalked [?e, Expanding [0] ?anc []]) ((oneWalked [?e, Expanding [0] ?anc []])\<lparr>ws_tasks := [?e] @ []\<rparr>)"
    by (rule treeStep.return) (simp add: oneWalked_def)
  moreover have "?s (oneWalked [?e]) ((oneWalked [?e])\<lparr>ws_tasks := [] @ []\<rparr>)"
    by (rule treeStep.return) (simp add: oneWalked_def)
  ultimately show ?thesis
    by (simp add: oneWalked_def)
qed


lemma subtree_busy_exact_witness:
  "\<not> (\<exists>c. below oneKid ''r'' c \<and> ChildSessionBusy c)"
proof -
  have "ChildrenTree answersOne ''r'' smallTree (Some (ws_tree (oneWalked []))) (ws_firstErr (oneWalked []))"
    by (rule ChildrenTree.walked [OF _ one_walk]) (simp_all add: oneWalked_def)
  moreover have "subtreeAnswer (Some (ws_tree (oneWalked []))) = (False, True)"
    by (simp add: subtreeAnswer_def oneWalked_def rootInfo_def childNode_def oneChild_def ChildSessionBusy_def)
  ultimately have "SubtreeBusy answersOne ''r'' smallTree False True (ws_firstErr (oneWalked []))"
    by (auto simp: SubtreeBusy_def)
  from subtree_busy_exact [OF _ _ this, where kids = oneKid] show ?thesis by (simp add: answersOne_def)
qed

end
