(* ===== verification/GoURL.thy ===== *)
theory GoURL
  imports Errors "HOL-Library.Char_ord" "HOL-Library.List_Lexorder"
begin

text \<open>
  What the client uses of the packages net/url, strings and net: escaping and unescaping,
  parsing a URL, resolving a reference against a base, rendering, host and port, folding of
  case, and the addresses that are loopback. The functions follow those of the standard
  library of Go 1.25, the version go.mod names.

  The tables unicode.SimpleFold and unicode.ToLower are data of the Unicode standard and an
  argument where they are used (\<open>runeTables\<close>).

  The lemmas: escaping is undone by unescaping; a path that is validly encoded survives
  setPath and EscapedPath; resolving a path of plain elements appends it to the base's
  directory.
\<close>

section \<open>Strings\<close>

text \<open>strings.Cut at one byte: before, after, and whether it was found.\<close>

definition Cut :: "string \<Rightarrow> char \<Rightarrow> string \<times> string \<times> bool" where
  "Cut s c = (case IndexByte s c of
      Some i \<Rightarrow> (take i s, drop (Suc i) s, True)
    | None \<Rightarrow> (s, [], False))"

fun splitAt :: "char \<Rightarrow> string \<Rightarrow> string list" where
  "splitAt c [] = [[]]"
| "splitAt c (x # s) = (if x = c then [] # splitAt c s
     else (case splitAt c s of e # es \<Rightarrow> (x # e) # es | [] \<Rightarrow> [[x]]))"

record runeTables =
  rt_fold :: "nat \<Rightarrow> nat"
  rt_lower :: "nat \<Rightarrow> nat"

text \<open>\<open>rt_fold\<close> takes a rune to one representative of its SimpleFold orbit.\<close>

definition EqualFold :: "runeTables \<Rightarrow> string \<Rightarrow> string \<Rightarrow> bool" where
  "EqualFold rt s t \<longleftrightarrow> map (rt_fold rt) (runes s) = map (rt_fold rt) (runes t)"

definition ToLower :: "runeTables \<Rightarrow> string \<Rightarrow> string" where
  "ToLower rt s = EncodeRunes (map (rt_lower rt) (runes s))"

definition isLower :: "char \<Rightarrow> bool" where
  "isLower c \<longleftrightarrow> 0x61 \<le> byte c \<and> byte c \<le> 0x7A"

definition isUpper :: "char \<Rightarrow> bool" where
  "isUpper c \<longleftrightarrow> 0x41 \<le> byte c \<and> byte c \<le> 0x5A"

definition isDigit :: "char \<Rightarrow> bool" where
  "isDigit c \<longleftrightarrow> 0x30 \<le> byte c \<and> byte c \<le> 0x39"

definition asciiLower :: "char \<Rightarrow> char" where
  "asciiLower c = (if isUpper c then chr (byte c + 32) else c)"

definition asciiUpper :: "char \<Rightarrow> char" where
  "asciiUpper c = (if isLower c then chr (byte c - 32) else c)"

section \<open>Escaping\<close>

datatype encoding =
    encodePath | encodePathSegment | encodeHost | encodeZone | encodeUserPassword
  | encodeQueryComponent | encodeFragment

definition alnum :: "char \<Rightarrow> bool" where
  "alnum c \<longleftrightarrow> isLower c \<or> isUpper c \<or> isDigit c"

definition shouldEscape :: "char \<Rightarrow> encoding \<Rightarrow> bool" where
  "shouldEscape c mode =
    (if alnum c then False
     else if (mode = encodeHost \<or> mode = encodeZone) \<and> c \<in> set ''!$&'()*+,;=:[]<>\"'' then False
     else if c \<in> set ''-_.~'' then False
     else if c \<in> set ''$&+,/:;=?@'' \<and> mode \<noteq> encodeHost \<and> mode \<noteq> encodeZone then
       (case mode of
          encodePath \<Rightarrow> c = CHR ''?''
        | encodePathSegment \<Rightarrow> c \<in> set ''/;,?''
        | encodeUserPassword \<Rightarrow> c \<in> set ''@/?:''
        | encodeQueryComponent \<Rightarrow> True
        | _ \<Rightarrow> False)
     else if mode = encodeFragment \<and> c \<in> set ''!()*'' then False
     else True)"

definition upperhex :: "nat \<Rightarrow> char" where
  "upperhex n = (if n < 10 then chr (48 + n) else chr (55 + n))"

definition hexByte :: "char \<Rightarrow> string" where
  "hexByte c = [CHR ''%'', upperhex (byte c div 16), upperhex (byte c mod 16)]"

definition escapeChar :: "encoding \<Rightarrow> char \<Rightarrow> string" where
  "escapeChar mode c =
    (if \<not> shouldEscape c mode then [c]
     else if c = CHR '' '' \<and> mode = encodeQueryComponent then ''+''
     else hexByte c)"

definition escape :: "string \<Rightarrow> encoding \<Rightarrow> string" where
  "escape s mode = concat (map (escapeChar mode) s)"

definition PathEscape :: "string \<Rightarrow> string" where
  "PathEscape s = escape s encodePathSegment"

definition QueryEscape :: "string \<Rightarrow> string" where
  "QueryEscape s = escape s encodeQueryComponent"

definition unhex :: "char \<Rightarrow> nat" where
  "unhex c = (if isDigit c then byte c - 48 else if 0x61 \<le> byte c then byte c - 87 else byte c - 55)"

definition ishex :: "char \<Rightarrow> bool" where
  "ishex c \<longleftrightarrow> isDigit c \<or> (0x61 \<le> byte c \<and> byte c \<le> 0x66) \<or> (0x41 \<le> byte c \<and> byte c \<le> 0x46)"

text \<open>The reason of an error, as the parts of its text.\<close>

type_synonym reason = "errpart list"

definition escapeError :: "string \<Rightarrow> reason" where
  "escapeError s = [Txt ''invalid URL escape '', Quoted s]"

definition hostError :: "char \<Rightarrow> reason" where
  "hostError c = [Txt ''invalid character '', Quoted [c], Txt '' in host name'']"

fun mapRight :: "('a \<Rightarrow> 'b) \<Rightarrow> 'e + 'a \<Rightarrow> 'e + 'b" where
  "mapRight f (Inl e) = Inl e"
| "mapRight f (Inr x) = Inr (f x)"

fun unescape :: "string \<Rightarrow> encoding \<Rightarrow> reason + string" where
  "unescape [] mode = Inr []"
| "unescape (c # s) mode =
    (if c = CHR ''%'' then
       (case s of
          a # b # t \<Rightarrow>
            let v = chr (16 * unhex a + unhex b) in
            if \<not> ishex a \<or> \<not> ishex b then Inl (escapeError [c, a, b])
            else if mode = encodeHost \<and> unhex a < 8 \<and> [a, b] \<noteq> ''25'' then Inl (escapeError [c, a, b])
            else if mode = encodeZone \<and> [a, b] \<noteq> ''25'' \<and> v \<noteq> CHR '' '' \<and> shouldEscape v encodeHost then
              Inl (escapeError [c, a, b])
            else mapRight (Cons v) (unescape t mode)
        | _ \<Rightarrow> Inl (escapeError (c # s)))
     else if (mode = encodeHost \<or> mode = encodeZone) \<and> byte c < 0x80 \<and> shouldEscape c mode then
       Inl (hostError c)
     else mapRight
       (Cons (if c = CHR ''+'' \<and> mode = encodeQueryComponent then CHR '' '' else c)) (unescape s mode))"

declare unescape.simps(2) [simp del]

section \<open>Parsing\<close>

text \<open>The userinfo is the name and the password if there is one.\<close>

record url =
  u_Scheme :: string
  u_Opaque :: string
  u_User :: "(string \<times> string option) option"
  u_Host :: string
  u_Path :: string
  u_RawPath :: string
  u_OmitHost :: bool
  u_ForceQuery :: bool
  u_RawQuery :: string
  u_Fragment :: string
  u_RawFragment :: string

definition noURL :: url where
  "noURL = \<lparr>u_Scheme = [], u_Opaque = [], u_User = None, u_Host = [], u_Path = [], u_RawPath = [],
     u_OmitHost = False, u_ForceQuery = False, u_RawQuery = [], u_Fragment = [], u_RawFragment = []\<rparr>"

fun schemeLoop :: "string \<Rightarrow> string \<Rightarrow> string \<Rightarrow> reason + (string \<times> string)" where
  "schemeLoop raw seen [] = Inr ([], raw)"
| "schemeLoop raw seen (c # s) =
    (if isLower c \<or> isUpper c then schemeLoop raw (seen @ [c]) s
     else if isDigit c \<or> c \<in> set ''+-.'' then
       (if seen = [] then Inr ([], raw) else schemeLoop raw (seen @ [c]) s)
     else if c = CHR '':'' then
       (if seen = [] then Inl [Txt ''missing protocol scheme''] else Inr (seen, s))
     else Inr ([], raw))"

definition getScheme :: "string \<Rightarrow> reason + (string \<times> string)" where
  "getScheme raw = schemeLoop raw [] raw"

definition validOptionalPort :: "string \<Rightarrow> bool" where
  "validOptionalPort port = (case port of [] \<Rightarrow> True | c # s \<Rightarrow> c = CHR '':'' \<and> list_all isDigit s)"

definition validUserinfo :: "string \<Rightarrow> bool" where
  "validUserinfo s = list_all (\<lambda>c. alnum c \<or> c \<in> set ''-._:~!$&'()*+,;=%@'') s"

definition portError :: "string \<Rightarrow> reason" where
  "portError port = [Txt ''invalid port '', Quoted port, Txt '' after host'']"

fun IndexOf :: "string \<Rightarrow> string \<Rightarrow> nat option" where
  "IndexOf [] sub = (if sub = [] then Some 0 else None)"
| "IndexOf (c # s) sub = (if HasPrefix (c # s) sub then Some 0 else map_option Suc (IndexOf s sub))"

definition parseHost :: "string \<Rightarrow> reason + string" where
  "parseHost host =
    (if HasPrefix host ''['' then
       (case LastIndex ((=) (CHR '']'')) host of
          None \<Rightarrow> Inl [Txt ''missing ']' in host'']
        | Some i \<Rightarrow>
            if \<not> validOptionalPort (drop (Suc i) host) then Inl (portError (drop (Suc i) host))
            else (case IndexOf (take i host) ''%25'' of
                Some zone \<Rightarrow>
                  (case unescape (take zone host) encodeHost of
                     Inl err \<Rightarrow> Inl err
                   | Inr host1 \<Rightarrow> (case unescape (drop zone (take i host)) encodeZone of
                        Inl err \<Rightarrow> Inl err
                      | Inr host2 \<Rightarrow> (case unescape (drop i host) encodeHost of
                           Inl err \<Rightarrow> Inl err
                         | Inr host3 \<Rightarrow> Inr (host1 @ host2 @ host3))))
              | None \<Rightarrow> unescape host encodeHost))
     else (case LastIndex ((=) (CHR '':'')) host of
         Some i \<Rightarrow> if \<not> validOptionalPort (drop i host) then Inl (portError (drop i host))
                   else unescape host encodeHost
       | None \<Rightarrow> unescape host encodeHost))"

definition parseAuthority :: "string \<Rightarrow> reason + ((string \<times> string option) option \<times> string)" where
  "parseAuthority authority =
    (let at = LastIndex ((=) (CHR ''@'')) authority in
     case parseHost (case at of Some i \<Rightarrow> drop (Suc i) authority | None \<Rightarrow> authority) of
       Inl err \<Rightarrow> Inl err
     | Inr host \<Rightarrow> (case at of
         None \<Rightarrow> Inr (None, host)
       | Some i \<Rightarrow>
           let userinfo = take i authority in
           if \<not> validUserinfo userinfo then Inl [Txt ''net/url: invalid userinfo'']
           else (case Cut userinfo (CHR '':'') of (username, password, found) \<Rightarrow>
             (case unescape username encodeUserPassword of
                Inl err \<Rightarrow> Inl err
              | Inr name \<Rightarrow>
                  if \<not> found then Inr (Some (name, None), host)
                  else (case unescape password encodeUserPassword of
                      Inl err \<Rightarrow> Inl err
                    | Inr pw \<Rightarrow> Inr (Some (name, Some pw), host))))))"

definition setPath :: "string \<Rightarrow> url \<Rightarrow> reason + url" where
  "setPath p u = (case unescape p encodePath of
      Inl err \<Rightarrow> Inl err
    | Inr path \<Rightarrow> Inr (u\<lparr>u_Path := path,
        u_RawPath := (if escape path encodePath = p then [] else p)\<rparr>))"

definition setFragment :: "string \<Rightarrow> url \<Rightarrow> reason + url" where
  "setFragment f u = (case unescape f encodeFragment of
      Inl err \<Rightarrow> Inl err
    | Inr frag \<Rightarrow> Inr (u\<lparr>u_Fragment := frag,
        u_RawFragment := (if escape frag encodeFragment = f then [] else f)\<rparr>))"

definition isCTL :: "char \<Rightarrow> bool" where
  "isCTL c \<longleftrightarrow> byte c < 0x20 \<or> byte c = 0x7F"

text \<open>The path, after the scheme, the query and the authority have been split off.\<close>

definition parseRest :: "url \<Rightarrow> string \<Rightarrow> reason + url" where
  "parseRest u rest =
    (if \<not> HasPrefix rest ''/'' \<and> u_Scheme u \<noteq> [] then Inr (u\<lparr>u_Opaque := rest\<rparr>)
     else if \<not> HasPrefix rest ''/'' \<and> CHR '':'' \<in> set (fst (Cut rest (CHR ''/''))) then
       Inl [Txt ''first path segment in URL cannot contain colon'']
     else if (u_Scheme u \<noteq> [] \<or> \<not> HasPrefix rest ''///'') \<and> HasPrefix rest ''//'' then
       (let authority = drop 2 rest;
            i = (case IndexByte authority (CHR ''/'') of Some i \<Rightarrow> i | None \<Rightarrow> length authority)
        in case parseAuthority (take i authority) of
             Inl err \<Rightarrow> Inl err
           | Inr (user, host) \<Rightarrow> setPath (drop i authority) (u\<lparr>u_User := user, u_Host := host\<rparr>))
     else if u_Scheme u \<noteq> [] \<and> HasPrefix rest ''/'' then setPath rest (u\<lparr>u_OmitHost := True\<rparr>)
     else setPath rest u)"

definition parseURL :: "string \<Rightarrow> reason + url" where
  "parseURL raw =
    (if list_ex isCTL raw then Inl [Txt ''net/url: invalid control character in URL'']
     else if raw = ''*'' then Inr (noURL\<lparr>u_Path := ''*''\<rparr>)
     else (case getScheme raw of
         Inl err \<Rightarrow> Inl err
       | Inr (scheme, rest) \<Rightarrow>
           let u = noURL\<lparr>u_Scheme := map asciiLower scheme\<rparr> in
           if HasSuffix rest ''?'' \<and> CountByte rest (CHR ''?'') = 1 then
             parseRest (u\<lparr>u_ForceQuery := True\<rparr>) (butlast rest)
           else (case Cut rest (CHR ''?'') of (rest, query, _) \<Rightarrow>
             parseRest (u\<lparr>u_RawQuery := query\<rparr>) rest)))"

definition Parse :: "string \<Rightarrow> reason + url" where
  "Parse rawURL = (case Cut rawURL (CHR ''#'') of (raw, frag, _) \<Rightarrow>
    (case parseURL raw of
       Inl err \<Rightarrow> Inl err
     | Inr u \<Rightarrow> if frag = [] then Inr u else setFragment frag u))"

section \<open>Reading and rendering\<close>

definition validEncodedPath :: "string \<Rightarrow> bool" where
  "validEncodedPath s = list_all (\<lambda>c. c \<in> set ''!$&'()*+,;=:@[]%'' \<or> \<not> shouldEscape c encodePath) s"

definition validEncodedFragment :: "string \<Rightarrow> bool" where
  "validEncodedFragment s = list_all (\<lambda>c. c \<in> set ''!$&'()*+,;=:@[]%'' \<or> \<not> shouldEscape c encodeFragment) s"

definition EscapedPath :: "url \<Rightarrow> string" where
  "EscapedPath u =
    (if u_RawPath u \<noteq> [] \<and> validEncodedPath (u_RawPath u) \<and>
        unescape (u_RawPath u) encodePath = Inr (u_Path u) then u_RawPath u
     else if u_Path u = ''*'' then ''*''
     else escape (u_Path u) encodePath)"

definition EscapedFragment :: "url \<Rightarrow> string" where
  "EscapedFragment u =
    (if u_RawFragment u \<noteq> [] \<and> validEncodedFragment (u_RawFragment u) \<and>
        unescape (u_RawFragment u) encodeFragment = Inr (u_Fragment u) then u_RawFragment u
     else escape (u_Fragment u) encodeFragment)"

definition userText :: "string \<times> string option \<Rightarrow> string" where
  "userText user = (case user of
      (name, None) \<Rightarrow> escape name encodeUserPassword
    | (name, Some pw) \<Rightarrow> escape name encodeUserPassword @ '':'' @ escape pw encodeUserPassword)"

definition URLString :: "url \<Rightarrow> string" where
  "URLString u =
    (let scheme = (if u_Scheme u \<noteq> [] then u_Scheme u @ '':'' else []);
         authority =
           (if u_Scheme u = [] \<and> u_Host u = [] \<and> u_User u = None then []
            else if u_OmitHost u \<and> u_Host u = [] \<and> u_User u = None then []
            else (if u_Host u \<noteq> [] \<or> u_Path u \<noteq> [] \<or> u_User u \<noteq> None then ''//'' else [])
              @ (case u_User u of Some user \<Rightarrow> userText user @ ''@'' | None \<Rightarrow> [])
              @ escape (u_Host u) encodeHost);
         path = EscapedPath u;
         front = scheme @ authority @
           (if path \<noteq> [] \<and> \<not> HasPrefix path ''/'' \<and> u_Host u \<noteq> [] then ''/'' else []);
         dot = (if front = [] \<and> CHR '':'' \<in> set (fst (Cut path (CHR ''/''))) then ''./'' else [])
     in (if u_Opaque u \<noteq> [] then scheme @ u_Opaque u else front @ dot @ path)
        @ (if u_ForceQuery u \<or> u_RawQuery u \<noteq> [] then ''?'' @ u_RawQuery u else [])
        @ (if u_Fragment u \<noteq> [] then ''#'' @ EscapedFragment u else []))"

text \<open>url.Values.Encode, with one value per name.\<close>

definition Encode :: "string gomap \<Rightarrow> string" where
  "Encode q = Join (map (\<lambda>k. QueryEscape k @ ''='' @ QueryEscape (the (map_of q k)))
     (sort (map fst q))) ''&''"

definition splitHostPort :: "string \<Rightarrow> string \<times> string" where
  "splitHostPort hostPort =
    (let (host, port) = (case LastIndex ((=) (CHR '':'')) hostPort of
           Some colon \<Rightarrow> if validOptionalPort (drop colon hostPort)
             then (take colon hostPort, drop (Suc colon) hostPort) else (hostPort, [])
         | None \<Rightarrow> (hostPort, []))
     in (if HasPrefix host ''['' \<and> HasSuffix host '']'' then butlast (tl host) else host, port))"

definition Hostname :: "url \<Rightarrow> string" where
  "Hostname u = fst (splitHostPort (u_Host u))"

definition Port :: "url \<Rightarrow> string" where
  "Port u = snd (splitHostPort (u_Host u))"

section \<open>Resolving a reference\<close>

text \<open>resolvePath builds its result behind a leading slash; \<open>built\<close> is what follows that
  slash.\<close>

fun resolveElems :: "string list \<Rightarrow> string \<times> bool \<Rightarrow> string \<times> bool" where
  "resolveElems [] st = st"
| "resolveElems (elem # elems) (built, first) =
    (if elem = ''.'' then resolveElems elems (built, False)
     else if elem = ''..'' then
       (case LastIndex ((=) (CHR ''/'')) built of
          None \<Rightarrow> resolveElems elems ([], True)
        | Some i \<Rightarrow> resolveElems elems (take i built, first))
     else resolveElems elems (built @ (if first then [] else ''/'') @ elem, False))"

definition dotElem :: "string \<Rightarrow> bool" where
  "dotElem e \<longleftrightarrow> e = ''.'' \<or> e = ''..''"

definition resolvePath :: "string \<Rightarrow> string \<Rightarrow> string" where
  "resolvePath base ref =
    (let full = (if ref = [] then base
           else if \<not> HasPrefix ref ''/'' then
             (case LastIndex ((=) (CHR ''/'')) base of
                Some i \<Rightarrow> take (Suc i) base @ ref
              | None \<Rightarrow> ref)
           else ref)
     in if full = [] then []
        else
          let elems = splitAt (CHR ''/'') full;
              r = ''/'' @ fst (resolveElems elems ([], True)) @
                (if dotElem (last elems) then ''/'' else [])
          in if HasPrefix r ''//'' then tl r else r)"

text \<open>setPath of a path that is already escaped; an error leaves the URL as it is.\<close>

definition setPathOf :: "string \<Rightarrow> url \<Rightarrow> url" where
  "setPathOf p u = (case setPath p u of Inr u' \<Rightarrow> u' | Inl _ \<Rightarrow> u)"

definition ResolveReference :: "url \<Rightarrow> url \<Rightarrow> url" where
  "ResolveReference u ref =
    (let v = (if u_Scheme ref = [] then ref\<lparr>u_Scheme := u_Scheme u\<rparr> else ref) in
     if u_Scheme ref \<noteq> [] \<or> u_Host ref \<noteq> [] \<or> u_User ref \<noteq> None then
       setPathOf (resolvePath (EscapedPath ref) []) v
     else if u_Opaque ref \<noteq> [] then v\<lparr>u_User := None, u_Host := [], u_Path := []\<rparr>
     else
       let v = (if u_Path ref = [] \<and> \<not> u_ForceQuery ref \<and> u_RawQuery ref = [] then
              (if u_Fragment ref = [] then v\<lparr>u_RawQuery := u_RawQuery u, u_Fragment := u_Fragment u,
                  u_RawFragment := u_RawFragment u\<rparr>
               else v\<lparr>u_RawQuery := u_RawQuery u\<rparr>) else v)
       in if u_Path ref = [] \<and> u_Opaque u \<noteq> [] then
            v\<lparr>u_Opaque := u_Opaque u, u_User := None, u_Host := [], u_Path := []\<rparr>
          else setPathOf (resolvePath (EscapedPath u) (EscapedPath ref))
                 (v\<lparr>u_Host := u_Host u, u_User := u_User u\<rparr>))"

section \<open>Addresses\<close>

text \<open>net.ParseIP, as the sixteen bytes of the address.\<close>

definition decValue :: "string \<Rightarrow> nat" where
  "decValue s = foldl (\<lambda>v c. 10 * v + (byte c - 48)) 0 s"

definition validOctet :: "string \<Rightarrow> bool" where
  "validOctet s \<longleftrightarrow> s \<noteq> [] \<and> list_all isDigit s \<and> (hd s = CHR ''0'' \<longrightarrow> length s = 1) \<and> decValue s \<le> 255"

definition parseIPv4Fields :: "string \<Rightarrow> nat list option" where
  "parseIPv4Fields s =
    (let octets = splitAt (CHR ''.'') s
     in if length octets = 4 \<and> list_all validOctet octets then Some (map decValue octets) else None)"

definition hexValue :: "string \<Rightarrow> nat" where
  "hexValue s = foldl (\<lambda>v c. 16 * v + unhex c) 0 s"

text \<open>The loop over the groups: the bytes parsed, where the ellipsis was, and the rest of the
  text; the first argument is how many groups still fit.\<close>

fun groupLoop :: "nat \<Rightarrow> string \<Rightarrow> nat list \<Rightarrow> nat option \<Rightarrow> (nat list \<times> nat option \<times> string) option" where
  "groupLoop 0 s ip ellipsis = Some (ip, ellipsis, s)"
| "groupLoop (Suc n) s ip ellipsis =
    (let digits = takeWhile ishex s; rest = dropWhile ishex s in
     if digits = [] \<or> 4 < length digits then None
     else if HasPrefix rest ''.'' then
       (if (ellipsis = None \<and> length ip \<noteq> 12) \<or> 16 < length ip + 4 then None
        else (case parseIPv4Fields s of
            None \<Rightarrow> None
          | Some octets \<Rightarrow> Some (ip @ octets, ellipsis, [])))
     else
       let ip = ip @ [hexValue digits div 256, hexValue digits mod 256] in
       case rest of
         [] \<Rightarrow> Some (ip, ellipsis, [])
       | c # t \<Rightarrow>
           if c \<noteq> CHR '':'' \<or> t = [] then None
           else if hd t = CHR '':'' then
             (if ellipsis \<noteq> None then None
              else if tl t = [] then Some (ip, Some (length ip), [])
              else groupLoop n (tl t) ip (Some (length ip)))
           else groupLoop n t ip ellipsis)"

definition parseIPv6 :: "string \<Rightarrow> nat list option" where
  "parseIPv6 s =
    (let leading = HasPrefix s ''::''; t = (if leading then drop 2 s else s) in
     if leading \<and> t = [] then Some (replicate 16 0)
     else (case groupLoop 8 t [] (if leading then Some 0 else None) of
         None \<Rightarrow> None
       | Some (ip, ellipsis, rest) \<Rightarrow>
           if rest \<noteq> [] then None
           else if length ip < 16 then
             (case ellipsis of
                None \<Rightarrow> None
              | Some e \<Rightarrow> Some (take e ip @ replicate (16 - length ip) 0 @ drop e ip))
           else if ellipsis \<noteq> None then None
           else Some ip))"

definition ParseIP :: "string \<Rightarrow> nat list option" where
  "ParseIP s = (case dropWhile (\<lambda>c. c \<notin> set ''.:%'') s of
      c # _ \<Rightarrow> if c = CHR ''.'' then
          map_option (\<lambda>ip. replicate 10 0 @ [255, 255] @ ip) (parseIPv4Fields s)
        else if c = CHR '':'' \<and> CHR ''%'' \<notin> set s then parseIPv6 s
        else None
    | [] \<Rightarrow> None)"

definition IsLoopback :: "nat list \<Rightarrow> bool" where
  "IsLoopback ip \<longleftrightarrow> (if take 12 ip = replicate 10 0 @ [255, 255] then ip ! 12 = 127
     else ip = replicate 15 0 @ [1])"

section \<open>Escaping is undone by unescaping\<close>

definition plainMode :: "encoding \<Rightarrow> bool" where
  "plainMode m \<longleftrightarrow> m \<noteq> encodeHost \<and> m \<noteq> encodeZone \<and> m \<noteq> encodeQueryComponent"

lemma byte_upperhex: "n < 16 \<Longrightarrow> byte (upperhex n) = (if n < 10 then 48 + n else 55 + n)"
  by (simp add: upperhex_def)

lemma hex_upperhex:
  assumes "n < 16"
  shows "ishex (upperhex n)" and "unhex (upperhex n) = n" and "alnum (upperhex n)"
  using assms
  by (auto simp: ishex_def unhex_def alnum_def isDigit_def isUpper_def byte_upperhex)

lemma byte_percent [simp]: "byte (CHR ''%'') = 37"
  by (simp add: byte_def)

lemma not_alnum:
  "\<not> alnum (CHR ''%'')" "\<not> alnum (CHR ''/'')" "\<not> alnum (CHR ''?'')" "\<not> alnum (CHR ''#'')"
  "\<not> alnum (CHR '':'')" "\<not> alnum (CHR ''*'')" "\<not> alnum (CHR ''.'')"
  by (simp_all add: alnum_def isLower_def isUpper_def isDigit_def byte_def)

lemma alnum_safe:
  assumes "alnum c"
  shows "c \<noteq> CHR ''%''" "c \<noteq> CHR ''/''" "c \<noteq> CHR ''?''" "c \<noteq> CHR ''#''" "c \<noteq> CHR '':''"
    "c \<noteq> CHR ''*''" "c \<noteq> CHR ''.''" "\<not> isCTL c"
  using assms not_alnum
  by (auto simp: isCTL_def) (auto simp: alnum_def isLower_def isUpper_def isDigit_def)

lemma unescape_hexByte:
  assumes "plainMode m"
  shows "unescape (hexByte c @ s) m = mapRight (Cons c) (unescape s m)"
proof -
  have "byte c < 16 * 16" using byte_less [of c] by simp
  then have n: "byte c div 16 < 16" "byte c mod 16 < 16" by (simp_all add: less_mult_imp_div_less)
  have "chr (16 * (byte c div 16) + byte c mod 16) = c" by simp
  then show ?thesis
    using assms n by (simp add: hexByte_def unescape.simps(2) hex_upperhex plainMode_def)
qed

lemma unescape_kept:
  assumes "c \<noteq> CHR ''%''" "plainMode m"
  shows "unescape (c # s) m = mapRight (Cons c) (unescape s m)"
  using assms by (simp add: unescape.simps(2) plainMode_def)

lemma shouldEscape_percent: "shouldEscape (CHR ''%'') m"
  by (simp add: shouldEscape_def alnum_def isLower_def isUpper_def isDigit_def)

lemma unescape_escapeChar:
  assumes "plainMode m" "plainMode m'"
  shows "unescape (escapeChar m' c @ s) m = mapRight (Cons c) (unescape s m)"
proof (cases "shouldEscape c m'")
  case True
  then show ?thesis using assms by (simp add: escapeChar_def unescape_hexByte plainMode_def)
next
  case False
  then have "c \<noteq> CHR ''%''" using shouldEscape_percent by metis
  then show ?thesis using False assms by (simp add: escapeChar_def unescape_kept)
qed

lemma mapRight_mapRight: "mapRight f (mapRight g x) = mapRight (f \<circ> g) x"
  by (cases x) simp_all

lemma mapRight_Inr: "mapRight f x = Inr y \<longleftrightarrow> (\<exists>z. x = Inr z \<and> y = f z)"
  by (cases x) auto

lemma unescape_escape_append:
  assumes "plainMode m" "plainMode m'"
  shows "unescape (escape t m' @ s) m = mapRight ((@) t) (unescape s m)"
proof (induction t)
  case Nil
  show ?case by (cases "unescape s m") (simp_all add: escape_def)
next
  case (Cons c t)
  have "unescape (escape (c # t) m' @ s) m = unescape (escapeChar m' c @ escape t m' @ s) m"
    by (simp add: escape_def)
  also have "\<dots> = mapRight (Cons c) (mapRight ((@) t) (unescape s m))"
    using Cons by (simp add: unescape_escapeChar [OF assms])
  finally show ?case by (simp add: mapRight_mapRight comp_def)
qed

lemma unescape_escape:
  "plainMode m \<Longrightarrow> plainMode m' \<Longrightarrow> unescape (escape t m') m = Inr t"
  using unescape_escape_append [of m m' t "[]"] by simp

lemma unescape_percent:
  assumes "plainMode m" "unescape (CHR ''%'' # s) m = Inr x"
  shows "\<exists>p q t y. s = p # q # t \<and> ishex p \<and> ishex q \<and> unescape t m = Inr y \<and>
    x = chr (16 * unhex p + unhex q) # y"
proof (cases s)
  case Nil
  then show ?thesis using assms by (simp add: unescape.simps(2))
next
  case (Cons p u)
  show ?thesis
  proof (cases u)
    case Nil
    then show ?thesis using assms Cons by (simp add: unescape.simps(2))
  next
    case (Cons q t)
    then show ?thesis
      using assms \<open>s = p # u\<close>
      by (auto simp: unescape.simps(2) plainMode_def mapRight_Inr Let_def split: if_splits)
  qed
qed

lemma unescape_hex:
  "plainMode m \<Longrightarrow> ishex p \<Longrightarrow> ishex q \<Longrightarrow>
   unescape (CHR ''%'' # p # q # t) m = mapRight (Cons (chr (16 * unhex p + unhex q))) (unescape t m)"
  by (simp add: unescape.simps(2) plainMode_def)

lemma unescape_append:
  assumes "plainMode m" "unescape a m = Inr x"
  shows "unescape (a @ b) m = mapRight ((@) x) (unescape b m)"
  using assms
proof (induction a m arbitrary: x rule: unescape.induct)
  case (1 mode)
  then show ?case by (cases "unescape b mode") simp_all
next
  case (2 c s mode)
  show ?case
  proof (cases "c = CHR ''%''")
    case False
    then obtain y where y: "unescape s mode = Inr y" "x = c # y"
      using "2.prems" by (auto simp: unescape_kept mapRight_Inr)
    moreover have "unescape (s @ b) mode = mapRight ((@) y) (unescape b mode)"
      using False 2 y by (simp add: plainMode_def)
    ultimately show ?thesis
      using False 2 by (simp add: unescape_kept mapRight_mapRight comp_def)
  next
    case True
    have "plainMode mode" "unescape (CHR ''%'' # s) mode = Inr x" using "2.prems" True by simp_all
    then obtain p q t y where s: "s = p # q # t" and h: "ishex p" "ishex q"
      and y: "unescape t mode = Inr y" "x = chr (16 * unhex p + unhex q) # y"
      using unescape_percent by blast
    have "unescape (t @ b) mode = mapRight ((@) y) (unescape b mode)"
      using True h 2 y by (simp add: plainMode_def s)
    then show ?thesis
      using True h 2 y by (simp add: s unescape_hex mapRight_mapRight comp_def)
  qed
qed

text \<open>An escaped path: one that setPath takes and EscapedPath gives back.\<close>

definition goodPath :: "string \<Rightarrow> bool" where
  "goodPath s \<longleftrightarrow> validEncodedPath s \<and> (\<exists>t. unescape s encodePath = Inr t)"

lemma plain_path [simp]: "plainMode encodePath" "plainMode encodePathSegment"
  by (simp_all add: plainMode_def)

lemma goodPath_append: "goodPath a \<Longrightarrow> goodPath b \<Longrightarrow> goodPath (a @ b)"
  by (auto simp: goodPath_def validEncodedPath_def unescape_append)

lemma goodPath_Nil [simp]: "goodPath []"
  by (simp add: goodPath_def validEncodedPath_def)

lemma unescape_slash: "plainMode m \<Longrightarrow> unescape (CHR ''/'' # s) m = mapRight (Cons (CHR ''/'')) (unescape s m)"
  by (rule unescape_kept) simp_all

lemma goodPath_slash [simp]: "goodPath (CHR ''/'' # s) \<longleftrightarrow> goodPath s"
proof -
  have "\<not> shouldEscape (CHR ''/'') encodePath"
    by (simp add: shouldEscape_def)
  then show ?thesis
    by (auto simp: goodPath_def validEncodedPath_def unescape_slash mapRight_Inr)
qed

lemma unescape_split:
  "plainMode m \<Longrightarrow> unescape (a @ CHR ''/'' # b) m = Inr x \<Longrightarrow>
   (\<exists>y. unescape a m = Inr y) \<and> (\<exists>z. unescape b m = Inr z)"
proof (induction a m arbitrary: x rule: unescape.induct)
  case (1 mode)
  then show ?case by (auto simp: unescape_slash mapRight_Inr)
next
  case (2 c s mode)
  show ?case
  proof (cases "c = CHR ''%''")
    case False
    then obtain y where "unescape (s @ CHR ''/'' # b) mode = Inr y"
      using "2.prems" by (auto simp: unescape_kept mapRight_Inr)
    moreover have "\<not> ((mode = encodeHost \<or> mode = encodeZone) \<and> byte c < 0x80 \<and> shouldEscape c mode)"
      using "2.prems" by (simp add: plainMode_def)
    ultimately have "(\<exists>y. unescape s mode = Inr y) \<and> (\<exists>z. unescape b mode = Inr z)"
      using 2 False by blast
    then show ?thesis using False 2 by (auto simp: unescape_kept)
  next
    case True
    have slash: "\<not> ishex (CHR ''/'')" by (simp add: ishex_def isDigit_def byte_def)
    have "plainMode mode" "unescape (CHR ''%'' # s @ CHR ''/'' # b) mode = Inr x"
      using "2.prems" True by simp_all
    then obtain p q t' y where s': "s @ CHR ''/'' # b = p # q # t'" and h: "ishex p" "ishex q"
      and y: "unescape t' mode = Inr y"
      using unescape_percent by blast
    obtain t where s: "s = p # q # t" "t' = t @ CHR ''/'' # b"
      using s' h slash by (cases s; cases "tl s") auto
    then have "(\<exists>y. unescape t mode = Inr y) \<and> (\<exists>z. unescape b mode = Inr z)"
      using 2 True h y by (auto simp: plainMode_def)
    then show ?thesis
      using True h 2 by (auto simp: s unescape_hex)
  qed
qed

lemma goodPath_split: "goodPath (a @ CHR ''/'' # b) \<longleftrightarrow> goodPath a \<and> goodPath b"
proof
  assume g: "goodPath (a @ CHR ''/'' # b)"
  then obtain x where "unescape (a @ CHR ''/'' # b) encodePath = Inr x" by (auto simp: goodPath_def)
  then show "goodPath a \<and> goodPath b"
    using g unescape_split [of encodePath a b x] by (simp add: goodPath_def validEncodedPath_def)
next
  assume "goodPath a \<and> goodPath b"
  then show "goodPath (a @ CHR ''/'' # b)" using goodPath_append [of a "CHR ''/'' # b"] by simp
qed

lemma shouldEscape_segment: "shouldEscape c encodePath \<Longrightarrow> shouldEscape c encodePathSegment"
  by (auto simp: shouldEscape_def split: if_splits)

lemma valid_escape:
  assumes "m = encodePath \<or> m = encodePathSegment"
  shows "validEncodedPath (escape s m)"
proof (induction s)
  case (Cons c s)
  have "validEncodedPath (hexByte c)"
  proof -
    have "byte c < 16 * 16" using byte_less [of c] by simp
    then have "alnum (upperhex (byte c div 16))" "alnum (upperhex (byte c mod 16))"
      by (simp_all add: hex_upperhex less_mult_imp_div_less)
    then show ?thesis by (simp add: validEncodedPath_def hexByte_def shouldEscape_def)
  qed
  moreover have "\<not> shouldEscape c m \<Longrightarrow> \<not> shouldEscape c encodePath"
    using assms shouldEscape_segment by blast
  ultimately have "validEncodedPath (escapeChar m c)"
    using assms by (auto simp: validEncodedPath_def escapeChar_def)
  then show ?case using Cons by (simp add: escape_def validEncodedPath_def)
qed (simp add: escape_def validEncodedPath_def)

lemma goodPath_escape: "m = encodePath \<or> m = encodePathSegment \<Longrightarrow> goodPath (escape s m)"
  using valid_escape [of m s] unescape_escape [of encodePath m s] by (auto simp: goodPath_def)

lemma goodPath_PathEscape [simp]: "goodPath (PathEscape s)"
  by (simp add: PathEscape_def goodPath_escape)

lemma EscapedPath_good: "goodPath (EscapedPath u)"
proof -
  have "goodPath ''*''"
    by (simp add: goodPath_def validEncodedPath_def unescape_kept)
  then show ?thesis by (simp add: EscapedPath_def goodPath_def) (metis goodPath_def goodPath_escape)
qed

lemma setPath_good:
  assumes "goodPath p"
  obtains t where "unescape p encodePath = Inr t"
    "setPath p u = Inr (u\<lparr>u_Path := t, u_RawPath := (if escape t encodePath = p then [] else p)\<rparr>)"
  using assms by (auto simp: goodPath_def setPath_def)

lemma EscapedPath_setPath:
  assumes "goodPath p" "unescape p encodePath = Inr t" "t \<noteq> ''*''"
  shows "EscapedPath (u\<lparr>u_Path := t, u_RawPath := (if escape t encodePath = p then [] else p)\<rparr>) = p"
proof (cases "p = []")
  case True
  then show ?thesis using assms by (simp add: EscapedPath_def escape_def)
next
  case False
  then show ?thesis using assms by (auto simp: EscapedPath_def goodPath_def)
qed

section \<open>The elements of a path\<close>

abbreviation slash :: char where
  "slash \<equiv> CHR ''/''"

lemma splitAt_nonempty [simp]: "splitAt c s \<noteq> []"
  by (induction s) (auto split: list.split)

lemma splitAt_append: "splitAt c (a @ c # b) = splitAt c a @ splitAt c b"
  by (induction a) (auto split: list.split)

lemma splitAt_single: "c \<notin> set s \<Longrightarrow> splitAt c s = [s]"
  by (induction s) auto

lemma Join_Cons: "ss \<noteq> [] \<Longrightarrow> Join (s # ss) sep = s @ sep @ Join ss sep"
  by (cases ss) simp_all

lemma Join_splitAt: "Join (splitAt c s) [c] = s"
proof (induction s)
  case (Cons x s)
  obtain e es where es: "splitAt c s = e # es" by (cases "splitAt c s") simp_all
  then show ?case using Cons by (cases es) auto
qed simp

lemma splitAt_Join:
  "es \<noteq> [] \<Longrightarrow> \<forall>e \<in> set es. c \<notin> set e \<Longrightarrow> splitAt c (Join es [c]) = es"
proof (induction es rule: induct_list012)
  case (3 x y zs)
  have "splitAt c (Join (x # y # zs) [c]) = splitAt c x @ splitAt c (Join (y # zs) [c])"
    by (simp add: splitAt_append)
  then show ?case using 3 by (simp add: splitAt_single)
qed (simp_all add: splitAt_single)

lemma goodPath_Join: "goodPath (Join es [slash]) \<longleftrightarrow> (\<forall>e \<in> set es. goodPath e)"
  by (induction es rule: induct_list012) (simp_all add: goodPath_split)

lemma goodPath_elems: "goodPath s \<longleftrightarrow> (\<forall>e \<in> set (splitAt slash s). goodPath e)"
  using goodPath_Join [of "splitAt slash s"] by (simp add: Join_splitAt)

lemma resolveElems_append: "resolveElems (xs @ ys) st = resolveElems ys (resolveElems xs st)"
  by (induction xs st rule: resolveElems.induct) (auto split: option.split)

lemma resolveElems_plain:
  "ys \<noteq> [] \<Longrightarrow> \<forall>y \<in> set ys. \<not> dotElem y \<Longrightarrow>
   resolveElems ys (built, first) = (built @ (if first then [] else [slash]) @ Join ys [slash], False)"
proof (induction ys arbitrary: built first rule: induct_list012)
  case (3 x y zs)
  have "resolveElems (x # y # zs) (built, first) =
      resolveElems (y # zs) (built @ (if first then [] else [slash]) @ x, False)"
    using 3 by (simp add: dotElem_def)
  then show ?case using "3.IH"(2) "3.prems" by simp
qed (simp_all add: dotElem_def)

definition pathSt :: "string \<times> bool \<Rightarrow> bool" where
  "pathSt st \<longleftrightarrow> goodPath (fst st) \<and> (snd st \<longrightarrow> fst st = [])"

lemma resolveElems_good:
  "pathSt st \<Longrightarrow> \<forall>e \<in> set es. goodPath e \<Longrightarrow> pathSt (resolveElems es st)"
proof (induction es st rule: resolveElems.induct)
  case (2 elem elems built first)
  have cut: "pathSt (take i built, first)" if "LastIndex ((=) slash) built = Some i" for i
  proof -
    have "i < length built" "built ! i = slash" using LastIndex_Some [OF that] by simp_all
    then have "built = take i built @ slash # drop (Suc i) built" using id_take_nth_drop [of i built] by simp
    then have "goodPath (take i built)" using 2(5) goodPath_split unfolding pathSt_def by (metis fst_conv)
    then show ?thesis using 2(5) by (auto simp: pathSt_def)
  qed
  have "pathSt (built @ (if first then [] else [slash]) @ elem, False)"
    using 2(5,6) by (auto simp: pathSt_def intro!: goodPath_append)
  moreover have "pathSt (built, False)" "pathSt ([], True)" using 2(5) by (simp_all add: pathSt_def)
  ultimately show ?case using 2 cut by (auto split: option.split)
qed simp

lemma resolvePath_append:
  assumes base: "base = d @ [slash]" and ref: "ref \<noteq> []" "hd ref \<noteq> slash"
    "\<forall>e \<in> set (splitAt slash ref). \<not> dotElem e" and good: "goodPath base"
  shows "resolvePath base ref = resolvePath base [] @ ref"
    and "goodPath (resolvePath base [])" and "\<exists>e. resolvePath base [] = e @ [slash]"
    and "hd (resolvePath base []) = slash"
proof -
  obtain built first where st: "resolveElems (splitAt slash d) ([], True) = (built, first)"
    by (cases "resolveElems (splitAt slash d) ([], True)")
  define p where "p = built @ (if first then [] else [slash])"
  have "goodPath d" using good goodPath_split [of d "[]"] by (simp add: base)
  then have "pathSt (built, first)"
    using resolveElems_good [of "([], True)" "splitAt slash d"] goodPath_elems [of d]
    by (simp add: st pathSt_def)
  then have p: "goodPath p" "p = [] \<or> (\<exists>e. p = e @ [slash])"
    by (auto simp: pathSt_def p_def intro: goodPath_append)
  have li: "LastIndex ((=) slash) base = Some (length d)"
    unfolding base by (induction d) simp_all
  have nd: "\<not> dotElem (last (splitAt slash (d @ slash # ref)))"
    using ref(3) by (simp add: splitAt_append)
  have nd0: "\<not> dotElem (last (splitAt slash base))"
    by (simp add: base splitAt_append dotElem_def)
  have r: "resolveElems (splitAt slash (d @ slash # ref)) ([], True) = (p @ ref, False)"
    using resolveElems_plain [of "splitAt slash ref" built first] ref(3)
    by (simp add: splitAt_append resolveElems_append st Join_splitAt p_def)
  have r0: "resolveElems (splitAt slash base) ([], True) = (p, False)"
    by (simp add: base splitAt_append resolveElems_append st p_def)
  have pre: "HasPrefix (slash # s) ''//'' \<longleftrightarrow> s \<noteq> [] \<and> hd s = slash" for s
    by (cases s) (auto simp: HasPrefix_def)
  have nh: "\<not> HasPrefix ref ''/''" using ref by (cases ref) (auto simp: HasPrefix_def)
  have full: "take (Suc (length d)) base @ ref = d @ slash # ref" "d @ slash # ref \<noteq> []" "base \<noteq> []"
    by (simp_all add: base)
  have one: "resolvePath base ref = (if HasPrefix (slash # p @ ref) ''//'' then p @ ref else slash # p @ ref)"
    unfolding resolvePath_def using ref(1) by (simp only: nh li full r nd) (simp add: Let_def full r nd)
  have two: "resolvePath base [] = (if HasPrefix (slash # p) ''//'' then p else slash # p)"
    unfolding resolvePath_def by (simp add: Let_def full r0 nd0)
  show "resolvePath base ref = resolvePath base [] @ ref"
    using ref by (simp add: one two pre hd_append)
  show "goodPath (resolvePath base [])" using p(1) by (simp add: two)
  show "\<exists>e. resolvePath base [] = e @ [slash]" using p(2) by (auto simp: two pre)
  show "hd (resolvePath base []) = slash" by (simp add: two pre)
qed

lemma segment_chars:
  assumes "c \<in> set (PathEscape s)"
  shows "c \<noteq> slash \<and> c \<noteq> CHR ''?'' \<and> c \<noteq> CHR ''#'' \<and> \<not> isCTL c"
proof -
  have lit: "list_all (\<lambda>d. \<not> isCTL d \<and> d \<noteq> slash \<and> d \<noteq> CHR ''?'' \<and> d \<noteq> CHR ''#'') ''%-_.~$&+:=@''"
    by (simp add: isCTL_def byte_def)
  have kept: "shouldEscape d encodePathSegment" if "\<not> alnum d" "d \<notin> set ''-_.~$&+:=@''" for d
    using that by (simp add: shouldEscape_def)
  obtain d where "c \<in> set (escapeChar encodePathSegment d)"
    using assms by (auto simp: PathEscape_def escape_def)
  moreover have "byte d < 16 * 16" using byte_less [of d] by simp
  then have "alnum (upperhex (byte d div 16))" "alnum (upperhex (byte d mod 16))"
    by (simp_all add: hex_upperhex less_mult_imp_div_less)
  ultimately have "alnum c \<or> c \<in> set ''%-_.~$&+:=@''"
    using kept [of d] by (auto simp: escapeChar_def hexByte_def split: if_splits)
  then show ?thesis
    using alnum_safe [of c] lit unfolding list_all_iff by blast
qed

lemma PathEscape_alnum: "list_all alnum s \<Longrightarrow> PathEscape s = s"
  by (induction s) (simp_all add: PathEscape_def escape_def escapeChar_def shouldEscape_def)

lemma PathEscape_inverse [simp]: "unescape (PathEscape s) encodePath = Inr s"
  by (simp add: PathEscape_def unescape_escape)

lemma dotElem_PathEscape [simp]: "dotElem (PathEscape s) \<longleftrightarrow> dotElem s"
proof -
  have d: "unescape ''.'' encodePath = Inr ''.''" "unescape ''..'' encodePath = Inr ''..''"
    by (simp_all add: unescape_kept)
  have e: "PathEscape ''.'' = ''.''" "PathEscape ''..'' = ''..''"
    by (simp_all add: PathEscape_def escape_def escapeChar_def shouldEscape_def)
  show ?thesis
    unfolding dotElem_def using d e PathEscape_inverse [of s] by (metis Inr_inject)
qed

section \<open>A reference of escaped segments\<close>

text \<open>\<open>parts\<close> joins the escaped segments.\<close>

definition parts :: "string list \<Rightarrow> string" where
  "parts segments = Join (map PathEscape segments) ''/''"

lemma set_Join: "set (Join es sep) \<subseteq> \<Union>(set ` set es) \<union> set sep"
  by (induction es sep rule: Join.induct) auto

lemma parts_chars:
  assumes "c \<in> set (parts segments)"
  shows "c \<noteq> CHR ''?'' \<and> c \<noteq> CHR ''#'' \<and> \<not> isCTL c"
proof -
  have "c = slash \<or> (\<exists>s \<in> set segments. c \<in> set (PathEscape s))"
    using assms set_Join [of "map PathEscape segments" "''/''"] by (auto simp: parts_def)
  moreover have "\<not> isCTL slash" by (simp add: isCTL_def byte_def)
  ultimately show ?thesis using segment_chars by blast
qed

lemma splitAt_parts: "segments \<noteq> [] \<Longrightarrow> splitAt slash (parts segments) = map PathEscape segments"
  using segment_chars unfolding parts_def by (intro splitAt_Join) auto

lemma goodPath_parts [simp]: "goodPath (parts segments)"
  by (simp add: parts_def goodPath_Join)

lemma Cut_none: "c \<notin> set s \<Longrightarrow> Cut s c = (s, [], False)"
  using IndexByte_None [of s c] by (simp add: Cut_def)

lemma schemeLoop_none:
  "list_all alnum a \<Longrightarrow> t = [] \<or> hd t = slash \<Longrightarrow> schemeLoop raw seen (a @ t) = Inr ([], raw)"
proof (induction a arbitrary: seen)
  case Nil
  have "\<not> isLower slash" "\<not> isUpper slash" "\<not> isDigit slash"
    by (simp_all add: isLower_def isUpper_def isDigit_def byte_def)
  then show ?case using Nil by (cases t) auto
next
  case (Cons c a)
  then show ?case by (auto simp: alnum_def)
qed

lemma parts_first:
  assumes "list_all alnum v" "v \<noteq> []"
  obtains t where "parts (v # segments) = v @ t" "t = [] \<or> hd t = slash"
    "fst (Cut (v @ t) slash) = v"
proof -
  have ns: "slash \<notin> set v" using assms(1) not_alnum by (auto simp: list_all_iff)
  define t where "t = (if segments = [] then [] else slash # parts segments)"
  have cut: "IndexByte (v @ slash # s) slash = Some (length v)" for s
    using ns by (induction v) auto
  have "parts (v # segments) = v @ t"
    using PathEscape_alnum [OF assms(1)] by (simp add: parts_def t_def Join_Cons)
  moreover have "fst (Cut (v @ t) slash) = v"
    using ns cut by (auto simp: t_def Cut_none) (simp add: Cut_def)
  moreover have "t = [] \<or> hd t = slash" by (simp add: t_def)
  ultimately show thesis using that by blast
qed

lemma Parse_parts:
  fixes segments :: "string list"
  assumes v: "list_all alnum v" "v \<noteq> []"
  defines "p \<equiv> parts (v # segments)"
  obtains path where "unescape p encodePath = Inr path" "path \<noteq> []" "hd path \<noteq> CHR ''*''"
    "Parse p = Inr (noURL\<lparr>u_Path := path, u_RawPath := (if escape path encodePath = p then [] else p)\<rparr>)"
proof -
  obtain t where t: "p = v @ t" "t = [] \<or> hd t = slash" "fst (Cut (v @ t) slash) = v"
    unfolding p_def using parts_first [OF v] by blast
  obtain a v' where av: "v = a # v'" "alnum a" using v by (cases v) auto
  have colon: "CHR '':'' \<notin> set v" using v(1) not_alnum by (auto simp: list_all_iff)
  have chars: "CHR ''#'' \<notin> set p" "CHR ''?'' \<notin> set p" "\<not> list_ex isCTL p"
    using parts_chars [of _ "v # segments"] by (auto simp: p_def list_ex_iff)
  obtain path where path: "unescape p encodePath = Inr path"
    using goodPath_parts [of "v # segments"] by (auto simp: p_def goodPath_def)
  have pa: "p = a # v' @ t" by (simp add: t av)
  then have hd: "path \<noteq> [] \<and> hd path = a"
    using path alnum_safe(1) [OF av(2)] by (auto simp: unescape_kept mapRight_Inr)
  have star: "p \<noteq> ''*''" using pa alnum_safe(6) [OF av(2)] by auto
  have scheme: "getScheme p = Inr ([], p)"
    using schemeLoop_none [OF v(1) t(2)] by (simp add: getScheme_def t(1))
  have nq: "\<not> HasSuffix p ''?''"
  proof
    assume "HasSuffix p ''?''"
    then have "CHR ''?'' \<in> set (drop (length p - 1) p)" by (simp add: HasSuffix_def)
    then show False using chars(2) by (meson in_set_dropD)
  qed
  have np: "\<not> HasPrefix p (slash # s)" for s
    using pa alnum_safe(2) [OF av(2)] by (auto simp: HasPrefix_def)
  have rest: "parseRest noURL p = setPath p noURL"
    using np colon t by (simp add: parseRest_def noURL_def)
  have "parseURL p = setPath p noURL"
    using chars star scheme nq rest by (simp add: parseURL_def Cut_none noURL_def)
  then have "Parse p = setPath p noURL"
    using chars by (simp add: Parse_def Cut_none split: sum.split)
  then have "Parse p = Inr (noURL\<lparr>u_Path := path, u_RawPath := (if escape path encodePath = p then [] else p)\<rparr>)"
    using path by (simp add: setPath_def)
  then show thesis
    using that path hd alnum_safe(6) [OF av(2)] by blast
qed

lemma EscapedPath_slash:
  assumes "u_Path b = d @ ''/''" "u_RawPath b = []"
  shows "EscapedPath b = escape d encodePath @ ''/''"
proof -
  have "d @ ''/'' \<noteq> ''*''" by (cases d) auto
  moreover have "escapeChar encodePath slash = ''/''" by (simp add: escapeChar_def shouldEscape_def)
  ultimately show ?thesis using assms by (simp add: EscapedPath_def escape_def)
qed

text \<open>Resolving such a reference against a base whose path ends in a slash appends it to the base's
  directory and keeps the base's scheme, host and userinfo.\<close>

lemma ResolveReference_parts:
  assumes v: "list_all alnum v" "v \<noteq> []" and nodot: "\<forall>s \<in> set segments. \<not> dotElem s"
    and base: "EscapedPath b = d @ ''/''" and ref: "Parse (parts (v # segments)) = Inr ref"
  defines "dir \<equiv> resolvePath (EscapedPath b) []" and "u \<equiv> ResolveReference b ref"
  shows "EscapedPath u = dir @ parts (v # segments)" and "\<exists>e. dir = e @ ''/''"
    and "u_Scheme u = u_Scheme b" and "u_Host u = u_Host b" and "u_User u = u_User b"
    and "u_Opaque u = []" and "u_Fragment u = []" and "\<not> u_ForceQuery u" and "\<exists>e. dir = CHR ''/'' # e"
proof -
  let ?p = "parts (v # segments)"
  obtain path where p: "unescape ?p encodePath = Inr path" "path \<noteq> []" "hd path \<noteq> CHR ''*''"
    and r: "ref = noURL\<lparr>u_Path := path, u_RawPath := (if escape path encodePath = ?p then [] else ?p)\<rparr>"
    using Parse_parts [OF v, of segments] ref by (metis Inr_inject)
  have "path \<noteq> ''*''" using p(3) by auto
  then have er: "EscapedPath ref = ?p"
    unfolding r using p(1) by (intro EscapedPath_setPath) simp_all
  obtain t where t: "?p = v @ t" using parts_first [OF v] by metis
  have hp: "?p \<noteq> []" "hd ?p \<noteq> slash"
    using t v alnum_safe(2) by (cases v; force)+
  have "\<not> dotElem v" using v not_alnum by (auto simp: dotElem_def)
  then have nd: "\<forall>e \<in> set (splitAt slash ?p). \<not> dotElem e"
    using nodot by (simp add: splitAt_parts)
  have gb: "goodPath (EscapedPath b)" by (rule EscapedPath_good)
  note ra = resolvePath_append [OF base hp nd gb]
  have g: "goodPath (dir @ ?p)" using ra(2) unfolding dir_def by (intro goodPath_append) simp_all
  then obtain q where q: "unescape (dir @ ?p) encodePath = Inr q" by (auto simp: goodPath_def)
  obtain d' where d': "dir = slash # d'" using ra(3,4) unfolding dir_def by (metis list.collapse Nil_is_append_conv not_Cons_self2)
  have "q \<noteq> ''*''" using q by (auto simp: d' unescape_slash mapRight_Inr)
  then have es: "EscapedPath (w\<lparr>u_Path := q, u_RawPath := (if escape q encodePath = dir @ ?p then [] else dir @ ?p)\<rparr>) = dir @ ?p" for w
    using g q by (intro EscapedPath_setPath)
  have u: "u = (noURL\<lparr>u_Scheme := u_Scheme b, u_Host := u_Host b, u_User := u_User b, u_Path := q,
      u_RawPath := (if escape q encodePath = dir @ ?p then [] else dir @ ?p)\<rparr>)"
    using p(2) q unfolding u_def ResolveReference_def er ra(1) dir_def [symmetric]
    by (simp add: r noURL_def setPathOf_def setPath_def)
  show "EscapedPath u = dir @ ?p" unfolding u by (rule es)
  show "\<exists>e. dir = e @ ''/''" using ra(3) by (simp add: dir_def)
  show "u_Scheme u = u_Scheme b" "u_Host u = u_Host b" "u_User u = u_User b" "u_Opaque u = []"
    "u_Fragment u = []" "\<not> u_ForceQuery u"
    by (simp_all add: u noURL_def)
  show "\<exists>e. dir = CHR ''/'' # e" using d' by blast
qed

section \<open>Rendering and parsing again\<close>

lemma hexByte_chars: "set (hexByte c) \<subseteq> {d. alnum d} \<union> {CHR ''%''}"
proof -
  have "byte c < 16 * 16" using byte_less [of c] by simp
  then show ?thesis by (simp add: hexByte_def hex_upperhex less_mult_imp_div_less)
qed

lemma plain_chars:
  "list_all (\<lambda>d. d \<noteq> CHR ''#'' \<and> \<not> isCTL d) ''!$&'()*+,;=:@[]%-_.~/<>\"''"
  by (simp add: isCTL_def byte_def)

lemma host_chars:
  assumes "c \<in> set (escape h encodeHost)"
  shows "c \<noteq> slash" "c \<noteq> CHR ''?''" "c \<noteq> CHR ''#''" "c \<noteq> CHR ''@''" "\<not> isCTL c"
proof -
  have kept: "shouldEscape d encodeHost" if "\<not> alnum d" "d \<notin> set ''!$&'()*+,;=:[]<>\"-_.~''" for d
    using that by (simp add: shouldEscape_def)
  obtain d where "c \<in> set (escapeChar encodeHost d)" using assms by (auto simp: escape_def)
  then have c: "alnum c \<or> c \<in> set ''%!$&'()*+,;=:[]<>\"-_.~''"
    using hexByte_chars [of d] kept [of d] by (auto simp: escapeChar_def split: if_splits)
  have "\<not> alnum (CHR ''@'')" by (simp add: alnum_def isLower_def isUpper_def isDigit_def byte_def)
  then have "alnum c \<Longrightarrow> c \<noteq> CHR ''@''" by auto
  then show "c \<noteq> slash" "c \<noteq> CHR ''?''" "c \<noteq> CHR ''#''" "c \<noteq> CHR ''@''" "\<not> isCTL c"
    using c alnum_safe [of c] plain_chars by auto
qed

lemma path_chars:
  assumes "validEncodedPath p" "c \<in> set p"
  shows "c \<noteq> CHR ''?''" "c \<noteq> CHR ''#''" "\<not> isCTL c"
proof -
  have kept: "shouldEscape d encodePath" if "\<not> alnum d" "d \<notin> set ''$&+,/:;=@-_.~''" for d
    using that by (simp add: shouldEscape_def)
  have "c \<in> set ''!$&'()*+,;=:@[]%'' \<or> \<not> shouldEscape c encodePath"
    using assms unfolding validEncodedPath_def list_all_iff by blast
  then have c: "alnum c \<or> c \<in> set ''!$&'()*+,;=:@[]%-_.~/''"
    using kept [of c] by auto
  show "c \<noteq> CHR ''?''" "c \<noteq> CHR ''#''" "\<not> isCTL c"
    using c alnum_safe [of c] plain_chars by auto
qed

lemma query_chars:
  assumes "c \<in> set (Encode q)"
  shows "c \<noteq> CHR ''?''" "c \<noteq> CHR ''#''" "\<not> isCTL c"
proof -
  have kept: "shouldEscape d encodeQueryComponent" if "\<not> alnum d" "d \<notin> set ''-_.~''" for d
    using that by (simp add: shouldEscape_def)
  have esc: "alnum e \<or> e \<in> set ''%+-_.~''" if e: "e \<in> set (QueryEscape s)" for e s
  proof -
    obtain d where "e \<in> set (escapeChar encodeQueryComponent d)"
      using e by (auto simp: QueryEscape_def escape_def)
    then show ?thesis
      using hexByte_chars [of d] kept [of d] by (auto simp: escapeChar_def split: if_splits)
  qed
  have "alnum c \<or> c \<in> set ''%+-_.~=&''"
    using assms set_Join [of "map (\<lambda>k. QueryEscape k @ ''='' @ QueryEscape (the (map_of q k))) (sort (map fst q))" "''&''"]
    by (auto simp: Encode_def dest!: esc subsetD split: if_splits)
  then show "c \<noteq> CHR ''?''" "c \<noteq> CHR ''#''" "\<not> isCTL c"
    using alnum_safe [of c] plain_chars by auto
qed

text \<open>A URL of a request: its host survives being rendered and parsed.\<close>

definition hostKept :: "url \<Rightarrow> bool" where
  "hostKept u \<longleftrightarrow> u_Host u \<noteq> [] \<and> parseHost (escape (u_Host u) encodeHost) = Inr (u_Host u)"

lemma HasSuffix_last: "HasSuffix s [c] \<Longrightarrow> last s = c"
  by (cases s rule: rev_cases) (auto simp: HasSuffix_def)

lemma parseURL_rest:
  assumes s: "s = ''http'' \<or> s = ''https''" and rest: "\<not> list_ex isCTL rest" "\<not> HasSuffix rest ''?''"
    and cut: "Cut rest (CHR ''?'') = (r, query, found)"
  shows "parseURL (s @ CHR '':'' # rest) = parseRest (noURL\<lparr>u_Scheme := s, u_RawQuery := query\<rparr>) r"
proof -
  have g: "getScheme (s @ CHR '':'' # rest) = Inr (s, rest)"
    using s by (auto simp: getScheme_def isLower_def isUpper_def isDigit_def byte_def)
  have l: "map asciiLower s = s"
    using s by (auto simp: asciiLower_def isUpper_def byte_def)
  have "list_all (\<lambda>c. \<not> isCTL c) ''https:''" by (simp add: isCTL_def byte_def)
  then have c: "\<not> list_ex isCTL (s @ CHR '':'' # rest)" using s rest(1) by auto
  have n: "s @ CHR '':'' # rest \<noteq> ''*''" using s by auto
  show ?thesis unfolding parseURL_def g using c n rest(2) l cut by simp
qed

lemma IndexByte_append: "c \<notin> set a \<Longrightarrow> IndexByte (a @ c # b) c = Some (length a)"
  by (induction a) auto

lemma parseRest_authority:
  assumes "u_Scheme w \<noteq> []" "parseHost (escape h encodeHost) = Inr h" "p = slash # p'"
  shows "parseRest w (''//'' @ escape h encodeHost @ p) = setPath p (w\<lparr>u_User := None, u_Host := h\<rparr>)"
proof -
  let ?h = "escape h encodeHost"
  have s: "slash \<notin> set ?h" "CHR ''@'' \<notin> set ?h" using host_chars by blast+
  have "LastIndex ((=) (CHR ''@'')) ?h = None" using s(2) by (auto simp: LastIndex_None)
  then have "parseAuthority ?h = Inr (None, h)" using assms(2) by (simp add: parseAuthority_def)
  then show ?thesis
    using assms(1) IndexByte_append [OF s(1), of p'] by (simp add: parseRest_def HasPrefix_def assms(3))
qed

lemma Parse_rendered:
  assumes scheme: "u_Scheme u = ''http'' \<or> u_Scheme u = ''https''" and host: "hostKept u"
    and plain: "u_User u = None" "u_Opaque u = []" "u_Fragment u = []" "\<not> u_ForceQuery u"
    and path: "EscapedPath u = slash # p'" and query: "u_RawQuery u = Encode q"
  shows "\<exists>v. Parse (URLString u) = Inr v \<and> u_Scheme v = u_Scheme u \<and> u_Host v = u_Host u \<and>
    u_User v = None \<and> u_RawQuery v = u_RawQuery u \<and> EscapedPath v = EscapedPath u"
proof -
  let ?h = "escape (u_Host u) encodeHost" and ?p = "EscapedPath u" and ?q = "u_RawQuery u"
  let ?tail = "if ?q = [] then [] else CHR ''?'' # ?q"
  let ?rest = "''//'' @ ?h @ ?p @ ?tail"
  have gp: "goodPath ?p" by (rule EscapedPath_good)
  have hc: "c \<noteq> CHR ''?'' \<and> c \<noteq> CHR ''#'' \<and> \<not> isCTL c" if "c \<in> set ?h" for c using host_chars that by blast
  have pc: "c \<noteq> CHR ''?'' \<and> c \<noteq> CHR ''#'' \<and> \<not> isCTL c" if "c \<in> set ?p" for c
    using gp path_chars that by (auto simp: goodPath_def)
  have qc: "c \<noteq> CHR ''?'' \<and> c \<noteq> CHR ''#'' \<and> \<not> isCTL c" if "c \<in> set ?q" for c
    using query_chars [of c q] that by (simp add: query)
  have lit: "\<not> isCTL slash" "\<not> isCTL (CHR ''?'')" by (simp_all add: isCTL_def byte_def)
  have noq: "CHR ''?'' \<notin> set (''//'' @ ?h @ ?p)" using hc pc by auto
  have str: "URLString u = u_Scheme u @ CHR '':'' # ?rest"
    using scheme host plain by (auto simp: URLString_def hostKept_def path HasPrefix_def Let_def)
  have clean: "CHR ''#'' \<notin> set ?rest" "\<not> list_ex isCTL ?rest"
    using hc pc qc lit by (auto simp: list_ex_iff)
  have last: "\<not> HasSuffix ?rest ''?''"
  proof
    assume "HasSuffix ?rest ''?''"
    then have "last ?rest = CHR ''?''" by (rule HasSuffix_last)
    moreover have "last ?rest \<in> set ?p \<union> set ?q" by (simp add: path)
    ultimately show False using pc qc by auto
  qed
  have cut: "Cut ?rest (CHR ''?'') = (''//'' @ ?h @ ?p, ?q, ?q \<noteq> [])"
    using noq IndexByte_append [OF noq, of ?q]
    by (cases "?q = []") (simp_all add: Cut_none, simp add: Cut_def)
  obtain t where t: "unescape ?p encodePath = Inr t" using gp by (auto simp: goodPath_def)
  then have star: "t \<noteq> ''*''" by (auto simp: path unescape_slash mapRight_Inr)
  let ?w = "noURL\<lparr>u_Scheme := u_Scheme u, u_RawQuery := ?q\<rparr>"
  have "parseRest ?w (''//'' @ ?h @ ?p) = setPath ?p (?w\<lparr>u_User := None, u_Host := u_Host u\<rparr>)"
    using scheme host by (intro parseRest_authority [OF _ _ path]) (auto simp: hostKept_def)
  then have "parseURL (URLString u) = setPath ?p (?w\<lparr>u_User := None, u_Host := u_Host u\<rparr>)"
    unfolding str parseURL_rest [OF scheme clean(2) last cut] .
  moreover have "CHR ''#'' \<notin> set (URLString u)" using scheme clean(1) by (auto simp: str)
  ultimately have "Parse (URLString u) = setPath ?p (?w\<lparr>u_User := None, u_Host := u_Host u\<rparr>)"
    by (simp add: Parse_def Cut_none split: sum.split)
  then show ?thesis
    using t EscapedPath_setPath [OF gp t star, of "?w\<lparr>u_User := None, u_Host := u_Host u\<rparr>"]
    by (simp add: setPath_def)
qed

subsection \<open>Hosts that survive\<close>

definition plainHost :: "string \<Rightarrow> bool" where
  "plainHost h \<longleftrightarrow> list_all (\<lambda>c. byte c < 0x80 \<and> c \<noteq> CHR ''%'') h"

lemma chr_percent: "chr 37 = CHR ''%''"
  using chr_byte [of "CHR ''%''"] by simp

lemma unescape_host_plain:
  "unescape raw encodeHost = Inr h \<Longrightarrow> plainHost h \<Longrightarrow> h = raw \<and> escape raw encodeHost = raw"
proof (induction raw encodeHost arbitrary: h rule: unescape.induct)
  case (2 c s)
  show ?case
  proof (cases "c = CHR ''%''")
    case True
    obtain p q t where s: "s = p # q # t"
    proof (cases s)
      case Nil
      then show ?thesis using "2.prems" True by (simp add: unescape.simps(2))
    next
      case (Cons p u)
      then show ?thesis using "2.prems" True that by (cases u) (simp_all add: unescape.simps(2))
    qed
    let ?v = "chr (16 * unhex p + unhex q)"
    have h: "\<not> (\<not> ishex p \<or> \<not> ishex q)" "\<not> (unhex p < 8 \<and> [p, q] \<noteq> ''25'')"
      and "\<exists>z. h = ?v # z"
      using "2.prems"(1) True
      by (auto simp: s unescape.simps(2) Let_def mapRight_Inr split: if_splits)
    then have v: "byte ?v < 0x80" "?v \<noteq> CHR ''%''" using "2.prems"(2) by (auto simp: plainHost_def)
    have "unhex q < 16" "unhex p < 16"
      using h(1) by (auto simp: ishex_def unhex_def isDigit_def)
    moreover have "[p, q] = ''25'' \<Longrightarrow> ?v = CHR ''%''"
      using chr_percent by (auto simp: unhex_def isDigit_def byte_def)
    ultimately have False using h(2) v by (cases "unhex p < 8") auto
    then show ?thesis ..
  next
    case False
    then obtain y where y: "unescape s encodeHost = Inr y" "h = c # y"
      and ok: "\<not> (byte c < 0x80 \<and> shouldEscape c encodeHost)"
      using "2.prems"(1) by (auto simp: unescape.simps(2) mapRight_Inr split: if_splits)
    have "y = s \<and> escape s encodeHost = s"
      using 2 False y ok by (auto simp: plainHost_def)
    moreover have "\<not> shouldEscape c encodeHost" using ok y "2.prems"(2) by (simp add: plainHost_def)
    ultimately show ?thesis using y by (simp add: escape_def escapeChar_def)
  qed
qed (simp add: escape_def)

lemma IndexOf_Some: "IndexOf s sub = Some i \<Longrightarrow> \<exists>t. drop i s = sub @ t"
proof (induction s arbitrary: i)
  case (Cons c s)
  then show ?case by (auto simp: HasPrefix_iff split: if_splits)
qed (auto split: if_splits)

lemma parseHost_plain:
  assumes "parseHost raw = Inr h" "plainHost h" "h \<noteq> []"
  shows "hostKept (w\<lparr>u_Host := h\<rparr>)"
proof -
  have "unescape raw encodeHost = Inr h"
  proof (rule ccontr)
    assume n: "unescape raw encodeHost \<noteq> Inr h"
    have "\<exists>i zone x1 x2 x3. IndexOf (take i raw) ''%25'' = Some zone \<and>
        unescape (drop zone (take i raw)) encodeZone = Inr x2 \<and> h = x1 @ x2 @ x3"
      using assms(1) n by (auto simp: parseHost_def Let_def split: if_splits option.splits sum.splits) blast
    then obtain i zone where z: "IndexOf (take i raw) ''%25'' = Some zone"
      and u: "\<exists>x1 x2 x3. unescape (drop zone (take i raw)) encodeZone = Inr x2 \<and> h = x1 @ x2 @ x3"
      by blast
    obtain t where "drop zone (take i raw) = ''%25'' @ t" using IndexOf_Some [OF z] by blast
    moreover have "ishex (CHR ''2'')" "ishex (CHR ''5'')" "chr (16 * unhex (CHR ''2'') + unhex (CHR ''5'')) = CHR ''%''"
      using chr_percent by (simp_all add: ishex_def isDigit_def unhex_def byte_def)
    ultimately have "CHR ''%'' \<in> set h"
      using u by (auto simp: unescape.simps(2) mapRight_Inr)
    then show False using assms(2) by (auto simp: plainHost_def list_all_iff)
  qed
  then have "h = raw \<and> escape raw encodeHost = raw" using unescape_host_plain assms(2) by blast
  then show ?thesis using assms by (simp add: hostKept_def)
qed

lemma Parse_host:
  assumes "Parse s = Inr u" "u_Host u \<noteq> []"
  shows "\<exists>raw. parseHost raw = Inr (u_Host u)"
proof -
  have auth: "parseAuthority a = Inr (user, h) \<Longrightarrow> \<exists>raw. parseHost raw = Inr h" for a user h
    by (auto simp: parseAuthority_def Let_def split: sum.splits option.splits if_splits prod.splits)
  have path: "setPath p w = Inr u' \<Longrightarrow> u_Host u' = u_Host w" for p w u'
    by (auto simp: setPath_def split: sum.splits)
  have rest: "parseRest w r = Inr u' \<Longrightarrow> u_Host w = [] \<Longrightarrow> u_Host u' \<noteq> [] \<Longrightarrow> \<exists>raw. parseHost raw = Inr (u_Host u')"
    for w r u'
    by (auto simp: parseRest_def Let_def split: if_splits sum.splits dest!: path auth)
  have url: "parseURL r = Inr u' \<Longrightarrow> u_Host u' \<noteq> [] \<Longrightarrow> \<exists>raw. parseHost raw = Inr (u_Host u')" for r u'
    by (auto simp: parseURL_def noURL_def Let_def split: if_splits sum.splits prod.splits dest!: rest)
  show ?thesis
    using assms by (auto simp: Parse_def setFragment_def split: prod.splits sum.splits if_splits dest!: url)
qed

lemma Parse_hostKept: "Parse s = Inr u \<Longrightarrow> u_Host u \<noteq> [] \<Longrightarrow> plainHost (u_Host u) \<Longrightarrow> hostKept u"
  using Parse_host [of s u] parseHost_plain [of _ "u_Host u" u] by auto

end
