(* ===== verification/Client.thy ===== *)
theory Client
  imports GoURL Contracts Stream
begin

text \<open>
  client.go: one client of one server. New checks the base URL and applies the options;
  every call resolves its path segments against the base URL, builds a request with the
  client's headers, and sends it through one of the client's three http.Clients, which
  follow a redirect only as \<open>checkRedirect\<close> allows.

  Sending is an argument (\<open>send\<close>): what http.Client.Do returns for a client and a request in
  the caller's state. So are json.Marshal and json.Decoder, which Bodies and Replies have. A response is its status, headers,
  the bytes its body yields and how the body ended (\<open>hr_Fault\<close>, None is io.EOF). Durations
  are numbers of nanoseconds. The client's lock-free fields are a record; the idle monitor a
  stream builds is modelled in IdleMonitor.

  The lemmas: what a redirect can change and what its refusal can say, what New accepts, that
  a path segment stays one segment, and what a bounded download and decode report.
\<close>

section \<open>Configuration\<close>

definition DefaultBaseURL :: string where
  "DefaultBaseURL = ''http://127.0.0.1:6767''"

definition defaultUnaryTimeout :: int where
  "defaultUnaryTimeout = 90 * 1000000000"

definition minResponseHeaderTimeout :: int where
  "minResponseHeaderTimeout = 30 * 1000000000"

definition defaultStreamIdleTimeout :: int where
  "defaultStreamIdleTimeout = 45 * 1000000000"

definition maxRedirects :: nat where
  "maxRedirects = 10"

definition maxResponseBytes :: nat where
  "maxResponseBytes = 33554432"

text \<open>What a request sends: nothing, the bytes of an encoded value, or a stream with the bytes
  it yields and the error it ends in.\<close>

datatype payload =
    NoPayload
  | Bytes string
  | Streamed string "goerr option"

record httpRequest =
  hq_Method :: string
  hq_URL :: url
  hq_Header :: httpHeader
  hq_Body :: payload

type_synonym redirectPolicy = "httpRequest \<Rightarrow> httpRequest list \<Rightarrow> goerr option"

text \<open>The transport New builds with its ResponseHeaderTimeout, or one of the caller's.\<close>

datatype 't transport = OwnTransport int | CallerTransport 't

record 't httpClient =
  hc_Timeout :: int
  hc_CheckRedirect :: "redirectPolicy option"
  hc_Transport :: "'t transport"

record 't client =
  cl_baseURL :: url
  cl_unary :: "'t httpClient"
  cl_stream :: "'t httpClient"
  cl_transfer :: "'t httpClient"
  cl_header :: httpHeader
  cl_idleTimeout :: int
  cl_ownsTransport :: bool

record 't config =
  cfg_origin :: string
  cfg_httpClient :: "'t httpClient option"
  cfg_header :: httpHeader
  cfg_idleTimeout :: int
  cfg_unaryTimeout :: int
  cfg_transferTimeout :: int
  cfg_credentialed :: bool
  cfg_allowPlaintextCredential :: bool

text \<open>An option is its apply function.\<close>

type_synonym 't optionFunc = "'t config \<Rightarrow> goerr + 't config"

section \<open>Headers and cookies of net/http\<close>

definition tokenByte :: "char \<Rightarrow> bool" where
  "tokenByte c \<longleftrightarrow> alnum c \<or> c \<in> set ''!#$%&'*+-.^_`|~''"

fun canonLoop :: "bool \<Rightarrow> string \<Rightarrow> string" where
  "canonLoop upper [] = []"
| "canonLoop upper (c # s) =
    (if upper then asciiUpper c else asciiLower c) # canonLoop (c = CHR ''-'') s"

definition CanonicalHeaderKey :: "string \<Rightarrow> string" where
  "CanonicalHeaderKey s = (if list_all tokenByte s then canonLoop True s else s)"

definition headerSet :: "string \<Rightarrow> string \<Rightarrow> httpHeader \<Rightarrow> httpHeader" where
  "headerSet name v h = gput (CanonicalHeaderKey name) [v] h"

definition cookieValueByte :: "char \<Rightarrow> bool" where
  "cookieValueByte c \<longleftrightarrow> 0x20 \<le> byte c \<and> byte c < 0x7F \<and> c \<noteq> CHR 0x22 \<and> c \<noteq> CHR '';'' \<and> c \<noteq> CHR 0x5C"

text \<open>Cookie.String of a cookie with a name and a value only.\<close>

definition cookieString :: "string \<Rightarrow> string \<Rightarrow> string" where
  "cookieString name v =
    (if name = [] \<or> \<not> list_all tokenByte name then []
     else let v = filter cookieValueByte v in
       name @ ''='' @
         (if CHR '' '' \<in> set v \<or> CHR '','' \<in> set v then [CHR 0x22] @ v @ [CHR 0x22] else v))"

section \<open>Options\<close>

definition optionErr :: "string \<Rightarrow> errpart list \<Rightarrow> goerr" where
  "optionErr name detail = Errorf ([Txt name, Txt '': '', Wrapped (Sentinel ErrInvalidArgument), Txt '': ''] @ detail)"

text \<open>A nil client is None.\<close>

definition WithHTTPClient :: "'t httpClient option \<Rightarrow> 't optionFunc" where
  "WithHTTPClient hc cfg = (case hc of
      None \<Rightarrow> Inl (optionErr ''WithHTTPClient'' [Txt ''nil client''])
    | Some hc \<Rightarrow> Inr (cfg\<lparr>cfg_httpClient := Some hc\<rparr>))"

definition WithAuthHeader :: "string \<Rightarrow> string \<Rightarrow> 't optionFunc" where
  "WithAuthHeader name v cfg =
    (if name = [] then Inl (optionErr ''WithAuthHeader'' [Txt ''empty header name''])
     else Inr (cfg\<lparr>cfg_header := headerSet name v (cfg_header cfg), cfg_credentialed := True\<rparr>))"

definition WithBearerToken :: "string \<Rightarrow> 't optionFunc" where
  "WithBearerToken token cfg =
    (if token = [] then Inl (optionErr ''WithBearerToken'' [Txt ''empty token''])
     else Inr (cfg\<lparr>cfg_header := headerSet ''Authorization'' (''Bearer '' @ token) (cfg_header cfg),
                  cfg_credentialed := True\<rparr>))"

definition WithSessionCookie :: "string \<Rightarrow> string \<Rightarrow> 't optionFunc" where
  "WithSessionCookie name v cfg =
    (if name = [] then Inl (optionErr ''WithSessionCookie'' [Txt ''empty cookie name''])
     else
       let cookie = cookieString name v;
           existing = headerGet (cfg_header cfg) ''Cookie'';
           cookie = (if existing \<noteq> [] then existing @ ''; '' @ cookie else cookie)
       in Inr (cfg\<lparr>cfg_header := headerSet ''Cookie'' cookie (cfg_header cfg), cfg_credentialed := True\<rparr>))"

definition WithInsecureCredentialTransport :: "'t optionFunc" where
  "WithInsecureCredentialTransport cfg = Inr (cfg\<lparr>cfg_allowPlaintextCredential := True\<rparr>)"

definition WithInternalClientOrigin :: "string \<Rightarrow> 't optionFunc" where
  "WithInternalClientOrigin origin cfg =
    (if origin = [] then Inl (Errorf [Wrapped (Sentinel ErrInvalidArgument), Txt '': origin is empty''])
     else Inr (cfg\<lparr>cfg_origin := origin\<rparr>))"

definition WithUserAgent :: "string \<Rightarrow> 't optionFunc" where
  "WithUserAgent userAgent cfg = Inr (cfg\<lparr>cfg_header := headerSet ''User-Agent'' userAgent (cfg_header cfg)\<rparr>)"

definition WithTransferTimeout :: "int \<Rightarrow> 't optionFunc" where
  "WithTransferTimeout d cfg =
    (if d < 0 then Inl (optionErr ''WithTransferTimeout'' [Txt ''negative duration '', Txt (durationText d)])
     else Inr (cfg\<lparr>cfg_transferTimeout := d\<rparr>))"

definition WithUnaryTimeout :: "int \<Rightarrow> 't optionFunc" where
  "WithUnaryTimeout d cfg =
    (if d < 0 then Inl (optionErr ''WithUnaryTimeout'' [Txt ''negative duration '', Txt (durationText d)])
     else Inr (cfg\<lparr>cfg_unaryTimeout := (if d = 0 then defaultUnaryTimeout else d)\<rparr>))"

definition WithStreamIdleTimeout :: "int \<Rightarrow> 't optionFunc" where
  "WithStreamIdleTimeout d cfg =
    (if d < 0 then Inl (optionErr ''WithStreamIdleTimeout'' [Txt ''negative duration '', Txt (durationText d)])
     else Inr (cfg\<lparr>cfg_idleTimeout := (if d = 0 then defaultStreamIdleTimeout else d)\<rparr>))"

fun applyOptions :: "'t optionFunc list \<Rightarrow> 't optionFunc" where
  "applyOptions [] cfg = Inr cfg"
| "applyOptions (opt # opts) cfg = (case opt cfg of
      Inl err \<Rightarrow> Inl err
    | Inr cfg \<Rightarrow> applyOptions opts cfg)"

section \<open>Hosts, ports and schemes\<close>

definition effectivePort :: "url \<Rightarrow> string" where
  "effectivePort u =
    (if Port u \<noteq> [] then Port u
     else if u_Scheme u = ''https'' then ''443''
     else if u_Scheme u = ''http'' then ''80''
     else [])"

definition sameEndpoint :: "runeTables \<Rightarrow> url \<Rightarrow> url \<Rightarrow> bool" where
  "sameEndpoint rt origin next =
    (if \<not> EqualFold rt (Hostname origin) (Hostname next) then False
     else if effectivePort origin = effectivePort next then True
     else u_Scheme origin = ''http'' \<and> u_Scheme next = ''https'' \<and>
       effectivePort origin = ''80'' \<and> effectivePort next = ''443'')"

definition reachableScheme :: "string \<Rightarrow> bool" where
  "reachableScheme scheme \<longleftrightarrow> scheme = ''http'' \<or> scheme = ''https''"

definition isLoopback :: "runeTables \<Rightarrow> url \<Rightarrow> bool" where
  "isLoopback rt u =
    (let host = Hostname u in
     case ParseIP host of
       Some ip \<Rightarrow> IsLoopback ip
     | None \<Rightarrow> (let host = ToLower rt host in host = ''localhost'' \<or> HasSuffix host ''.localhost''))"

definition sendsCredentialInClear :: "runeTables \<Rightarrow> url \<Rightarrow> bool" where
  "sendsCredentialInClear rt u \<longleftrightarrow> u_Scheme u \<noteq> ''https'' \<and> \<not> isLoopback rt u"

definition redactURL :: "url \<Rightarrow> string" where
  "redactURL u = (if u_User u = None then URLString u else URLString (u\<lparr>u_User := None\<rparr>))"

section \<open>Redirects\<close>

text \<open>\<open>via\<close> is the requests made so far, the oldest first; net/http never passes an empty one.\<close>

definition unsafeRedirect :: "string \<Rightarrow> errpart list \<Rightarrow> goerr" where
  "unsafeRedirect host detail = Errorf ([Wrapped (Sentinel ErrUnsafeRedirect), Txt '': '', Txt host] @ detail)"

definition checkRedirect :: "runeTables \<Rightarrow> redirectPolicy" where
  "checkRedirect rt req via =
    (if maxRedirects < length via then
       Some (Errorf [Wrapped (Sentinel ErrUnsafeRedirect), Txt '': stopped after '',
         Num (int maxRedirects), Txt '' redirects''])
     else
       let origin = hd via; from = hq_URL origin; next = hq_URL req in
       if \<not> reachableScheme (u_Scheme next) then
         Some (unsafeRedirect (u_Host from) [Txt '' redirected to scheme '', Quoted (u_Scheme next),
           Txt '', which this package does not speak''])
       else if \<not> sameEndpoint rt from next then
         Some (unsafeRedirect (u_Host from) [Txt '' redirected to '', Txt (u_Host next),
           Txt '', which the base URL does not name; the request's credentials were not sent there''])
       else if u_Scheme from = ''https'' \<and> u_Scheme next \<noteq> ''https'' then
         Some (unsafeRedirect (u_Host from) [Txt '' redirected from https to '', Txt (u_Scheme next),
           Txt '', which would send its credentials in cleartext''])
       else if u_User next \<noteq> None then
         Some (unsafeRedirect (u_Host from) [Txt '' redirected to a location carrying userinfo, which net/http '',
           Txt ''would send as Basic auth on the replayed request''])
       else if hq_Method req \<noteq> hq_Method origin then
         Some (Errorf [Wrapped (Sentinel ErrUnsafeRedirect), Txt '': a redirect rewrote '',
           Txt (hq_Method origin), Txt '' '', Txt (u_Path from), Txt '' as '', Txt (hq_Method req),
           Txt '', which would drop the request body and report the write as a success''])
       else None)"

text \<open>errors.As to a *url.Error: its inner error.\<close>

fun firstSome :: "'a option list \<Rightarrow> 'a option" where
  "firstSome [] = None"
| "firstSome (Some x # xs) = Some x"
| "firstSome (None # xs) = firstSome xs"

fun asURLError :: "goerr \<Rightarrow> goerr option" and partAsURLError :: "errpart \<Rightarrow> goerr option" where
  "asURLError (URLError _ _ e) = Some e"
| "asURLError (Errorf ps) = firstSome (map partAsURLError ps)"
| "asURLError (Joined es) = firstSome (map asURLError es)"
| "asURLError _ = None"
| "partAsURLError (Wrapped e) = asURLError e"
| "partAsURLError _ = None"

definition stripRedirectURL :: "goerr \<Rightarrow> goerr" where
  "stripRedirectURL err =
    (if \<not> errIs ErrUnsafeRedirect err then err
     else (case asURLError err of Some inner \<Rightarrow> inner | None \<Rightarrow> err))"

section \<open>New\<close>

definition startConfig :: "'t config" where
  "startConfig = \<lparr>cfg_origin = [], cfg_httpClient = None, cfg_header = [],
     cfg_idleTimeout = defaultStreamIdleTimeout, cfg_unaryTimeout = 0, cfg_transferTimeout = 0,
     cfg_credentialed = False, cfg_allowPlaintextCredential = False\<rparr>"

definition invalidBase :: "errpart list \<Rightarrow> goerr" where
  "invalidBase detail = Errorf ([Wrapped (Sentinel ErrInvalidArgument), Txt '': ''] @ detail)"

text \<open>The checks New makes of the base URL before it applies an option, and its path with the
  trailing slash.\<close>

definition checkBase :: "string \<Rightarrow> goerr + url" where
  "checkBase baseURL =
    (case Parse (if baseURL = [] then DefaultBaseURL else baseURL) of
       Inl reason \<Rightarrow> Inl (invalidBase ([Txt ''parse base URL: ''] @ reason @
         [Txt '' (value withheld: a base URL may carry a credential)'']))
     | Inr parsed \<Rightarrow>
         if u_Scheme parsed \<noteq> ''http'' \<and> u_Scheme parsed \<noteq> ''https'' then
           Inl (invalidBase [Txt ''base URL '', Quoted (redactURL parsed),
             Txt '': want an http or https scheme, got '', Quoted (u_Scheme parsed)])
         else if u_Host parsed = [] then
           Inl (invalidBase [Txt ''base URL '', Quoted (redactURL parsed), Txt '' has no host''])
         else if u_User parsed \<noteq> None then
           Inl (invalidBase [Txt ''base URL '', Quoted (redactURL parsed),
             Txt '' carries userinfo, which net/http would send as Basic auth on every request; '',
             Txt ''drop it and pass the credential with WithBearerToken, WithAuthHeader or WithSessionCookie''])
         else if \<not> HasSuffix (u_Path parsed) ''/'' then
           Inr (parsed\<lparr>u_Path := u_Path parsed @ ''/''\<rparr>)
         else Inr parsed)"

definition defaultTransport :: "int \<Rightarrow> 't transport" where
  "defaultTransport unaryTimeout = OwnTransport (max unaryTimeout minResponseHeaderTimeout)"

definition buildClient :: "runeTables \<Rightarrow> url \<Rightarrow> 't config \<Rightarrow> 't client" where
  "buildClient rt parsed cfg =
    (let header = (if cfg_origin cfg \<noteq> [] then headerSet ''Origin'' (cfg_origin cfg) (cfg_header cfg)
           else cfg_header cfg);
         base = (case cfg_httpClient cfg of
             Some hc \<Rightarrow> hc
           | None \<Rightarrow>
               let timeout = (if cfg_unaryTimeout cfg = 0 then defaultUnaryTimeout else cfg_unaryTimeout cfg)
               in \<lparr>hc_Timeout = timeout, hc_CheckRedirect = None, hc_Transport = defaultTransport timeout\<rparr>);
         unary = (if 0 < cfg_unaryTimeout cfg then base\<lparr>hc_Timeout := cfg_unaryTimeout cfg\<rparr> else base);
         unary = (case hc_CheckRedirect unary of
             None \<Rightarrow> unary\<lparr>hc_CheckRedirect := Some (checkRedirect rt)\<rparr>
           | Some _ \<Rightarrow> unary)
     in \<lparr>cl_baseURL = parsed, cl_unary = unary, cl_stream = unary\<lparr>hc_Timeout := 0\<rparr>,
         cl_transfer = unary\<lparr>hc_Timeout := cfg_transferTimeout cfg\<rparr>, cl_header = header,
         cl_idleTimeout = cfg_idleTimeout cfg, cl_ownsTransport = Option.is_none (cfg_httpClient cfg)\<rparr>)"

definition New :: "runeTables \<Rightarrow> string \<Rightarrow> 't optionFunc list \<Rightarrow> goerr + 't client" where
  "New rt baseURL opts =
    (case checkBase baseURL of
       Inl err \<Rightarrow> Inl err
     | Inr parsed \<Rightarrow>
         (case applyOptions opts startConfig of
            Inl err \<Rightarrow> Inl err
          | Inr cfg \<Rightarrow>
              if cfg_credentialed cfg \<and> \<not> cfg_allowPlaintextCredential cfg \<and> sendsCredentialInClear rt parsed then
                Inl (invalidBase [Txt ''base URL '', Quoted (redactURL parsed),
                  Txt '' is plain http and its host is not loopback, so a credential would '',
                  Txt ''travel in cleartext; use https, or pass WithInsecureCredentialTransport to accept that''])
              else Inr (buildClient rt parsed cfg)))"

text \<open>\<open>drain\<close> is CloseIdleConnections of a http.Client.\<close>

definition Close :: "('t httpClient \<Rightarrow> 'w \<Rightarrow> 'w) \<Rightarrow> 't client \<Rightarrow> 'w \<Rightarrow> goerr option \<times> 'w" where
  "Close drain c w = (if \<not> cl_ownsTransport c then (None, w) else (None, drain (cl_unary c) w))"

section \<open>Requests\<close>

definition methodText :: "httpMethod \<Rightarrow> string" where
  "methodText m = (case m of GET \<Rightarrow> ''GET'' | POST \<Rightarrow> ''POST'' | PATCH \<Rightarrow> ''PATCH''
     | DELETE \<Rightarrow> ''DELETE'' | PUT \<Rightarrow> ''PUT'')"

fun escapeSegments :: "string list \<Rightarrow> string list \<Rightarrow> goerr + string list" where
  "escapeSegments [] escaped = Inr escaped"
| "escapeSegments (segment # segments) escaped =
    (if segment = ''.'' \<or> segment = ''..'' then
       Inl (Errorf [Wrapped (Sentinel ErrInvalidArgument), Txt '': path segment '', Quoted segment,
         Txt '' would traverse the request path''])
     else escapeSegments segments (escaped @ [PathEscape segment]))"

text \<open>The error of url.Parse.\<close>

definition parseError :: "string \<Rightarrow> reason \<Rightarrow> goerr" where
  "parseError raw reason = URLError ''parse'' raw (Errorf reason)"

definition resolve :: "'t client \<Rightarrow> string list \<Rightarrow> urlQuery \<Rightarrow> goerr + url" where
  "resolve c segments query =
    (case escapeSegments segments [] of
       Inl err \<Rightarrow> Inl err
     | Inr escaped \<Rightarrow>
         let raw = Join escaped ''/'' in
         (case Parse raw of
            Inl reason \<Rightarrow> Inl (Errorf [Wrapped (Sentinel ErrInvalidArgument), Txt '': build request path ['',
              Txt (Join segments '' ''), Txt '']: '', Wrapped (parseError raw reason)])
          | Inr ref \<Rightarrow> Inr ((ResolveReference (cl_baseURL c) ref)\<lparr>u_RawQuery := Encode query\<rparr>)))"

text \<open>http.NewRequest: the URL is rendered and parsed again, and a colon that names no port is
  dropped from its host.\<close>

definition removeEmptyPort :: "string \<Rightarrow> string" where
  "removeEmptyPort host =
    (case LastIndex ((=) (CHR '':'')) host of
       None \<Rightarrow> host
     | Some i \<Rightarrow>
         if (case LastIndex ((=) (CHR '']'')) host of None \<Rightarrow> True | Some j \<Rightarrow> j < i) \<and> Suc i = length host
         then butlast host else host)"

definition NewRequest :: "string \<Rightarrow> string \<Rightarrow> payload \<Rightarrow> goerr + httpRequest" where
  "NewRequest method target body = (case Parse target of
      Inl reason \<Rightarrow> Inl (parseError target reason)
    | Inr u \<Rightarrow> Inr \<lparr>hq_Method = method, hq_URL = u\<lparr>u_Host := removeEmptyPort (u_Host u)\<rparr>,
        hq_Header = [], hq_Body = body\<rparr>)"

type_synonym marshaller = "requestBody \<Rightarrow> goerr + string"

definition newRequest :: "marshaller \<Rightarrow> 't client \<Rightarrow> request \<Rightarrow> goerr + httpRequest" where
  "newRequest marshal c rq =
    (let method = methodText (rq_Method rq) in
     case resolve c (rq_Segments rq) (rq_Query rq) of
       Inl err \<Rightarrow> Inl err
     | Inr target \<Rightarrow>
         (case (if rq_Body rq = NoBody then Inr NoPayload else mapRight Bytes (marshal (rq_Body rq))) of
            Inl err \<Rightarrow> Inl (Errorf [Txt ''encode '', Txt method, Txt '' '', Txt (u_Path target), Txt '' body: '', Wrapped err])
          | Inr body \<Rightarrow>
              (case NewRequest method (URLString target) body of
                 Inl err \<Rightarrow> Inl (Errorf [Txt ''build '', Txt method, Txt '' '', Txt (u_Path target), Txt '' request: '', Wrapped err])
               | Inr req \<Rightarrow>
                   let header = (if rq_Body rq = NoBody then cl_header c
                     else headerSet ''Content-Type'' ''application/json'' (cl_header c))
                   in Inr (req\<lparr>hq_Header := header\<rparr>))))"

section \<open>Exchanges\<close>

record response = httpResponse +
  hr_Fault :: "goerr option"

type_synonym ('t, 'w) sender = "'t httpClient \<Rightarrow> httpRequest \<Rightarrow> 'w \<Rightarrow> (goerr + response) \<times> 'w"

text \<open>json.Decoder.Decode over a body and its end: how many bytes it read, and the value or its
  error. \<open>Discard\<close> is a nil destination.\<close>

type_synonym 'r decoder = "string \<Rightarrow> goerr option \<Rightarrow> nat \<times> (goerr + 'r)"

datatype 'r out = Discard 'r | Into "'r decoder"

definition succeeded :: "response \<Rightarrow> bool" where
  "succeeded resp \<longleftrightarrow> 200 \<le> hr_StatusCode resp \<and> hr_StatusCode resp < 300"

definition apiErrorOf :: "errorJSON \<Rightarrow> response \<Rightarrow> goerr" where
  "apiErrorOf js resp = API (newAPIError js (httpResponse.truncate resp))"

definition decodeBounded :: "'r decoder \<Rightarrow> response \<Rightarrow> string \<Rightarrow> string \<Rightarrow> goerr + 'r" where
  "decodeBounded decode resp method path =
    (let limit = maxResponseBytes + 1;
         (n, decoded) = decode (take limit (hr_Body resp))
           (if limit \<le> length (hr_Body resp) then None else hr_Fault resp)
     in case decoded of
          Inr v \<Rightarrow> Inr v
        | Inl err \<Rightarrow>
            if limit \<le> n then
              Inl (Errorf [Txt ''decode '', Txt method, Txt '' '', Txt path, Txt '' response: '',
                Wrapped (Sentinel ErrResponseTooLarge), Txt '': over '', Num (int maxResponseBytes), Txt '' bytes''])
            else Inl (Errorf [Txt ''decode '', Txt method, Txt '' '', Txt path, Txt '' response: '', Wrapped err]))"

definition intoOut :: "'r out \<Rightarrow> response \<Rightarrow> string \<Rightarrow> string \<Rightarrow> goerr + 'r" where
  "intoOut out resp method path = (case out of
      Discard v \<Rightarrow> Inr v
    | Into decode \<Rightarrow> decodeBounded decode resp method path)"

definition doJSON ::
  "errorJSON \<Rightarrow> marshaller \<Rightarrow> ('t, 'w) sender \<Rightarrow> 't client \<Rightarrow> 'r out \<Rightarrow> ('r, 'w) exchange" where
  "doJSON js marshal send c out rq w =
    (case newRequest marshal c rq of
       Inl err \<Rightarrow> (Inl err, w)
     | Inr req \<Rightarrow>
         let req = req\<lparr>hq_Header := headerSet ''Accept'' ''application/json'' (hq_Header req)\<rparr>;
             path = u_Path (hq_URL req)
         in (case send (cl_unary c) req w of
              (Inl err, w) \<Rightarrow> (Inl (Errorf [Txt (hq_Method req), Txt '' '', Txt path, Txt '': '',
                 Wrapped (stripRedirectURL err)]), w)
            | (Inr resp, w) \<Rightarrow>
                (if \<not> succeeded resp then Inl (apiErrorOf js resp)
                 else intoOut out resp (hq_Method req) path, w)))"

section \<open>Transfers\<close>

text \<open>What a 307 or 308 answer to an upload, which net/http could not follow, is reported as.\<close>

definition classifyUnfollowedRedirect :: "runeTables \<Rightarrow> url \<Rightarrow> response \<Rightarrow> goerr" where
  "classifyUnfollowedRedirect rt origin resp =
    (case Parse (headerGet (hr_Header resp) ''Location'') of
       Inl _ \<Rightarrow> unsafeRedirect (u_Host origin) [Txt '' answered '', Num (hr_StatusCode resp),
         Txt '' with a Location that does not parse'']
     | Inr ref \<Rightarrow>
         let next = ResolveReference origin ref in
         if \<not> reachableScheme (u_Scheme next) \<or> \<not> sameEndpoint rt origin next \<or> u_User next \<noteq> None then
           unsafeRedirect (u_Host origin) [Txt '' answered '', Num (hr_StatusCode resp),
             Txt '' redirecting an upload to '', Txt (u_Host next), Txt '', which the base '',
             Txt ''URL does not name; the request's credentials were not sent there'']
         else Errorf [Wrapped (Sentinel ErrRedirectNotFollowed), Txt '': '', Txt (u_Host origin),
           Txt '' answered '', Num (hr_StatusCode resp), Txt '' for '', Txt (u_Path origin),
           Txt '', and a streamed upload body cannot be '',
           Txt ''replayed to follow it; point the base URL at the route that serves the upload''])"

definition doUpload ::
  "runeTables \<Rightarrow> errorJSON \<Rightarrow> ('t, 'w) sender \<Rightarrow> 't client \<Rightarrow> 'r out \<Rightarrow> string list \<Rightarrow> string \<Rightarrow> payload
   \<Rightarrow> 'w \<Rightarrow> (goerr + 'r) \<times> 'w" where
  "doUpload rt js send c out segments contentType body w =
    (case resolve c segments [] of
       Inl err \<Rightarrow> (Inl err, w)
     | Inr target \<Rightarrow>
         (case NewRequest ''POST'' (URLString target) body of
            Inl err \<Rightarrow> (Inl (Errorf [Txt ''build POST '', Txt (u_Path target), Txt '' request: '', Wrapped err]), w)
          | Inr req \<Rightarrow>
              let req = req\<lparr>hq_Header := headerSet ''Accept'' ''application/json''
                    (headerSet ''Content-Type'' contentType (cl_header c))\<rparr>
              in (case send (cl_transfer c) req w of
                   (Inl err, w) \<Rightarrow> (Inl (Errorf [Txt ''POST '', Txt (u_Path target), Txt '': '',
                      Wrapped (stripRedirectURL err)]), w)
                 | (Inr resp, w) \<Rightarrow>
                     (if hr_StatusCode resp = 307 \<or> hr_StatusCode resp = 308 then
                        Inl (classifyUnfollowedRedirect rt target resp)
                      else if \<not> succeeded resp then Inl (apiErrorOf js resp)
                      else intoOut out resp ''POST'' (u_Path target), w))))"

text \<open>A writer: how many of the bytes copied to it it took, and its error. \<open>copyN\<close> is io.CopyN of a
  body to it.\<close>

type_synonym writer = "string \<Rightarrow> nat \<times> goerr option"

definition copyN :: "writer \<Rightarrow> response \<Rightarrow> nat \<Rightarrow> nat \<times> goerr option" where
  "copyN sink resp n =
    (case sink (take n (hr_Body resp)) of
       (k, Some err) \<Rightarrow> (k, Some err)
     | (k, None) \<Rightarrow>
         if k < min n (length (hr_Body resp)) then (k, Some (External ''short write''))
         else if n \<le> length (hr_Body resp) then (n, None)
         else (k, Some (case hr_Fault resp of Some err \<Rightarrow> err | None \<Rightarrow> Std EOF)))"

definition receive :: "writer \<Rightarrow> response \<Rightarrow> string \<Rightarrow> nat \<Rightarrow> nat \<times> goerr option" where
  "receive sink resp path maxBytes =
    (case copyN sink resp maxBytes of
       (written, Some err) \<Rightarrow>
         if errIsStd EOF err then (written, None)
         else (written, Some (Errorf [Txt ''GET '', Txt path, Txt '': read body: '', Wrapped err]))
     | (written, None) \<Rightarrow>
         if maxBytes < length (hr_Body resp) then
           (written, Some (Errorf [Txt ''GET '', Txt path, Txt '': '', Wrapped (Sentinel ErrTruncated),
             Txt '': body exceeds the caller's '', Num (int maxBytes), Txt ''-byte bound'']))
         else (written, None))"

text \<open>The count and the error are returned together.\<close>

definition doDownload ::
  "errorJSON \<Rightarrow> ('t, 'w) sender \<Rightarrow> 't client \<Rightarrow> string list \<Rightarrow> writer \<Rightarrow> nat \<Rightarrow> 'w
   \<Rightarrow> (nat \<times> goerr option) \<times> 'w" where
  "doDownload js send c segments sink maxBytes w =
    (case resolve c segments [] of
       Inl err \<Rightarrow> ((0, Some err), w)
     | Inr target \<Rightarrow>
         (case NewRequest ''GET'' (URLString target) NoPayload of
            Inl err \<Rightarrow> ((0, Some (Errorf [Txt ''build GET '', Txt (u_Path target), Txt '' request: '', Wrapped err])), w)
          | Inr req \<Rightarrow>
              let req = req\<lparr>hq_Header := cl_header c\<rparr>
              in (case send (cl_transfer c) req w of
                   (Inl err, w) \<Rightarrow> ((0, Some (Errorf [Txt ''GET '', Txt (u_Path target), Txt '': '',
                      Wrapped (stripRedirectURL err)])), w)
                 | (Inr resp, w) \<Rightarrow>
                     (if \<not> succeeded resp then (0, Some (apiErrorOf js resp))
                      else receive sink resp (u_Path target) maxBytes, w))))"

section \<open>Opening a stream\<close>

text \<open>The request of Client.Stream; \<open>ending\<close> is how the read of the body it opened will end.\<close>

definition openStream ::
  "errorJSON \<Rightarrow> marshaller \<Rightarrow> ('t, 'w) sender \<Rightarrow> (response \<Rightarrow> readEnd) \<Rightarrow> 't client \<Rightarrow> string \<Rightarrow> streamOptions
   \<Rightarrow> 'w \<Rightarrow> opened \<times> 'w" where
  "openStream js marshal send ending c sessionID opts w =
    (case newRequest marshal c \<lparr>rq_Method = GET, rq_Segments = [''v1'', ''sessions'', sessionID, ''stream''],
         rq_Query = (if so_Idle opts then gput ''idle'' ''true'' [] else []), rq_Body = NoBody\<rparr> of
       Inl err \<Rightarrow> (RequestFailed err, w)
     | Inr req \<Rightarrow>
         let req = req\<lparr>hq_Header := headerSet ''Cache-Control'' ''no-cache''
               (headerSet ''Accept'' ''text/event-stream'' (hq_Header req))\<rparr>
         in (case send (cl_stream c) req w of
              (Inl err, w) \<Rightarrow> (DoFailed (stripRedirectURL err), w)
            | (Inr resp, w) \<Rightarrow>
                (if hr_StatusCode resp \<noteq> 200 then Refused (newAPIError js (httpResponse.truncate resp))
                 else Opened (hr_Body resp) (ending resp), w)))"

text \<open>Client.Stream over the client: an empty session id sends nothing.\<close>

definition ClientStream where
  "ClientStream js marshal send ending deps cb c opts sessionID w =
    (if sessionID = [] then Stream deps (cl_idleTimeout c) cb opts sessionID
        (RequestFailed (Sentinel ErrInvalidArgument)) w
     else (case openStream js marshal send ending c sessionID opts w of
         (conn, w) \<Rightarrow> Stream deps (cl_idleTimeout c) cb opts sessionID conn w))"

section \<open>Redirects: what a chain can reach\<close>

text \<open>The requests one call may send: the first, then each redirect the policy allows.\<close>

inductive followed :: "runeTables \<Rightarrow> httpRequest list \<Rightarrow> bool" for rt where
  first: "followed rt [req]"
| hop: "followed rt via \<Longrightarrow> checkRedirect rt req via = None \<Longrightarrow> followed rt (via @ [req])"

lemma followed_nonempty: "followed rt via \<Longrightarrow> via \<noteq> []"
  by (induction rule: followed.induct) simp_all

text \<open>What may differ between a request and the redirect of it.\<close>

definition staysWith :: "runeTables \<Rightarrow> httpRequest \<Rightarrow> httpRequest \<Rightarrow> bool" where
  "staysWith rt r0 r \<longleftrightarrow>
     reachableScheme (u_Scheme (hq_URL r)) \<and> sameEndpoint rt (hq_URL r0) (hq_URL r) \<and>
     (u_Scheme (hq_URL r0) = ''https'' \<longrightarrow> u_Scheme (hq_URL r) = ''https'') \<and>
     u_User (hq_URL r) = None \<and> hq_Method r = hq_Method r0"

lemma checkRedirect_None:
  "checkRedirect rt req via = None \<longleftrightarrow> length via \<le> maxRedirects \<and> staysWith rt (hd via) req"
  by (auto simp: checkRedirect_def staysWith_def Let_def simp del: not_None_eq)

lemma checkRedirect_unsafe: "checkRedirect rt req via = Some err \<Longrightarrow> errIs ErrUnsafeRedirect err"
  by (auto simp: checkRedirect_def unsafeRedirect_def Let_def sentinelIs_def split: if_splits)

lemma followed_stays:
  "followed rt via \<Longrightarrow> (\<forall>r \<in> set (tl via). staysWith rt (hd via) r) \<and> length via \<le> Suc maxRedirects"
proof (induction rule: followed.induct)
  case (hop via req)
  then show ?case
    using followed_nonempty [OF hop(1)] by (auto simp: checkRedirect_None hd_append)
qed simp

lemma sameEndpoint_cong:
  "u_Host u = u_Host v \<Longrightarrow> u_Scheme u = u_Scheme v \<Longrightarrow> sameEndpoint rt w u = sameEndpoint rt w v"
  by (simp add: sameEndpoint_def effectivePort_def Hostname_def Port_def)

section \<open>What New accepts\<close>

lemma checkBase_ok:
  assumes "checkBase b = Inr u"
  shows "reachableScheme (u_Scheme u)" "u_Host u \<noteq> []" "u_User u = None" "HasSuffix (u_Path u) ''/''"
proof -
  have s: "HasSuffix (p @ ''/'') ''/''" for p by (simp add: HasSuffix_def)
  show "reachableScheme (u_Scheme u)" "u_Host u \<noteq> []" "u_User u = None" "HasSuffix (u_Path u) ''/''"
    using assms s
    by (auto simp: checkBase_def reachableScheme_def simp del: not_None_eq split: sum.splits if_splits)
qed

lemma checkBase_hostKept:
  assumes "checkBase b = Inr u" "plainHost (u_Host u)"
  shows "hostKept u"
proof -
  obtain p w where w: "Parse p = Inr w" "u_Host w = u_Host u" "u_Host w \<noteq> []"
    using assms(1) by (auto simp: checkBase_def simp del: not_None_eq split: sum.splits if_splits)
  then show ?thesis using Parse_hostKept [of p w] assms(2) by (simp add: hostKept_def)
qed

lemma HasSuffix_slash: "HasSuffix p ''/'' \<longleftrightarrow> (\<exists>d. p = d @ ''/'')"
  by (cases p rule: rev_cases) (auto simp: HasSuffix_def)

lemma New_ok:
  assumes "New rt b opts = Inr c"
  obtains u cfg where "checkBase b = Inr u" "applyOptions opts startConfig = Inr cfg"
    "c = buildClient rt u cfg"
    "cfg_credentialed cfg \<Longrightarrow> \<not> cfg_allowPlaintextCredential cfg \<Longrightarrow> \<not> sendsCredentialInClear rt u"
  using assms by (auto simp: New_def split: sum.splits if_splits)

lemma buildClient_shares:
  "cl_baseURL (buildClient rt u cfg) = u"
  "hc_Transport (cl_stream (buildClient rt u cfg)) = hc_Transport (cl_unary (buildClient rt u cfg))"
  "hc_Transport (cl_transfer (buildClient rt u cfg)) = hc_Transport (cl_unary (buildClient rt u cfg))"
  "hc_CheckRedirect (cl_stream (buildClient rt u cfg)) = hc_CheckRedirect (cl_unary (buildClient rt u cfg))"
  "hc_CheckRedirect (cl_transfer (buildClient rt u cfg)) = hc_CheckRedirect (cl_unary (buildClient rt u cfg))"
  "hc_Timeout (cl_stream (buildClient rt u cfg)) = 0"
  "hc_Timeout (cl_transfer (buildClient rt u cfg)) = cfg_transferTimeout cfg"
  by (simp_all add: buildClient_def Let_def split: option.split)

lemma buildClient_policy:
  "hc_CheckRedirect (cl_unary (buildClient rt u cfg)) =
    (case cfg_httpClient cfg of
       Some hc \<Rightarrow> (case hc_CheckRedirect hc of Some p \<Rightarrow> Some p | None \<Rightarrow> Some (checkRedirect rt))
     | None \<Rightarrow> Some (checkRedirect rt))"
  by (auto simp: buildClient_def Let_def split: option.split)

text \<open>A cookie whose name is not a token is no cookie: the option succeeds, and the header it sets is
  empty.\<close>

lemma cookie_name_dropped:
  assumes "name \<noteq> []" "\<not> list_all tokenByte name" "headerGet (cfg_header cfg) ''Cookie'' = []"
  shows "\<exists>cfg'. WithSessionCookie name v cfg = Inr cfg' \<and> cfg_credentialed cfg' \<and>
    headerGet (cfg_header cfg') ''Cookie'' = []"
proof -
  have "CanonicalHeaderKey ''Cookie'' = ''Cookie''" by code_simp
  then show ?thesis
    using assms by (simp add: WithSessionCookie_def cookieString_def headerSet_def headerGet_def)
qed

section \<open>Segments\<close>

lemma escapeSegments_ok:
  "escapeSegments segments escaped = Inr es \<longleftrightarrow>
   (\<forall>s \<in> set segments. \<not> dotElem s) \<and> es = escaped @ map PathEscape segments"
  by (induction segments arbitrary: escaped) (auto simp: dotElem_def)

lemma resolve_ok:
  assumes "resolve c segments q = Inr u"
  obtains ref where "\<forall>s \<in> set segments. \<not> dotElem s" "Parse (parts segments) = Inr ref"
    "u = (ResolveReference (cl_baseURL c) ref)\<lparr>u_RawQuery := Encode q\<rparr>"
  using assms by (auto simp: resolve_def escapeSegments_ok parts_def Let_def split: sum.splits)

lemma EscapedPath_query [simp]: "EscapedPath (u\<lparr>u_RawQuery := q\<rparr>) = EscapedPath u"
  by (simp add: EscapedPath_def)

lemma EscapedPath_host [simp]: "EscapedPath (u\<lparr>u_Host := h\<rparr>) = EscapedPath u"
  by (simp add: EscapedPath_def)

section \<open>Properties\<close>



text \<open>What a refused redirect says does not depend on the location beyond its scheme, its host and
  whether it carries userinfo: no path, query, fragment or userinfo the server put into a
  Location reaches the error, also not through the wrapper net/http adds.\<close>

theorem refusal_hides_location:
  assumes "checkRedirect rt req via = Some err"
    and "u_Scheme (hq_URL req') = u_Scheme (hq_URL req)" "u_Host (hq_URL req') = u_Host (hq_URL req)"
      "u_User (hq_URL req') = None \<longleftrightarrow> u_User (hq_URL req) = None" "hq_Method req' = hq_Method req"
  shows "checkRedirect rt req' via = Some err \<and> stripRedirectURL (URLError op location err) = err"
proof
  have "sameEndpoint rt (hq_URL (hd via)) (hq_URL req') = sameEndpoint rt (hq_URL (hd via)) (hq_URL req)"
    by (rule sameEndpoint_cong) (simp_all add: assms)
  then have "checkRedirect rt req' via = checkRedirect rt req via"
    unfolding checkRedirect_def Let_def by (simp only: assms(2,3,4,5))
  then show "checkRedirect rt req' via = Some err" using assms(1) by simp
  show "stripRedirectURL (URLError op location err) = err"
    using checkRedirect_unsafe [OF assms(1)] by (simp add: stripRedirectURL_def)
qed

theorem refusal_hides_location_witness:
  "\<forall>rt. \<exists>err. stripRedirectURL (URLError ''Get'' ''ftp://h/?state=secret'' err) = err \<and> errIs ErrUnsafeRedirect err"
proof
  fix rt
  let ?a = "\<lparr>hq_Method = ''GET'', hq_URL = noURL\<lparr>u_Scheme := ''http'', u_Host := ''h''\<rparr>, hq_Header = [], hq_Body = NoPayload\<rparr>"
  let ?b = "\<lparr>hq_Method = ''GET'', hq_URL = noURL\<lparr>u_Scheme := ''ftp'', u_Host := ''h'', u_RawQuery := ''state=secret''\<rparr>, hq_Header = [], hq_Body = NoPayload\<rparr>"
  obtain err where e: "checkRedirect rt ?b [?a] = Some err"
    by (simp add: checkRedirect_def maxRedirects_def reachableScheme_def)
  show "\<exists>err. stripRedirectURL (URLError ''Get'' ''ftp://h/?state=secret'' err) = err \<and> errIs ErrUnsafeRedirect err"
    using refusal_hides_location [OF e refl refl refl refl, of "''Get''" "''ftp://h/?state=secret''"]
      checkRedirect_unsafe [OF e] by blast
qed

text \<open>C11. A client New returns talks http or https to a named host with no userinfo in its base URL; when
  an option carried a credential it is https or loopback unless the caller accepted otherwise.
  Its three http.Clients share one transport and one redirect policy (the caller's, or this
  package's), and a stream has no whole-exchange timeout.\<close>

theorem New_guards:
  assumes "New rt b opts = Inr c"
  shows "\<exists>cfg. applyOptions opts startConfig = Inr cfg \<and>
    reachableScheme (u_Scheme (cl_baseURL c)) \<and> u_Host (cl_baseURL c) \<noteq> [] \<and> u_User (cl_baseURL c) = None \<and>
    (cfg_credentialed cfg \<and> \<not> cfg_allowPlaintextCredential cfg \<longrightarrow>
       u_Scheme (cl_baseURL c) = ''https'' \<or> isLoopback rt (cl_baseURL c)) \<and>
    hc_Transport (cl_stream c) = hc_Transport (cl_unary c) \<and>
    hc_Transport (cl_transfer c) = hc_Transport (cl_unary c) \<and>
    (\<forall>h \<in> {cl_unary c, cl_stream c, cl_transfer c}. hc_CheckRedirect h =
       Some (case Option.bind (cfg_httpClient cfg) hc_CheckRedirect of Some p \<Rightarrow> p | None \<Rightarrow> checkRedirect rt)) \<and>
    hc_Timeout (cl_stream c) = 0"
proof -
  obtain u cfg where u: "checkBase b = Inr u" and cfg: "applyOptions opts startConfig = Inr cfg"
    and c: "c = buildClient rt u cfg"
    and clear: "cfg_credentialed cfg \<Longrightarrow> \<not> cfg_allowPlaintextCredential cfg \<Longrightarrow> \<not> sendsCredentialInClear rt u"
    using New_ok [OF assms] by blast
  have "hc_CheckRedirect (cl_unary c) =
      Some (case Option.bind (cfg_httpClient cfg) hc_CheckRedirect of Some p \<Rightarrow> p | None \<Rightarrow> checkRedirect rt)"
    by (simp add: c buildClient_policy split: option.split)
  moreover have "cfg_credentialed cfg \<and> \<not> cfg_allowPlaintextCredential cfg \<longrightarrow>
      u_Scheme u = ''https'' \<or> isLoopback rt u"
    using clear by (auto simp: sendsCredentialInClear_def)
  ultimately show ?thesis
    using checkBase_ok [OF u] cfg by (auto simp: c buildClient_shares)
qed

lemma checkBase_default:
  "checkBase [] = Inr (noURL\<lparr>u_Scheme := ''http'', u_Host := ''127.0.0.1:6767'', u_Path := ''/''\<rparr>)"
  by code_simp

lemma isLoopback_default:
  "isLoopback rt (noURL\<lparr>u_Scheme := ''http'', u_Host := ''127.0.0.1:6767'', u_Path := ''/''\<rparr>)"
proof -
  have "Hostname (noURL\<lparr>u_Scheme := ''http'', u_Host := ''127.0.0.1:6767'', u_Path := ''/''\<rparr>) = ''127.0.0.1''"
    by code_simp
  moreover have "ParseIP ''127.0.0.1'' = Some (replicate 10 0 @ [255, 255, 127, 0, 0, 1])" by code_simp
  moreover have "IsLoopback (replicate 10 0 @ [255, 255, 127, 0, 0, 1])" by code_simp
  ultimately show ?thesis by (simp add: isLoopback_def)
qed

theorem New_guards_witness:
  "\<forall>rt. \<exists>c :: unit client. New rt [] [WithBearerToken ''t''] = Inr c \<and>
     hc_CheckRedirect (cl_transfer c) = Some (checkRedirect rt)"
proof
  fix rt
  let ?u = "noURL\<lparr>u_Scheme := ''http'', u_Host := ''127.0.0.1:6767'', u_Path := ''/''\<rparr>"
  let ?cfg = "startConfig\<lparr>cfg_header := headerSet ''Authorization'' ''Bearer t'' [], cfg_credentialed := True\<rparr>
     :: unit config"
  have a: "applyOptions [WithBearerToken ''t''] startConfig = Inr ?cfg"
    by (simp add: WithBearerToken_def startConfig_def)
  then have n: "New rt [] [WithBearerToken ''t''] = Inr (buildClient rt ?u ?cfg)"
    using isLoopback_default [of rt] by (simp add: New_def checkBase_default sendsCredentialInClear_def)
  have "hc_CheckRedirect (cl_transfer (buildClient rt ?u ?cfg)) = Some (checkRedirect rt)"
    using New_guards [OF n] a by (auto simp: startConfig_def)
  then show "\<exists>c :: unit client. New rt [] [WithBearerToken ''t''] = Inr c \<and>
      hc_CheckRedirect (cl_transfer c) = Some (checkRedirect rt)"
    using n by blast
qed

text \<open>C10. A path segment stays one segment. A request path is the base URL's directory followed by the
  segments, each escaped; cutting it at its slashes and unescaping gives the segments back,
  whatever bytes they hold, at the base URL's scheme and host. The only segments refused are
  the two that would walk up the path.\<close>

theorem segments_stay:
  assumes "list_all alnum v" "v \<noteq> []" and "EscapedPath (cl_baseURL c) = d @ ''/''"
  shows "case resolve c (v # segments) q of
      Inl err \<Rightarrow> errIs ErrInvalidArgument err \<and> (\<exists>s \<in> set segments. s = ''.'' \<or> s = ''..'')
    | Inr u \<Rightarrow> \<not> (\<exists>s \<in> set segments. s = ''.'' \<or> s = ''..'') \<and>
        (let dir = resolvePath (EscapedPath (cl_baseURL c)) [] in
          take (length dir) (EscapedPath u) = dir \<and> last dir = CHR ''/'' \<and>
          map (\<lambda>e. unescape e encodePath) (splitAt (CHR ''/'') (drop (length dir) (EscapedPath u))) =
            map Inr (v # segments)) \<and>
        u_Scheme u = u_Scheme (cl_baseURL c) \<and> u_Host u = u_Host (cl_baseURL c) \<and>
        u_User u = u_User (cl_baseURL c) \<and> u_RawQuery u = Encode q"
proof (cases "\<exists>s \<in> set segments. dotElem s")
  case True
  have v: "\<not> dotElem v" using assms(1,2) not_alnum by (auto simp: dotElem_def)
  have "\<exists>err. escapeSegments ss acc = Inl err \<and> errIs ErrInvalidArgument err"
    if "\<exists>s \<in> set ss. dotElem s" for ss acc
    using that by (induction ss arbitrary: acc) (auto simp: dotElem_def sentinelIs_def)
  then obtain err where "escapeSegments (v # segments) [] = Inl err" "errIs ErrInvalidArgument err"
    using True by (metis list.set_intros(2))
  then show ?thesis using True by (auto simp: resolve_def dotElem_def)
next
  case False
  let ?p = "parts (v # segments)"
  obtain ref where ref: "Parse ?p = Inr ref" using Parse_parts [OF assms(1,2), of segments] by metis
  let ?u = "ResolveReference (cl_baseURL c) ref"
  have v: "\<not> dotElem v" using assms(1,2) not_alnum by (auto simp: dotElem_def)
  have "escapeSegments (v # segments) [] = Inr (map PathEscape (v # segments))"
    unfolding escapeSegments_ok using False v by auto
  then have r: "resolve c (v # segments) q = Inr (?u\<lparr>u_RawQuery := Encode q\<rparr>)"
    using ref by (simp add: resolve_def parts_def Let_def del: escapeSegments.simps list.map)
  have nd: "\<forall>s \<in> set segments. \<not> dotElem s" using False by blast
  note rr = ResolveReference_parts [OF assms(1,2) nd assms(3) ref]
  have split: "map (\<lambda>e. unescape e encodePath) (splitAt (CHR ''/'') ?p) = map Inr (v # segments)"
    by (simp add: splitAt_parts comp_def)
  let ?dir = "resolvePath (EscapedPath (cl_baseURL c)) []"
  have path: "take (length ?dir) (EscapedPath ?u) = ?dir" "drop (length ?dir) (EscapedPath ?u) = ?p"
    using rr(1) by simp_all
  have "last ?dir = CHR ''/''" using rr(2) by auto
  moreover have "\<not> (\<exists>s \<in> set segments. s = ''.'' \<or> s = ''..'')"
    using False unfolding dotElem_def .
  ultimately show ?thesis
    unfolding r sum.case Let_def EscapedPath_query path split using rr(3,4,5) by simp
qed

theorem segments_stay_witness:
  "\<forall>rt. \<exists>u. resolve (buildClient rt (noURL\<lparr>u_Scheme := ''https'', u_Host := ''h'', u_Path := ''/''\<rparr>) startConfig :: unit client)
     [''v1'', ''sessions'', ''a/../b?c''] [] = Inr u \<and> u_Host u = ''h''"
proof
  fix rt
  let ?c = "buildClient rt (noURL\<lparr>u_Scheme := ''https'', u_Host := ''h'', u_Path := ''/''\<rparr>) startConfig :: unit client"
  have "list_all alnum ''v1''" by code_simp
  moreover have "EscapedPath (cl_baseURL ?c) = [] @ ''/''"
    by (simp add: buildClient_shares) code_simp
  ultimately show "\<exists>u. resolve ?c [''v1'', ''sessions'', ''a/../b?c''] [] = Inr u \<and> u_Host u = ''h''"
    using segments_stay [of "''v1''" ?c "[]" "[''sessions'', ''a/../b?c'']" "[]"]
    by (auto simp: buildClient_shares split: sum.splits)
qed

section \<open>Requests and credentials\<close>

text \<open>The URL of a request: rendering and parsing it again keeps what resolve gave.\<close>

lemma newRequest_target:
  assumes base: "reachableScheme (u_Scheme (cl_baseURL c))" "hostKept (cl_baseURL c)" "u_User (cl_baseURL c) = None"
      "EscapedPath (cl_baseURL c) = d @ ''/''"
    and v: "rq_Segments rq = v # segments" "list_all alnum v" "v \<noteq> []"
    and req: "newRequest marshal c rq = Inr req"
  obtains u where "resolve c (rq_Segments rq) (rq_Query rq) = Inr u"
    "u_Scheme (hq_URL req) = u_Scheme (cl_baseURL c)"
    "u_Host (hq_URL req) = removeEmptyPort (u_Host (cl_baseURL c))" "u_User (hq_URL req) = None"
    "EscapedPath (hq_URL req) = EscapedPath u" "u_RawQuery (hq_URL req) = Encode (rq_Query rq)"
    "hq_Method req = methodText (rq_Method rq)"
proof -
  obtain u where u: "resolve c (rq_Segments rq) (rq_Query rq) = Inr u"
    using req by (auto simp: newRequest_def Let_def split: sum.splits)
  obtain ref where nd: "\<forall>s \<in> set segments. \<not> dotElem s" and ref: "Parse (parts (v # segments)) = Inr ref"
    and ue: "u = (ResolveReference (cl_baseURL c) ref)\<lparr>u_RawQuery := Encode (rq_Query rq)\<rparr>"
    using resolve_ok [OF u] unfolding v(1) by (metis list.set_intros(2))
  note rr = ResolveReference_parts [OF v(2,3) nd base(4) ref]
  obtain e where e: "EscapedPath u = CHR ''/'' # e" using rr(1,9) by (auto simp: ue)
  have "hostKept u" using base(2) rr(4) by (simp add: hostKept_def ue)
  moreover have "u_Scheme u = ''http'' \<or> u_Scheme u = ''https''"
    using base(1) rr(3) by (simp add: reachableScheme_def ue)
  ultimately obtain w where w: "Parse (URLString u) = Inr w" "u_Scheme w = u_Scheme u" "u_Host w = u_Host u"
      "u_User w = None" "u_RawQuery w = u_RawQuery u" "EscapedPath w = EscapedPath u"
    using Parse_rendered [of u e "rq_Query rq"] rr base(3) e by (auto simp: ue)
  have "hq_URL req = w\<lparr>u_Host := removeEmptyPort (u_Host w)\<rparr>" "hq_Method req = methodText (rq_Method rq)"
    using req u w(1) by (auto simp: newRequest_def NewRequest_def Let_def split: sum.splits)
  then show thesis
    using that [OF u] w rr(3,4) by (simp add: ue)
qed


definition localBase :: url where
  "localBase = noURL\<lparr>u_Scheme := ''http'', u_Host := ''127.0.0.1:6767'', u_Path := ''/''\<rparr>"

lemma localBase_ok: "plainHost (u_Host localBase)" "EscapedPath localBase = ''/''"
  by code_simp+

lemma local_New:
  "New rt [] [WithBearerToken ''t''] = Inr (buildClient rt localBase
     (startConfig\<lparr>cfg_header := headerSet ''Authorization'' ''Bearer t'' [], cfg_credentialed := True\<rparr>))"
  using isLoopback_default [of rt]
  by (simp add: New_def checkBase_default sendsCredentialInClear_def WithBearerToken_def startConfig_def localBase_def)


section \<open>Transfers\<close>

text \<open>What a writer may do: take no more than it was given, and all of it unless it fails; its errors
  are not io.EOF.\<close>

definition honest :: "writer \<Rightarrow> bool" where
  "honest sink \<longleftrightarrow> (\<forall>s. fst (sink s) \<le> length s \<and> (snd (sink s) = None \<longrightarrow> fst (sink s) = length s) \<and>
     (\<forall>err. snd (sink s) = Some err \<longrightarrow> \<not> errIsStd EOF err))"

text \<open>The body ended as a body should.\<close>

definition endedWell :: "response \<Rightarrow> bool" where
  "endedWell resp \<longleftrightarrow> (case hr_Fault resp of None \<Rightarrow> True | Some err \<Rightarrow> errIsStd EOF err)"

text \<open>C12. A download writes at most its bound. It reports success exactly when the writer took the whole
  body and the body fits the bound and either ended well or filled the bound exactly; a body
  that goes on past the bound is ErrTruncated with the bound written. So a body cut off just at
  the bound is reported as a complete file.\<close>

theorem download_reports:
  assumes "honest sink" and "receive sink resp path mx = (n, err)"
  shows "n \<le> mx \<and>
    (err = None \<longleftrightarrow> sink (take mx (hr_Body resp)) = (length (hr_Body resp), None) \<and>
       length (hr_Body resp) \<le> mx \<and> (endedWell resp \<or> length (hr_Body resp) = mx)) \<and>
    (mx < length (hr_Body resp) \<and> snd (sink (take mx (hr_Body resp))) = None \<longrightarrow>
       n = mx \<and> (\<exists>e. err = Some e \<and> errIs ErrTruncated e))"
proof -
  let ?b = "hr_Body resp"
  obtain k werr where k: "sink (take mx ?b) = (k, werr)" by (cases "sink (take mx ?b)")
  have h: "k \<le> min mx (length ?b)" "werr = None \<Longrightarrow> k = min mx (length ?b)"
    "werr = Some e \<Longrightarrow> \<not> errIsStd EOF e" for e
    using assms(1) k unfolding honest_def by (metis fst_conv snd_conv length_take min.commute)+
  show ?thesis
  proof (cases werr)
    case (Some e)
    then show ?thesis using h(1) h(3) [OF Some] assms(2) k by (auto simp: receive_def copyN_def)
  next
    case None
    have "errIsStd EOF (Std EOF)" by simp
    then show ?thesis
      using None h(2) [OF None] assms(2) k
      by (auto simp: receive_def copyN_def endedWell_def sentinelIs_def min_def split: if_splits option.splits)
  qed
qed

theorem download_reports_witness:
  "fst (receive (\<lambda>s. (length s, None)) \<lparr>hr_StatusCode = 200, hr_Header = [], hr_Body = ''abc'',
     hr_Fault = Some (External ''connection reset'')\<rparr> ''/f'' 3) \<le> 3 \<and>
   snd (receive (\<lambda>s. (length s, None)) \<lparr>hr_StatusCode = 200, hr_Header = [], hr_Body = ''abc'',
     hr_Fault = Some (External ''connection reset'')\<rparr> ''/f'' 3) = None"
  using download_reports [of "\<lambda>s. (length s, None)" "\<lparr>hr_StatusCode = 200, hr_Header = [], hr_Body = ''abc'',
     hr_Fault = Some (External ''connection reset'')\<rparr>" "''/f''" 3] 
  by (cases "receive (\<lambda>s. (length s, None)) \<lparr>hr_StatusCode = 200, hr_Header = [], hr_Body = ''abc'',
     hr_Fault = Some (External ''connection reset'')\<rparr> ''/f'' 3") (simp add: honest_def)

text \<open>An upload's redirect is reported as unsafe exactly when its location does not parse or
  checkRedirect refuses it, with one exception: a step down from https to http that names the
  same host and port is refused by checkRedirect and reported as one that could not be
  followed.\<close>

theorem upload_redirect_gates:
  fixes rt origin resp
  defines "location \<equiv> Parse (headerGet (hr_Header resp) ''Location'')"
  defines "asRequest u \<equiv> \<lparr>hq_Method = ''POST'', hq_URL = u, hq_Header = [], hq_Body = NoPayload\<rparr>"
  shows "errIs ErrUnsafeRedirect (classifyUnfollowedRedirect rt origin resp) =
    (case location of
       Inl _ \<Rightarrow> True
     | Inr ref \<Rightarrow> let next = ResolveReference origin ref in
         checkRedirect rt (asRequest next) [asRequest origin] \<noteq> None \<and>
         \<not> (u_Scheme origin = ''https'' \<and> u_Scheme next = ''http'' \<and> sameEndpoint rt origin next \<and>
            u_User next = None))"
  by (cases location)
     (auto simp: location_def [symmetric] classifyUnfollowedRedirect_def unsafeRedirect_def sentinelIs_def
        checkRedirect_def asRequest_def Let_def maxRedirects_def reachableScheme_def simp del: not_None_eq)

section \<open>What the base URL can lose\<close>

text \<open>New promises that its errors do not quote the base URL: the reason url.Parse gives can. A
  password with a slash in it ends the authority early, and what it has before the slash is
  quoted as an invalid port.\<close>

theorem New_quotes_password:
  "New rt ''https://admin:s3cret/x@example.com'' opts =
    Inl (Errorf [Wrapped (Sentinel ErrInvalidArgument), Txt '': '', Txt ''parse base URL: '',
      Txt ''invalid port '', Quoted '':s3cret'', Txt '' after host'',
      Txt '' (value withheld: a base URL may carry a credential)''])"
proof -
  have "Parse ''https://admin:s3cret/x@example.com'' =
      Inl [Txt ''invalid port '', Quoted '':s3cret'', Txt '' after host'']"
    by code_simp
  then show ?thesis by (simp add: New_def checkBase_def invalidBase_def)
qed

text \<open>New adds the trailing slash to the decoded path only, so a mount prefix with an escaped
  slash is kept when the base URL ends in a slash and changed when it does not.\<close>

theorem mount_prefix_decoded:
  "(\<exists>c u. New rt ''https://h/a%2Fb/'' [] = Inr (c :: unit client) \<and> resolve c [''v1''] [] = Inr u \<and>
      EscapedPath u = ''/a%2Fb/v1'') \<and>
   (\<exists>c u. New rt ''https://h/a%2Fb'' [] = Inr (c :: unit client) \<and> resolve c [''v1''] [] = Inr u \<and>
      EscapedPath u = ''/a/b/v1'')"
proof -
  have new: "New rt b [] = Inr (buildClient rt u startConfig :: unit client)"
    if "checkBase b = Inr u" "u_Scheme u = ''https''" for b u
    using that by (simp add: New_def sendsCredentialInClear_def)
  let ?u = "noURL\<lparr>u_Scheme := ''https'', u_Host := ''h'', u_Path := ''/a/b/'', u_RawPath := ''/a%2Fb/''\<rparr>"
  let ?v = "noURL\<lparr>u_Scheme := ''https'', u_Host := ''h'', u_Path := ''/a/b/'', u_RawPath := ''/a%2Fb''\<rparr>"
  have u: "checkBase ''https://h/a%2Fb/'' = Inr ?u" by code_simp
  have v: "checkBase ''https://h/a%2Fb'' = Inr ?v" by code_simp
  have p: "Parse ''v1'' = Inr (noURL\<lparr>u_Path := ''v1''\<rparr>)" by code_simp
  have r: "resolve (buildClient rt w startConfig :: unit client) [''v1''] [] =
      Inr ((ResolveReference w (noURL\<lparr>u_Path := ''v1''\<rparr>))\<lparr>u_RawQuery := []\<rparr>)" for w
  proof -
    have "PathEscape ''v1'' = ''v1''" by code_simp
    then show ?thesis using p by (simp add: resolve_def buildClient_shares Encode_def)
  qed
  have "EscapedPath (ResolveReference ?u (noURL\<lparr>u_Path := ''v1''\<rparr>)) = ''/a%2Fb/v1''" by code_simp
  moreover have "EscapedPath (ResolveReference ?v (noURL\<lparr>u_Path := ''v1''\<rparr>)) = ''/a/b/v1''" by code_simp
  ultimately show ?thesis
    using new [OF u] new [OF v] r [of ?u] r [of ?v] by (auto simp: noURL_def)
qed

end
