(* ===== verification/Files.thy ===== *)
theory Files
  imports Client Listing
begin

text \<open>
  files.go: the files of a session. Every operation checks its arguments, then makes one request
  of the client on the session's file route: doJSON for the metadata, doUpload for a streamed
  multipart form, doDownload for a bounded copy.

  The form's boundary is an argument (mime/multipart draws it at random). An upload's reader is
  the bytes it yields and the error it ends in. json.Unmarshal into the named fields and into
  a map are arguments of the decoding.

  The lemmas: a file name the guard lets through cannot end a header line, and is the name a
  reader of the form gets back.
\<close>

section \<open>Files\<close>

record sessionFile =
  sf_ID :: string
  sf_Filename :: "string option"
  sf_Bytes :: "int option"
  sf_CreatedAt :: "int option"
  sf_MimeType :: "string option"
  sf_Raw :: jmap

text \<open>Decoding into a file: the error, and the file the receiver is left with.\<close>

definition UnmarshalSessionFile ::
  "(string \<Rightarrow> goerr + sessionFile) \<Rightarrow> (string \<Rightarrow> goerr + jmap) \<Rightarrow> string \<Rightarrow> sessionFile \<Rightarrow> goerr option \<times> sessionFile" where
  "UnmarshalSessionFile named asMap data f =
    (case named data of
       Inl err \<Rightarrow> (Some err, f)
     | Inr decoded \<Rightarrow> (case asMap data of
         Inl err \<Rightarrow> (Some err, decoded)
       | Inr raw \<Rightarrow> (None, decoded\<lparr>sf_Raw := raw\<rparr>)))"

record listFilesOptions =
  lf_Limit :: int
  lf_Order :: string

definition ListFilesOptions_query :: "listFilesOptions \<Rightarrow> urlQuery" where
  "ListFilesOptions_query opts =
    (let query = (if lf_Limit opts \<noteq> 0 then gput ''limit'' (Itoa (lf_Limit opts)) [] else [])
     in if lf_Order opts \<noteq> [] then gput ''order'' (lf_Order opts) query else query)"

definition fileSegments :: "string \<Rightarrow> string list" where
  "fileSegments sessionID = [''v1'', ''sessions'', sessionID, ''resources'', ''files'']"

definition ListFiles :: "('a page, 's) exchange \<Rightarrow> string \<Rightarrow> listFilesOptions \<Rightarrow> ('a walkStep, 's) seq" where
  "ListFiles exch sessionID opts =
    (if sessionID = [] then errSeq (invalid ''list session files'' ''sessionID is required'')
     else pageSeq (pageFetch exch (fileSegments sessionID) (ListFilesOptions_query opts)))"

definition GetFile :: "('r, 'w) exchange \<Rightarrow> string \<Rightarrow> string \<Rightarrow> 'w \<Rightarrow> (goerr + 'r) \<times> 'w" where
  "GetFile exch sessionID fileID w =
    (if sessionID = [] \<or> fileID = [] then
       (Inl (invalid ''get session file'' ''sessionID and fileID are required''), w)
     else exch \<lparr>rq_Method = GET, rq_Segments = fileSegments sessionID @ [fileID], rq_Query = [],
                  rq_Body = NoBody\<rparr> w)"

definition DeleteFile :: "(unit, 'w) exchange \<Rightarrow> string \<Rightarrow> string \<Rightarrow> 'w \<Rightarrow> (goerr + unit) \<times> 'w" where
  "DeleteFile exch sessionID fileID w =
    (if sessionID = [] \<or> fileID = [] then
       (Inl (invalid ''delete session file'' ''sessionID and fileID are required''), w)
     else exch \<lparr>rq_Method = DELETE, rq_Segments = fileSegments sessionID @ [fileID], rq_Query = [],
                  rq_Body = NoBody\<rparr> w)"

section \<open>Upload\<close>

fun unsafeLoop :: "nat list \<Rightarrow> nat option" where
  "unsafeLoop [] = None"
| "unsafeLoop (r # rs) = (if r = 13 \<or> r = 10 \<or> r = 0 then Some r else unsafeLoop rs)"

definition headerUnsafeRune :: "string \<Rightarrow> nat option" where
  "headerUnsafeRune s = unsafeLoop (runes s)"

text \<open>The form of mime/multipart with one file part.\<close>

abbreviation crlf :: string where
  "crlf \<equiv> [CHR 0x0D, CHR 0x0A]"

definition escapeQuotes :: "string \<Rightarrow> string" where
  "escapeQuotes s = concat (map (\<lambda>c. if c = CHR 0x5C \<or> c = CHR 0x22 then [CHR 0x5C, c] else [c]) s)"

definition partHead :: "string \<Rightarrow> string \<Rightarrow> string" where
  "partHead boundary filename =
     ''--'' @ boundary @ crlf @
     ''Content-Disposition: form-data; name='' @ [CHR 0x22] @ ''file'' @ [CHR 0x22] @ ''; filename='' @
       [CHR 0x22] @ escapeQuotes filename @ [CHR 0x22] @ crlf @
     ''Content-Type: application/octet-stream'' @ crlf @ crlf"

definition formTail :: "string \<Rightarrow> string" where
  "formTail boundary = crlf @ ''--'' @ boundary @ ''--'' @ crlf"

definition FormDataContentType :: "string \<Rightarrow> string" where
  "FormDataContentType boundary = ''multipart/form-data; boundary='' @
    (if list_ex (\<lambda>c. c \<in> set ''()<>@,;:/[]?= '' \<or> c = CHR 0x5C \<or> c = CHR 0x22) boundary
     then [CHR 0x22] @ boundary @ [CHR 0x22] else boundary)"

text \<open>What the goroutine writes into the pipe: the whole form, or its head and what the reader
  yielded before it failed, and then the reader's error.\<close>

definition formBody :: "string \<Rightarrow> string \<Rightarrow> string \<times> goerr option \<Rightarrow> payload" where
  "formBody boundary filename content = (case content of
      (bytes, None) \<Rightarrow> Streamed (partHead boundary filename @ bytes @ formTail boundary) None
    | (bytes, Some err) \<Rightarrow> Streamed (partHead boundary filename @ bytes) (Some err))"

text \<open>A nil reader is None.\<close>

definition Upload ::
  "runeTables \<Rightarrow> errorJSON \<Rightarrow> ('t, 'w) sender \<Rightarrow> 't client \<Rightarrow> 'r out \<Rightarrow> string \<Rightarrow> string \<Rightarrow> string
   \<Rightarrow> (string \<times> goerr option) option \<Rightarrow> 'w \<Rightarrow> (goerr + 'r) \<times> 'w" where
  "Upload rt js send c out boundary sessionID filename content w =
    (if sessionID = [] then (Inl (invalid ''upload session file'' ''sessionID is required''), w)
     else if filename = [] then (Inl (invalid ''upload session file'' ''filename is required''), w)
     else (case headerUnsafeRune filename of
         Some bad \<Rightarrow> (Inl (Errorf [Txt ''upload session file: '', Wrapped (Sentinel ErrInvalidArgument),
           Txt '': filename contains '', Quoted (EncodeRune bad), Txt '', which would forge a multipart header'']), w)
       | None \<Rightarrow> (case content of
           None \<Rightarrow> (Inl (invalid ''upload session file'' ''content is nil''), w)
         | Some content \<Rightarrow> doUpload rt js send c out (fileSegments sessionID) (FormDataContentType boundary)
             (formBody boundary filename content) w)))"

section \<open>Download\<close>

definition Download ::
  "errorJSON \<Rightarrow> ('t, 'w) sender \<Rightarrow> 't client \<Rightarrow> string \<Rightarrow> string \<Rightarrow> writer \<Rightarrow> int \<Rightarrow> 'w
   \<Rightarrow> (nat \<times> goerr option) \<times> 'w" where
  "Download js send c sessionID fileID sink maxBytes w =
    (if sessionID = [] \<or> fileID = [] then
       ((0, Some (invalid ''download session file'' ''sessionID and fileID are required'')), w)
     else if maxBytes \<le> 0 then
       ((0, Some (invalid ''download session file'' ''maxBytes must be positive'')), w)
     else doDownload js send c (fileSegments sessionID @ [fileID, ''content'']) sink (nat maxBytes) w)"

section \<open>A file name in a header\<close>

lemma unsafeLoop_None: "unsafeLoop rs = None \<longleftrightarrow> set rs \<inter> {0, 10, 13} = {}"
  by (induction rs) auto

lemma headerUnsafeRune_None:
  assumes "headerUnsafeRune s = None"
  shows "CHR 0x0D \<notin> set s \<and> CHR 0x0A \<notin> set s \<and> CHR 0x00 \<notin> set s"
proof -
  have r: "set (runes s) \<inter> {0, 10, 13} = {}"
    using assms by (simp add: headerUnsafeRune_def unsafeLoop_None)
  have "c \<notin> set s" if "byte c \<in> {0, 10, 13}" for c
    using runes_ascii [of c s] that r by auto
  then show ?thesis by (simp add: byte_def)
qed

text \<open>What a reader of a quoted string gets: the text up to the quote that ends it, and the rest.\<close>

fun unquote :: "string \<Rightarrow> string \<times> string" where
  "unquote [] = ([], [])"
| "unquote (c # s) =
    (if c = CHR 0x22 then ([], s)
     else if c = CHR 0x5C then (case s of d # t \<Rightarrow> apfst (Cons d) (unquote t) | [] \<Rightarrow> ([c], []))
     else apfst (Cons c) (unquote s))"

lemma unquote_escapeQuotes: "unquote (escapeQuotes s @ CHR 0x22 # rest) = (s, rest)"
  by (induction s) (simp_all add: escapeQuotes_def)

lemma set_escapeQuotes: "set (escapeQuotes s) \<subseteq> set s \<union> {CHR 0x5C}"
  by (auto simp: escapeQuotes_def)

text \<open>The header lines of a form with one file part; \<open>name\<close> is what follows the opening quote of
  the file name.\<close>

definition headerLines :: "string \<Rightarrow> string \<Rightarrow> string list" where
  "headerLines boundary name =
    [''--'' @ boundary @ [CHR 0x0D],
     ''Content-Disposition: form-data; name='' @ [CHR 0x22] @ ''file'' @ [CHR 0x22] @ ''; filename='' @
       [CHR 0x22] @ name @ [CHR 0x0D],
     ''Content-Type: application/octet-stream'' @ [CHR 0x0D], [CHR 0x0D], []]"

lemma partHead_lines:
  assumes "CHR 0x0A \<notin> set boundary" "CHR 0x0A \<notin> set filename"
  shows "splitAt (CHR 0x0A) (partHead boundary filename) =
    headerLines boundary (escapeQuotes filename @ [CHR 0x22])" (is "_ = ?lines")
proof -
  have "CHR 0x0A \<notin> set (escapeQuotes filename)" using set_escapeQuotes assms(2) by fastforce
  then have lines: "splitAt (CHR 0x0A) (Join ?lines [CHR 0x0A]) = ?lines"
    using assms(1) by (intro splitAt_Join) (simp_all add: headerLines_def)
  have "Join ?lines [CHR 0x0A] = partHead boundary filename"
    by (simp add: partHead_def headerLines_def)
  then show ?thesis using lines by (simp only:)
qed

section \<open>Properties\<close>

text \<open>C40. An upload never lets a file name forge a header: an argument it refuses sends nothing, and
  otherwise the form it sends has exactly the header lines of one part, and the file name read
  back from them is the one given.\<close>

theorem upload_name_safe:
  assumes "CHR 0x0A \<notin> set boundary"
  shows "if sid = [] \<or> filename = [] \<or> headerUnsafeRune filename \<noteq> None \<or> content = None
    then \<exists>err. Upload rt js send c out boundary sid filename content w = (Inl err, w) \<and> errIs ErrInvalidArgument err
    else Upload rt js send c out boundary sid filename content w =
        doUpload rt js send c out (fileSegments sid) (FormDataContentType boundary)
          (formBody boundary filename (the content)) w \<and>
      CHR 0x0D \<notin> set filename \<and>
      (\<exists>name. splitAt (CHR 0x0A) (partHead boundary filename) = headerLines boundary name \<and>
        unquote name = (filename, []))"
proof (cases "sid = [] \<or> filename = [] \<or> headerUnsafeRune filename \<noteq> None \<or> content = None")
  case True
  then show ?thesis
    by (auto simp: Upload_def invalid_def sentinelIs_def split: option.split)
next
  case False
  then have "headerUnsafeRune filename = None" by blast
  note safe = headerUnsafeRune_None [OF this]
  obtain k where k: "content = Some k" using False by blast
  have "unquote (escapeQuotes filename @ [CHR 0x22]) = (filename, [])"
    using unquote_escapeQuotes [of filename "[]"] by simp
  moreover have "Upload rt js send c out boundary sid filename content w =
      doUpload rt js send c out (fileSegments sid) (FormDataContentType boundary)
        (formBody boundary filename (the content)) w"
    using False by (simp add: Upload_def k)
  ultimately show ?thesis
    unfolding if_not_P [OF False] using safe partHead_lines [OF assms] by blast
qed

theorem upload_name_safe_witness:
  "\<exists>name. splitAt (CHR 0x0A) (partHead ''b'' [CHR ''a'', CHR 0x22]) = headerLines ''b'' name \<and>
    unquote name = ([CHR ''a'', CHR 0x22], [])"
proof -
  have "headerUnsafeRune [CHR ''a'', CHR 0x22] = None" by code_simp
  then have "\<not> (''s'' = [] \<or> [CHR ''a'', CHR 0x22] = [] \<or> headerUnsafeRune [CHR ''a'', CHR 0x22] \<noteq> None \<or>
      Some ([], None :: goerr option) = None)" by simp
  note ok = if_not_P [OF this]
  have "CHR 0x0A \<notin> set ''b''" by simp
  from upload_name_safe [OF this, of "''s''" "[CHR ''a'', CHR 0x22]" "Some ([], None)"
      undefined undefined "\<lambda>_ _ _. (Inl (Std EOF), ())" undefined undefined "()"]
  show ?thesis unfolding ok by blast
qed

end
