(* ===== verification/GoJSON.thy ===== *)
theory GoJSON
  imports Errors Complex_Main "HOL-Library.Log_Nat"
begin

text \<open>
  The text side of encoding/json: what the package's calls of json.Unmarshal and json.Marshal do
  with bytes. A JSON text is read by the state machine of the package's scanner, one byte at a
  time over a stack of open arrays and objects, and yields a \<open>jtext\<close>: the value as it was written,
  with number literals kept and string literals decoded (escapes, surrogate pairs, and the
  replacement rune for what is not UTF-8 or half a pair). \<open>print\<close> is what the encoder writes:
  compact, with the characters HTML gives a meaning escaped. A number literal is read as an
  int64, or as the nearest float64 (a rational here; the sign of zero is not kept).

  The lemmas show that reading inverts printing, for every value whose strings are UTF-8, whose
  literals are numbers and whose nesting is within the package's limit.
\<close>

section \<open>JSON text\<close>

datatype jtext =
    TNull
  | TBool bool
  | TNum string
  | TStr string
  | TArr "jtext list"
  | TObj "(string \<times> jtext) list"

subsection \<open>String literals\<close>

definition hexValue :: "char \<Rightarrow> nat option" where
  "hexValue c =
    (let b = byte c in
     if 0x30 \<le> b \<and> b \<le> 0x39 then Some (b - 0x30)
     else if 0x61 \<le> b \<and> b \<le> 0x66 then Some (b - 0x61 + 10)
     else if 0x41 \<le> b \<and> b \<le> 0x46 then Some (b - 0x41 + 10)
     else None)"

definition isHex :: "char \<Rightarrow> bool" where
  "isHex c \<longleftrightarrow> \<not> Option.is_none (hexValue c)"

definition hex1 :: "char \<Rightarrow> nat" where
  "hex1 c = (case hexValue c of None \<Rightarrow> 0 | Some n \<Rightarrow> n)"

definition hex4 :: "char \<Rightarrow> char \<Rightarrow> char \<Rightarrow> char \<Rightarrow> nat" where
  "hex4 a b c d = ((hex1 a * 16 + hex1 b) * 16 + hex1 c) * 16 + hex1 d"

definition isSurrogate :: "nat \<Rightarrow> bool" where
  "isSurrogate r \<longleftrightarrow> 0xD800 \<le> r \<and> r < 0xE000"

text \<open>utf16.DecodeRune; None where it answers the replacement rune.\<close>

definition pairRune :: "nat \<Rightarrow> nat \<Rightarrow> nat option" where
  "pairRune hi lo =
    (if 0xD800 \<le> hi \<and> hi < 0xDC00 \<and> 0xDC00 \<le> lo \<and> lo < 0xE000
     then Some ((hi - 0xD800) * 1024 + (lo - 0xDC00) + 0x10000) else None)"

text \<open>A \\u escape and the second half of its pair when one follows: the rune, and what is left.\<close>

definition uEscape :: "char \<Rightarrow> char \<Rightarrow> char \<Rightarrow> char \<Rightarrow> string \<Rightarrow> nat \<times> string" where
  "uEscape a b c d rest =
    (let r = hex4 a b c d in
     if \<not> isSurrogate r then (r, rest)
     else (case rest of
         x # y # e # f # g # h # rest' \<Rightarrow>
           if x = CHR 0x5C \<and> y = CHR ''u'' \<and> list_all isHex [e, f, g, h] then
             (case pairRune r (hex4 e f g h) of
                None \<Rightarrow> (RuneError, rest)
              | Some p \<Rightarrow> (p, rest'))
           else (RuneError, rest)
       | _ \<Rightarrow> (RuneError, rest)))"

definition escaped :: "char \<Rightarrow> char" where
  "escaped c =
    (if c = CHR ''b'' then CHR 0x08 else if c = CHR ''f'' then CHR 0x0C
     else if c = CHR ''n'' then CHR 0x0A else if c = CHR ''r'' then CHR 0x0D
     else if c = CHR ''t'' then CHR 0x09 else c)"

lemma uEscape_shrinks: "length (snd (uEscape a b c d rest)) \<le> length rest"
  by (auto simp: uEscape_def Let_def split: list.split option.split)

text \<open>The value of a string literal, from the bytes between its quotes. The scanner has already
  checked the escapes, so the other cases of a backslash do not occur.\<close>

function unquote :: "string \<Rightarrow> string" where
  "unquote [] = []"
| "unquote (c # s) =
    (if c = CHR 0x5C then
       (case s of
          [] \<Rightarrow> []
        | e # t \<Rightarrow>
            if e = CHR ''u'' then
              (case t of
                 h1 # h2 # h3 # h4 # rest \<Rightarrow>
                   EncodeRune (fst (uEscape h1 h2 h3 h4 rest)) @ unquote (snd (uEscape h1 h2 h3 h4 rest))
               | _ \<Rightarrow> [])
            else escaped e # unquote t)
     else if byte c < 0x80 then c # unquote s
     else EncodeRune (fst (DecodeRune (c # s))) @ unquote (drop (snd (DecodeRune (c # s))) (c # s)))"
  by pat_completeness auto
termination
proof (relation "measure length", goal_cases)
  case (2 c s e t h1 t1 h2 t2 h3 t3 h4 rest)
  then show ?case using uEscape_shrinks [of h1 h2 h3 h4 rest] by simp
next
  case (5 c s)
  then show ?case using snd_DecodeRune_pos [of c s] by simp
qed simp_all

declare unquote.simps(2) [simp del]

subsection \<open>The scanner\<close>

text \<open>The states of the scanner. Those inside a literal hold its bytes so far, last first, and the
  two after a value hold the value. \<open>Word\<close> is inside true, false or null, with the rest of it.\<close>

datatype (plugins only: code size) scanMode =
    BeginValueOrEmpty | BeginValue | BeginStringOrEmpty | BeginString
  | EndValue jtext | EndTop jtext
  | InString string | InStringEsc string | InStringEscU nat string
  | NumNeg string | Num1 string | Num0 string | NumDot string | NumDot0 string
  | NumE string | NumESign string | NumE0 string
  | Word string string jtext
  | ScanError string

text \<open>What is open around the current position, innermost first: elements or members so far, last
  first.\<close>

datatype openValue =
    ParseArrayValue "jtext list"
  | ParseObjectKey "(string \<times> jtext) list"
  | ParseObjectValue "(string \<times> jtext) list" string

type_synonym scanner = "scanMode \<times> openValue list"

definition maxNestingDepth :: nat where
  "maxNestingDepth = 10000"

definition jsonSpace :: "char \<Rightarrow> bool" where
  "jsonSpace c \<longleftrightarrow> c = CHR '' '' \<or> c = CHR 0x09 \<or> c = CHR 0x0A \<or> c = CHR 0x0D"

definition digit :: "char \<Rightarrow> bool" where
  "digit c \<longleftrightarrow> 0x30 \<le> byte c \<and> byte c \<le> 0x39"

definition scanFail :: "char \<Rightarrow> string \<Rightarrow> openValue list \<Rightarrow> scanner" where
  "scanFail c context stk = (ScanError (''invalid character '' @ CHR 0x27 # c # CHR 0x27 # CHR '' '' # context), stk)"

definition pushOpen :: "openValue \<Rightarrow> scanMode \<Rightarrow> openValue list \<Rightarrow> scanner" where
  "pushOpen f m stk = (if length stk < maxNestingDepth then (m, f # stk) else (ScanError ''exceeded max depth'', f # stk))"

definition closed :: "jtext \<Rightarrow> openValue list \<Rightarrow> scanner" where
  "closed v stk = (if stk = [] then EndTop v else EndValue v, stk)"

definition stateEndTop :: "jtext \<Rightarrow> char \<Rightarrow> openValue list \<Rightarrow> scanner" where
  "stateEndTop v c stk = (if jsonSpace c then (EndTop v, stk) else scanFail c ''after top-level value'' stk)"

definition stateEndValue :: "jtext \<Rightarrow> char \<Rightarrow> openValue list \<Rightarrow> scanner" where
  "stateEndValue v c stk =
    (case stk of
       [] \<Rightarrow> stateEndTop v c stk
     | f # below \<Rightarrow>
         if jsonSpace c then (EndValue v, stk)
         else (case f of
             ParseObjectKey ms \<Rightarrow>
               (case v of
                  TStr k \<Rightarrow>
                    if c = CHR '':'' then (BeginValue, ParseObjectValue ms k # below)
                    else scanFail c ''after object key'' stk
                | _ \<Rightarrow> scanFail c ''after object key'' stk)
           | ParseObjectValue ms k \<Rightarrow>
               if c = CHR '','' then (BeginString, ParseObjectKey ((k, v) # ms) # below)
               else if c = CHR ''}'' then closed (TObj (rev ((k, v) # ms))) below
               else scanFail c ''after object key:value pair'' stk
           | ParseArrayValue vs \<Rightarrow>
               if c = CHR '','' then (BeginValue, ParseArrayValue (v # vs) # below)
               else if c = CHR '']'' then closed (TArr (rev (v # vs))) below
               else scanFail c ''after array element'' stk))"

definition stateBeginValue :: "char \<Rightarrow> openValue list \<Rightarrow> scanner" where
  "stateBeginValue c stk =
    (if jsonSpace c then (BeginValue, stk)
     else if c = CHR ''{'' then pushOpen (ParseObjectKey []) BeginStringOrEmpty stk
     else if c = CHR ''['' then pushOpen (ParseArrayValue []) BeginValueOrEmpty stk
     else if c = CHR 0x22 then (InString [], stk)
     else if c = CHR ''-'' then (NumNeg [c], stk)
     else if c = CHR ''0'' then (Num0 [c], stk)
     else if c = CHR ''t'' then (Word ''rue'' ''true'' (TBool True), stk)
     else if c = CHR ''f'' then (Word ''alse'' ''false'' (TBool False), stk)
     else if c = CHR ''n'' then (Word ''ull'' ''null'' TNull, stk)
     else if digit c then (Num1 [c], stk)
     else scanFail c ''looking for beginning of value'' stk)"

definition stateBeginString :: "char \<Rightarrow> openValue list \<Rightarrow> scanner" where
  "stateBeginString c stk =
    (if jsonSpace c then (BeginString, stk)
     else if c = CHR 0x22 then (InString [], stk)
     else scanFail c ''looking for beginning of object key string'' stk)"

definition endNumber :: "string \<Rightarrow> char \<Rightarrow> openValue list \<Rightarrow> scanner" where
  "endNumber lit c stk = stateEndValue (TNum (rev lit)) c stk"

definition state0 :: "string \<Rightarrow> char \<Rightarrow> openValue list \<Rightarrow> scanner" where
  "state0 lit c stk =
    (if c = CHR ''.'' then (NumDot (c # lit), stk)
     else if c = CHR ''e'' \<or> c = CHR ''E'' then (NumE (c # lit), stk)
     else endNumber lit c stk)"

definition stateESign :: "string \<Rightarrow> char \<Rightarrow> openValue list \<Rightarrow> scanner" where
  "stateESign lit c stk =
    (if digit c then (NumE0 (c # lit), stk) else scanFail c ''in exponent of numeric literal'' stk)"

fun scanStep :: "char \<Rightarrow> scanner \<Rightarrow> scanner" where
  "scanStep c (BeginValueOrEmpty, stk) =
    (if jsonSpace c then (BeginValueOrEmpty, stk)
     else if c = CHR '']'' then
       (case stk of ParseArrayValue vs # below \<Rightarrow> closed (TArr (rev vs)) below
        | _ \<Rightarrow> scanFail c ''looking for beginning of value'' stk)
     else stateBeginValue c stk)"
| "scanStep c (BeginValue, stk) = stateBeginValue c stk"
| "scanStep c (BeginStringOrEmpty, stk) =
    (if jsonSpace c then (BeginStringOrEmpty, stk)
     else if c = CHR ''}'' then
       (case stk of ParseObjectKey ms # below \<Rightarrow> closed (TObj (rev ms)) below
        | _ \<Rightarrow> scanFail c ''looking for beginning of object key string'' stk)
     else stateBeginString c stk)"
| "scanStep c (BeginString, stk) = stateBeginString c stk"
| "scanStep c (EndValue v, stk) = stateEndValue v c stk"
| "scanStep c (EndTop v, stk) = stateEndTop v c stk"
| "scanStep c (InString lit, stk) =
    (if c = CHR 0x22 then (EndValue (TStr (unquote (rev lit))), stk)
     else if c = CHR 0x5C then (InStringEsc (c # lit), stk)
     else if byte c < 0x20 then scanFail c ''in string literal'' stk
     else (InString (c # lit), stk))"
| "scanStep c (InStringEsc lit, stk) =
    (if c \<in> set ''bfnrt'' \<or> c = CHR 0x5C \<or> c = CHR ''/'' \<or> c = CHR 0x22 then (InString (c # lit), stk)
     else if c = CHR ''u'' then (InStringEscU 4 (c # lit), stk)
     else scanFail c ''in string escape code'' stk)"
| "scanStep c (InStringEscU n lit, stk) =
    (if isHex c then (if n \<le> 1 then (InString (c # lit), stk) else (InStringEscU (n - 1) (c # lit), stk))
     else scanFail c (''in '' @ CHR 0x5C # ''u hexadecimal character escape'') stk)"
| "scanStep c (NumNeg lit, stk) =
    (if c = CHR ''0'' then (Num0 (c # lit), stk) else if digit c then (Num1 (c # lit), stk)
     else scanFail c ''in numeric literal'' stk)"
| "scanStep c (Num1 lit, stk) = (if digit c then (Num1 (c # lit), stk) else state0 lit c stk)"
| "scanStep c (Num0 lit, stk) = state0 lit c stk"
| "scanStep c (NumDot lit, stk) =
    (if digit c then (NumDot0 (c # lit), stk)
     else scanFail c ''after decimal point in numeric literal'' stk)"
| "scanStep c (NumDot0 lit, stk) =
    (if digit c then (NumDot0 (c # lit), stk)
     else if c = CHR ''e'' \<or> c = CHR ''E'' then (NumE (c # lit), stk)
     else endNumber lit c stk)"
| "scanStep c (NumE lit, stk) =
    (if c = CHR ''+'' \<or> c = CHR ''-'' then (NumESign (c # lit), stk) else stateESign lit c stk)"
| "scanStep c (NumESign lit, stk) = stateESign lit c stk"
| "scanStep c (NumE0 lit, stk) = (if digit c then (NumE0 (c # lit), stk) else endNumber lit c stk)"
| "scanStep c (Word w name v, stk) =
    (case w of
       [] \<Rightarrow> stateEndValue v c stk
     | e # rest \<Rightarrow>
         if c = e then (if rest = [] then EndValue v else Word rest name v, stk)
         else scanFail c (''in literal '' @ name @ '' (expecting '' @ CHR 0x27 # e # CHR 0x27 # '')'') stk)"
| "scanStep c (ScanError err, stk) = (ScanError err, stk)"

definition scan :: "string \<Rightarrow> scanner \<Rightarrow> scanner" where
  "scan s st = fold scanStep s st"

text \<open>The whole input is one value. At the end a space is scanned, which ends a number.\<close>

definition parseJSON :: "string \<Rightarrow> string + jtext" where
  "parseJSON s =
    (case fst (scan s (BeginValue, [])) of
       ScanError err \<Rightarrow> Inl err
     | _ \<Rightarrow> (case fst (scan (s @ '' '') (BeginValue, [])) of
           EndTop v \<Rightarrow> Inr v
         | _ \<Rightarrow> Inl ''unexpected end of JSON input''))"

subsection \<open>Printing\<close>

definition hexDigit :: "nat \<Rightarrow> char" where
  "hexDigit n = (if n < 10 then chr (48 + n) else chr (87 + n))"

definition hexEscape :: "nat \<Rightarrow> string" where
  "hexEscape r = CHR 0x5C # CHR ''u'' #
     [hexDigit (r div 4096 mod 16), hexDigit (r div 256 mod 16), hexDigit (r div 16 mod 16), hexDigit (r mod 16)]"

text \<open>One segment of a string as the encoder writes it, with HTML escaping on.\<close>

definition quoteSeg :: "nat \<times> string \<Rightarrow> string" where
  "quoteSeg seg = (case seg of (r, bytes) \<Rightarrow>
    if r = 0x5C \<or> r = 0x22 then CHR 0x5C # EncodeRune r
    else if r = 0x08 then CHR 0x5C # ''b'' else if r = 0x0C then CHR 0x5C # ''f''
    else if r = 0x0A then CHR 0x5C # ''n'' else if r = 0x0D then CHR 0x5C # ''r''
    else if r = 0x09 then CHR 0x5C # ''t''
    else if r < 0x20 \<or> r = 0x3C \<or> r = 0x3E \<or> r = 0x26 then hexEscape r
    else if r = RuneError \<and> length bytes = 1 then hexEscape r
    else if r = 0x2028 \<or> r = 0x2029 then hexEscape r
    else EncodeRune r)"

definition quoteBody :: "string \<Rightarrow> string" where
  "quoteBody s = concat (map quoteSeg (Segs s))"

definition quoteJSON :: "string \<Rightarrow> string" where
  "quoteJSON s = CHR 0x22 # quoteBody s @ [CHR 0x22]"

fun printJSON :: "jtext \<Rightarrow> string" and printElems :: "jtext list \<Rightarrow> string"
  and printMembers :: "(string \<times> jtext) list \<Rightarrow> string" where
  "printJSON TNull = ''null''"
| "printJSON (TBool b) = (if b then ''true'' else ''false'')"
| "printJSON (TNum lit) = lit"
| "printJSON (TStr s) = quoteJSON s"
| "printJSON (TArr ts) = CHR ''['' # printElems ts"
| "printJSON (TObj ms) = CHR ''{'' # printMembers ms"
| "printElems [] = '']''"
| "printElems [t] = printJSON t @ '']''"
| "printElems (t # u # ts) = printJSON t @ CHR '','' # printElems (u # ts)"
| "printMembers [] = ''}''"
| "printMembers [(k, t)] = quoteJSON k @ CHR '':'' # printJSON t @ ''}''"
| "printMembers ((k, t) # m # ms) = quoteJSON k @ CHR '':'' # printJSON t @ CHR '','' # printMembers (m # ms)"

text \<open>A number literal is one the scanner takes whole.\<close>

definition numberLit :: "string \<Rightarrow> bool" where
  "numberLit lit \<longleftrightarrow> lit \<noteq> [] \<and> (hd lit = CHR ''-'' \<or> digit (hd lit)) \<and>
    (case fst (scan lit (BeginValue, [])) of
       Num1 l \<Rightarrow> l = rev lit | Num0 l \<Rightarrow> l = rev lit | NumDot0 l \<Rightarrow> l = rev lit | NumE0 l \<Rightarrow> l = rev lit
     | _ \<Rightarrow> False)"

definition utf8 :: "string \<Rightarrow> bool" where
  "utf8 s \<longleftrightarrow> EncodeRunes (runes s) = s"

text \<open>The nesting of a value, and the values that print as themselves.\<close>

fun depth :: "jtext \<Rightarrow> nat" and depthElems :: "jtext list \<Rightarrow> nat" and depthMembers :: "(string \<times> jtext) list \<Rightarrow> nat" where
  "depth (TArr ts) = Suc (depthElems ts)"
| "depth (TObj ms) = Suc (depthMembers ms)"
| "depth _ = 0"
| "depthElems [] = 0"
| "depthElems (t # ts) = max (depth t) (depthElems ts)"
| "depthMembers [] = 0"
| "depthMembers ((k, t) # ms) = max (depth t) (depthMembers ms)"

fun wfText :: "jtext \<Rightarrow> bool" and wfElems :: "jtext list \<Rightarrow> bool" and wfMembers :: "(string \<times> jtext) list \<Rightarrow> bool" where
  "wfText (TNum lit) = numberLit lit"
| "wfText (TStr s) = utf8 s"
| "wfText (TArr ts) = wfElems ts"
| "wfText (TObj ms) = wfMembers ms"
| "wfText _ = True"
| "wfElems [] = True"
| "wfElems (t # ts) = (wfText t \<and> wfElems ts)"
| "wfMembers [] = True"
| "wfMembers ((k, t) # ms) = (utf8 k \<and> wfText t \<and> wfMembers ms)"

section \<open>Reading inverts printing\<close>

lemma scan_simps [simp]:
  "scan [] st = st"
  "scan (c # s) st = scan s (scanStep c st)"
  "scan (s @ t) st = scan t (scan s st)"
  by (simp_all add: scan_def)

subsection \<open>Strings\<close>

definition plainInString :: "char \<Rightarrow> bool" where
  "plainInString c \<longleftrightarrow> 0x20 \<le> byte c \<and> c \<noteq> CHR 0x22 \<and> c \<noteq> CHR 0x5C"

lemma scan_plain:
  "list_all plainInString s \<Longrightarrow> scan s (InString lit, stk) = (InString (rev s @ lit), stk)"
  by (induction s arbitrary: lit) (auto simp: plainInString_def)

lemma byte_lits [simp]:
  "byte (CHR 0x22) = 0x22" "byte (CHR 0x5C) = 0x5C" "byte (CHR ''u'') = 0x75" "byte (CHR ''b'') = 0x62"
  "byte (CHR ''f'') = 0x66" "byte (CHR ''n'') = 0x6E" "byte (CHR ''r'') = 0x72" "byte (CHR ''t'') = 0x74"
  by (simp_all add: byte_def)

lemma byte_ne: "byte c \<noteq> byte d \<Longrightarrow> c \<noteq> d" by auto

lemma plain_high: "0x80 \<le> byte c \<Longrightarrow> plainInString c"
  unfolding plainInString_def using byte_lits(1,2) by (auto dest: arg_cong [of _ _ byte])

lemma plain_EncodeRune:
  assumes "0x20 \<le> r" "r \<noteq> 0x22" "r \<noteq> 0x5C" "validRune r"
  shows "list_all plainInString (EncodeRune r)"
proof (cases "r < 0x80")
  case True
  then have "byte (chr r) = r" by simp
  then have "plainInString (chr r)"
    unfolding plainInString_def using assms byte_lits(1,2) by (auto dest: arg_cong [of _ _ byte])
  then show ?thesis using True by (simp add: EncodeRune_def)
next
  case False
  have "r < 0x110000" using assms(4) by (auto simp: validRune_def)
  then have "r div 262144 < 5" "r < 0x10000 \<Longrightarrow> r div 4096 < 16" "r < 0x800 \<Longrightarrow> r div 64 < 32" by linarith+
  then show ?thesis using False assms(4)
    by (auto simp: EncodeRune_def intro!: plain_high)
qed

lemma hexValue_hexDigit: "n < 16 \<Longrightarrow> hexValue (hexDigit n) = Some n"
  by (auto simp: hexValue_def hexDigit_def)

lemma isHex_hexDigit [simp]: "isHex (hexDigit (n mod 16))"
  by (simp add: isHex_def hexValue_hexDigit)

lemma hex1_hexDigit [simp]: "hex1 (hexDigit (n mod 16)) = n mod 16"
  by (simp add: hex1_def hexValue_hexDigit)

lemma hex4_digits:
  assumes "r < 65536"
  shows "hex4 (hexDigit (r div 4096 mod 16)) (hexDigit (r div 256 mod 16)) (hexDigit (r div 16 mod 16)) (hexDigit (r mod 16)) = r"
proof -
  define a where "a = r div 16"
  define b where "b = a div 16"
  define d where "d = b div 16"
  have q: "r div 4096 = d" "r div 256 = b" "r div 16 = a"
    by (simp_all add: a_def b_def d_def div_mult2_eq [symmetric])
  have "d < 16" using assms q(1) by linarith
  moreover have "a * 16 + r mod 16 = r" "b * 16 + a mod 16 = a" "d * 16 + b mod 16 = b"
    unfolding a_def b_def d_def by (rule div_mult_mod_eq)+
  ultimately show ?thesis unfolding hex4_def hex1_hexDigit q by (simp only: mod_less)
qed

lemma scan_hexEscape: "scan (hexEscape r) (InString lit, stk) = (InString (rev (hexEscape r) @ lit), stk)"
  by (simp add: hexEscape_def)

lemma quoteSeg_cases:
  obtains (short) e where "quoteSeg (r, bs) = [CHR 0x5C, e]" "EncodeRune r = [escaped e]"
      "e \<in> set ''bfnrt'' \<or> e = CHR 0x5C \<or> e = CHR 0x22"
  | (hex) "quoteSeg (r, bs) = hexEscape r" "r < 65536" "\<not> isSurrogate r"
  | (plain) "quoteSeg (r, bs) = EncodeRune r" "0x20 \<le> r" "r \<noteq> 0x22" "r \<noteq> 0x5C"
proof (cases "r \<in> {0x5C, 0x22, 8, 12, 10, 13, 9}")
  case True
  have "chr 0x5C = CHR 0x5C" "chr 0x22 = CHR 0x22" "chr 8 = CHR 0x08" "chr 12 = CHR 0x0C" "chr 10 = CHR 0x0A"
      "chr 13 = CHR 0x0D" "chr 9 = CHR 0x09"
    by code_simp+
  then have "\<exists>e. quoteSeg (r, bs) = [CHR 0x5C, e] \<and> EncodeRune r = [escaped e] \<and>
      (e \<in> set ''bfnrt'' \<or> e = CHR 0x5C \<or> e = CHR 0x22)"
    using True by (elim insertE emptyE) (simp_all add: quoteSeg_def escaped_def EncodeRune_def)
  then show ?thesis using short by blast
next
  case False
  let ?h = "r < 0x20 \<or> r = 0x3C \<or> r = 0x3E \<or> r = 0x26 \<or> r = RuneError \<and> length bs = 1 \<or> r = 0x2028 \<or> r = 0x2029"
  have q: "quoteSeg (r, bs) = (if ?h then hexEscape r else EncodeRune r)"
    using False by (simp add: quoteSeg_def)
  show ?thesis
  proof (cases ?h)
    case True
    then have "r < 65536 \<and> \<not> isSurrogate r" by (auto simp: RuneError_def isSurrogate_def)
    then show ?thesis using True hex by (simp add: q)
  next
    case no: False
    have "quoteSeg (r, bs) = EncodeRune r" unfolding q by (rule if_not_P [OF no])
    then show ?thesis using no False plain by simp
  qed
qed

lemma scan_quoteSeg:
  assumes "validRune r"
  shows "scan (quoteSeg (r, bs)) (InString lit, stk) = (InString (rev (quoteSeg (r, bs)) @ lit), stk)"
proof (rule quoteSeg_cases [of r bs])
  fix e assume "quoteSeg (r, bs) = [CHR 0x5C, e]" "e \<in> set ''bfnrt'' \<or> e = CHR 0x5C \<or> e = CHR 0x22"
  then show ?thesis by auto
next
  assume "quoteSeg (r, bs) = hexEscape r"
  then show ?thesis by (simp add: scan_hexEscape)
next
  assume "quoteSeg (r, bs) = EncodeRune r" "0x20 \<le> r" "r \<noteq> 0x22" "r \<noteq> 0x5C"
  then show ?thesis using scan_plain plain_EncodeRune assms by simp
qed

lemma scan_quoteBody: "scan (quoteBody s) (InString lit, stk) = (InString (rev (quoteBody s) @ lit), stk)"
proof -
  have "list_all (\<lambda>seg. validRune (fst seg)) segs \<Longrightarrow>
      scan (concat (map quoteSeg segs)) (InString lit, stk) = (InString (rev (concat (map quoteSeg segs)) @ lit), stk)"
    for segs
  proof (induction segs arbitrary: lit)
    case (Cons seg segs)
    then show ?case by (cases seg) (simp add: scan_quoteSeg)
  qed simp
  then show ?thesis unfolding quoteBody_def using validRune_Segs by (simp add: list_all_iff)
qed

lemma unquote_escape: "e \<noteq> CHR ''u'' \<Longrightarrow> unquote (CHR 0x5C # e # t) = escaped e # unquote t"
  by (simp add: unquote.simps(2))

lemma unquote_hexEscape:
  assumes "r < 65536" "\<not> isSurrogate r"
  shows "unquote (hexEscape r @ rest) = EncodeRune r @ unquote rest"
  using hex4_digits [OF assms(1)] assms(2)
  by (simp add: hexEscape_def unquote.simps(2) uEscape_def)

lemma unquote_EncodeRune:
  assumes "validRune r" "r \<noteq> 0x5C"
  shows "unquote (EncodeRune r @ rest) = EncodeRune r @ unquote rest"
proof (cases "r < 0x80")
  case True
  then have "chr r \<noteq> CHR 0x5C" using assms(2) by (auto dest: arg_cong [of _ _ byte])
  then show ?thesis using True by (simp add: EncodeRune_def unquote.simps(2))
next
  case False
  obtain c s where cs: "EncodeRune r = c # s" using EncodeRune_nonempty by (cases "EncodeRune r") auto
  have "list_all plainInString (EncodeRune r)" using plain_EncodeRune [of r] assms False by simp
  then have c: "c \<noteq> CHR 0x5C" by (simp add: cs plainInString_def)
  have d: "DecodeRune (c # s @ rest) = (r, length (EncodeRune r))"
    using decode_encode [OF assms(1), of rest] by (simp add: cs)
  have "\<not> byte c < 0x80"
  proof
    assume "byte c < 0x80"
    then have "fst (DecodeRune (c # s @ rest)) < 0x80" by simp
    then show False using d False by simp
  qed
  then show ?thesis using c d by (simp add: cs unquote.simps(2))
qed

lemma unquote_quoteSeg:
  assumes "validRune r"
  shows "unquote (quoteSeg (r, bs) @ rest) = EncodeRune r @ unquote rest"
proof (rule quoteSeg_cases [of r bs])
  fix e assume q: "quoteSeg (r, bs) = [CHR 0x5C, e]" "EncodeRune r = [escaped e]"
    and "e \<in> set ''bfnrt'' \<or> e = CHR 0x5C \<or> e = CHR 0x22"
  then have "e \<noteq> CHR ''u''" by auto
  then show ?thesis by (simp add: q unquote_escape)
next
  assume "quoteSeg (r, bs) = hexEscape r" "r < 65536" "\<not> isSurrogate r"
  then show ?thesis by (simp add: unquote_hexEscape)
next
  assume "quoteSeg (r, bs) = EncodeRune r" "0x20 \<le> r" "r \<noteq> 0x22" "r \<noteq> 0x5C"
  then show ?thesis using unquote_EncodeRune [OF assms] by simp
qed

lemma unquote_quoteBody: "unquote (quoteBody s) = EncodeRunes (runes s)"
proof -
  have "list_all (\<lambda>seg. validRune (fst seg)) segs \<Longrightarrow>
      unquote (concat (map quoteSeg segs)) = EncodeRunes (map fst segs)" for segs
  proof (induction segs)
    case (Cons seg segs)
    then show ?case by (cases seg) (simp add: unquote_quoteSeg EncodeRunes_def)
  qed simp
  then show ?thesis unfolding quoteBody_def runes_def using validRune_Segs by (simp add: list_all_iff)
qed

subsection \<open>Numbers\<close>

fun numberMode :: "scanMode \<Rightarrow> bool" where
  "numberMode (NumNeg _) = True" | "numberMode (Num1 _) = True" | "numberMode (Num0 _) = True"
| "numberMode (NumDot _) = True" | "numberMode (NumDot0 _) = True" | "numberMode (NumE _) = True"
| "numberMode (NumESign _) = True" | "numberMode (NumE0 _) = True" | "numberMode _ = False"

fun overMode :: "scanMode \<Rightarrow> bool" where
  "overMode (EndTop _) = True" | "overMode (ScanError _) = True" | "overMode _ = False"

lemmas scan_defs = state0_def stateESign_def endNumber_def stateEndValue_def stateEndTop_def scanFail_def

lemma overMode_scan: "overMode (fst st) \<Longrightarrow> overMode (fst (scan s st))"
proof (induction s arbitrary: st)
  case (Cons c s)
  then have "overMode (fst (scanStep c st))" by (cases st; cases "fst st") (auto simp: scan_defs)
  then show ?case using Cons.IH by simp
qed simp

lemma number_step:
  assumes "numberMode m"
  shows "overMode (fst (scanStep c (m, []))) \<or> numberMode (fst (scanStep c (m, []))) \<and>
    (\<forall>stk. scanStep c (m, stk) = (fst (scanStep c (m, [])), stk))"
  using assms by (cases m) (auto simp: scan_defs)

lemma number_not_over: "numberMode m \<Longrightarrow> \<not> overMode m"
  by (cases m) auto

text \<open>Inside a number the stack is not looked at.\<close>

lemma number_scan:
  "numberMode m \<Longrightarrow> numberMode (fst (scan s (m, []))) \<Longrightarrow> scan s (m, stk) = (fst (scan s (m, [])), stk)"
proof (induction s arbitrary: m)
  case (Cons c s)
  have "\<not> overMode (fst (scanStep c (m, [])))"
    using Cons.prems(2) overMode_scan [of "scanStep c (m, [])" s] number_not_over by auto
  then have "numberMode (fst (scanStep c (m, [])))"
      and all: "\<forall>stk. scanStep c (m, stk) = (fst (scanStep c (m, [])), stk)"
    using number_step [OF Cons.prems(1), of c] by blast+
  then obtain n where n: "numberMode n" "\<And>stk. scanStep c (m, stk) = (n, stk)" by blast
  show ?case using Cons.IH [OF n(1)] Cons.prems(2) by (simp add: n(2))
qed simp

definition ends :: "char \<Rightarrow> bool" where
  "ends c \<longleftrightarrow> c = CHR '','' \<or> c = CHR '']'' \<or> c = CHR ''}'' \<or> c = CHR '' ''"

lemma ends_plain: "ends c \<Longrightarrow> \<not> digit c \<and> c \<noteq> CHR ''.'' \<and> c \<noteq> CHR ''e'' \<and> c \<noteq> CHR ''E''"
  by (auto simp: ends_def digit_def byte_def)

lemma number_begins:
  assumes "d = CHR ''-'' \<or> digit d"
  shows "\<exists>m. numberMode m \<and> (\<forall>stk. stateBeginValue d stk = (m, stk))"
proof -
  have "\<forall>x \<in> set [CHR '' '', CHR 0x09, CHR 0x0A, CHR 0x0D, CHR ''{'', CHR ''['', CHR 0x22, CHR ''t'', CHR ''f'', CHR ''n'']. d \<noteq> x"
    using assms by (auto simp: digit_def byte_def)
  then have "stateBeginValue d stk =
      (if d = CHR ''-'' then NumNeg [d] else if d = CHR ''0'' then Num0 [d] else Num1 [d], stk)" for stk
    using assms by (auto simp: stateBeginValue_def jsonSpace_def)
  then show ?thesis
    by (intro exI [of _ "if d = CHR ''-'' then NumNeg [d] else if d = CHR ''0'' then Num0 [d] else Num1 [d]"]) simp
qed

lemma numberLit_modes:
  assumes "numberLit lit"
  shows "fst (scan lit (BeginValue, [])) \<in> {Num1 (rev lit), Num0 (rev lit), NumDot0 (rev lit), NumE0 (rev lit)}"
  using assms by (simp add: numberLit_def split: scanMode.splits)

lemma scan_number:
  assumes "numberLit lit" "ends c"
  shows "scan (lit @ [c]) (BeginValue, stk) = stateEndValue (TNum lit) c stk"
proof -
  obtain d t where lit: "lit = d # t" using assms(1) by (cases lit) (auto simp: numberLit_def)
  obtain m where m: "numberMode m" "\<And>stk. stateBeginValue d stk = (m, stk)"
    using number_begins [of d] assms(1) by (auto simp: numberLit_def lit)
  note modes = numberLit_modes [OF assms(1)]
  have "numberMode (fst (scan t (m, [])))" using modes by (auto simp: lit m)
  then have "scan lit (BeginValue, stk) = (fst (scan lit (BeginValue, [])), stk)"
    using number_scan [OF m(1), of t stk] by (simp add: lit m)
  then show ?thesis using modes ends_plain [OF assms(2)]
    by (elim insertE emptyE) (simp_all add: state0_def endNumber_def)
qed

subsection \<open>Values\<close>

lemma scan_quoteJSON:
  assumes "utf8 s" "m = BeginValue \<or> m = BeginString"
  shows "scan (quoteJSON s) (m, stk) = (EndValue (TStr s), stk)"
  using assms scan_quoteBody [of s "[]" stk] unquote_quoteBody [of s]
  by (auto simp: quoteJSON_def stateBeginValue_def stateBeginString_def jsonSpace_def utf8_def)

lemma closed_step: "scanStep c (closed v stk) = stateEndValue v c stk"
  by (cases stk) (simp_all add: closed_def stateEndValue_def)

lemma printJSON_head:
  assumes "wfText t"
  shows "\<exists>c s. printJSON t = c # s \<and> \<not> jsonSpace c \<and> c \<noteq> CHR '']''"
proof (cases t)
  case (TNum lit)
  then obtain d u where d: "lit = d # u" "d = CHR ''-'' \<or> digit d"
    using assms by (cases lit) (auto simp: numberLit_def)
  then have "\<not> jsonSpace d \<and> d \<noteq> CHR '']''" by (auto simp: jsonSpace_def digit_def byte_def)
  then show ?thesis using TNum d by simp
qed (auto simp: jsonSpace_def quoteJSON_def)

lemma scan_array_first:
  "wfText t \<Longrightarrow> scan (printJSON t @ s) (BeginValueOrEmpty, stk) = scan (printJSON t @ s) (BeginValue, stk)"
  using printJSON_head [of t] by auto

lemma printElems_Cons:
  "ts \<noteq> [] \<Longrightarrow> printElems (t # ts) = (printJSON t @ '','') @ printElems ts"
  by (cases ts) auto

lemma printMembers_Cons:
  "ms \<noteq> [] \<Longrightarrow> printMembers ((k, t) # ms) = quoteJSON k @ '':'' @ (printJSON t @ '','') @ printMembers ms"
  by (cases ms) auto

lemma ends_lits [simp]: "ends (CHR '','')" "ends (CHR '']'')" "ends (CHR ''}'')" "ends (CHR '' '')"
  by (simp_all add: ends_def)

lemma scan_first_Elems:
  assumes "wfElems ts" "ts \<noteq> []"
  shows "scan (printElems ts) (BeginValueOrEmpty, stk) = scan (printElems ts) (BeginValue, stk)"
  using assms scan_array_first [of "hd ts" "'']''" stk] scan_array_first [of "hd ts" "'',''" stk]
  by (cases ts rule: printElems.cases) simp_all

lemma scan_colon:
  "scan (quoteJSON k @ '':'') (BeginString, ParseObjectKey acc # stk) = (BeginValue, ParseObjectValue acc k # stk)"
  if "utf8 k"
  using scan_quoteJSON [OF that, of BeginString] by (simp add: stateEndValue_def jsonSpace_def)

lemma scan_first_Members:
  assumes "ms \<noteq> []"
  shows "scan (printMembers ms) (BeginStringOrEmpty, stk) = scan (printMembers ms) (BeginString, stk)"
  using assms by (cases ms rule: printMembers.cases) (simp_all add: quoteJSON_def stateBeginString_def jsonSpace_def)

lemma scan_values:
  "\<forall>c stk. wfText t \<longrightarrow> length stk + depth t \<le> maxNestingDepth \<longrightarrow> ends c \<longrightarrow>
     scan (printJSON t @ [c]) (BeginValue, stk) = stateEndValue t c stk"
  "\<forall>acc stk. wfElems ts \<longrightarrow> ts \<noteq> [] \<longrightarrow> Suc (length stk) + depthElems ts \<le> maxNestingDepth \<longrightarrow>
     scan (printElems ts) (BeginValue, ParseArrayValue acc # stk) = closed (TArr (rev acc @ ts)) stk"
  "\<forall>acc stk. wfMembers ms \<longrightarrow> ms \<noteq> [] \<longrightarrow> Suc (length stk) + depthMembers ms \<le> maxNestingDepth \<longrightarrow>
     scan (printMembers ms) (BeginString, ParseObjectKey acc # stk) = closed (TObj (rev acc @ ms)) stk"
proof (induction t and ts and ms rule: printJSON_printElems_printMembers.induct)
  case (5 ts)
  show ?case
  proof (intro allI impI)
    fix c and stk :: "openValue list"
    assume h: "wfText (TArr ts)" "length stk + depth (TArr ts) \<le> maxNestingDepth" "ends c"
    then have push: "stateBeginValue CHR ''['' stk = (BeginValueOrEmpty, ParseArrayValue [] # stk)"
      by (simp add: stateBeginValue_def jsonSpace_def pushOpen_def)
    have "scan (printElems ts) (BeginValueOrEmpty, ParseArrayValue [] # stk) = closed (TArr ts) stk"
    proof (cases "ts = []")
      case True
      then show ?thesis by (simp add: jsonSpace_def)
    next
      case False
      have "scan (printElems ts) (BeginValue, ParseArrayValue [] # stk) = closed (TArr (rev [] @ ts)) stk"
        using "5.IH" False h(1,2) by simp
      then show ?thesis using scan_first_Elems [OF _ False] h(1) by simp
    qed
    then show "scan (printJSON (TArr ts) @ [c]) (BeginValue, stk) = stateEndValue (TArr ts) c stk"
      using push by (simp add: closed_step)
  qed
next
  case (6 ms)
  show ?case
  proof (intro allI impI)
    fix c and stk :: "openValue list"
    assume h: "wfText (TObj ms)" "length stk + depth (TObj ms) \<le> maxNestingDepth" "ends c"
    then have push: "stateBeginValue CHR ''{'' stk = (BeginStringOrEmpty, ParseObjectKey [] # stk)"
      by (simp add: stateBeginValue_def jsonSpace_def pushOpen_def)
    have "scan (printMembers ms) (BeginStringOrEmpty, ParseObjectKey [] # stk) = closed (TObj ms) stk"
    proof (cases "ms = []")
      case True
      then show ?thesis by (simp add: jsonSpace_def)
    next
      case False
      have "scan (printMembers ms) (BeginString, ParseObjectKey [] # stk) = closed (TObj (rev [] @ ms)) stk"
        using "6.IH" False h(1,2) by simp
      then show ?thesis using scan_first_Members [OF False] by simp
    qed
    then show "scan (printJSON (TObj ms) @ [c]) (BeginValue, stk) = stateEndValue (TObj ms) c stk"
      using push by (simp add: closed_step)
  qed
next
  case (3 lit)
  then show ?case using scan_number by simp
next
  case (4 s)
  then show ?case using scan_quoteJSON by simp
next
  case (8 t)
  have "scan (printJSON t @ '']'') (BeginValue, ParseArrayValue acc # stk) = closed (TArr (rev acc @ [t])) stk"
    if "wfText t" "Suc (length stk) + depth t \<le> maxNestingDepth" for acc stk
    using "8.IH" that by (auto simp: stateEndValue_def jsonSpace_def)
  then show ?case by simp
next
  case (9 t u ts)
  have "scan (printJSON t @ '','') (BeginValue, ParseArrayValue acc # stk) = (BeginValue, ParseArrayValue (t # acc) # stk)"
    if "wfText t" "Suc (length stk) + depth t \<le> maxNestingDepth" for acc stk
    using "9.IH"(1) that by (auto simp: stateEndValue_def jsonSpace_def)
  then show ?case using "9.IH"(2) by (simp add: printElems_Cons del: printElems.simps)
next
  case (11 k t)
  have "scan (printJSON t @ ''}'') (BeginValue, ParseObjectValue acc k # stk) = closed (TObj (rev acc @ [(k, t)])) stk"
    if "wfText t" "Suc (length stk) + depth t \<le> maxNestingDepth" for acc stk
    using "11.IH" that by (auto simp: stateEndValue_def jsonSpace_def)
  then show ?case using scan_colon [of k] by simp
next
  case (12 k t m ms)
  have "scan (printJSON t @ '','') (BeginValue, ParseObjectValue acc k # stk) = (BeginString, ParseObjectKey ((k, t) # acc) # stk)"
    if "wfText t" "Suc (length stk) + depth t \<le> maxNestingDepth" for acc stk
    using "12.IH"(1) that by (auto simp: stateEndValue_def jsonSpace_def)
  then show ?case using "12.IH"(2) scan_colon [of k] by (simp add: printMembers_Cons del: printMembers.simps)
qed (auto simp: stateBeginValue_def jsonSpace_def)

theorem parse_print:
  assumes "wfText t" "depth t \<le> maxNestingDepth"
  shows "parseJSON (printJSON t) = Inr t"
proof -
  have fin: "scan (printJSON t @ '' '') (BeginValue, []) = (EndTop t, [])"
    using scan_values(1) [of t] assms by (simp add: stateEndValue_def stateEndTop_def jsonSpace_def)
  have "fst (scan (printJSON t) (BeginValue, [])) \<noteq> ScanError err" for err
  proof
    assume "fst (scan (printJSON t) (BeginValue, [])) = ScanError err"
    then obtain stk where "scan (printJSON t) (BeginValue, []) = (ScanError err, stk)"
      by (cases "scan (printJSON t) (BeginValue, [])") auto
    then show False using fin by simp
  qed
  then show ?thesis using fin by (auto simp: parseJSON_def split: scanMode.split)
qed

section \<open>Number literals\<close>

definition digitsValue :: "string \<Rightarrow> nat" where
  "digitsValue s = fold (\<lambda>c n. 10 * n + (byte c - 48)) s 0"

definition unsigned :: "string \<Rightarrow> bool \<times> string" where
  "unsigned lit = (case lit of c # s \<Rightarrow> if c = CHR ''-'' then (True, s) else (False, lit) | [] \<Rightarrow> (False, []))"

definition inInt64 :: "int \<Rightarrow> bool" where
  "inInt64 i \<longleftrightarrow> - (2 ^ 63) \<le> i \<and> i < 2 ^ 63"

text \<open>strconv.ParseInt of a number literal: a literal with a fraction or an exponent is none.\<close>

definition parseInt64 :: "string \<Rightarrow> int option" where
  "parseInt64 lit =
    (case unsigned lit of (neg, ds) \<Rightarrow>
       let i = (if neg then - int (digitsValue ds) else int (digitsValue ds)) in
       if ds \<noteq> [] \<and> list_all digit ds \<and> inInt64 i then Some i else None)"

text \<open>The decimal a literal writes, exactly.\<close>

definition expValue :: "string \<Rightarrow> int" where
  "expValue s = (case s of
      [] \<Rightarrow> 0
    | c # t \<Rightarrow> if c = CHR ''-'' then - int (digitsValue t) else if c = CHR ''+'' then int (digitsValue t)
        else int (digitsValue s))"

definition pow10 :: "int \<Rightarrow> rat" where
  "pow10 e = (if 0 \<le> e then 10 ^ nat e else 1 / 10 ^ nat (- e))"

definition decimalValue :: "string \<Rightarrow> rat" where
  "decimalValue lit =
    (case unsigned lit of (neg, s) \<Rightarrow>
       let whole = takeWhile digit s; rest = dropWhile digit s;
           frac = (case rest of c # t \<Rightarrow> if c = CHR ''.'' then takeWhile digit t else [] | [] \<Rightarrow> []);
           after = (case rest of c # t \<Rightarrow> if c = CHR ''.'' then dropWhile digit t else rest | [] \<Rightarrow> []);
           e = (case after of [] \<Rightarrow> 0 | _ # t \<Rightarrow> expValue t);
           m = of_nat (digitsValue (whole @ frac)) * pow10 (e - int (length frac))
       in if neg then - m else m)"

text \<open>The nearest float64, ties to the even significand; None past the largest.\<close>

definition pow2 :: "int \<Rightarrow> rat" where
  "pow2 e = (if 0 \<le> e then 2 ^ nat e else 1 / 2 ^ nat (- e))"

definition roundHalfEven :: "rat \<Rightarrow> int" where
  "roundHalfEven y =
    (let f = \<lfloor>y\<rfloor>; d = y - of_int f in
     if d < 1 / 2 then f else if 1 / 2 < d then f + 1 else if even f then f else f + 1)"

definition float64Exp :: "rat \<Rightarrow> int" where
  "float64Exp x =
    (case quotient_of x of (p, q) \<Rightarrow>
       let e = int (floorlog 2 (nat p)) - int (floorlog 2 (nat q)) - 53;
           e' = (if 2 ^ 53 \<le> x / pow2 e then e + 1 else e)
       in max e' (- 1074))"

definition float64 :: "rat \<Rightarrow> rat option" where
  "float64 x =
    (if x = 0 then Some 0
     else let e = float64Exp \<bar>x\<bar>;
              y = of_int (roundHalfEven (\<bar>x\<bar> / pow2 e)) * pow2 e
          in if 2 ^ 1024 \<le> y then None else Some (if x < 0 then - y else y))"

definition parseFloat64 :: "string \<Rightarrow> rat option" where
  "parseFloat64 lit = float64 (decimalValue lit)"

lemma digitsValue_snoc: "digitsValue (s @ [c]) = 10 * digitsValue s + (byte c - 48)"
  by (simp add: digitsValue_def)

lemma digitsValue_decNat: "digitsValue (decNat n) = n"
proof (induction n rule: decNat.induct)
  case (1 n)
  show ?case
  proof (cases "n < 10")
    case True
    then show ?thesis by (simp add: decNat.simps [of n] digitsValue_def digitChar_def)
  next
    case False
    then show ?thesis using 1 by (simp add: decNat.simps [of n] digitsValue_snoc digitChar_def)
  qed
qed

lemma digits_decNat: "list_all digit (decNat n)" "decNat n \<noteq> []"
proof (induction n rule: decNat.induct)
  case (1 n)
  have "d < 10 \<Longrightarrow> digit (digitChar d)" for d by (simp add: digit_def digitChar_def)
  then show "list_all digit (decNat n)" "decNat n \<noteq> []" using 1 by (simp_all add: decNat.simps [of n])
qed

lemma hd_decNat: "hd (decNat n) \<noteq> CHR ''-''"
proof -
  have "digit (hd (decNat n))" using digits_decNat [of n] by (cases "decNat n") auto
  then show ?thesis by (auto simp: digit_def byte_def)
qed

lemma unsigned_Itoa: "unsigned (Itoa i) = (i < 0, decNat (nat \<bar>i\<bar>))"
  using digits_decNat(2) [of "nat i"] hd_decNat [of "nat i"]
  by (cases "decNat (nat i)") (auto simp: unsigned_def Itoa_def)

lemma parseInt64_Itoa: "inInt64 i \<Longrightarrow> parseInt64 (Itoa i) = Some i"
  using digits_decNat by (auto simp: parseInt64_def unsigned_Itoa digitsValue_decNat Let_def)

end
