(* ===== verification/GoReflect.thy ===== *)
theory GoReflect
  imports GoJSON Event
begin

text \<open>
  The other side of encoding/json: decoding a JSON text into a Go value by its type. A type is a
  \<open>gotype\<close>, a struct with the JSON names of its fields and their omitempty; a value is a \<open>goval\<close>.
  \<open>decode\<close> follows the package's reflection: it decodes into the value that is already there, a
  member goes to the field of its exact name or else to the first whose name differs only in case,
  a member no field takes is skipped, null empties a pointer, a slice, a map or an interface and
  leaves anything else alone, and a value of the wrong kind is an error that is kept (the first
  one) while decoding goes on. A type with an UnmarshalJSON of its own is \<open>TyCustom\<close> of the type
  it is declared as; what it does is an argument, and an error it returns ends the decoding.

  A json.RawMessage (\<open>TyRaw\<close>) is the value its bytes write.

  Not modelled: a repeated list keeps in Go what a longer one before it left beyond its length;
  the struct and field names the package adds to the text of a type error.

  The lemmas show that a decoded value has its type, that unknown members change nothing, and that
  the value of a field depends only on the members that go to it.
\<close>

section \<open>Types and values\<close>

datatype gotype =
    TyString | TyInt | TyFloat | TyBool | TyAny | TyRaw
  | TyPtr gotype
  | TySlice gotype
  | TyMap gotype
  | TyStruct string "(string \<times> bool \<times> gotype) list"
  | TyCustom string gotype

type_synonym field = "string \<times> bool \<times> gotype"

datatype (plugins only: code size) goval =
    VString string | VInt int | VFloat rat | VBool bool | VAny json | VRaw "jtext option"
  | VPtr "goval option"
  | VSlice "goval list option"
  | VMap "(string \<times> goval) list option"
  | VStruct "(string \<times> goval) list"

primrec zeroOf :: "gotype \<Rightarrow> goval" where
  "zeroOf TyString = VString []"
| "zeroOf TyInt = VInt 0"
| "zeroOf TyFloat = VFloat 0"
| "zeroOf TyBool = VBool False"
| "zeroOf TyAny = VAny JNull"
| "zeroOf TyRaw = VRaw None"
| "zeroOf (TyPtr ty) = VPtr None"
| "zeroOf (TySlice ty) = VSlice None"
| "zeroOf (TyMap ty) = VMap None"
| "zeroOf (TyStruct n fs) = VStruct (map (\<lambda>(k, _, v). (k, v)) (map (map_prod id (map_prod id zeroOf)) fs))"
| "zeroOf (TyCustom n ty) = zeroOf ty"

text \<open>The type as reflect prints it, for the text of an error.\<close>

primrec typeText :: "gotype \<Rightarrow> string" where
  "typeText TyString = ''string''"
| "typeText TyInt = ''int''"
| "typeText TyFloat = ''float64''"
| "typeText TyBool = ''bool''"
| "typeText TyAny = ''interface {}''"
| "typeText TyRaw = ''json.RawMessage''"
| "typeText (TyPtr ty) = CHR ''*'' # typeText ty"
| "typeText (TySlice ty) = ''[]'' @ typeText ty"
| "typeText (TyMap ty) = ''map[string]'' @ typeText ty"
| "typeText (TyStruct n fs) = n"
| "typeText (TyCustom n ty) = n"

subsection \<open>Values of a type\<close>

fun hasType :: "gotype \<Rightarrow> goval \<Rightarrow> bool" and hasFields :: "field list \<Rightarrow> (string \<times> goval) list \<Rightarrow> bool" where
  "hasType TyString v = (case v of VString _ \<Rightarrow> True | _ \<Rightarrow> False)"
| "hasType TyInt v = (case v of VInt i \<Rightarrow> inInt64 i | _ \<Rightarrow> False)"
| "hasType TyFloat v = (case v of VFloat _ \<Rightarrow> True | _ \<Rightarrow> False)"
| "hasType TyBool v = (case v of VBool _ \<Rightarrow> True | _ \<Rightarrow> False)"
| "hasType TyAny v = (case v of VAny _ \<Rightarrow> True | _ \<Rightarrow> False)"
| "hasType TyRaw v = (case v of VRaw _ \<Rightarrow> True | _ \<Rightarrow> False)"
| "hasType (TyPtr ty) v = (case v of VPtr None \<Rightarrow> True | VPtr (Some w) \<Rightarrow> hasType ty w | _ \<Rightarrow> False)"
| "hasType (TySlice ty) v = (case v of VSlice None \<Rightarrow> True | VSlice (Some vs) \<Rightarrow> list_all (hasType ty) vs | _ \<Rightarrow> False)"
| "hasType (TyMap ty) v = (case v of VMap None \<Rightarrow> True
    | VMap (Some m) \<Rightarrow> gwf m \<and> list_all (hasType ty) (map snd m) | _ \<Rightarrow> False)"
| "hasType (TyStruct n fs) v = (case v of VStruct vals \<Rightarrow> hasFields fs vals | _ \<Rightarrow> False)"
| "hasType (TyCustom n ty) v = hasType ty v"
| "hasFields [] vals = (vals = [])"
| "hasFields ((k, om, ty) # fs) vals =
    (case vals of (k', v) # rest \<Rightarrow> k' = k \<and> hasType ty v \<and> hasFields fs rest | [] \<Rightarrow> False)"

section \<open>Decoding\<close>

subsection \<open>Fields and members\<close>

text \<open>The fold of a rune, for names in ASCII: besides the two cases of a letter only the long s
  and the Kelvin sign fold to an ASCII rune.\<close>

definition foldRune :: "nat \<Rightarrow> nat" where
  "foldRune r =
    (if 0x61 \<le> r \<and> r \<le> 0x7A then r - 0x20
     else if r = 0x17F then 0x53 else if r = 0x212A then 0x4B else r)"

definition foldName :: "string \<Rightarrow> nat list" where
  "foldName s = map foldRune (runes s)"

definition fieldFor :: "field list \<Rightarrow> string \<Rightarrow> field option" where
  "fieldFor fs key =
    (case find (\<lambda>f. fst f = key) fs of
       Some f \<Rightarrow> Some f
     | None \<Rightarrow> find (\<lambda>f. foldName (fst f) = foldName key) fs)"

definition fieldValue :: "string \<Rightarrow> gotype \<Rightarrow> (string \<times> goval) list \<Rightarrow> goval" where
  "fieldValue name ty vals = (case map_of vals name of Some v \<Rightarrow> v | None \<Rightarrow> zeroOf ty)"

subsection \<open>Errors that are kept\<close>

type_synonym saved = "goerr option"

definition typeError :: "string \<Rightarrow> gotype \<Rightarrow> goerr" where
  "typeError what ty = External (''json: cannot unmarshal '' @ what @ '' into Go value of type '' @ typeText ty)"

definition saveError :: "string \<Rightarrow> gotype \<Rightarrow> saved \<Rightarrow> saved" where
  "saveError what ty sv = (case sv of Some e \<Rightarrow> Some e | None \<Rightarrow> Some (typeError what ty))"

subsection \<open>Untyped values\<close>

fun toAny :: "jtext \<Rightarrow> saved \<Rightarrow> json \<times> saved"
  and toAnys :: "jtext list \<Rightarrow> saved \<Rightarrow> json list \<times> saved"
  and toAnyMap :: "(string \<times> jtext) list \<Rightarrow> jmap \<Rightarrow> saved \<Rightarrow> jmap \<times> saved" where
  "toAny TNull sv = (JNull, sv)"
| "toAny (TBool b) sv = (JBool b, sv)"
| "toAny (TStr s) sv = (JStr s, sv)"
| "toAny (TNum lit) sv =
    (case parseFloat64 lit of
       None \<Rightarrow> (JNull, saveError (''number '' @ lit) TyFloat sv)
     | Some x \<Rightarrow> (JNum x, sv))"
| "toAny (TArr ts) sv = (case toAnys ts sv of (js, sv') \<Rightarrow> (JArr js, sv'))"
| "toAny (TObj ms) sv = (case toAnyMap ms [] sv of (m, sv') \<Rightarrow> (JObj m, sv'))"
| "toAnys [] sv = ([], sv)"
| "toAnys (t # ts) sv =
    (case toAny t sv of (j, sv1) \<Rightarrow> (case toAnys ts sv1 of (js, sv2) \<Rightarrow> (j # js, sv2)))"
| "toAnyMap [] m sv = (m, sv)"
| "toAnyMap ((k, t) # ms) m sv = (case toAny t sv of (j, sv1) \<Rightarrow> toAnyMap ms (gput k j m) sv1)"

subsection \<open>Typed values\<close>

type_synonym custom = "string \<Rightarrow> gotype \<Rightarrow> jtext \<Rightarrow> goval \<Rightarrow> goerr + goval"

fun what :: "jtext \<Rightarrow> string" where
  "what TNull = ''null''" | "what (TBool b) = ''bool''" | "what (TNum lit) = ''number''"
| "what (TStr s) = ''string''" | "what (TArr ts) = ''array''" | "what (TObj ms) = ''object''"

text \<open>A value of a kind the type does not take: null is no error, and the value stays as it was.\<close>

definition mismatch :: "gotype \<Rightarrow> jtext \<Rightarrow> goval \<Rightarrow> saved \<Rightarrow> goerr + goval \<times> saved" where
  "mismatch ty t old sv = (case t of TNull \<Rightarrow> Inr (old, sv) | _ \<Rightarrow> Inr (old, saveError (what t) ty sv))"

definition decodeInt :: "jtext \<Rightarrow> goval \<Rightarrow> saved \<Rightarrow> goerr + goval \<times> saved" where
  "decodeInt t old sv = (case t of
      TNum lit \<Rightarrow> (case parseInt64 lit of
          Some i \<Rightarrow> Inr (VInt i, sv)
        | None \<Rightarrow> Inr (old, saveError (''number '' @ lit) TyInt sv))
    | _ \<Rightarrow> mismatch TyInt t old sv)"

definition decodeFloat :: "jtext \<Rightarrow> goval \<Rightarrow> saved \<Rightarrow> goerr + goval \<times> saved" where
  "decodeFloat t old sv = (case t of
      TNum lit \<Rightarrow> (case parseFloat64 lit of
          Some x \<Rightarrow> Inr (VFloat x, sv)
        | None \<Rightarrow> Inr (old, saveError (''number '' @ lit) TyFloat sv))
    | _ \<Rightarrow> mismatch TyFloat t old sv)"

definition decodeString :: "jtext \<Rightarrow> goval \<Rightarrow> saved \<Rightarrow> goerr + goval \<times> saved" where
  "decodeString t old sv = (case t of TStr s \<Rightarrow> Inr (VString s, sv) | _ \<Rightarrow> mismatch TyString t old sv)"

definition decodeBool :: "jtext \<Rightarrow> goval \<Rightarrow> saved \<Rightarrow> goerr + goval \<times> saved" where
  "decodeBool t old sv = (case t of TBool b \<Rightarrow> Inr (VBool b, sv) | _ \<Rightarrow> mismatch TyBool t old sv)"

definition decodeAny :: "jtext \<Rightarrow> goval \<Rightarrow> saved \<Rightarrow> goerr + goval \<times> saved" where
  "decodeAny t old sv = (case t of
      TNum lit \<Rightarrow> (case parseFloat64 lit of
          Some x \<Rightarrow> Inr (VAny (JNum x), sv)
        | None \<Rightarrow> Inr (old, saveError (''number '' @ lit) TyFloat sv))
    | _ \<Rightarrow> (case toAny t sv of (j, sv') \<Rightarrow> Inr (VAny j, sv')))"

definition elemsOf :: "goval \<Rightarrow> goval list" where
  "elemsOf v = (case v of VSlice (Some vs) \<Rightarrow> vs | _ \<Rightarrow> [])"

definition entriesOf :: "goval \<Rightarrow> (string \<times> goval) list" where
  "entriesOf v = (case v of VMap (Some m) \<Rightarrow> m | _ \<Rightarrow> [])"

definition fieldsOf :: "goval \<Rightarrow> (string \<times> goval) list" where
  "fieldsOf v = (case v of VStruct vals \<Rightarrow> vals | _ \<Rightarrow> [])"

definition pointee :: "gotype \<Rightarrow> goval \<Rightarrow> goval" where
  "pointee ty v = (case v of VPtr (Some w) \<Rightarrow> w | _ \<Rightarrow> zeroOf ty)"

definition assign :: "string \<Rightarrow> goval \<Rightarrow> (string \<times> goval) list \<Rightarrow> (string \<times> goval) list" where
  "assign k v vals = map (\<lambda>(k', w). (k', if k' = k then v else w)) vals"

fun tsize :: "jtext \<Rightarrow> nat" and tsizes :: "jtext list \<Rightarrow> nat" and tsizeMembers :: "(string \<times> jtext) list \<Rightarrow> nat" where
  "tsize (TArr ts) = Suc (tsizes ts)"
| "tsize (TObj ms) = Suc (tsizeMembers ms)"
| "tsize _ = 0"
| "tsizes [] = 0"
| "tsizes (t # ts) = Suc (tsize t + tsizes ts)"
| "tsizeMembers [] = 0"
| "tsizeMembers ((k, t) # ms) = Suc (tsize t + tsizeMembers ms)"

function decode :: "custom \<Rightarrow> gotype \<Rightarrow> jtext \<Rightarrow> goval \<Rightarrow> saved \<Rightarrow> goerr + goval \<times> saved"
  and decodeElems :: "custom \<Rightarrow> gotype \<Rightarrow> jtext list \<Rightarrow> goval list \<Rightarrow> saved \<Rightarrow> goerr + goval list \<times> saved"
  and decodeEntries :: "custom \<Rightarrow> gotype \<Rightarrow> (string \<times> jtext) list \<Rightarrow> (string \<times> goval) list \<Rightarrow> saved
    \<Rightarrow> goerr + (string \<times> goval) list \<times> saved"
  and decodeFields :: "custom \<Rightarrow> field list \<Rightarrow> (string \<times> jtext) list \<Rightarrow> (string \<times> goval) list \<Rightarrow> saved
    \<Rightarrow> goerr + (string \<times> goval) list \<times> saved" where
  "decode cu TyString t old sv = decodeString t old sv"
| "decode cu TyInt t old sv = decodeInt t old sv"
| "decode cu TyFloat t old sv = decodeFloat t old sv"
| "decode cu TyBool t old sv = decodeBool t old sv"
| "decode cu TyAny t old sv = decodeAny t old sv"
| "decode cu TyRaw t old sv = Inr (VRaw (Some t), sv)"
| "decode cu (TyPtr ty) t old sv =
    (if t = TNull then Inr (VPtr None, sv)
     else (case decode cu ty t (pointee ty old) sv of
         Inl e \<Rightarrow> Inl e
       | Inr (v, sv') \<Rightarrow> Inr (VPtr (Some v), sv')))"
| "decode cu (TySlice ty) t old sv =
    (case t of
       TNull \<Rightarrow> Inr (VSlice None, sv)
     | TArr ts \<Rightarrow> (case decodeElems cu ty ts (elemsOf old) sv of
           Inl e \<Rightarrow> Inl e
         | Inr (vs, sv') \<Rightarrow> Inr (VSlice (Some vs), sv'))
     | _ \<Rightarrow> mismatch (TySlice ty) t old sv)"
| "decode cu (TyMap ty) t old sv =
    (case t of
       TNull \<Rightarrow> Inr (VMap None, sv)
     | TObj ms \<Rightarrow> (case decodeEntries cu ty ms (entriesOf old) sv of
           Inl e \<Rightarrow> Inl e
         | Inr (m, sv') \<Rightarrow> Inr (VMap (Some m), sv'))
     | _ \<Rightarrow> mismatch (TyMap ty) t old sv)"
| "decode cu (TyStruct n fs) t old sv =
    (case t of
       TObj ms \<Rightarrow> (case decodeFields cu fs ms (fieldsOf old) sv of
           Inl e \<Rightarrow> Inl e
         | Inr (vals, sv') \<Rightarrow> Inr (VStruct vals, sv'))
     | _ \<Rightarrow> mismatch (TyStruct n fs) t old sv)"
| "decode cu (TyCustom n ty) t old sv =
    (case cu n ty t old of Inl e \<Rightarrow> Inl e | Inr v \<Rightarrow> Inr (v, sv))"
| "decodeElems cu ty [] olds sv = Inr ([], sv)"
| "decodeElems cu ty (t # ts) olds sv =
    (case decode cu ty t (case olds of [] \<Rightarrow> zeroOf ty | old # _ \<Rightarrow> old) sv of
       Inl e \<Rightarrow> Inl e
     | Inr (v, sv1) \<Rightarrow> (case decodeElems cu ty ts (tl olds) sv1 of
           Inl e \<Rightarrow> Inl e
         | Inr (vs, sv2) \<Rightarrow> Inr (v # vs, sv2)))"
| "decodeEntries cu ty [] m sv = Inr (m, sv)"
| "decodeEntries cu ty ((k, t) # ms) m sv =
    (case decode cu ty t (zeroOf ty) sv of
       Inl e \<Rightarrow> Inl e
     | Inr (v, sv1) \<Rightarrow> decodeEntries cu ty ms (gput k v m) sv1)"
| "decodeFields cu fs [] vals sv = Inr (vals, sv)"
| "decodeFields cu fs ((k, t) # ms) vals sv =
    (case fieldFor fs k of
       None \<Rightarrow> decodeFields cu fs ms vals sv
     | Some (name, om, ty) \<Rightarrow> (case decode cu ty t (fieldValue name ty vals) sv of
           Inl e \<Rightarrow> Inl e
         | Inr (v, sv1) \<Rightarrow> decodeFields cu fs ms (assign name v vals) sv1))"
  by pat_completeness auto
termination
  by (relation "measures
      [case_sum (case_sum (\<lambda>(cu, ty, t, old, sv). tsize t) (\<lambda>(cu, ty, ts, olds, sv). tsizes ts))
         (case_sum (\<lambda>(cu, ty, ms, m, sv). tsizeMembers ms) (\<lambda>(cu, fs, ms, vals, sv). tsizeMembers ms)),
       case_sum (case_sum (\<lambda>(cu, ty, t, old, sv). size ty) (\<lambda>_. 0)) (\<lambda>_. 0)]") auto

text \<open>json.Unmarshal into a variable that holds \<open>old\<close>.\<close>

definition Unmarshal :: "custom \<Rightarrow> gotype \<Rightarrow> goval \<Rightarrow> string \<Rightarrow> goerr + goval" where
  "Unmarshal cu ty old raw =
    (case parseJSON raw of
       Inl err \<Rightarrow> Inl (External err)
     | Inr t \<Rightarrow> (case decode cu ty t old None of
           Inl e \<Rightarrow> Inl e
         | Inr (v, Some e) \<Rightarrow> Inl e
         | Inr (v, None) \<Rightarrow> Inr v))"

section \<open>Decoded values have their type\<close>

text \<open>A struct type the lemmas are about: no two names of a struct differ only in case.\<close>

fun goodType :: "gotype \<Rightarrow> bool" and goodFields :: "field list \<Rightarrow> bool" where
  "goodType (TyPtr ty) = goodType ty"
| "goodType (TySlice ty) = goodType ty"
| "goodType (TyMap ty) = goodType ty"
| "goodType (TyStruct n fs) = (distinct (map (foldName \<circ> fst) fs) \<and> goodFields fs)"
| "goodType (TyCustom n ty) = goodType ty"
| "goodType _ = True"
| "goodFields [] = True"
| "goodFields ((k, om, ty) # fs) = (goodType ty \<and> goodFields fs)"

definition folded :: "field list \<Rightarrow> bool" where
  "folded fs \<longleftrightarrow> distinct (map (foldName \<circ> fst) fs)"

lemma find_distinct:
  "distinct (map h xs) \<Longrightarrow> find (\<lambda>x. h x = k) xs = Some x \<longleftrightarrow> x \<in> set xs \<and> h x = k"
proof (induction xs)
  case (Cons y ys)
  then show ?case by (auto simp: image_iff)
qed simp

text \<open>Where names are distinct up to case, a member goes to a field exactly when its name is the
  field's up to case.\<close>

lemma fieldFor_iff:
  assumes "folded fs"
  shows "fieldFor fs key = Some f \<longleftrightarrow> f \<in> set fs \<and> foldName (fst f) = foldName key"
proof -
  have f: "find (\<lambda>f. foldName (fst f) = foldName key) fs = Some g \<longleftrightarrow> g \<in> set fs \<and> foldName (fst g) = foldName key" for g
    using find_distinct [of "foldName \<circ> fst" fs "foldName key" g] assms by (simp add: folded_def)
  show ?thesis
  proof (cases "find (\<lambda>f. fst f = key) fs")
    case None
    then show ?thesis using f by (simp add: fieldFor_def)
  next
    case (Some g)
    then have "g \<in> set fs" "fst g = key" by (auto simp: find_Some_iff)
    then have "find (\<lambda>f. foldName (fst f) = foldName key) fs = Some g" using f by simp
    then show ?thesis using Some f [of f] by (auto simp: fieldFor_def)
  qed
qed

lemma fieldFor_None: "folded fs \<Longrightarrow> fieldFor fs key = None \<longleftrightarrow> (\<forall>f \<in> set fs. foldName (fst f) \<noteq> foldName key)"
  by (metis fieldFor_iff not_None_eq)

lemma goodFields_in: "goodFields fs \<Longrightarrow> (k, om, ty) \<in> set fs \<Longrightarrow> goodType ty"
  by (induction fs) auto

lemma hasFields_names: "hasFields fs vals \<Longrightarrow> map fst vals = map fst fs"
proof (induction fs arbitrary: vals)
  case (Cons f fs)
  then show ?case by (cases f) (auto split: list.splits)
qed simp

lemma hasFields_map_of:
  assumes "hasFields fs vals" "(k, om, ty) \<in> set fs" "distinct (map fst fs)"
  shows "\<exists>v. map_of vals k = Some v \<and> hasType ty v"
  using assms
proof (induction fs arbitrary: vals)
  case (Cons f fs)
  obtain k' om' ty' where f: "f = (k', om', ty')" by (cases f)
  obtain v rest where vals: "vals = (k', v) # rest" "hasType ty' v" "hasFields fs rest"
    using Cons.prems(1) by (cases vals) (auto simp: f)
  show ?case
  proof (cases "k = k'")
    case True
    then have "(k, om, ty) = f"
      using Cons.prems(2,3) by (auto simp: f image_iff)
    then show ?thesis using vals f by simp
  next
    case False
    then show ?thesis using Cons.IH [OF vals(3)] Cons.prems f vals(1) by simp
  qed
qed simp

lemma map_of_assign: "map_of (assign k v vals) k' = (if k' = k then map_option (\<lambda>_. v) (map_of vals k) else map_of vals k')"
  by (induction vals) (auto simp: assign_def)

lemma fst_assign [simp]: "map fst (assign k v vals) = map fst vals"
  by (induction vals) (auto simp: assign_def)

lemma hasFields_assign:
  "hasFields fs vals \<Longrightarrow> \<forall>om ty. (k, om, ty) \<in> set fs \<longrightarrow> hasType ty v \<Longrightarrow> hasFields fs (assign k v vals)"
proof (induction fs arbitrary: vals)
  case (Cons f fs)
  obtain k' om' ty' where f: "f = (k', om', ty')" by (cases f)
  then show ?case using Cons by (cases vals) (auto simp: assign_def)
qed (simp add: assign_def)

lemma folded_names: "folded fs \<Longrightarrow> distinct (map fst fs)"
  by (auto simp: folded_def distinct_map comp_def inj_on_def)

lemma folded_unique: "folded fs \<Longrightarrow> (k, om, ty) \<in> set fs \<Longrightarrow> (k, om', ty') \<in> set fs \<Longrightarrow> ty' = ty"
  using eq_key_imp_eq_value [OF folded_names, of fs k "(om, ty)" "(om', ty')"] by simp

lemma zeroOf_TyStruct: "zeroOf (TyStruct n fs) = VStruct (map (\<lambda>(k, om, ty). (k, zeroOf ty)) fs)"
  by (simp add: case_prod_unfold comp_def)

declare zeroOf.simps(10) [simp del] zeroOf_TyStruct [simp]

lemma hasType_zero: "hasType ty (zeroOf ty)" and hasFields_zero: "hasFields fs (map (\<lambda>(k, om, ty). (k, zeroOf ty)) fs)"
  by (induction ty and fs rule: goodType_goodFields.induct) (simp_all add: inInt64_def)

lemma list_all_gput: "P v \<Longrightarrow> list_all P (map snd m) \<Longrightarrow> list_all P (map snd (gput k v m))"
  unfolding gput_def by (induction m) (auto split: if_splits)

text \<open>What a type with an UnmarshalJSON of its own owes: it keeps the type.\<close>

locale unmarshaler =
  fixes custom :: custom
  assumes custom_typed: "custom n ty t old = Inr v \<Longrightarrow> goodType ty \<Longrightarrow> hasType ty old \<Longrightarrow> hasType ty v"
begin

lemma mismatch_value: "mismatch ty t old sv = Inr (v, sv') \<Longrightarrow> v = old"
  by (auto simp: mismatch_def split: jtext.splits)

lemma decode_typed_aux:
  "decode cu ty t old sv = Inr (v, sv') \<Longrightarrow> cu = custom \<Longrightarrow> goodType ty \<Longrightarrow> hasType ty old \<Longrightarrow> hasType ty v"
  "decodeElems cu ty ts olds sv = Inr (vs, sv') \<Longrightarrow> cu = custom \<Longrightarrow> goodType ty \<Longrightarrow> list_all (hasType ty) olds \<Longrightarrow>
     list_all (hasType ty) vs"
  "decodeEntries cu ty ms m sv = Inr (m', sv') \<Longrightarrow> cu = custom \<Longrightarrow> goodType ty \<Longrightarrow> gwf m \<Longrightarrow>
     list_all (hasType ty) (map snd m) \<Longrightarrow> gwf m' \<and> list_all (hasType ty) (map snd m')"
  "decodeFields cu fs ms vals sv = Inr (vals', sv') \<Longrightarrow> cu = custom \<Longrightarrow> folded fs \<Longrightarrow> goodFields fs \<Longrightarrow>
     hasFields fs vals \<Longrightarrow> hasFields fs vals'"
proof (induction cu ty t old sv and cu ty ts olds sv and cu ty ms m sv and cu fs ms vals sv
    arbitrary: v sv' and vs sv' and m' sv' and vals' sv'
    rule: decode_decodeElems_decodeEntries_decodeFields.induct)
  case (1 cu t old sv)
  then show ?case by (auto simp: decodeString_def dest!: mismatch_value split: jtext.splits)
next
  case (2 cu t old sv)
  then show ?case
    by (auto simp: decodeInt_def parseInt64_def Let_def dest!: mismatch_value split: jtext.splits option.splits prod.splits if_splits)
next
  case (3 cu t old sv)
  then show ?case by (auto simp: decodeFloat_def dest!: mismatch_value split: jtext.splits option.splits)
next
  case (4 cu t old sv)
  then show ?case by (auto simp: decodeBool_def dest!: mismatch_value split: jtext.splits)
next
  case (5 cu t old sv)
  then show ?case by (auto simp: decodeAny_def split: jtext.splits option.splits prod.splits)
next
  case (7 cu ty t old sv)
  have "hasType ty (pointee ty old)"
    using 7 hasType_zero by (auto simp: pointee_def split: goval.splits option.splits)
  then show ?case using 7 by (auto split: sum.splits if_splits)
next
  case (8 cu ty t old sv)
  have "list_all (hasType ty) (elemsOf old)"
    using 8 by (auto simp: elemsOf_def split: goval.splits option.splits)
  then show ?case using 8 by (auto dest!: mismatch_value split: jtext.splits sum.splits)
next
  case (9 cu ty t old sv)
  have "gwf (entriesOf old) \<and> list_all (hasType ty) (map snd (entriesOf old))"
    using 9 by (auto simp: entriesOf_def split: goval.splits option.splits)
  then show ?case using 9 by (auto dest!: mismatch_value split: jtext.splits sum.splits)
next
  case (10 cu n fs t old sv)
  have "hasFields fs (fieldsOf old)"
    using 10 by (auto simp: fieldsOf_def split: goval.splits option.splits)
  then show ?case using 10 by (auto simp: folded_def dest!: mismatch_value split: jtext.splits sum.splits)
next
  case (11 cu n ty t old sv)
  then show ?case using custom_typed by (auto split: sum.splits)
next
  case (13 cu ty t ts olds sv)
  have "hasType ty (case olds of [] \<Rightarrow> zeroOf ty | old # _ \<Rightarrow> old)" "list_all (hasType ty) (tl olds)"
    using 13 hasType_zero by (cases olds; auto)+
  then show ?case using 13 by (auto split: sum.splits)
next
  case (15 cu ty k t ms m sv)
  from "15.prems"(1) obtain w sv1 where w: "decode cu ty t (zeroOf ty) sv = Inr (w, sv1)"
      and rest: "decodeEntries cu ty ms (gput k w m) sv1 = Inr (m', sv')"
    by (auto split: sum.splits)
  have "hasType ty w" using "15.IH"(1) w "15.prems" hasType_zero by simp
  then show ?case using "15.IH"(2) [OF w _ rest] "15.prems" list_all_gput [of "hasType ty" w m k] by simp
next
  case (17 cu fs k t ms vals sv)
  show ?case
  proof (cases "fieldFor fs k")
    case None
    then show ?thesis using 17 by simp
  next
    case (Some f)
    obtain name om ty where f: "f = (name, om, ty)" by (cases f)
    from "17.prems"(1) obtain w sv1 where w: "decode cu ty t (fieldValue name ty vals) sv = Inr (w, sv1)"
        and rest: "decodeFields cu fs ms (assign name w vals) sv1 = Inr (vals', sv')"
      by (auto simp: Some f split: sum.splits)
    have in_fs: "(name, om, ty) \<in> set fs"
      using fieldFor_iff [OF "17.prems"(3), of k f] Some by (simp add: f)
    have "hasType ty (fieldValue name ty vals)"
      using hasFields_map_of [OF "17.prems"(5) in_fs folded_names [OF "17.prems"(3)]]
      by (auto simp: fieldValue_def)
    then have "hasType ty w"
      using "17.IH"(2) [OF Some [unfolded f] refl refl w "17.prems"(2)] goodFields_in [OF "17.prems"(4) in_fs] by simp
    then have "hasFields fs (assign name w vals)"
      using hasFields_assign [OF "17.prems"(5)] folded_unique [OF "17.prems"(3) in_fs] by blast
    then show ?thesis using "17.IH"(3) [OF Some [unfolded f] refl refl w refl rest] "17.prems" by simp
  qed
qed simp_all

lemmas decode_typed = decode_typed_aux [OF _ refl]

end

section \<open>What a field depends on\<close>

lemma saveError_Some [simp]: "saveError w ty (Some e) = Some e"
  by (simp add: saveError_def)

lemma toAny_saved:
  "toAny t sv = (j, sv') \<Longrightarrow> sv = Some e \<Longrightarrow> sv' = Some e"
  "toAnys ts sv = (js, sv') \<Longrightarrow> sv = Some e \<Longrightarrow> sv' = Some e"
  "toAnyMap ms m sv = (m', sv') \<Longrightarrow> sv = Some e \<Longrightarrow> sv' = Some e"
  by (induction t sv and ts sv and ms m sv arbitrary: j sv' and js sv' and m' sv' rule: toAny_toAnys_toAnyMap.induct)
    (auto split: prod.splits option.splits)

lemma mismatch_saved: "mismatch ty t old (Some e) = Inr (v, sv') \<Longrightarrow> sv' = Some e"
  by (auto simp: mismatch_def split: jtext.splits)

text \<open>The first error is the one kept.\<close>

lemma decode_saved:
  "decode cu ty t old sv = Inr (v, sv') \<Longrightarrow> sv = Some e \<Longrightarrow> sv' = Some e"
  "decodeElems cu ty ts olds sv = Inr (vs, sv') \<Longrightarrow> sv = Some e \<Longrightarrow> sv' = Some e"
  "decodeEntries cu ty ms m sv = Inr (m', sv') \<Longrightarrow> sv = Some e \<Longrightarrow> sv' = Some e"
  "decodeFields cu fs ms vals sv = Inr (vals', sv') \<Longrightarrow> sv = Some e \<Longrightarrow> sv' = Some e"
proof (induction cu ty t old sv and cu ty ts olds sv and cu ty ms m sv and cu fs ms vals sv
    arbitrary: v sv' and vs sv' and m' sv' and vals' sv'
    rule: decode_decodeElems_decodeEntries_decodeFields.induct)
  case (1 cu t old sv)
  then show ?case by (auto simp: decodeString_def dest!: mismatch_saved split: jtext.splits)
next
  case (2 cu t old sv)
  then show ?case by (auto simp: decodeInt_def dest!: mismatch_saved split: jtext.splits option.splits)
next
  case (3 cu t old sv)
  then show ?case by (auto simp: decodeFloat_def dest!: mismatch_saved split: jtext.splits option.splits)
next
  case (4 cu t old sv)
  then show ?case by (auto simp: decodeBool_def dest!: mismatch_saved split: jtext.splits)
next
  case (5 cu t old sv)
  then show ?case by (auto simp: decodeAny_def dest: toAny_saved split: jtext.splits option.splits prod.splits)
next
  case (7 cu ty t old sv)
  then show ?case by (auto split: sum.splits if_splits)
next
  case (8 cu ty t old sv)
  then show ?case by (auto dest!: mismatch_saved split: jtext.splits sum.splits)
next
  case (9 cu ty t old sv)
  then show ?case by (auto dest!: mismatch_saved split: jtext.splits sum.splits)
next
  case (10 cu n fs t old sv)
  then show ?case by (auto dest!: mismatch_saved split: jtext.splits sum.splits)
next
  case (13 cu ty t ts olds sv)
  from "13.prems"(1) obtain w sv1 us where "decode cu ty t (case olds of [] \<Rightarrow> zeroOf ty | old # _ \<Rightarrow> old) sv = Inr (w, sv1)"
      "decodeElems cu ty ts (tl olds) sv1 = Inr (us, sv')"
    by (auto split: sum.splits)
  then show ?case using 13 by simp
next
  case (15 cu ty k t ms m sv)
  from "15.prems"(1) obtain w sv1 where "decode cu ty t (zeroOf ty) sv = Inr (w, sv1)"
      "decodeEntries cu ty ms (gput k w m) sv1 = Inr (m', sv')"
    by (auto split: sum.splits)
  then show ?case using 15 by simp
next
  case (17 cu fs k t ms vals sv)
  show ?case
  proof (cases "fieldFor fs k")
    case None
    then show ?thesis using 17 by simp
  next
    case (Some f)
    obtain name om ty where f: "f = (name, om, ty)" by (cases f)
    from "17.prems"(1) obtain w sv1 where w: "decode cu ty t (fieldValue name ty vals) sv = Inr (w, sv1)"
        and rest: "decodeFields cu fs ms (assign name w vals) sv1 = Inr (vals', sv')"
      by (auto simp: Some f split: sum.splits)
    have "sv1 = Some e" using "17.IH"(2) [OF Some [unfolded f] refl refl w "17.prems"(2)] .
    then show ?thesis using "17.IH"(3) [OF Some [unfolded f] refl refl w refl rest] by simp
  qed
qed (auto split: sum.splits)

text \<open>A field's value after a run of decodings into it, when none is an error.\<close>

fun decodeRun :: "custom \<Rightarrow> gotype \<Rightarrow> jtext list \<Rightarrow> goval \<Rightarrow> goval option" where
  "decodeRun cu ty [] v = Some v"
| "decodeRun cu ty (t # ts) v =
    (case decode cu ty t v None of Inr (w, None) \<Rightarrow> decodeRun cu ty ts w | _ \<Rightarrow> None)"

definition membersFor :: "string \<Rightarrow> (string \<times> jtext) list \<Rightarrow> jtext list" where
  "membersFor name ms = map snd (filter (\<lambda>m. foldName (fst m) = foldName name) ms)"

lemma decodeFields_run:
  "decodeFields cu fs ms vals None = Inr (vals', None) \<Longrightarrow> folded fs \<Longrightarrow> (k, om, ty) \<in> set fs \<Longrightarrow>
   map_of vals k \<noteq> None \<Longrightarrow> decodeRun cu ty (membersFor k ms) (fieldValue k ty vals) = Some (fieldValue k ty vals')"
proof (induction ms arbitrary: vals)
  case (Cons m ms)
  obtain k' t where m: "m = (k', t)" by (cases m)
  show ?case
  proof (cases "fieldFor fs k'")
    case None
    then have "foldName k \<noteq> foldName k'" using fieldFor_None Cons.prems(2,3) by fastforce
    then show ?thesis using Cons None by (simp add: m membersFor_def eq_commute)
  next
    case (Some f)
    obtain name om' ty' where f: "f = (name, om', ty')" by (cases f)
    obtain w sv1 where w: "decode cu ty' t (fieldValue name ty' vals) None = Inr (w, sv1)"
        and rest: "decodeFields cu fs ms (assign name w vals) sv1 = Inr (vals', None)"
      using Cons.prems(1) by (auto simp: m Some f split: sum.splits)
    have sv1: "sv1 = None" using decode_saved(4) [OF rest] by (cases sv1) auto
    have in_fs: "f \<in> set fs" "foldName name = foldName k'"
      using fieldFor_iff [OF Cons.prems(2), of k' f] Some by (auto simp: f)
    have IH: "decodeRun cu ty (membersFor k ms) (fieldValue k ty (assign name w vals)) = Some (fieldValue k ty vals')"
    proof -
      have "map_of (assign name w vals) k \<noteq> None" using Cons.prems(4) by (auto simp: map_of_assign)
      then show ?thesis using Cons.IH [of "assign name w vals"] rest Cons.prems(2,3) by (simp add: sv1)
    qed
    show ?thesis
    proof (cases "foldName k' = foldName k")
      case True
      then have "fieldFor fs k' = Some (k, om, ty)"
        using fieldFor_iff [OF Cons.prems(2), of k' "(k, om, ty)"] Cons.prems(3) by simp
      then have "name = k" "ty' = ty" using Some f by simp_all
      then show ?thesis using True w sv1 IH Cons.prems(4)
        by (auto simp: m membersFor_def fieldValue_def map_of_assign)
    next
      case False
      then have "name \<noteq> k" using in_fs by auto
      then show ?thesis using False IH by (simp add: m membersFor_def fieldValue_def map_of_assign)
    qed
  qed
qed (simp add: membersFor_def)

text \<open>Members no field takes change nothing.\<close>

lemma decodeFields_skip:
  "fieldFor fs k = None \<Longrightarrow> decodeFields cu fs (ms @ (k, t) # ms') vals sv = decodeFields cu fs (ms @ ms') vals sv"
proof (induction ms arbitrary: vals sv)
  case (Cons m ms)
  then show ?case by (cases m) (auto split: option.split sum.split)
qed simp

section \<open>Checking a struct type\<close>

text \<open>A check of \<open>folded\<close> that computes: ASCII names that differ beyond bit 5 of their bytes differ
  beyond case.\<close>

fun coarse :: "char \<Rightarrow> char" where
  "coarse (Char a b c d e f g h) = Char a b c d e False g h"

definition asciiChar :: "char \<Rightarrow> bool" where
  "asciiChar c = (case c of Char _ _ _ _ _ _ _ h \<Rightarrow> \<not> h)"

definition plainName :: "string \<Rightarrow> bool" where
  "plainName s = list_all asciiChar s"

fun plainType :: "gotype \<Rightarrow> bool" and plainFields :: "field list \<Rightarrow> bool" where
  "plainType (TyPtr ty) = plainType ty"
| "plainType (TySlice ty) = plainType ty"
| "plainType (TyMap ty) = plainType ty"
| "plainType (TyStruct n fs) =
    (list_all (plainName \<circ> fst) fs \<and> distinct (map (map coarse \<circ> fst) fs) \<and> plainFields fs)"
| "plainType (TyCustom n ty) = plainType ty"
| "plainType _ = True"
| "plainFields [] = True"
| "plainFields ((k, om, ty) # fs) = (plainType ty \<and> plainFields fs)"

lemma asciiChar_byte: "asciiChar c \<longleftrightarrow> byte c < 0x80"
proof (cases c)
  case (Char a b c d e f g h)
  then show ?thesis by (cases h) (auto simp: asciiChar_def byte_def split: bool.splits)
qed

lemma coarse_case:
  assumes "0x61 \<le> byte c" "byte c \<le> 0x7A"
  shows "coarse (chr (byte c - 0x20)) = coarse c"
proof -
  have "list_all (\<lambda>n. coarse (chr (n - 0x20)) = coarse (chr n)) [0x61..<0x7B]" by code_simp
  then have "\<forall>n \<in> set [0x61..<0x7B]. coarse (chr (n - 0x20)) = coarse (chr n)" by (simp only: list_all_iff)
  then have "coarse (chr (byte c - 0x20)) = coarse (chr (byte c))" using assms by (simp only: set_upt) simp
  then show ?thesis by simp
qed

lemma coarse_fold:
  assumes "byte c < 0x80" "byte d < 0x80" "foldRune (byte c) = foldRune (byte d)"
  shows "coarse c = coarse d"
proof -
  have "coarse (chr (foldRune (byte x))) = coarse x" if "byte x < 0x80" for x
    using that coarse_case [of x] by (simp add: foldRune_def)
  then show ?thesis using assms by metis
qed

lemma runes_of_ascii: "list_all (\<lambda>c. byte c < 0x80) s \<Longrightarrow> runes s = map byte s"
  using runes_EncodeRunes [of "map byte s"] EncodeRunes_ascii [of s] by (fastforce simp: list_all_iff validRune_def)

lemma coarse_foldName:
  assumes "plainName s" "plainName t" "foldName s = foldName t"
  shows "map coarse s = map coarse t"
proof -
  have "map (foldRune \<circ> byte) s = map (foldRune \<circ> byte) t"
    using assms runes_of_ascii [of s] runes_of_ascii [of t] asciiChar_byte
    by (simp add: foldName_def plainName_def list_all_iff)
  then have "list_all2 (\<lambda>c d. foldRune (byte c) = foldRune (byte d)) s t"
    by (simp add: list_all2_conv_all_nth map_equality_iff)
  moreover have "\<forall>c \<in> set s. byte c < 0x80" "\<forall>d \<in> set t. byte d < 0x80"
    using assms by (simp_all add: plainName_def asciiChar_byte list_all_iff)
  ultimately show ?thesis
    using coarse_fold by (auto simp: list_all2_conv_all_nth map_equality_iff)
qed

lemma plain_good: "plainType ty \<Longrightarrow> goodType ty" "plainFields fs \<Longrightarrow> goodFields fs"
proof (induction ty and fs rule: plainType_plainFields.induct)
  case (4 n fs)
  have "inj_on (foldName \<circ> fst) (set fs)"
  proof (rule inj_onI)
    fix f g assume fg: "f \<in> set fs" "g \<in> set fs" "(foldName \<circ> fst) f = (foldName \<circ> fst) g"
    then have "map coarse (fst f) = map coarse (fst g)"
      using 4 coarse_foldName [of "fst f" "fst g"] by (simp add: list_all_iff)
    then show "f = g" using 4 fg(1,2) unfolding plainType.simps distinct_map inj_on_def comp_def by blast
  qed
  then have "distinct (map (foldName \<circ> fst) fs)" using 4 by (simp add: distinct_map)
  then show ?case using 4 by simp
qed auto

section \<open>What decoding does not look at\<close>

text \<open>A value without the members its type has no field for, at any depth.\<close>

function prune :: "gotype \<Rightarrow> jtext \<Rightarrow> jtext" and pruneElems :: "gotype \<Rightarrow> jtext list \<Rightarrow> jtext list"
  and pruneEntries :: "gotype \<Rightarrow> (string \<times> jtext) list \<Rightarrow> (string \<times> jtext) list"
  and pruneFields :: "field list \<Rightarrow> (string \<times> jtext) list \<Rightarrow> (string \<times> jtext) list" where
  "prune ty t =
    (case ty of
       TyPtr ty' \<Rightarrow> prune ty' t
     | TySlice ty' \<Rightarrow> (case t of TArr ts \<Rightarrow> TArr (pruneElems ty' ts) | _ \<Rightarrow> t)
     | TyMap ty' \<Rightarrow> (case t of TObj ms \<Rightarrow> TObj (pruneEntries ty' ms) | _ \<Rightarrow> t)
     | TyStruct n fs \<Rightarrow> (case t of TObj ms \<Rightarrow> TObj (pruneFields fs ms) | _ \<Rightarrow> t)
     | _ \<Rightarrow> t)"
| "pruneElems ty [] = []"
| "pruneElems ty (t # ts) = prune ty t # pruneElems ty ts"
| "pruneEntries ty [] = []"
| "pruneEntries ty ((k, t) # ms) = (k, prune ty t) # pruneEntries ty ms"
| "pruneFields fs [] = []"
| "pruneFields fs ((k, t) # ms) =
    (case fieldFor fs k of
       None \<Rightarrow> pruneFields fs ms
     | Some (name, om, ty) \<Rightarrow> (k, prune ty t) # pruneFields fs ms)"
  by pat_completeness auto
termination
  by (relation "measures
      [case_sum (case_sum (\<lambda>(ty, t). tsize t) (\<lambda>(ty, ts). tsizes ts))
         (case_sum (\<lambda>(ty, ms). tsizeMembers ms) (\<lambda>(fs, ms). tsizeMembers ms)),
       case_sum (case_sum (\<lambda>(ty, t). size ty) (\<lambda>_. 0)) (\<lambda>_. 0)]") auto

declare prune.simps [simp del]

lemma prune_simps [simp]:
  "prune TyString t = t" "prune TyInt t = t" "prune TyFloat t = t" "prune TyBool t = t" "prune TyAny t = t"
  "prune TyRaw t = t" "prune (TyCustom n ty) t = t" "prune (TyPtr ty) t = prune ty t"
  "prune (TySlice ty) (TArr ts) = TArr (pruneElems ty ts)" "prune (TyMap ty) (TObj ms) = TObj (pruneEntries ty ms)"
  "prune (TyStruct n fs) (TObj ms) = TObj (pruneFields fs ms)" "prune (TySlice ty) (TObj ms) = TObj ms"
  "prune (TyMap ty) (TArr ts) = TArr ts" "prune (TyStruct n fs) (TArr ts) = TArr ts"
  by (simp_all add: prune.simps)

lemma prune_other:
  "(\<And>ts. t \<noteq> TArr ts) \<Longrightarrow> (\<And>ms. t \<noteq> TObj ms) \<Longrightarrow> prune ty t = t"
  by (induction ty) (simp_all add: prune.simps split: jtext.split)

lemma prune_TNull_iff [simp]: "prune ty t = TNull \<longleftrightarrow> t = TNull"
proof (induction ty)
  case (TyPtr ty)
  then show ?case by simp
qed (simp_all add: prune.simps split: jtext.split)

lemma decode_prune:
  "decode cu ty (prune ty t) old sv = decode cu ty t old sv"
  "decodeElems cu ty (pruneElems ty ts) olds sv = decodeElems cu ty ts olds sv"
  "decodeEntries cu ty (pruneEntries ty ms) m sv = decodeEntries cu ty ms m sv"
  "decodeFields cu fs (pruneFields fs ms) vals sv = decodeFields cu fs ms vals sv"
proof (induction cu ty t old sv and cu ty ts olds sv and cu ty ms m sv and cu fs ms vals sv
    rule: decode_decodeElems_decodeEntries_decodeFields.induct)
  case (7 cu ty t old sv)
  then show ?case by (cases "t = TNull") simp_all
next
  case (8 cu ty t old sv)
  then show ?case by (cases t) (simp_all add: prune_other)
next
  case (9 cu ty t old sv)
  then show ?case by (cases t) (simp_all add: prune_other)
next
  case (10 cu n fs t old sv)
  then show ?case by (cases t) (simp_all add: prune_other)
next
  case (13 cu ty t ts olds sv)
  then show ?case by (simp split: sum.split)
next
  case (15 cu ty k t ms m sv)
  then show ?case by (simp split: sum.split)
next
  case (17 cu fs k t ms vals sv)
  then show ?case by (cases "fieldFor fs k") (auto split: sum.split)
qed simp_all

end
