(* ===== verification/ApiTypes.thy ===== *)
theory ApiTypes
  imports GoReflect
begin

text \<open>
  internal/api/api.gen.go: the generated structs the package hands out or decodes into, each as
  the \<open>gotype\<close> that encoding/json sees: the JSON name of a field, whether it is omitempty, and its
  type. They are in the order of their dependencies. \<open>api_X\<close> is the struct X. The struct
  ElicitationRequestParams has an UnmarshalJSON of its own, and a field AdditionalProperties with
  no JSON name, which is listed under its Go name.
\<close>

named_theorems api_schema

definition api_MCPServerSummary :: gotype where [api_schema]:
  "api_MCPServerSummary = TyStruct ''api.MCPServerSummary''
    [(''args'', True, TySlice TyString),
     (''command'', True, TyPtr TyString),
     (''description'', True, TyPtr TyString),
     (''headers'', True, TyMap TyString),
     (''name'', False, TyString),
     (''transport'', False, TyString),
     (''url'', True, TyPtr TyString)]"

definition api_PolicySummary :: gotype where [api_schema]:
  "api_PolicySummary = TyStruct ''api.PolicySummary''
    [(''description'', True, TyPtr TyString),
     (''name'', False, TyString),
     (''on'', False, TySlice TyString),
     (''type'', False, TyString)]"

definition api_SkillSummary :: gotype where [api_schema]:
  "api_SkillSummary = TyStruct ''api.SkillSummary''
    [(''description'', False, TyString),
     (''name'', False, TyString)]"

definition api_AgentObject :: gotype where [api_schema]:
  "api_AgentObject = TyStruct ''api.AgentObject''
    [(''builtin'', True, TyPtr TyBool),
     (''created_at'', False, TyInt),
     (''description'', True, TyPtr TyString),
     (''harness'', True, TyPtr TyString),
     (''id'', False, TyString),
     (''mcp_servers'', True, TySlice api_MCPServerSummary),
     (''mcp_servers_editable'', True, TyPtr TyBool),
     (''name'', False, TyString),
     (''object'', True, TyPtr TyString),
     (''policies'', True, TySlice api_PolicySummary),
     (''skills'', True, TySlice api_SkillSummary),
     (''terminals'', True, TySlice TyString),
     (''updated_at'', True, TyPtr TyInt),
     (''version'', True, TyPtr TyInt)]"

definition api_BrowserActionRequestEvent :: gotype where [api_schema]:
  "api_BrowserActionRequestEvent = TyStruct ''api.BrowserActionRequestEvent''
    [(''action'', False, TyString),
     (''action_id'', False, TyString),
     (''args'', False, TyMap TyAny),
     (''sequence_number'', True, TyPtr TyInt),
     (''type'', False, TyString)]"

definition api_ConversationRef :: gotype where [api_schema]:
  "api_ConversationRef = TyStruct ''api.ConversationRef''
    [(''id'', False, TyString)]"

definition api_ErrorDetail :: gotype where [api_schema]:
  "api_ErrorDetail = TyStruct ''api.ErrorDetail''
    [(''cause'', True, TyPtr TyString),
     (''code'', False, TyString),
     (''message'', False, TyString),
     (''remediation'', True, TyPtr TyString),
     (''title'', True, TyPtr TyString)]"

definition api_IncompleteDetails :: gotype where [api_schema]:
  "api_IncompleteDetails = TyStruct ''api.IncompleteDetails''
    [(''reason'', False, TyString)]"

definition api_UsageDetails :: gotype where [api_schema]:
  "api_UsageDetails = TyStruct ''api.UsageDetails''
    [(''reasoning_tokens'', True, TyPtr TyInt)]"

definition api_Usage :: gotype where [api_schema]:
  "api_Usage = TyStruct ''api.Usage''
    [(''cache_creation_input_tokens'', True, TyPtr TyInt),
     (''cache_read_input_tokens'', True, TyPtr TyInt),
     (''context_tokens'', True, TyPtr TyInt),
     (''cost_usd'', True, TyPtr TyFloat),
     (''input_tokens'', True, TyPtr TyInt),
     (''model'', True, TyPtr TyString),
     (''output_tokens'', True, TyPtr TyInt),
     (''output_tokens_details'', True, TyPtr api_UsageDetails),
     (''total_tokens'', True, TyPtr TyInt)]"

definition api_ResponseObject :: gotype where [api_schema]:
  "api_ResponseObject = TyStruct ''api.ResponseObject''
    [(''background'', True, TyPtr TyBool),
     (''completed_at'', True, TyPtr TyInt),
     (''conversation'', True, TyPtr api_ConversationRef),
     (''created_at'', False, TyInt),
     (''error'', True, TyPtr api_ErrorDetail),
     (''id'', False, TyString),
     (''incomplete_details'', True, TyPtr api_IncompleteDetails),
     (''instructions'', True, TyPtr TyString),
     (''model'', False, TyString),
     (''object'', True, TyPtr TyString),
     (''output'', True, TySlice (TyMap TyAny)),
     (''previous_response_id'', True, TyPtr TyString),
     (''reasoning'', True, TyMap TyString),
     (''status'', False, TyString),
     (''store'', True, TyPtr TyBool),
     (''usage'', True, TyPtr api_Usage)]"

definition api_CancelledEvent :: gotype where [api_schema]:
  "api_CancelledEvent = TyStruct ''api.CancelledEvent''
    [(''response'', False, api_ResponseObject),
     (''sequence_number'', True, TyPtr TyInt),
     (''type'', False, TyString)]"

definition api_ChildSessionSummary :: gotype where [api_schema]:
  "api_ChildSessionSummary = TyStruct ''api.ChildSessionSummary''
    [(''agent_id'', True, TyPtr TyString),
     (''agent_name'', True, TyPtr TyString),
     (''busy'', True, TyPtr TyBool),
     (''created_at'', False, TyInt),
     (''current_task_id'', True, TyPtr TyString),
     (''current_task_status'', True, TyPtr TyString),
     (''id'', False, TyString),
     (''kind'', True, TyPtr TyString),
     (''labels'', True, TyMap TyString),
     (''last_message_preview'', True, TyPtr TyString),
     (''last_task_error'', True, TyMap TyString),
     (''object'', True, TyPtr TyString),
     (''parent_session_id'', False, TyString),
     (''pending_elicitations_count'', True, TyPtr TyInt),
     (''routed_model'', True, TyPtr TyString),
     (''routing_decision_id'', True, TyPtr TyString),
     (''session_name'', True, TyPtr TyString),
     (''task_summary'', True, TyPtr TyString),
     (''title'', True, TyPtr TyString),
     (''tool'', True, TyPtr TyString),
     (''updated_at'', False, TyInt)]"

definition api_ChildSessionList :: gotype where [api_schema]:
  "api_ChildSessionList = TyStruct ''api.ChildSessionList''
    [(''data'', True, TySlice api_ChildSessionSummary),
     (''first_id'', True, TyPtr TyString),
     (''has_more'', True, TyPtr TyBool),
     (''last_id'', True, TyPtr TyString),
     (''object'', True, TyPtr TyString)]"

definition api_ClientTaskCancelEvent :: gotype where [api_schema]:
  "api_ClientTaskCancelEvent = TyStruct ''api.ClientTaskCancelEvent''
    [(''call_id'', True, TyPtr TyString),
     (''sequence_number'', True, TyPtr TyInt),
     (''task_id'', False, TyString),
     (''type'', False, TyString)]"

definition api_CompactionCompletedEvent :: gotype where [api_schema]:
  "api_CompactionCompletedEvent = TyStruct ''api.CompactionCompletedEvent''
    [(''compacted_messages'', True, TySlice (TyMap TyAny)),
     (''sequence_number'', True, TyPtr TyInt),
     (''summary'', True, TyPtr TyString),
     (''summary_model'', True, TyPtr TyString),
     (''total_tokens'', True, TyPtr TyInt),
     (''type'', False, TyString)]"

definition api_CompactionData :: gotype where [api_schema]:
  "api_CompactionData = TyStruct ''api.CompactionData''
    [(''compacted_messages'', True, TySlice (TyMap TyAny)),
     (''last_item_id'', False, TyString),
     (''model'', True, TyPtr TyString),
     (''summary'', False, TyString),
     (''token_count'', False, TyInt),
     (''window_id'', True, TyPtr TyInt)]"

definition api_CompactionFailedEvent :: gotype where [api_schema]:
  "api_CompactionFailedEvent = TyStruct ''api.CompactionFailedEvent''
    [(''sequence_number'', True, TyPtr TyInt),
     (''type'', False, TyString)]"

definition api_CompactionInProgressEvent :: gotype where [api_schema]:
  "api_CompactionInProgressEvent = TyStruct ''api.CompactionInProgressEvent''
    [(''sequence_number'', True, TyPtr TyInt),
     (''type'', False, TyString)]"

definition api_CompletedEvent :: gotype where [api_schema]:
  "api_CompletedEvent = TyStruct ''api.CompletedEvent''
    [(''response'', False, api_ResponseObject),
     (''sequence_number'', True, TyPtr TyInt),
     (''type'', False, TyString)]"

definition api_ConversationDeleted :: gotype where [api_schema]:
  "api_ConversationDeleted = TyStruct ''api.ConversationDeleted''
    [(''deleted'', True, TyPtr TyBool),
     (''id'', False, TyString),
     (''object'', True, TyPtr TyString)]"

definition api_ConversationItem :: gotype where [api_schema]:
  "api_ConversationItem = TyStruct ''api.ConversationItem''
    [(''created_at'', False, TyInt),
     (''created_by'', True, TyPtr TyString),
     (''data'', False, TyRaw),
     (''id'', False, TyString),
     (''response_id'', False, TyString),
     (''status'', False, TyString),
     (''type'', False, TyString)]"

definition api_CreatedEvent :: gotype where [api_schema]:
  "api_CreatedEvent = TyStruct ''api.CreatedEvent''
    [(''response'', False, api_ResponseObject),
     (''sequence_number'', True, TyPtr TyInt),
     (''type'', False, TyString)]"

definition api_ElicitationRequestParams :: gotype where [api_schema]:
  "api_ElicitationRequestParams = TyCustom ''api.ElicitationRequestParams'' (TyStruct ''api.ElicitationRequestParams''
    [(''content_preview'', True, TyPtr TyString),
     (''message'', False, TyString),
     (''mode'', True, TyPtr TyString),
     (''phase'', True, TyPtr TyString),
     (''policy_name'', True, TyPtr TyString),
     (''requestedSchema'', True, TyMap TyAny),
     (''target_session_id'', True, TyPtr TyString),
     (''url'', True, TyPtr TyString),
     (''AdditionalProperties'', False, TyMap TyAny)])"

definition api_ElicitationRequestEvent :: gotype where [api_schema]:
  "api_ElicitationRequestEvent = TyStruct ''api.ElicitationRequestEvent''
    [(''elicitation_id'', False, TyString),
     (''method'', True, TyPtr TyString),
     (''params'', False, api_ElicitationRequestParams),
     (''sequence_number'', True, TyPtr TyInt),
     (''type'', False, TyString)]"

definition api_ElicitationResolvedEvent :: gotype where [api_schema]:
  "api_ElicitationResolvedEvent = TyStruct ''api.ElicitationResolvedEvent''
    [(''elicitation_id'', False, TyString),
     (''sequence_number'', True, TyPtr TyInt),
     (''type'', False, TyString)]"

definition api_ErrorData :: gotype where [api_schema]:
  "api_ErrorData = TyStruct ''api.ErrorData''
    [(''code'', False, TyString),
     (''message'', False, TyString),
     (''source'', False, TyString)]"

definition api_RetryErrorDetail :: gotype where [api_schema]:
  "api_RetryErrorDetail = TyStruct ''api.RetryErrorDetail''
    [(''code'', False, TyString),
     (''detail'', True, TyMap TyAny),
     (''message'', False, TyString)]"

definition api_ErrorEvent :: gotype where [api_schema]:
  "api_ErrorEvent = TyStruct ''api.ErrorEvent''
    [(''error'', False, api_RetryErrorDetail),
     (''sequence_number'', True, TyPtr TyInt),
     (''source'', False, TyString),
     (''tool_name'', True, TyPtr TyString),
     (''type'', False, TyString)]"

definition api_FailedEvent :: gotype where [api_schema]:
  "api_FailedEvent = TyStruct ''api.FailedEvent''
    [(''response'', False, api_ResponseObject),
     (''sequence_number'', True, TyPtr TyInt),
     (''type'', False, TyString)]"

definition api_FunctionCallData :: gotype where [api_schema]:
  "api_FunctionCallData = TyStruct ''api.FunctionCallData''
    [(''arguments'', False, TyString),
     (''call_id'', False, TyString),
     (''model'', False, TyString),
     (''name'', False, TyString)]"

definition api_FunctionCallOutputData :: gotype where [api_schema]:
  "api_FunctionCallOutputData = TyStruct ''api.FunctionCallOutputData''
    [(''call_id'', False, TyString),
     (''output'', False, TyString)]"

definition api_HeartbeatEvent :: gotype where [api_schema]:
  "api_HeartbeatEvent = TyStruct ''api.HeartbeatEvent''
    [(''last_event_seq'', True, TyPtr TyInt),
     (''sequence_number'', True, TyPtr TyInt),
     (''server_time'', True, TyPtr TyString),
     (''type'', False, TyString)]"

definition api_InProgressEvent :: gotype where [api_schema]:
  "api_InProgressEvent = TyStruct ''api.InProgressEvent''
    [(''response'', False, api_ResponseObject),
     (''sequence_number'', True, TyPtr TyInt),
     (''type'', False, TyString)]"

definition api_IncompleteEvent :: gotype where [api_schema]:
  "api_IncompleteEvent = TyStruct ''api.IncompleteEvent''
    [(''response'', False, api_ResponseObject),
     (''sequence_number'', True, TyPtr TyInt),
     (''type'', False, TyString)]"

definition api_MCPServerStartup :: gotype where [api_schema]:
  "api_MCPServerStartup = TyStruct ''api.MCPServerStartup''
    [(''error'', True, TyPtr TyString),
     (''status'', False, TyString)]"

definition api_MessageData :: gotype where [api_schema]:
  "api_MessageData = TyStruct ''api.MessageData''
    [(''content'', False, TySlice (TyMap TyAny)),
     (''interrupted'', True, TyPtr TyBool),
     (''is_meta'', True, TyPtr TyBool),
     (''model'', True, TyPtr TyString),
     (''role'', False, TyString)]"

definition api_ModelUsage :: gotype where [api_schema]:
  "api_ModelUsage = TyStruct ''api.ModelUsage''
    [(''cache_creation_input_tokens'', True, TyPtr TyInt),
     (''cache_read_input_tokens'', True, TyPtr TyInt),
     (''input_tokens'', True, TyPtr TyInt),
     (''output_tokens'', True, TyPtr TyInt),
     (''total_cost_usd'', True, TyPtr TyFloat),
     (''total_tokens'', True, TyPtr TyInt)]"

definition api_NativeReasoningEffortOption :: gotype where [api_schema]:
  "api_NativeReasoningEffortOption = TyStruct ''api.NativeReasoningEffortOption''
    [(''description'', True, TyPtr TyString),
     (''reasoningEffort'', False, TyString)]"

definition api_NativeModelOption :: gotype where [api_schema]:
  "api_NativeModelOption = TyStruct ''api.NativeModelOption''
    [(''defaultReasoningEffort'', True, TyPtr TyString),
     (''displayName'', True, TyPtr TyString),
     (''id'', False, TyString),
     (''isDefault'', True, TyPtr TyBool),
     (''model'', True, TyPtr TyString),
     (''supportedReasoningEfforts'', True, TySlice api_NativeReasoningEffortOption)]"

definition api_NativeToolData :: gotype where [api_schema]:
  "api_NativeToolData = TyStruct ''api.NativeToolData''
    [(''item'', False, TyMap TyAny)]"

definition api_OutputFileDoneEvent :: gotype where [api_schema]:
  "api_OutputFileDoneEvent = TyStruct ''api.OutputFileDoneEvent''
    [(''content_type'', True, TyPtr TyString),
     (''file_id'', False, TyString),
     (''filename'', True, TyPtr TyString),
     (''sequence_number'', True, TyPtr TyInt),
     (''type'', False, TyString)]"

definition api_OutputItemDoneEvent :: gotype where [api_schema]:
  "api_OutputItemDoneEvent = TyStruct ''api.OutputItemDoneEvent''
    [(''item'', False, TyMap TyAny),
     (''sequence_number'', True, TyPtr TyInt),
     (''type'', False, TyString)]"

definition api_OutputTextDeltaEvent :: gotype where [api_schema]:
  "api_OutputTextDeltaEvent = TyStruct ''api.OutputTextDeltaEvent''
    [(''delta'', False, TyString),
     (''final'', True, TyPtr TyBool),
     (''index'', True, TyPtr TyInt),
     (''message_id'', True, TyPtr TyString),
     (''sequence_number'', True, TyPtr TyInt),
     (''type'', False, TyString)]"

definition api_PaginatedList :: gotype where [api_schema]:
  "api_PaginatedList = TyStruct ''api.PaginatedList''
    [(''data'', True, TySlice TyAny),
     (''first_id'', True, TyPtr TyString),
     (''has_more'', True, TyPtr TyBool),
     (''last_id'', True, TyPtr TyString),
     (''object'', True, TyPtr TyString)]"

definition api_PolicyDeniedEvent :: gotype where [api_schema]:
  "api_PolicyDeniedEvent = TyStruct ''api.PolicyDeniedEvent''
    [(''conversation_id'', False, TyString),
     (''phase'', True, TyPtr TyString),
     (''reason'', True, TyPtr TyString),
     (''sequence_number'', True, TyPtr TyInt),
     (''type'', False, TyString)]"

definition api_PresenceViewer :: gotype where [api_schema]:
  "api_PresenceViewer = TyStruct ''api.PresenceViewer''
    [(''idle'', True, TyPtr TyBool),
     (''joined_at'', False, TyString),
     (''user_id'', False, TyString)]"

definition api_QueuedEvent :: gotype where [api_schema]:
  "api_QueuedEvent = TyStruct ''api.QueuedEvent''
    [(''response'', False, api_ResponseObject),
     (''sequence_number'', True, TyPtr TyInt),
     (''type'', False, TyString)]"

definition api_ReasoningData :: gotype where [api_schema]:
  "api_ReasoningData = TyStruct ''api.ReasoningData''
    [(''content'', True, TySlice (TyMap TyString)),
     (''encrypted_content'', True, TyPtr TyString),
     (''model'', False, TyString),
     (''summary'', False, TySlice (TyMap TyString))]"

definition api_ReasoningStartedEvent :: gotype where [api_schema]:
  "api_ReasoningStartedEvent = TyStruct ''api.ReasoningStartedEvent''
    [(''sequence_number'', True, TyPtr TyInt),
     (''type'', False, TyString)]"

definition api_ReasoningSummaryTextDeltaEvent :: gotype where [api_schema]:
  "api_ReasoningSummaryTextDeltaEvent = TyStruct ''api.ReasoningSummaryTextDeltaEvent''
    [(''delta'', False, TyString),
     (''sequence_number'', True, TyPtr TyInt),
     (''type'', False, TyString)]"

definition api_ReasoningTextDeltaEvent :: gotype where [api_schema]:
  "api_ReasoningTextDeltaEvent = TyStruct ''api.ReasoningTextDeltaEvent''
    [(''delta'', False, TyString),
     (''sequence_number'', True, TyPtr TyInt),
     (''type'', False, TyString)]"

definition api_ResourceEventData :: gotype where [api_schema]:
  "api_ResourceEventData = TyStruct ''api.ResourceEventData''
    [(''event_type'', False, TyString),
     (''resource'', True, TyMap TyAny),
     (''resource_id'', False, TyString),
     (''resource_type'', False, TyString)]"

definition api_RetryEvent :: gotype where [api_schema]:
  "api_RetryEvent = TyStruct ''api.RetryEvent''
    [(''attempt'', False, TyInt),
     (''delay_seconds'', False, TyFloat),
     (''error'', False, api_RetryErrorDetail),
     (''max_attempts'', False, TyInt),
     (''sequence_number'', True, TyPtr TyInt),
     (''source'', False, TyString),
     (''tool_name'', True, TyPtr TyString),
     (''type'', False, TyString)]"

definition api_RoutingDecisionData :: gotype where [api_schema]:
  "api_RoutingDecisionData = TyStruct ''api.RoutingDecisionData''
    [(''agent'', True, TyPtr TyString),
     (''applied'', False, TyBool),
     (''attempted_override'', True, TyPtr TyString),
     (''decision_id'', True, TyPtr TyString),
     (''harness'', True, TyPtr TyString),
     (''model'', False, TyString),
     (''rationale'', False, TyString),
     (''raw_model'', True, TyPtr TyString),
     (''router_source'', True, TyPtr TyString),
     (''scope'', True, TyPtr TyString)]"

definition api_SandboxStatus :: gotype where [api_schema]:
  "api_SandboxStatus = TyStruct ''api.SandboxStatus''
    [(''error'', True, TyPtr TyString),
     (''stage'', False, TyString)]"

definition api_SessionAgentChangedEvent :: gotype where [api_schema]:
  "api_SessionAgentChangedEvent = TyStruct ''api.SessionAgentChangedEvent''
    [(''agent_id'', False, TyString),
     (''agent_name'', False, TyString),
     (''conversation_id'', False, TyString),
     (''sequence_number'', True, TyPtr TyInt),
     (''type'', False, TyString)]"

definition api_SessionChangedFilesInvalidatedEvent :: gotype where [api_schema]:
  "api_SessionChangedFilesInvalidatedEvent = TyStruct ''api.SessionChangedFilesInvalidatedEvent''
    [(''environment_id'', True, TyPtr TyString),
     (''sequence_number'', True, TyPtr TyInt),
     (''session_id'', False, TyString),
     (''type'', False, TyString)]"

definition api_SessionChildSessionUpdatedEvent :: gotype where [api_schema]:
  "api_SessionChildSessionUpdatedEvent = TyStruct ''api.SessionChildSessionUpdatedEvent''
    [(''child'', False, TyMap TyAny),
     (''child_session_id'', False, TyString),
     (''conversation_id'', False, TyString),
     (''sequence_number'', True, TyPtr TyInt),
     (''type'', False, TyString)]"

definition api_SessionCollaborationModeEvent :: gotype where [api_schema]:
  "api_SessionCollaborationModeEvent = TyStruct ''api.SessionCollaborationModeEvent''
    [(''conversation_id'', False, TyString),
     (''mode'', False, TyString),
     (''sequence_number'', True, TyPtr TyInt),
     (''type'', False, TyString)]"

definition api_SessionCreatedEvent :: gotype where [api_schema]:
  "api_SessionCreatedEvent = TyStruct ''api.SessionCreatedEvent''
    [(''agent_id'', True, TyPtr TyString),
     (''child_session_id'', False, TyString),
     (''conversation_id'', False, TyString),
     (''parent_session_id'', True, TyPtr TyString),
     (''sequence_number'', True, TyPtr TyInt),
     (''type'', False, TyString)]"

definition api_SessionForkRequest :: gotype where [api_schema]:
  "api_SessionForkRequest = TyStruct ''api.SessionForkRequest''
    [(''agent_id'', True, TyPtr TyString),
     (''title'', True, TyPtr TyString),
     (''up_to_response_id'', True, TyPtr TyString)]"

definition api_SessionGitOptions :: gotype where [api_schema]:
  "api_SessionGitOptions = TyStruct ''api.SessionGitOptions''
    [(''base_branch'', True, TyPtr TyString),
     (''branch_name'', False, TyString),
     (''existing_worktree'', True, TyPtr TyBool)]"

definition api_SessionHeartbeatEvent :: gotype where [api_schema]:
  "api_SessionHeartbeatEvent = TyStruct ''api.SessionHeartbeatEvent''
    [(''sequence_number'', True, TyPtr TyInt),
     (''server_time'', True, TyPtr TyString),
     (''type'', False, TyString)]"

definition api_SessionInputConsumedPayload :: gotype where [api_schema]:
  "api_SessionInputConsumedPayload = TyStruct ''api.SessionInputConsumedPayload''
    [(''cleared_pending_id'', True, TyPtr TyString),
     (''created_by'', True, TyPtr TyString),
     (''data'', False, TyMap TyAny),
     (''item_id'', False, TyString),
     (''type'', False, TyString)]"

definition api_SessionInputConsumedEvent :: gotype where [api_schema]:
  "api_SessionInputConsumedEvent = TyStruct ''api.SessionInputConsumedEvent''
    [(''data'', False, api_SessionInputConsumedPayload),
     (''sequence_number'', True, TyPtr TyInt),
     (''type'', False, TyString)]"

definition api_SessionInterruptedPayload :: gotype where [api_schema]:
  "api_SessionInterruptedPayload = TyStruct ''api.SessionInterruptedPayload''
    [(''requested_at'', False, TyInt),
     (''response_id'', True, TyPtr TyString)]"

definition api_SessionInterruptedEvent :: gotype where [api_schema]:
  "api_SessionInterruptedEvent = TyStruct ''api.SessionInterruptedEvent''
    [(''data'', False, api_SessionInterruptedPayload),
     (''sequence_number'', True, TyPtr TyInt),
     (''type'', False, TyString)]"

definition api_SessionListItem :: gotype where [api_schema]:
  "api_SessionListItem = TyStruct ''api.SessionListItem''
    [(''agent_id'', False, TyString),
     (''agent_name'', True, TyPtr TyString),
     (''archived'', True, TyPtr TyBool),
     (''comments_count'', True, TyPtr TyInt),
     (''comments_updated_at'', True, TyPtr TyInt),
     (''created_at'', False, TyInt),
     (''external_session_id'', True, TyPtr TyString),
     (''git_branch'', True, TyPtr TyString),
     (''host_id'', True, TyPtr TyString),
     (''host_online'', True, TyPtr TyBool),
     (''id'', False, TyString),
     (''labels'', True, TyMap TyString),
     (''owner'', True, TyPtr TyString),
     (''parent_session_id'', True, TyPtr TyString),
     (''pending_elicitations_count'', True, TyPtr TyInt),
     (''permission_level'', True, TyPtr TyInt),
     (''project_id'', True, TyPtr TyString),
     (''reasoning_effort'', True, TyPtr TyString),
     (''runner_id'', True, TyPtr TyString),
     (''runner_online'', True, TyPtr TyBool),
     (''search_snippet'', True, TyPtr TyString),
     (''status'', False, TyString),
     (''title'', True, TyPtr TyString),
     (''updated_at'', False, TyInt),
     (''viewer_last_seen'', True, TyPtr TyInt),
     (''viewer_unread'', True, TyPtr TyBool),
     (''workspace'', True, TyPtr TyString)]"

definition api_SessionList :: gotype where [api_schema]:
  "api_SessionList = TyStruct ''api.SessionList''
    [(''data'', True, TySlice api_SessionListItem),
     (''first_id'', True, TyPtr TyString),
     (''has_more'', True, TyPtr TyBool),
     (''last_id'', True, TyPtr TyString),
     (''object'', True, TyPtr TyString)]"

definition api_SessionMCPStartupEvent :: gotype where [api_schema]:
  "api_SessionMCPStartupEvent = TyStruct ''api.SessionMCPStartupEvent''
    [(''conversation_id'', False, TyString),
     (''sequence_number'', True, TyPtr TyInt),
     (''servers'', False, TyMap api_MCPServerStartup),
     (''type'', False, TyString)]"

definition api_SessionModelEvent :: gotype where [api_schema]:
  "api_SessionModelEvent = TyStruct ''api.SessionModelEvent''
    [(''conversation_id'', False, TyString),
     (''model'', False, TyString),
     (''sequence_number'', True, TyPtr TyInt),
     (''type'', False, TyString)]"

definition api_SessionModelOptionsEvent :: gotype where [api_schema]:
  "api_SessionModelOptionsEvent = TyStruct ''api.SessionModelOptionsEvent''
    [(''conversation_id'', False, TyString),
     (''sequence_number'', True, TyPtr TyInt),
     (''type'', False, TyString)]"

definition api_SessionPresenceEvent :: gotype where [api_schema]:
  "api_SessionPresenceEvent = TyStruct ''api.SessionPresenceEvent''
    [(''conversation_id'', False, TyString),
     (''sequence_number'', True, TyPtr TyInt),
     (''type'', False, TyString),
     (''viewers'', False, TySlice api_PresenceViewer)]"

definition api_SessionReasoningEffortEvent :: gotype where [api_schema]:
  "api_SessionReasoningEffortEvent = TyStruct ''api.SessionReasoningEffortEvent''
    [(''conversation_id'', False, TyString),
     (''reasoning_effort'', True, TyPtr TyString),
     (''sequence_number'', True, TyPtr TyInt),
     (''type'', False, TyString)]"

definition api_SessionResourceCreatedEvent :: gotype where [api_schema]:
  "api_SessionResourceCreatedEvent = TyStruct ''api.SessionResourceCreatedEvent''
    [(''resource'', False, TyMap TyAny),
     (''sequence_number'', True, TyPtr TyInt),
     (''type'', False, TyString)]"

definition api_SessionResourceDeletedEvent :: gotype where [api_schema]:
  "api_SessionResourceDeletedEvent = TyStruct ''api.SessionResourceDeletedEvent''
    [(''resource_id'', False, TyString),
     (''resource_type'', False, TyString),
     (''sequence_number'', True, TyPtr TyInt),
     (''session_id'', False, TyString),
     (''type'', False, TyString)]"

definition api_SessionResponse :: gotype where [api_schema]:
  "api_SessionResponse = TyStruct ''api.SessionResponse''
    [(''active_response_id'', True, TyPtr TyString),
     (''agent_id'', False, TyString),
     (''agent_name'', True, TyPtr TyString),
     (''archived'', True, TyPtr TyBool),
     (''background_task_count'', True, TyPtr TyInt),
     (''context_window'', True, TyPtr TyInt),
     (''cost_control_mode_override'', True, TyPtr TyString),
     (''created_at'', False, TyInt),
     (''external_session_id'', True, TyPtr TyString),
     (''git_branch'', True, TyPtr TyString),
     (''harness'', True, TyPtr TyString),
     (''host_id'', True, TyPtr TyString),
     (''host_online'', True, TyPtr TyBool),
     (''host_resumable'', True, TyPtr TyBool),
     (''id'', False, TyString),
     (''items'', True, TySlice api_ConversationItem),
     (''kind'', True, TyPtr TyString),
     (''labels'', True, TyMap TyString),
     (''last_task_error'', True, TyMap TyString),
     (''last_total_tokens'', True, TyPtr TyInt),
     (''llm_model'', True, TyPtr TyString),
     (''mcp_startup'', True, TyMap api_MCPServerStartup),
     (''model_options'', True, TySlice api_NativeModelOption),
     (''model_override'', True, TyPtr TyString),
     (''parent_session_id'', True, TyPtr TyString),
     (''pending_elicitations'', True, TySlice (TyMap TyAny)),
     (''pending_inputs'', True, TySlice (TyMap TyAny)),
     (''permission_level'', True, TyPtr TyInt),
     (''project_id'', True, TyPtr TyString),
     (''reasoning_effort'', True, TyPtr TyString),
     (''root_conversation_id'', True, TyPtr TyString),
     (''runner_id'', True, TyPtr TyString),
     (''runner_online'', True, TyPtr TyBool),
     (''sandbox_status'', True, TyPtr api_SandboxStatus),
     (''skills'', True, TySlice api_SkillSummary),
     (''status'', False, TyString),
     (''sub_agent_name'', True, TyPtr TyString),
     (''subagent_routing_override'', True, TyPtr TyString),
     (''terminal_launch_args'', True, TySlice TyString),
     (''terminal_pending'', True, TyPtr TyBool),
     (''title'', True, TyPtr TyString),
     (''todos'', True, TySlice (TyMap TyAny)),
     (''total_cost_usd'', True, TyPtr TyFloat),
     (''updated_at'', True, TyPtr TyInt),
     (''usage_by_model'', True, TyMap api_ModelUsage),
     (''workspace'', True, TyPtr TyString)]"

definition api_SessionSandboxStatusEvent :: gotype where [api_schema]:
  "api_SessionSandboxStatusEvent = TyStruct ''api.SessionSandboxStatusEvent''
    [(''conversation_id'', False, TyString),
     (''error'', True, TyPtr TyString),
     (''sequence_number'', True, TyPtr TyInt),
     (''stage'', False, TyString),
     (''type'', False, TyString)]"

definition api_SessionSkillsEvent :: gotype where [api_schema]:
  "api_SessionSkillsEvent = TyStruct ''api.SessionSkillsEvent''
    [(''conversation_id'', False, TyString),
     (''sequence_number'', True, TyPtr TyInt),
     (''type'', False, TyString)]"

definition api_SessionStatusEvent :: gotype where [api_schema]:
  "api_SessionStatusEvent = TyStruct ''api.SessionStatusEvent''
    [(''background_task_count'', True, TyPtr TyInt),
     (''blocked_on'', True, TyPtr TyString),
     (''conversation_id'', False, TyString),
     (''error'', True, TyPtr api_ErrorDetail),
     (''response_id'', True, TyPtr TyString),
     (''sequence_number'', True, TyPtr TyInt),
     (''status'', False, TyString),
     (''type'', False, TyString)]"

definition api_SessionSupersededEvent :: gotype where [api_schema]:
  "api_SessionSupersededEvent = TyStruct ''api.SessionSupersededEvent''
    [(''conversation_id'', False, TyString),
     (''reason'', True, TyPtr TyString),
     (''sequence_number'', True, TyPtr TyInt),
     (''target_conversation_id'', False, TyString),
     (''type'', False, TyString)]"

definition api_SessionTerminalActivityEvent :: gotype where [api_schema]:
  "api_SessionTerminalActivityEvent = TyStruct ''api.SessionTerminalActivityEvent''
    [(''sequence_number'', True, TyPtr TyInt),
     (''session_id'', False, TyString),
     (''terminal_id'', False, TyString),
     (''type'', False, TyString)]"

definition api_SessionTerminalPendingEvent :: gotype where [api_schema]:
  "api_SessionTerminalPendingEvent = TyStruct ''api.SessionTerminalPendingEvent''
    [(''conversation_id'', False, TyString),
     (''pending'', False, TyBool),
     (''sequence_number'', True, TyPtr TyInt),
     (''type'', False, TyString)]"

definition api_SessionTodosEvent :: gotype where [api_schema]:
  "api_SessionTodosEvent = TyStruct ''api.SessionTodosEvent''
    [(''conversation_id'', False, TyString),
     (''sequence_number'', True, TyPtr TyInt),
     (''todos'', False, TySlice (TyMap TyAny)),
     (''type'', False, TyString)]"

definition api_SessionUsageEvent :: gotype where [api_schema]:
  "api_SessionUsageEvent = TyStruct ''api.SessionUsageEvent''
    [(''context_tokens'', True, TyPtr TyInt),
     (''context_window'', True, TyPtr TyInt),
     (''conversation_id'', False, TyString),
     (''sequence_number'', True, TyPtr TyInt),
     (''total_cost_usd'', True, TyPtr TyFloat),
     (''type'', False, TyString),
     (''usage_by_model'', True, TyMap api_ModelUsage)]"

definition api_SlashCommandData :: gotype where [api_schema]:
  "api_SlashCommandData = TyStruct ''api.SlashCommandData''
    [(''arguments'', False, TyString),
     (''kind'', True, TyPtr TyString),
     (''model'', False, TyString),
     (''name'', False, TyString),
     (''output'', True, TyPtr TyString)]"

definition api_TerminalCommandData :: gotype where [api_schema]:
  "api_TerminalCommandData = TyStruct ''api.TerminalCommandData''
    [(''input'', True, TyPtr TyString),
     (''kind'', False, TyString),
     (''stderr'', True, TyPtr TyString),
     (''stdout'', True, TyPtr TyString)]"

definition api_ToolOutputDeltaEvent :: gotype where [api_schema]:
  "api_ToolOutputDeltaEvent = TyStruct ''api.ToolOutputDeltaEvent''
    [(''call_id'', False, TyString),
     (''delta'', False, TyString),
     (''sequence_number'', True, TyPtr TyInt),
     (''type'', False, TyString)]"

definition api_TurnCancelledEvent :: gotype where [api_schema]:
  "api_TurnCancelledEvent = TyStruct ''api.TurnCancelledEvent''
    [(''sequence_number'', True, TyPtr TyInt),
     (''session_id'', False, TyString),
     (''type'', False, TyString)]"

definition api_TurnCompletedEvent :: gotype where [api_schema]:
  "api_TurnCompletedEvent = TyStruct ''api.TurnCompletedEvent''
    [(''sequence_number'', True, TyPtr TyInt),
     (''session_id'', False, TyString),
     (''type'', False, TyString)]"

definition api_TurnFailedEvent :: gotype where [api_schema]:
  "api_TurnFailedEvent = TyStruct ''api.TurnFailedEvent''
    [(''error'', True, TyMap TyAny),
     (''sequence_number'', True, TyPtr TyInt),
     (''session_id'', False, TyString),
     (''type'', False, TyString)]"

definition api_TurnStartedEvent :: gotype where [api_schema]:
  "api_TurnStartedEvent = TyStruct ''api.TurnStartedEvent''
    [(''sequence_number'', True, TyPtr TyInt),
     (''session_id'', False, TyString),
     (''type'', False, TyString)]"

definition api_UpdateSessionRequest :: gotype where [api_schema]:
  "api_UpdateSessionRequest = TyStruct ''api.UpdateSessionRequest''
    [(''archived'', True, TyPtr TyBool),
     (''collaboration_mode'', True, TyPtr TyString),
     (''cost_control_mode_override'', True, TyPtr TyString),
     (''external_session_id'', True, TyPtr TyString),
     (''labels'', True, TyMap TyString),
     (''model_override'', True, TyPtr TyString),
     (''project_id'', True, TyPtr TyString),
     (''reasoning_effort'', True, TyPtr TyString),
     (''runner_id'', True, TyPtr TyString),
     (''silent'', True, TyPtr TyBool),
     (''subagent_routing_override'', True, TyPtr TyString),
     (''terminal_launch_args'', True, TySlice TyString),
     (''title'', True, TyPtr TyString)]"

end
