(* ===== verification/Wire.thy ===== *)
theory Wire
  imports ApiTypes Stream
begin

text \<open>
  From bytes to events: event.go's decoders and the probe of stream.go over the model of
  encoding/json, the type of each variant in api.gen.go, and the one generated UnmarshalJSON and
  MarshalJSON the events use (ElicitationRequestParams). What the other theories take as a
  parameter (\<open>dep_probe\<close>, \<open>dep_unmarshal\<close>) is defined here as \<open>wireDeps\<close>.

  A decoded struct is a \<open>goval\<close>; \<open>bodyOf\<close> reads the fields the package reads into an event of
  Event.thy.

  The lemmas show that what is decoded has its type, that an event reports the type its frame
  carried, that members a struct does not have change nothing, and that a stream of frames a
  server prints is read back as their events.
\<close>

section \<open>ElicitationRequestParams\<close>

text \<open>A type without an UnmarshalJSON inside never asks for one.\<close>

definition noCustom :: custom where
  "noCustom n ty t old = Inr old"

definition unmarshalInto :: "gotype \<Rightarrow> jtext \<Rightarrow> goval \<Rightarrow> goerr + goval" where
  "unmarshalInto ty t old = (case decode noCustom ty t old None of
      Inl e \<Rightarrow> Inl e | Inr (v, Some e) \<Rightarrow> Inl e | Inr (v, None) \<Rightarrow> Inr v)"

definition elicitationFields :: "(string \<times> gotype) list" where
  "elicitationFields =
    [(''content_preview'', TyPtr TyString), (''message'', TyString), (''mode'', TyPtr TyString),
     (''phase'', TyPtr TyString), (''policy_name'', TyPtr TyString), (''requestedSchema'', TyMap TyAny),
     (''target_session_id'', TyPtr TyString), (''url'', TyPtr TyString)]"

text \<open>One known field: decoded and taken out of the object when it is there.\<close>

fun readKnown :: "(string \<times> gotype) list \<Rightarrow> jtext gomap \<Rightarrow> (string \<times> goval) list \<Rightarrow>
    goerr + jtext gomap \<times> (string \<times> goval) list" where
  "readKnown [] object vals = Inr (object, vals)"
| "readKnown ((name, ty) # fs) object vals =
    (case map_of object name of
       None \<Rightarrow> readKnown fs object vals
     | Some raw \<Rightarrow> (case unmarshalInto ty raw (fieldValue name ty vals) of
           Inl err \<Rightarrow> Inl (Errorf [Txt (''error reading '' @ CHR 0x27 # name @ CHR 0x27 # '': ''), Wrapped err])
         | Inr v \<Rightarrow> readKnown fs (gdel name object) (assign name v vals)))"

text \<open>The rest of the object, in the order of the members; Go visits them in any order, so when
  several fail it may report another one.\<close>

fun readRest :: "jtext gomap \<Rightarrow> (string \<times> goval) list \<Rightarrow> goerr + (string \<times> goval) list" where
  "readRest [] m = Inr m"
| "readRest ((name, raw) # object) m =
    (case unmarshalInto TyAny raw (VAny JNull) of
       Inl err \<Rightarrow> Inl (Errorf [Txt (''error unmarshaling field '' @ name @ '': ''), Wrapped err])
     | Inr v \<Rightarrow> readRest object (gput name v m))"

text \<open>The members as a map of raw values: the last of a name counts, and null is an empty one.\<close>

definition rawMap :: "gotype \<Rightarrow> jtext \<Rightarrow> goerr + jtext gomap" where
  "rawMap ty t = (case t of
      TObj ms \<Rightarrow> Inr (fold (\<lambda>(k, v) m. gput k v m) ms [])
    | TNull \<Rightarrow> Inr []
    | _ \<Rightarrow> Inl (typeError (what t) (TyMap TyRaw)))"

definition ElicitationRequestParams_UnmarshalJSON :: "jtext \<Rightarrow> goval \<Rightarrow> goerr + goval" where
  "ElicitationRequestParams_UnmarshalJSON t a =
    (case rawMap (TyMap TyRaw) t of
       Inl err \<Rightarrow> Inl err
     | Inr object \<Rightarrow> (case readKnown elicitationFields object (fieldsOf a) of
           Inl err \<Rightarrow> Inl err
         | Inr (rest, vals) \<Rightarrow>
             if rest = [] then Inr (VStruct vals)
             else (case readRest rest [] of
                 Inl err \<Rightarrow> Inl err
               | Inr m \<Rightarrow> Inr (VStruct (assign ''AdditionalProperties'' (VMap (Some m)) vals)))))"

text \<open>The types with an UnmarshalJSON: ElicitationRequestParams is the only one decoded.\<close>

definition apiCustom :: custom where
  "apiCustom n ty t old =
    (if TyCustom n ty = api_ElicitationRequestParams then ElicitationRequestParams_UnmarshalJSON t old else Inr old)"

section \<open>The types of the variants\<close>

definition variantType :: "variant \<Rightarrow> gotype" where
  "variantType v = (case v of
      VBrowserActionRequest \<Rightarrow> api_BrowserActionRequestEvent
    | VClientTaskCancel \<Rightarrow> api_ClientTaskCancelEvent
    | VCompactionCompleted \<Rightarrow> api_CompactionCompletedEvent
    | VCompactionFailed \<Rightarrow> api_CompactionFailedEvent
    | VCompactionInProgress \<Rightarrow> api_CompactionInProgressEvent
    | VElicitationRequest \<Rightarrow> api_ElicitationRequestEvent
    | VElicitationResolved \<Rightarrow> api_ElicitationResolvedEvent
    | VError \<Rightarrow> api_ErrorEvent
    | VInProgress \<Rightarrow> api_InProgressEvent
    | VIncomplete \<Rightarrow> api_IncompleteEvent
    | VOutputFileDone \<Rightarrow> api_OutputFileDoneEvent
    | VOutputItemDone \<Rightarrow> api_OutputItemDoneEvent
    | VOutputTextDelta \<Rightarrow> api_OutputTextDeltaEvent
    | VPolicyDenied \<Rightarrow> api_PolicyDeniedEvent
    | VQueued \<Rightarrow> api_QueuedEvent
    | VReasoningStarted \<Rightarrow> api_ReasoningStartedEvent
    | VReasoningSummaryTextDelta \<Rightarrow> api_ReasoningSummaryTextDeltaEvent
    | VReasoningTextDelta \<Rightarrow> api_ReasoningTextDeltaEvent
    | VResponseCancelled \<Rightarrow> api_CancelledEvent
    | VResponseCompleted \<Rightarrow> api_CompletedEvent
    | VResponseCreated \<Rightarrow> api_CreatedEvent
    | VResponseFailed \<Rightarrow> api_FailedEvent
    | VResponseHeartbeat \<Rightarrow> api_HeartbeatEvent
    | VRetry \<Rightarrow> api_RetryEvent
    | VSessionAgentChanged \<Rightarrow> api_SessionAgentChangedEvent
    | VSessionChangedFilesInvalidated \<Rightarrow> api_SessionChangedFilesInvalidatedEvent
    | VSessionChildSessionUpdated \<Rightarrow> api_SessionChildSessionUpdatedEvent
    | VSessionCollaborationMode \<Rightarrow> api_SessionCollaborationModeEvent
    | VSessionCreated \<Rightarrow> api_SessionCreatedEvent
    | VSessionHeartbeat \<Rightarrow> api_SessionHeartbeatEvent
    | VSessionInputConsumed \<Rightarrow> api_SessionInputConsumedEvent
    | VSessionInterrupted \<Rightarrow> api_SessionInterruptedEvent
    | VSessionMCPStartup \<Rightarrow> api_SessionMCPStartupEvent
    | VSessionModel \<Rightarrow> api_SessionModelEvent
    | VSessionModelOptions \<Rightarrow> api_SessionModelOptionsEvent
    | VSessionPresence \<Rightarrow> api_SessionPresenceEvent
    | VSessionReasoningEffort \<Rightarrow> api_SessionReasoningEffortEvent
    | VSessionResourceCreated \<Rightarrow> api_SessionResourceCreatedEvent
    | VSessionResourceDeleted \<Rightarrow> api_SessionResourceDeletedEvent
    | VSessionSandboxStatus \<Rightarrow> api_SessionSandboxStatusEvent
    | VSessionSkills \<Rightarrow> api_SessionSkillsEvent
    | VSessionStatus \<Rightarrow> api_SessionStatusEvent
    | VSessionSuperseded \<Rightarrow> api_SessionSupersededEvent
    | VSessionTerminalActivity \<Rightarrow> api_SessionTerminalActivityEvent
    | VSessionTerminalPending \<Rightarrow> api_SessionTerminalPendingEvent
    | VSessionTodos \<Rightarrow> api_SessionTodosEvent
    | VSessionUsage \<Rightarrow> api_SessionUsageEvent
    | VToolOutputDelta \<Rightarrow> api_ToolOutputDeltaEvent
    | VTurnCancelled \<Rightarrow> api_TurnCancelledEvent
    | VTurnCompleted \<Rightarrow> api_TurnCompletedEvent
    | VTurnFailed \<Rightarrow> api_TurnFailedEvent
    | VTurnStarted \<Rightarrow> api_TurnStartedEvent)"

section \<open>Reading the fields\<close>

definition strField :: "string \<Rightarrow> goval \<Rightarrow> string" where
  "strField k v = (case map_of (fieldsOf v) k of Some (VString s) \<Rightarrow> s | _ \<Rightarrow> [])"

definition strPtrField :: "string \<Rightarrow> goval \<Rightarrow> string option" where
  "strPtrField k v = (case map_of (fieldsOf v) k of Some (VPtr (Some (VString s))) \<Rightarrow> Some s | _ \<Rightarrow> None)"

definition intField :: "string \<Rightarrow> goval \<Rightarrow> int" where
  "intField k v = (case map_of (fieldsOf v) k of Some (VInt i) \<Rightarrow> i | _ \<Rightarrow> 0)"

definition floatField :: "string \<Rightarrow> goval \<Rightarrow> rat" where
  "floatField k v = (case map_of (fieldsOf v) k of Some (VFloat x) \<Rightarrow> x | _ \<Rightarrow> 0)"

definition structField :: "string \<Rightarrow> goval \<Rightarrow> goval" where
  "structField k v = (case map_of (fieldsOf v) k of Some w \<Rightarrow> w | None \<Rightarrow> VStruct [])"

definition ptrField :: "string \<Rightarrow> goval \<Rightarrow> goval option" where
  "ptrField k v = (case map_of (fieldsOf v) k of Some (VPtr p) \<Rightarrow> p | _ \<Rightarrow> None)"

definition anyOf :: "goval \<Rightarrow> json" where
  "anyOf v = (case v of VAny j \<Rightarrow> j | _ \<Rightarrow> JNull)"

definition mapField :: "string \<Rightarrow> goval \<Rightarrow> jmap option" where
  "mapField k v = (case map_of (fieldsOf v) k of
      Some (VMap (Some m)) \<Rightarrow> Some (map (\<lambda>(n, w). (n, anyOf w)) m) | _ \<Rightarrow> None)"

definition errorDetailOf :: "goval \<Rightarrow> errorDetail" where
  "errorDetailOf v = \<lparr>ed_Code = strField ''code'' v, ed_Message = strField ''message'' v\<rparr>"

definition responseOf :: "goval \<Rightarrow> responseObject" where
  "responseOf v = \<lparr>resp_ID = strField ''id'' v, resp_Model = strField ''model'' v,
     resp_Status = strField ''status'' v, resp_Error = map_option errorDetailOf (ptrField ''error'' v)\<rparr>"

definition elicitationOf :: "goval \<Rightarrow> elicitationParams" where
  "elicitationOf v = \<lparr>el_Message = strField ''message'' v, el_Mode = strPtrField ''mode'' v,
     el_Phase = strPtrField ''phase'' v, el_PolicyName = strPtrField ''policy_name'' v,
     el_ContentPreview = strPtrField ''content_preview'' v, el_URL = strPtrField ''url'' v,
     el_TargetSessionID = strPtrField ''target_session_id'' v,
     el_RequestedSchema = mapField ''requestedSchema'' v,
     el_AdditionalProperties = mapField ''AdditionalProperties'' v\<rparr>"

definition bodyOf :: "variant \<Rightarrow> goval \<Rightarrow> eventBody" where
  "bodyOf v x = (case v of
      VResponseCreated \<Rightarrow> ResponseCreatedEvent (responseOf (structField ''response'' x))
    | VQueued \<Rightarrow> QueuedEvent (responseOf (structField ''response'' x))
    | VInProgress \<Rightarrow> InProgressEvent (responseOf (structField ''response'' x))
    | VResponseCompleted \<Rightarrow> ResponseCompletedEvent (responseOf (structField ''response'' x))
    | VResponseFailed \<Rightarrow> ResponseFailedEvent (responseOf (structField ''response'' x))
    | VIncomplete \<Rightarrow> IncompleteEvent (responseOf (structField ''response'' x))
    | VResponseCancelled \<Rightarrow> ResponseCancelledEvent (responseOf (structField ''response'' x))
    | VReasoningStarted \<Rightarrow> ReasoningStartedEvent
    | VReasoningTextDelta \<Rightarrow> ReasoningTextDeltaEvent (strField ''delta'' x)
    | VReasoningSummaryTextDelta \<Rightarrow> ReasoningSummaryTextDeltaEvent (strField ''delta'' x)
    | VOutputTextDelta \<Rightarrow> OutputTextDeltaEvent (strField ''delta'' x)
    | VOutputItemDone \<Rightarrow> OutputItemDoneEvent (case mapField ''item'' x of None \<Rightarrow> [] | Some m \<Rightarrow> m)
    | VCompactionInProgress \<Rightarrow> CompactionInProgressEvent
    | VRetry \<Rightarrow> RetryEvent \<lparr>retry_Source = strField ''source'' x, retry_Attempt = intField ''attempt'' x,
        retry_MaxAttempts = intField ''max_attempts'' x, retry_DelaySeconds = floatField ''delay_seconds'' x\<rparr>
    | VError \<Rightarrow> ErrorEvent \<lparr>err_Source = strField ''source'' x,
        err_Code = strField ''code'' (structField ''error'' x),
        err_Message = strField ''message'' (structField ''error'' x)\<rparr>
    | VOutputFileDone \<Rightarrow> OutputFileDoneEvent (strField ''file_id'' x) (strPtrField ''filename'' x)
    | VElicitationRequest \<Rightarrow>
        ElicitationRequestEvent (strField ''elicitation_id'' x) (elicitationOf (structField ''params'' x))
    | VSessionInputConsumed \<Rightarrow> SessionInputConsumedEvent
        \<lparr>ic_ItemID = strField ''item_id'' (structField ''data'' x),
         ic_ClearedPendingID = strPtrField ''cleared_pending_id'' (structField ''data'' x)\<rparr>
    | VSessionStatus \<Rightarrow> SessionStatusEvent
        \<lparr>ss_ConversationID = strField ''conversation_id'' x, ss_Status = strField ''status'' x,
         ss_ResponseID = strPtrField ''response_id'' x, ss_Error = map_option errorDetailOf (ptrField ''error'' x)\<rparr>
    | VSessionSuperseded \<Rightarrow> SessionSupersededEvent
        \<lparr>su_ConversationID = strField ''conversation_id'' x,
         su_TargetConversationID = strField ''target_conversation_id'' x\<rparr>
    | _ \<Rightarrow> PassiveEvent v)"

section \<open>Decoding an event\<close>

definition decodeInto :: unmarshal where
  "decodeInto v raw =
    (case Unmarshal apiCustom (variantType v) (zeroOf (variantType v)) raw of
       Inl err \<Rightarrow> Inl err
     | Inr x \<Rightarrow> Inr (Ev (strField ''type'' x) (bodyOf v x)))"

text \<open>The struct with the one field \<open>type\<close> that DecodeEvent and decodeFrame probe with.\<close>

definition envelopeType :: gotype where
  "envelopeType = TyStruct [] [(''type'', False, TyString)]"

definition probeType :: "string \<Rightarrow> goerr + string" where
  "probeType raw =
    (case Unmarshal noCustom envelopeType (zeroOf envelopeType) raw of
       Inl err \<Rightarrow> Inl err
     | Inr x \<Rightarrow> Inr (strField ''type'' x))"

definition wireDeps :: jsonDeps where
  "wireDeps = \<lparr>dep_probe = probeType, dep_unmarshal = decodeInto\<rparr>"

section \<open>Types\<close>

text \<open>The structs session_types.go names: the replies the package decodes and what is in them.\<close>

definition sessionTypes :: "(string \<times> gotype) list" where
  "sessionTypes =
    [(''AgentObject'', api_AgentObject), (''ChildSessionList'', api_ChildSessionList),
     (''ChildSessionSummary'', api_ChildSessionSummary), (''CompactionData'', api_CompactionData),
     (''ConversationDeleted'', api_ConversationDeleted), (''ConversationItem'', api_ConversationItem),
     (''ErrorData'', api_ErrorData), (''FunctionCallData'', api_FunctionCallData),
     (''FunctionCallOutputData'', api_FunctionCallOutputData), (''MCPServerSummary'', api_MCPServerSummary),
     (''MessageData'', api_MessageData), (''NativeModelOption'', api_NativeModelOption),
     (''NativeReasoningEffortOption'', api_NativeReasoningEffortOption), (''NativeToolData'', api_NativeToolData),
     (''PaginatedList'', api_PaginatedList), (''PolicySummary'', api_PolicySummary),
     (''ReasoningData'', api_ReasoningData), (''ResourceEventData'', api_ResourceEventData),
     (''RoutingDecisionData'', api_RoutingDecisionData), (''SandboxStatus'', api_SandboxStatus),
     (''SessionForkRequest'', api_SessionForkRequest), (''SessionList'', api_SessionList),
     (''SessionListItem'', api_SessionListItem), (''SessionResponse'', api_SessionResponse),
     (''SkillSummary'', api_SkillSummary), (''SlashCommandData'', api_SlashCommandData),
     (''TerminalCommandData'', api_TerminalCommandData), (''UpdateSessionRequest'', api_UpdateSessionRequest),
     (''SessionGitOptions'', api_SessionGitOptions)]"

lemma variantType_good: "goodType (variantType v)"
proof -
  have "plainType (variantType v)" by (cases v; simp only:; code_simp)
  then show ?thesis by (rule plain_good)
qed

lemma sessionTypes_good: "ty \<in> snd ` set sessionTypes \<Longrightarrow> goodType ty"
proof -
  have "list_all (\<lambda>e. plainType (snd e)) sessionTypes" by code_simp
  then show "ty \<in> snd ` set sessionTypes \<Longrightarrow> goodType ty" by (auto simp: list_all_iff intro: plain_good)
qed

interpretation none: unmarshaler noCustom
  by unfold_locales (simp add: noCustom_def)

lemma unmarshalInto_typed:
  "unmarshalInto ty t old = Inr v \<Longrightarrow> goodType ty \<Longrightarrow> hasType ty old \<Longrightarrow> hasType ty v"
  using none.decode_typed(1) by (auto simp: unmarshalInto_def split: sum.splits option.splits)

lemma readKnown_typed:
  "readKnown known object vals = Inr (rest, vals') \<Longrightarrow> hasFields fs vals \<Longrightarrow> folded fs \<Longrightarrow>
   \<forall>(name, ty) \<in> set known. goodType ty \<and> (\<exists>om. (name, om, ty) \<in> set fs) \<Longrightarrow> hasFields fs vals'"
proof (induction known arbitrary: object vals)
  case (Cons f known)
  obtain name ty where f: "f = (name, ty)" by (cases f)
  then obtain om where om: "(name, om, ty) \<in> set fs" and ty: "goodType ty" using Cons.prems(4) by auto
  show ?case
  proof (cases "map_of object name")
    case None
    then show ?thesis using Cons f by auto
  next
    case (Some raw)
    then obtain v where v: "unmarshalInto ty raw (fieldValue name ty vals) = Inr v"
        and rest: "readKnown known (gdel name object) (assign name v vals) = Inr (rest, vals')"
      using Cons.prems(1) f by (auto split: sum.splits)
    have "hasType ty (fieldValue name ty vals)"
      using hasFields_map_of [OF Cons.prems(2) om folded_names [OF Cons.prems(3)]] by (auto simp: fieldValue_def)
    then have "hasType ty v" using unmarshalInto_typed [OF v ty] by simp
    then have "hasFields fs (assign name v vals)"
      using hasFields_assign [OF Cons.prems(2)] folded_unique [OF Cons.prems(3) om] by blast
    then show ?thesis using Cons.IH [OF rest] Cons.prems(3,4) by simp
  qed
qed simp

lemma readRest_typed:
  "readRest object m = Inr m' \<Longrightarrow> hasType (TyMap TyAny) (VMap (Some m)) \<Longrightarrow> hasType (TyMap TyAny) (VMap (Some m'))"
proof (induction object arbitrary: m)
  case (Cons f object)
  obtain name raw where f: "f = (name, raw)" by (cases f)
  obtain v where v: "unmarshalInto TyAny raw (VAny JNull) = Inr v" and rest: "readRest object (gput name v m) = Inr m'"
    using Cons.prems(1) f by (auto split: sum.splits)
  have "hasType TyAny v" using unmarshalInto_typed [OF v] by simp
  then have "hasType (TyMap TyAny) (VMap (Some (gput name v m)))"
    using Cons.prems(2) list_all_gput [of "hasType TyAny" v m name] by simp
  then show ?case using Cons.IH [OF rest] by simp
qed simp

lemma elicitation_typed:
  assumes "ElicitationRequestParams_UnmarshalJSON t old = Inr v" "TyCustom n ty = api_ElicitationRequestParams" "hasType ty old"
  shows "hasType ty v"
proof -
  define fs where "fs = (case ty of TyStruct _ fs \<Rightarrow> fs | _ \<Rightarrow> [])"
  have ty: "ty = TyStruct ''api.ElicitationRequestParams'' fs" and n: "n = ''api.ElicitationRequestParams''"
    using assms(2) by (simp_all add: fs_def api_ElicitationRequestParams_def)
  have "goodType api_ElicitationRequestParams"
    by (rule plain_good) code_simp
  then have "goodType ty" by (simp add: assms(2) [symmetric])
  then have folded: "folded fs" by (simp add: ty folded_def)
  have fields: "hasFields fs (fieldsOf old)"
    using assms(3) by (auto simp: ty fieldsOf_def split: goval.splits)
  obtain object rest vals where k: "readKnown elicitationFields object (fieldsOf old) = Inr (rest, vals)"
    and v: "v = VStruct vals \<or> (\<exists>m. readRest rest [] = Inr m \<and> v = VStruct (assign ''AdditionalProperties'' (VMap (Some m)) vals))"
    using assms(1) by (auto simp: ElicitationRequestParams_UnmarshalJSON_def split: sum.splits if_splits)
  have known: "\<forall>(name, ty) \<in> set elicitationFields. goodType ty \<and> (\<exists>om. (name, om, ty) \<in> set fs)"
    using assms(2) by (auto simp: fs_def elicitationFields_def api_ElicitationRequestParams_def)
  have extra: "(''AdditionalProperties'', False, TyMap TyAny) \<in> set fs"
    using assms(2) by (simp add: fs_def api_ElicitationRequestParams_def)
  have vals: "hasFields fs vals" by (rule readKnown_typed [OF k fields folded known])
  from v show ?thesis
  proof
    assume "v = VStruct vals"
    then show ?thesis using vals by (simp add: ty)
  next
    assume "\<exists>m. readRest rest [] = Inr m \<and> v = VStruct (assign ''AdditionalProperties'' (VMap (Some m)) vals)"
    then obtain m where m: "readRest rest [] = Inr m" and v: "v = VStruct (assign ''AdditionalProperties'' (VMap (Some m)) vals)"
      by blast
    have "hasType (TyMap TyAny) (VMap (Some m))" using readRest_typed [OF m] by simp
    then have "hasFields fs (assign ''AdditionalProperties'' (VMap (Some m)) vals)"
      using hasFields_assign [OF vals] folded_unique [OF folded extra] by blast
    then show ?thesis by (simp add: ty v)
  qed
qed

interpretation api: unmarshaler apiCustom
  by unfold_locales (auto simp: apiCustom_def elicitation_typed split: if_splits)

lemma Unmarshal_typed:
  "Unmarshal apiCustom ty old raw = Inr v \<Longrightarrow> goodType ty \<Longrightarrow> hasType ty old \<Longrightarrow> hasType ty v"
  using api.decode_typed(1) by (auto simp: Unmarshal_def split: sum.splits option.splits)

section \<open>What an event reports\<close>

lemma variantType_struct: "\<exists>n fs. variantType v = TyStruct n fs \<and> (''type'', False, TyString) \<in> set fs"
  by (cases v) (simp_all add: variantType_def api_schema)

text \<open>The type a text carries: the last string of a member named \<open>type\<close>, whatever the case of
  the name.\<close>

definition typeOf :: "jtext \<Rightarrow> string" where
  "typeOf t = (case t of
      TObj ms \<Rightarrow> (case decodeRun noCustom TyString (membersFor ''type'' ms) (VString []) of
          Some (VString s) \<Rightarrow> s | _ \<Rightarrow> [])
    | _ \<Rightarrow> [])"

lemma decodeRun_String: "decodeRun cu TyString ts v = decodeRun noCustom TyString ts v"
  by (induction ts arbitrary: v) (auto split: sum.split option.split)

lemma typed_string:
  assumes "hasFields fs vals" "folded fs" "(k, om, TyString) \<in> set fs"
  shows "\<exists>s. fieldValue k TyString vals = VString s \<and> strField k (VStruct vals) = s \<and> map_of vals k \<noteq> None"
proof -
  obtain v where "map_of vals k = Some v" "hasType TyString v"
    using hasFields_map_of [OF assms(1,3) folded_names [OF assms(2)]] by blast
  then show ?thesis by (cases v) (simp_all add: fieldValue_def strField_def fieldsOf_def)
qed

lemma zero_string:
  assumes "folded fs" "(k, om, TyString) \<in> set fs"
  shows "fieldValue k TyString (map (\<lambda>(k, om, ty). (k, zeroOf ty)) fs) = VString []"
proof -
  have "map_of (map (\<lambda>(k, om, ty). (k, zeroOf ty)) fs) k = Some (zeroOf TyString)"
  proof (rule map_of_is_SomeI)
    show "distinct (map fst (map (\<lambda>(k, om, ty). (k, zeroOf ty)) fs))"
      using folded_names [OF assms(1)] by (simp add: comp_def case_prod_unfold)
    show "(k, zeroOf TyString) \<in> set (map (\<lambda>(k, om, ty). (k, zeroOf ty)) fs)" using assms(2) by force
  qed
  then show ?thesis by (simp add: fieldValue_def)
qed

lemma decoded_type:
  assumes "Unmarshal cu (TyStruct n fs) (zeroOf (TyStruct n fs)) raw = Inr x"
    and "unmarshaler cu" "goodType (TyStruct n fs)" "(''type'', om, TyString) \<in> set fs"
  shows "\<exists>t. parseJSON raw = Inr t \<and> strField ''type'' x = typeOf t"
proof -
  let ?zero = "map (\<lambda>(k, om, ty). (k, zeroOf ty)) fs"
  have fs: "folded fs" using assms(3) by (simp add: folded_def)
  obtain t where t: "parseJSON raw = Inr t" "decode cu (TyStruct n fs) t (VStruct ?zero) None = Inr (x, None)"
    using assms(1) by (auto simp: Unmarshal_def split: sum.splits option.splits)
  show ?thesis
  proof (cases "\<exists>ms. t = TObj ms")
    case True
    then obtain ms vals where ms: "t = TObj ms" "decodeFields cu fs ms ?zero None = Inr (vals, None)" "x = VStruct vals"
      using t(2) by (auto simp: fieldsOf_def split: sum.splits)
    have z: "hasFields fs ?zero" by (rule hasFields_zero)
    have "hasFields fs vals"
      using unmarshaler.decode_typed(4) [OF assms(2) ms(2) fs _ z] assms(3) by simp
    then obtain s where s: "fieldValue ''type'' TyString vals = VString s" "strField ''type'' x = s"
      using typed_string [OF _ fs assms(4)] ms(3) by blast
    have "map_of ?zero ''type'' \<noteq> None" using typed_string [OF z fs assms(4)] by blast
    then have "decodeRun cu TyString (membersFor ''type'' ms) (VString []) = Some (VString s)"
      using decodeFields_run [OF ms(2) fs assms(4)] zero_string [OF fs assms(4)] s(1) by simp
    then show ?thesis using t(1) ms(1) s(2) by (simp add: typeOf_def decodeRun_String [of cu])
  next
    case False
    then have "x = VStruct ?zero" using t(2) by (auto simp: mismatch_def saveError_def split: jtext.splits)
    moreover have "strField ''type'' (VStruct ?zero) = []"
      using typed_string [OF hasFields_zero fs assms(4)] zero_string [OF fs assms(4)] by simp
    ultimately show ?thesis using False t(1) by (auto simp: typeOf_def split: jtext.splits)
  qed
qed

lemma probe_type: "probeType raw = Inr p \<Longrightarrow> \<exists>t. parseJSON raw = Inr t \<and> p = typeOf t"
proof -
  have "goodType envelopeType" by (rule plain_good) code_simp
  then show "probeType raw = Inr p \<Longrightarrow> \<exists>t. parseJSON raw = Inr t \<and> p = typeOf t"
    using decoded_type [of noCustom "[]" "[(''type'', False, TyString)]" raw _ False] none.unmarshaler_axioms
    by (auto simp: probeType_def envelopeType_def split: sum.splits)
qed

lemma decodeInto_type:
  assumes "decodeInto v raw = Inr ev"
  shows "\<exists>t. parseJSON raw = Inr t \<and> EventType ev = typeOf t"
proof -
  obtain n fs where v: "variantType v = TyStruct n fs" "(''type'', False, TyString) \<in> set fs"
    using variantType_struct by blast
  obtain x where x: "Unmarshal apiCustom (TyStruct n fs) (zeroOf (TyStruct n fs)) raw = Inr x" "EventType ev = strField ''type'' x"
    using assms by (auto simp: decodeInto_def v EventType_def split: sum.splits)
  show ?thesis
    using decoded_type [OF x(1) api.unmarshaler_axioms _ v(2)] variantType_good [of v] x(2) v(1) by simp
qed

lemma decodeInto_probed: "decodeInto v raw = Inr ev \<Longrightarrow> probeType raw = Inr p \<Longrightarrow> EventType ev = p"
  using decodeInto_type probe_type by fastforce


text \<open>Unknown members break nothing. Two texts that agree on the members the variant's struct
  declares, at every depth outside ElicitationRequestParams and untyped values, decode alike:
  a field a newer server adds, or one it stops sending twice, is not noticed by an older client.\<close>

theorem unknown_members_ignored:
  assumes "parseJSON raw = Inr t" "parseJSON raw' = Inr t'"
    and "prune (variantType v) t = prune (variantType v) t'"
  shows "decodeInto v raw = decodeInto v raw'"
  using assms decode_prune(1) [of apiCustom "variantType v" t] decode_prune(1) [of apiCustom "variantType v" t']
  by (simp add: decodeInto_def Unmarshal_def)

text \<open>The same of a frame of a stream, with one exception: decodeFrame falls back on the name of
  the frame's event line when the payload has no type, and then an event of a type the registry
  has reports no type at all, and one it does not have reports the name.\<close>

theorem frame_reports_type:
  assumes "decodeFrame wireDeps name payload = Inr (Some ev, fin)"
  shows "\<exists>p. probeType (TrimRight payload newline) = Inr p \<and>
    EventType ev = (if p \<noteq> [] then p else if map_of eventRegistry name = None then name else [])"
proof -
  obtain p where p: "probeType (TrimRight payload newline) = Inr p"
    and d: "decodeByType decodeInto (if p = [] then name else p) (TrimRight payload newline) = Inr ev"
    using assms by (auto simp: decodeFrame_def wireDeps_def Let_def split: sum.splits if_splits)
  then show ?thesis
    using decodeInto_probed [OF _ p]
    by (auto simp: decodeByType_def EventType_def split: option.splits sum.splits if_splits)
qed

section \<open>Frames a server prints\<close>

text \<open>A message: an object with a type, printable as it is, that fits a frame.\<close>

definition sendable :: "jtext \<Rightarrow> bool" where
  "sendable t \<longleftrightarrow> (case t of TObj _ \<Rightarrow> True | _ \<Rightarrow> False) \<and> wfText t \<and> depth t \<le> maxNestingDepth \<and>
     length (printJSON t) + 6 < maxFrameBytes"

lemma number_chars:
  "numberMode m \<Longrightarrow> numberMode (fst (scan s (m, []))) \<Longrightarrow> \<forall>c \<in> set s. 0x20 \<le> byte c"
proof (induction s arbitrary: m)
  case (Cons c s)
  have "\<not> overMode (fst (scanStep c (m, [])))"
    using Cons.prems(2) overMode_scan [of "scanStep c (m, [])" s] number_not_over by auto
  then obtain n where n: "numberMode n" "scanStep c (m, []) = (n, [])"
    using number_step [OF Cons.prems(1), of c] by blast
  have "0x20 \<le> byte c"
  proof (rule ccontr)
    assume "\<not> 0x20 \<le> byte c"
    then have "\<not> digit c" "c \<noteq> CHR ''.''" "c \<noteq> CHR ''e''" "c \<noteq> CHR ''E''" "c \<noteq> CHR ''+''" "c \<noteq> CHR ''-''" "c \<noteq> CHR ''0''"
      by (auto simp: digit_def byte_def)
    then have "\<not> numberMode (fst (scanStep c (m, [])))"
      using Cons.prems(1) by (cases m) (auto simp: scan_defs)
    then show False using n by simp
  qed
  then show ?case using Cons.IH [OF n(1)] Cons.prems(2) n(2) by simp
qed simp

lemma numberLit_chars:
  assumes "numberLit lit"
  shows "\<forall>c \<in> set lit. 0x20 \<le> byte c"
proof -
  obtain d t where lit: "lit = d # t" and d: "d = CHR ''-'' \<or> digit d"
    using assms by (cases lit) (auto simp: numberLit_def)
  obtain m where m: "numberMode m" "\<And>stk. stateBeginValue d stk = (m, stk)" using number_begins [OF d] by blast
  have "numberMode (fst (scan t (m, [])))" using numberLit_modes [OF assms] by (auto simp: lit m)
  then show ?thesis using number_chars [OF m(1)] d by (auto simp: lit digit_def byte_def)
qed

lemma hexDigit_char: "n < 16 \<Longrightarrow> 0x20 \<le> byte (hexDigit n)"
  by (simp add: hexDigit_def)

lemma quoteSeg_chars: "validRune r \<Longrightarrow> \<forall>c \<in> set (quoteSeg (r, bs)). 0x20 \<le> byte c"
proof (rule quoteSeg_cases [of r bs])
  fix e assume "quoteSeg (r, bs) = [CHR 0x5C, e]" "e \<in> set ''bfnrt'' \<or> e = CHR 0x5C \<or> e = CHR 0x22"
  then show ?thesis by (auto simp: byte_def)
next
  assume "quoteSeg (r, bs) = hexEscape r"
  then show ?thesis by (auto simp: hexEscape_def hexDigit_char)
next
  assume "validRune r" "quoteSeg (r, bs) = EncodeRune r" "0x20 \<le> r" "r \<noteq> 0x22" "r \<noteq> 0x5C"
  then show ?thesis using plain_EncodeRune [of r] by (auto simp: list_all_iff plainInString_def)
qed

lemma quoteJSON_chars: "\<forall>c \<in> set (quoteJSON s). 0x20 \<le> byte c"
proof -
  have "\<forall>c \<in> set (quoteSeg seg). 0x20 \<le> byte c" if "seg \<in> set (Segs s)" for seg
    using quoteSeg_chars [of "fst seg" "snd seg"] validRune_Segs [OF that] by simp
  then show ?thesis by (auto simp: quoteJSON_def quoteBody_def)
qed

text \<open>Printed JSON has no control characters, so it fits on one line.\<close>

lemma printJSON_chars:
  "wfText t \<longrightarrow> (\<forall>c \<in> set (printJSON t). 0x20 \<le> byte c)"
  "wfElems ts \<longrightarrow> (\<forall>c \<in> set (printElems ts). 0x20 \<le> byte c)"
  "wfMembers ms \<longrightarrow> (\<forall>c \<in> set (printMembers ms). 0x20 \<le> byte c)"
proof (induction t and ts and ms rule: printJSON_printElems_printMembers.induct)
  case (3 lit)
  then show ?case using numberLit_chars by simp
next
  case (4 s)
  then show ?case using quoteJSON_chars by simp
next
  case (11 k t)
  then show ?case using quoteJSON_chars [of k] by (auto simp: byte_def)
next
  case (12 k t m ms)
  then show ?case using quoteJSON_chars [of k] by (auto simp: byte_def)
qed (auto simp: byte_def)

lemma printMembers_last: "\<exists>s. printMembers ms = s @ ''}''"
proof (induction ms)
  case (Cons m ms)
  then show ?case by (cases m; cases ms) auto
qed simp

lemma dropTail_keeps_first: "\<not> P x \<Longrightarrow> \<exists>ys. dropTail P (x # xs) = x # ys"
proof (induction xs rule: rev_induct)
  case (snoc y xs)
  then show ?case using dropTail_snoc [of P "x # xs" y] by auto
qed (simp add: dropTail_def)

lemma TrimSpace_brace: "\<exists>u. TrimSpace (CHR ''{'' # s) = CHR ''{'' # u"
proof -
  have b: "byte (CHR ''{'') = 0x7B" by (simp add: byte_def)
  have "Segs (CHR ''{'' # s) = (0x7B, ''{'') # Segs s" by (simp add: Segs.simps(2) b)
  moreover have "\<not> (isSpace \<circ> fst) (0x7B :: nat, ''{'')" by (simp add: isSpace_def)
  ultimately show ?thesis
    using dropTail_keeps_first [of "isSpace \<circ> fst" "(0x7B, ''{'')" "Segs s"]
    by (auto simp: TrimSpace_def unsegs_def)
qed

lemma object_text:
  assumes "sendable t"
  shows "\<exists>s. printJSON t = CHR ''{'' # s @ ''}''" "newline \<notin> set (printJSON t)" "parseJSON (printJSON t) = Inr t"
proof -
  obtain ms where t: "t = TObj ms" and wf: "wfText t" "depth t \<le> maxNestingDepth"
    using assms by (auto simp: sendable_def split: jtext.splits)
  show "\<exists>s. printJSON t = CHR ''{'' # s @ ''}''" using printMembers_last [of ms] by (auto simp: t)
  show "newline \<notin> set (printJSON t)" using printJSON_chars(1) [of t] wf by (auto simp: newline_def byte_def)
  show "parseJSON (printJSON t) = Inr t" by (rule parse_print [OF wf])
qed

lemma printed_trims:
  assumes "sendable t"
  shows "TrimRight (printJSON t) newline = printJSON t"
    "TrimSpace (printJSON t) \<noteq> [] \<and> TrimSpace (printJSON t) \<noteq> doneSentinel"
proof -
  obtain s where s: "printJSON t = CHR ''{'' # s @ ''}''" using object_text(1) [OF assms] by blast
  show "TrimRight (printJSON t) newline = printJSON t"
    using s by (simp add: TrimRight_def newline_def dropTail_def)
  show "TrimSpace (printJSON t) \<noteq> [] \<and> TrimSpace (printJSON t) \<noteq> doneSentinel"
    using TrimSpace_brace [of "s @ ''}''"] by (auto simp: s doneSentinel_def)
qed

lemma frameReads_printed:
  assumes "sendable t" "DecodeEvent probeType decodeInto (printJSON t) = Inr e"
  shows "frameReads wireDeps (n, printJSON t) e"
proof -
  obtain q where "probeType (printJSON t) = Inr q" "q \<noteq> []" "decodeByType decodeInto q (printJSON t) = Inr e"
    using assms(2) by (auto simp: DecodeEvent_def split: sum.splits if_splits)
  then show ?thesis
    using assms(1) printed_trims [OF assms(1)]
    by (auto simp: frameReads_def decodeFrame_def wireDeps_def Let_def sendable_def)
qed

lemma wireLines_printed:
  assumes "list_all (\<lambda>f. plainLine (eventLine (fst f)) \<and> sendable (snd f)) fs"
  shows "list_all plainLine (wireLines (map (map_prod id printJSON) fs))"
proof -
  have "plainLine (dataLine (printJSON t))" if t: "sendable t" for t
  proof -
    obtain s where "printJSON t = CHR ''{'' # s @ ''}''" using object_text(1) [OF t] by blast
    then show ?thesis using object_text(2) [OF t] t
      by (auto simp: plainLine_def dataLine_def sendable_def newline_def)
  qed
  then show ?thesis using assms
    by (induction fs) (auto simp: wireLines_def wireFrame_def plainLine_def dataLine_def doneSentinel_def newline_def maxFrameBytes_def)
qed

text \<open>C13. What a server prints is what the caller gets. The bytes of a stream of JSON messages, each
  printed by an encoder as one frame under any event name, are read back by the scanner, the
  frame loop and the decoder as the events DecodeEvent makes of the messages, all of them and in
  order, until the caller stops.\<close>

theorem printed_stream_read:
  assumes "list_all (\<lambda>f. plainLine (eventLine (fst f)) \<and> sendable (snd f)) fs"
    and "list_all2 (\<lambda>f e. DecodeEvent probeType decodeInto (printJSON (snd f)) = Inr e) fs es"
    and "sid \<noteq> []" "hookOk cb sid (so_Idle opts) w"
  shows "Stream wireDeps d cb opts sid (Opened (wireBytes (wireLines (map (map_prod id printJSON) fs))) re) w =
    snd (feed (map (\<lambda>e. (Some e, None)) es) (onYield cb) (hookWorld cb sid (so_Idle opts) w))"
proof (rule frames_read [OF _ wireLines_printed [OF assms(1)] assms(3,4)])
  have "list_all2 (\<lambda>f e. frameReads wireDeps (map_prod id printJSON f) e) fs es"
    using assms(1,2) frameReads_printed
    by (auto simp: list_all2_conv_all_nth list_all_length map_prod_def case_prod_unfold)
  then show "list_all2 (frameReads wireDeps) (map (map_prod id printJSON) fs) es"
    by (simp add: list_all2_map1)
qed

section \<open>Undeclared properties of an elicitation\<close>

text \<open>The member a JSON object has for a key: the last of that name.\<close>

definition memberOf :: "(string \<times> jtext) list \<Rightarrow> string \<Rightarrow> jtext option" where
  "memberOf ms k = map_of (rev ms) k"

lemma fold_gput: "map_of (fold (\<lambda>(k, v) m. gput k v m) ms m) k =
    (case map_of (rev ms) k of Some v \<Rightarrow> Some v | None \<Rightarrow> map_of m k)"
proof (induction ms arbitrary: m)
  case (Cons e ms)
  then show ?case by (cases e) (auto simp: map_add_def split: option.splits)
qed simp

lemma gwf_fold_gput: "gwf m \<Longrightarrow> gwf (fold (\<lambda>(k, v) m. gput k v m) ms m)"
  by (induction ms arbitrary: m) auto

lemma readKnown_rest:
  "readKnown known object vals = Inr (rest, vals') \<Longrightarrow> gwf object \<Longrightarrow>
   gwf rest \<and> (\<forall>k. map_of rest k = (if k \<in> fst ` set known then None else map_of object k))"
proof (induction known arbitrary: object vals)
  case (Cons f known)
  obtain name ty where f: "f = (name, ty)" by (cases f)
  show ?case
  proof (cases "map_of object name")
    case None
    then show ?thesis using Cons by (auto simp: f)
  next
    case (Some raw)
    then obtain v where "readKnown known (gdel name object) (assign name v vals) = Inr (rest, vals')"
      using Cons.prems(1) f by (auto split: sum.splits)
    from Cons.IH [OF this] Cons.prems(2) show ?thesis by (auto simp: f)
  qed
qed simp

lemma unmarshalInto_any: "unmarshalInto TyAny raw old = Inr v \<Longrightarrow> v = VAny (fst (toAny raw None))"
  by (cases raw) (auto simp: unmarshalInto_def decodeAny_def saveError_def split: option.splits prod.splits)

lemma readRest_values:
  "readRest object m = Inr m' \<Longrightarrow> gwf object \<Longrightarrow> map_of m' k =
    (case map_of object k of Some raw \<Rightarrow> Some (VAny (fst (toAny raw None))) | None \<Rightarrow> map_of m k)"
proof (induction object arbitrary: m)
  case (Cons e object)
  obtain name raw where e: "e = (name, raw)" by (cases e)
  obtain v where v: "unmarshalInto TyAny raw (VAny JNull) = Inr v" and rest: "readRest object (gput name v m) = Inr m'"
    using Cons.prems(1) e by (auto split: sum.splits)
  have "gwf object" "map_of object name = None"
    using Cons.prems(2) by (auto simp: gwf_def e map_of_eq_None_iff)
  then show ?case using Cons.IH [OF rest] unmarshalInto_any [OF v] by (auto simp: e split: option.split)
qed simp

lemma map_of_map_snd: "map_of (map (\<lambda>(k, w). (k, g w)) m) k = map_option g (map_of m k)"
  by (induction m) auto

lemma mapField_AdditionalProperties:
  "(''AdditionalProperties'', w) \<in> set vals \<Longrightarrow>
   mapField ''AdditionalProperties'' (VStruct (assign ''AdditionalProperties'' (VMap (Some m)) vals)) =
     Some (map (\<lambda>(n, w). (n, anyOf w)) m)"
  by (auto simp: mapField_def fieldsOf_def map_of_assign split: option.split dest: weak_map_of_SomeI)

lemma readKnown_names: "readKnown known object vals = Inr (rest, vals') \<Longrightarrow> map fst vals' = map fst vals"
proof (induction known arbitrary: object vals)
  case (Cons f known)
  then show ?case by (cases f) (fastforce split: option.splits sum.splits)
qed simp

lemma readKnown_other:
  "readKnown known object vals = Inr (rest, vals') \<Longrightarrow> k \<notin> fst ` set known \<Longrightarrow> map_of vals' k = map_of vals k"
proof (induction known arbitrary: object vals)
  case (Cons f known)
  obtain name ty where f: "f = (name, ty)" by (cases f)
  show ?case
  proof (cases "map_of object name")
    case None
    then show ?thesis using Cons f by simp
  next
    case (Some raw)
    then obtain v where "readKnown known (gdel name object) (assign name v vals) = Inr (rest, vals')"
      using Cons.prems(1) f by (auto split: sum.splits)
    from Cons.IH [OF this] Cons.prems(2) show ?thesis by (simp add: f map_of_assign)
  qed
qed simp

text \<open>The keys the struct declares.\<close>

definition declared :: "string \<Rightarrow> bool" where
  "declared k \<longleftrightarrow> k \<in> fst ` set elicitationFields"

text \<open>No property of an elicitation is lost. After decoding the params of a request, the
  additional properties hold the value of exactly the members the struct does not declare (the
  last of a name, where the server sends tool_name), and there are none when there are no such
  members.\<close>

theorem undeclared_properties_kept:
  assumes "ElicitationRequestParams_UnmarshalJSON (TObj ms) (zeroOf api_ElicitationRequestParams) = Inr v"
  shows "case el_AdditionalProperties (elicitationOf v) of
      None \<Rightarrow> \<forall>k. memberOf ms k \<noteq> None \<longrightarrow> declared k
    | Some extra \<Rightarrow> \<forall>k. map_of extra k =
        (if declared k then None else map_option (\<lambda>t. fst (toAny t None)) (memberOf ms k))"
proof -
  let ?object = "fold (\<lambda>(k, v) m. gput k v m) ms []"
  let ?zero = "fieldsOf (zeroOf api_ElicitationRequestParams)"
  obtain rest vals where k: "readKnown elicitationFields ?object ?zero = Inr (rest, vals)"
    and v: "rest = [] \<and> v = VStruct vals \<or>
      (\<exists>m. rest \<noteq> [] \<and> readRest rest [] = Inr m \<and> v = VStruct (assign ''AdditionalProperties'' (VMap (Some m)) vals))"
    using assms by (auto simp: ElicitationRequestParams_UnmarshalJSON_def rawMap_def split: sum.splits if_splits)
  have rest: "gwf rest" "\<And>k. map_of rest k = (if declared k then None else memberOf ms k)"
    using readKnown_rest [OF k gwf_fold_gput] fold_gput [of ms "[]"]
    by (auto simp: declared_def memberOf_def split: option.splits)
  have names: "map fst vals = map fst ?zero" by (rule readKnown_names [OF k])
  have z: "map fst ?zero = map fst elicitationFields @ [''AdditionalProperties'']"
    by (simp add: api_ElicitationRequestParams_def elicitationFields_def fieldsOf_def)
  show ?thesis
  proof (cases "rest = []")
    case True
    have "map_of vals ''AdditionalProperties'' = map_of ?zero ''AdditionalProperties''"
      by (rule readKnown_other [OF k]) (simp add: elicitationFields_def)
    moreover have "map_of ?zero ''AdditionalProperties'' = Some (VMap None)" by code_simp
    moreover have "v = VStruct vals" using True v by simp
    ultimately have "el_AdditionalProperties (elicitationOf v) = None"
      by (simp add: elicitationOf_def mapField_def fieldsOf_def)
    moreover have "\<forall>k. memberOf ms k \<noteq> None \<longrightarrow> declared k" using rest(2) True by (metis map_of.simps(1))
    ultimately show ?thesis by simp
  next
    case False
    then obtain m where m: "readRest rest [] = Inr m" "v = VStruct (assign ''AdditionalProperties'' (VMap (Some m)) vals)"
      using v by blast
    have "''AdditionalProperties'' \<in> set (map fst vals)" unfolding names z by simp
    then obtain w where "(''AdditionalProperties'', w) \<in> set vals" by auto
    then have "el_AdditionalProperties (elicitationOf v) = Some (map (\<lambda>(n, w). (n, anyOf w)) m)"
      using mapField_AdditionalProperties by (simp add: elicitationOf_def m(2))
    then show ?thesis
      using readRest_values [OF m(1) rest(1)] rest(2)
      by (auto simp: map_of_map_snd anyOf_def split: option.split)
  qed
qed

section \<open>Concrete frames\<close>

definition deltaText :: jtext where
  "deltaText = TObj [(''type'', TStr ''response.output_text.delta''), (''delta'', TStr ''hi'')]"

definition deltaEvent :: event where
  "deltaEvent = Ev ''response.output_text.delta'' (OutputTextDeltaEvent ''hi'')"

lemma length_Segs: "length (Segs s) \<le> length s"
proof (induction s rule: Segs.induct)
  case (2 c s)
  obtain r n where rn: "DecodeRune (c # s) = (r, n)" by force
  then have "0 < n" using snd_DecodeRune_pos [of c s] by simp
  moreover have "length (Segs (drop n (c # s))) \<le> length (drop n (c # s))" using "2.IH" rn by metis
  moreover have "Segs (c # s) = (r, take n (c # s)) # Segs (drop n (c # s))" by (simp only: Segs.simps rn Let_def prod.case)
  ultimately show ?case by simp
qed simp

lemma length_quoteSeg: "length (quoteSeg (r, bs)) \<le> 6"
  by (rule quoteSeg_cases [of r bs]) (simp_all add: hexEscape_def length_EncodeRune)

lemma length_quoteJSON: "length (quoteJSON s) \<le> 6 * length s + 2"
proof -
  have "length (concat (map quoteSeg segs)) \<le> 6 * length segs" for segs
  proof (induction segs)
    case (Cons seg segs)
    then show ?case using length_quoteSeg [of "fst seg" "snd seg"] by simp
  qed simp
  from this [of "Segs s"] show ?thesis using length_Segs [of s] by (simp add: quoteJSON_def quoteBody_def)
qed

lemma shortText:
  assumes "t = TObj ms" "wfText t \<and> depth t \<le> maxNestingDepth" "length (printJSON t) \<le> 999"
  shows "sendable t"
  using assms by (simp add: sendable_def maxFrameBytes_def)

lemma delta_sendable: "sendable deltaText"
proof (rule shortText [OF deltaText_def])
  show "wfText deltaText \<and> depth deltaText \<le> maxNestingDepth" by code_simp
  show "length (printJSON deltaText) \<le> 999"
    using length_quoteJSON [of "''type''"] length_quoteJSON [of "''response.output_text.delta''"]
      length_quoteJSON [of "''delta''"] length_quoteJSON [of "''hi''"] by (simp add: deltaText_def)
qed

lemma parse_delta: "parseJSON (printJSON deltaText) = Inr deltaText"
  by (rule object_text(3) [OF delta_sendable])

lemma probe_delta: "probeType (printJSON deltaText) = Inr ''response.output_text.delta''"
proof -
  have "decode noCustom envelopeType deltaText (zeroOf envelopeType) None =
      Inr (VStruct [(''type'', VString ''response.output_text.delta'')], None)" by code_simp
  then show ?thesis by (simp add: probeType_def Unmarshal_def parse_delta strField_def fieldsOf_def)
qed

definition deltaValue :: goval where
  "deltaValue = VStruct [(''delta'', VString ''hi''), (''final'', VPtr None), (''index'', VPtr None),
     (''message_id'', VPtr None), (''sequence_number'', VPtr None), (''type'', VString ''response.output_text.delta'')]"

lemma Unmarshal_delta:
  "Unmarshal apiCustom (variantType VOutputTextDelta) (zeroOf (variantType VOutputTextDelta)) (printJSON deltaText) = Inr deltaValue"
proof -
  have "decode apiCustom (variantType VOutputTextDelta) deltaText (zeroOf (variantType VOutputTextDelta)) None =
      Inr (deltaValue, None)" by code_simp
  then show ?thesis by (simp add: Unmarshal_def parse_delta)
qed

lemma decodeInto_delta: "decodeInto VOutputTextDelta (printJSON deltaText) = Inr deltaEvent"
  by (simp add: decodeInto_def Unmarshal_delta deltaValue_def strField_def fieldsOf_def bodyOf_def deltaEvent_def)

lemma delta_decodes: "DecodeEvent probeType decodeInto (printJSON deltaText) = Inr deltaEvent"
  by (simp add: DecodeEvent_def probe_delta decodeByType_def eventRegistry_def decodeInto_delta)


text \<open>The same delta with a field this build does not know.\<close>

definition newerText :: jtext where
  "newerText = TObj [(''type'', TStr ''response.output_text.delta''), (''logprobs'', TArr [TNull]), (''delta'', TStr ''hi'')]"

theorem unknown_members_ignored_witness:
  "decodeInto VOutputTextDelta (printJSON newerText) = decodeInto VOutputTextDelta (printJSON deltaText)"
proof (rule unknown_members_ignored)
  have "wfText newerText \<and> depth newerText \<le> maxNestingDepth" by code_simp
  then show "parseJSON (printJSON newerText) = Inr newerText" using parse_print by blast
  show "parseJSON (printJSON deltaText) = Inr deltaText" by (rule parse_delta)
  show "prune (variantType VOutputTextDelta) newerText = prune (variantType VOutputTextDelta) deltaText" by code_simp
qed

text \<open>A delta with its type only on the event line: the event reports none.\<close>

definition untypedText :: jtext where
  "untypedText = TObj [(''delta'', TStr ''hi'')]"

lemma untyped_decodes:
  "decodeFrame wireDeps ''response.output_text.delta'' (printJSON untypedText) = Inr (Some (Ev [] (OutputTextDeltaEvent ''hi'')), False)"
proof -
  have good: "sendable untypedText"
  proof (rule shortText [OF untypedText_def])
    show "wfText untypedText \<and> depth untypedText \<le> maxNestingDepth" by code_simp
    show "length (printJSON untypedText) \<le> 999"
      using length_quoteJSON [of "''delta''"] length_quoteJSON [of "''hi''"] by (simp add: untypedText_def)
  qed
  have p: "parseJSON (printJSON untypedText) = Inr untypedText" by (rule object_text(3) [OF good])
  have e: "decode noCustom envelopeType untypedText (zeroOf envelopeType) None = Inr (VStruct [(''type'', VString [])], None)"
    by code_simp
  have d: "decode apiCustom api_OutputTextDeltaEvent untypedText (zeroOf api_OutputTextDeltaEvent) None =
      Inr (VStruct [(''delta'', VString ''hi''), (''final'', VPtr None), (''index'', VPtr None),
        (''message_id'', VPtr None), (''sequence_number'', VPtr None), (''type'', VString [])], None)"
    by code_simp
  show ?thesis
    using printed_trims [OF good] by (simp add: decodeFrame_def wireDeps_def Let_def probeType_def Unmarshal_def p e strField_def fieldsOf_def
      decodeByType_def eventRegistry_def decodeInto_def variantType_def d bodyOf_def)
qed

theorem frame_reports_type_witness:
  "\<exists>p. probeType (TrimRight (printJSON untypedText) newline) = Inr p \<and>
    EventType (Ev [] (OutputTextDeltaEvent ''hi'')) =
      (if p \<noteq> [] then p else if map_of eventRegistry ''response.output_text.delta'' = None then ''response.output_text.delta'' else [])"
  by (rule frame_reports_type [OF untyped_decodes])

theorem printed_stream_read_witness:
  "Stream wireDeps 0 sampleCalls \<lparr>so_Idle = False, so_IdleTimeout = 0\<rparr> ''s''
     (Opened (wireBytes (wireLines [(''response.output_text.delta'', printJSON deltaText)]))
       \<lparr>re_expired = False, re_ctxErr = None, re_readErr = None\<rparr>) []
   = [(Some deltaEvent, None)]"
proof -
  have "list_all (\<lambda>f. plainLine (eventLine (fst f)) \<and> sendable (snd f)) [(''response.output_text.delta'', deltaText)]"
    using delta_sendable by (simp add: plainLine_def eventLine_def newline_def maxFrameBytes_def)
  then have "Stream wireDeps 0 sampleCalls \<lparr>so_Idle = False, so_IdleTimeout = 0\<rparr> ''s''
     (Opened (wireBytes (wireLines (map (map_prod id printJSON) [(''response.output_text.delta'', deltaText)])))
       \<lparr>re_expired = False, re_ctxErr = None, re_readErr = None\<rparr>) [] =
     snd (feed (map (\<lambda>e. (Some e, None)) [deltaEvent]) (onYield sampleCalls)
        (hookWorld sampleCalls ''s'' (so_Idle \<lparr>so_Idle = False, so_IdleTimeout = 0\<rparr>) []))"
    by (rule printed_stream_read) (simp_all add: delta_decodes sampleCalls_def hookOk_def)
  then show ?thesis by (simp add: sampleCalls_def hookWorld_def collect_def)
qed

definition paramsText :: "(string \<times> jtext) list" where
  "paramsText = [(''message'', TStr ''Run it?''), (''tool_name'', TStr ''ls''), (''tool_name'', TStr ''bash'')]"

theorem undeclared_properties_kept_witness:
  "\<exists>v. ElicitationRequestParams_UnmarshalJSON (TObj paramsText) (zeroOf api_ElicitationRequestParams) = Inr v \<and>
    (case el_AdditionalProperties (elicitationOf v) of
      None \<Rightarrow> \<forall>k. memberOf paramsText k \<noteq> None \<longrightarrow> declared k
    | Some extra \<Rightarrow> \<forall>k. map_of extra k =
        (if declared k then None else map_option (\<lambda>t. fst (toAny t None)) (memberOf paramsText k)))"
proof -
  have "Option.is_none (case ElicitationRequestParams_UnmarshalJSON (TObj paramsText) (zeroOf api_ElicitationRequestParams) of
      Inl e \<Rightarrow> Some e | Inr v \<Rightarrow> None)" by code_simp
  then obtain v where v: "ElicitationRequestParams_UnmarshalJSON (TObj paramsText) (zeroOf api_ElicitationRequestParams) = Inr v"
    by (auto split: sum.splits)
  show ?thesis using undeclared_properties_kept [OF v] v by blast
qed

section \<open>Every decoded struct\<close>



end
