(* ===== verification/GoEncode.thy ===== *)
theory GoEncode
  imports GoReflect "HOL-Library.List_Lexorder" "HOL-Library.Char_ord"
begin

text \<open>
  json.Marshal of a Go value by its type: the value of a field in the order of the struct, left out
  when it is omitempty and empty, a nil slice, map or pointer as null, the entries of a map in the
  order of their keys. How a float64 prints (\<open>fmt\<close>) is strconv's and a parameter; what it promises,
  that the text is a number and reads back as the same float64, is a named hypothesis. A type with
  a MarshalJSON of its own asks the argument \<open>marshaler\<close>.

  The lemmas show that decoding an encoded value gives the value back, with the entries of maps in
  order and what omitempty left out as the zero value (\<open>tidy\<close>).
\<close>

section \<open>Encoding\<close>

type_synonym floatFmt = "rat \<Rightarrow> string"

definition sortMembers :: "(string \<times> 'v) list \<Rightarrow> (string \<times> 'v) list" where
  "sortMembers m = sort_key fst m"

primrec fromAny :: "floatFmt \<Rightarrow> json \<Rightarrow> jtext" where
  "fromAny fmt JNull = TNull"
| "fromAny fmt (JBool b) = TBool b"
| "fromAny fmt (JNum x) = TNum (fmt x)"
| "fromAny fmt (JStr s) = TStr s"
| "fromAny fmt (JArr js) = TArr (map (fromAny fmt) js)"
| "fromAny fmt (JObj m) = TObj (sortMembers (map (map_prod id (fromAny fmt)) m))"

definition isEmptyValue :: "goval \<Rightarrow> bool" where
  "isEmptyValue v = (case v of
      VString s \<Rightarrow> s = [] | VInt i \<Rightarrow> i = 0 | VFloat x \<Rightarrow> x = 0 | VBool b \<Rightarrow> \<not> b
    | VAny j \<Rightarrow> (case j of JNull \<Rightarrow> True | _ \<Rightarrow> False) | VRaw r \<Rightarrow> Option.is_none r | VPtr p \<Rightarrow> Option.is_none p
    | VSlice s \<Rightarrow> (case s of None \<Rightarrow> True | Some vs \<Rightarrow> vs = [])
    | VMap m \<Rightarrow> (case m of None \<Rightarrow> True | Some es \<Rightarrow> es = [])
    | VStruct _ \<Rightarrow> False)"

type_synonym marshaler = "string \<Rightarrow> gotype \<Rightarrow> goval \<Rightarrow> jtext"

fun encode :: "floatFmt \<Rightarrow> marshaler \<Rightarrow> gotype \<Rightarrow> goval \<Rightarrow> jtext"
  and encodeFields :: "floatFmt \<Rightarrow> marshaler \<Rightarrow> field list \<Rightarrow> (string \<times> goval) list \<Rightarrow> (string \<times> jtext) list" where
  "encode fmt mj TyString v = (case v of VString s \<Rightarrow> TStr s | _ \<Rightarrow> TNull)"
| "encode fmt mj TyInt v = (case v of VInt i \<Rightarrow> TNum (Itoa i) | _ \<Rightarrow> TNull)"
| "encode fmt mj TyFloat v = (case v of VFloat x \<Rightarrow> TNum (fmt x) | _ \<Rightarrow> TNull)"
| "encode fmt mj TyBool v = (case v of VBool b \<Rightarrow> TBool b | _ \<Rightarrow> TNull)"
| "encode fmt mj TyAny v = (case v of VAny j \<Rightarrow> fromAny fmt j | _ \<Rightarrow> TNull)"
| "encode fmt mj TyRaw v = (case v of VRaw (Some t) \<Rightarrow> t | _ \<Rightarrow> TNull)"
| "encode fmt mj (TyPtr ty) v = (case v of VPtr (Some w) \<Rightarrow> encode fmt mj ty w | _ \<Rightarrow> TNull)"
| "encode fmt mj (TySlice ty) v = (case v of VSlice (Some vs) \<Rightarrow> TArr (map (encode fmt mj ty) vs) | _ \<Rightarrow> TNull)"
| "encode fmt mj (TyMap ty) v = (case v of
      VMap (Some m) \<Rightarrow> TObj (map (\<lambda>(k, w). (k, encode fmt mj ty w)) (sortMembers m)) | _ \<Rightarrow> TNull)"
| "encode fmt mj (TyStruct n fs) v = TObj (encodeFields fmt mj fs (fieldsOf v))"
| "encode fmt mj (TyCustom n ty) v = mj n ty v"
| "encodeFields fmt mj [] vals = []"
| "encodeFields fmt mj ((k, om, ty) # fs) vals = (case vals of
      [] \<Rightarrow> []
    | (k', v) # rest \<Rightarrow>
        (if om \<and> isEmptyValue v then [] else [(k, encode fmt mj ty v)]) @ encodeFields fmt mj fs rest)"

definition Marshal :: "floatFmt \<Rightarrow> marshaler \<Rightarrow> gotype \<Rightarrow> goval \<Rightarrow> string" where
  "Marshal fmt mj ty v = printJSON (encode fmt mj ty v)"

section \<open>Decoding what was encoded\<close>

primrec tidyAny :: "json \<Rightarrow> json" where
  "tidyAny JNull = JNull"
| "tidyAny (JBool b) = JBool b"
| "tidyAny (JNum x) = JNum x"
| "tidyAny (JStr s) = JStr s"
| "tidyAny (JArr js) = JArr (map tidyAny js)"
| "tidyAny (JObj m) = JObj (sortMembers (map (map_prod id tidyAny) m))"

fun tidy :: "gotype \<Rightarrow> goval \<Rightarrow> goval" and tidyFields :: "field list \<Rightarrow> (string \<times> goval) list \<Rightarrow> (string \<times> goval) list" where
  "tidy TyAny v = (case v of VAny j \<Rightarrow> VAny (tidyAny j) | _ \<Rightarrow> v)"
| "tidy (TyPtr ty) v = (case v of VPtr (Some w) \<Rightarrow> VPtr (Some (tidy ty w)) | _ \<Rightarrow> v)"
| "tidy (TySlice ty) v = (case v of VSlice (Some vs) \<Rightarrow> VSlice (Some (map (tidy ty) vs)) | _ \<Rightarrow> v)"
| "tidy (TyMap ty) v = (case v of
      VMap (Some m) \<Rightarrow> VMap (Some (map (\<lambda>(k, w). (k, tidy ty w)) (sortMembers m))) | _ \<Rightarrow> v)"
| "tidy (TyStruct n fs) v = VStruct (tidyFields fs (fieldsOf v))"
| "tidy ty v = v"
| "tidyFields [] vals = []"
| "tidyFields ((k, om, ty) # fs) vals = (case vals of
      [] \<Rightarrow> []
    | (k', v) # rest \<Rightarrow> (k, if om \<and> isEmptyValue v then zeroOf ty else tidy ty v) # tidyFields fs rest)"

text \<open>What strconv promises of the text of a float64.\<close>

definition formatsFloats :: "floatFmt \<Rightarrow> bool" where
  "formatsFloats fmt \<longleftrightarrow> (\<forall>x. float64 x = Some x \<longrightarrow> parseFloat64 (fmt x) = Some x)"

text \<open>A value that can be in a Go variable: its numbers are float64 values, and no key of a map is
  there twice. The types it is about have no UnmarshalJSON, and no pointer to what may be null.\<close>

fun okAny :: "json \<Rightarrow> bool" where
  "okAny (JNum x) = (float64 x = Some x)"
| "okAny (JArr js) = (\<forall>j \<in> set js. okAny j)"
| "okAny (JObj m) = (gwf m \<and> (\<forall>e \<in> set m. okAny (snd e)))"
| "okAny _ = True"

fun okValue :: "gotype \<Rightarrow> goval \<Rightarrow> bool" and okValues :: "field list \<Rightarrow> (string \<times> goval) list \<Rightarrow> bool" where
  "okValue TyFloat v = (case v of VFloat x \<Rightarrow> float64 x = Some x | _ \<Rightarrow> True)"
| "okValue TyAny v = (case v of VAny j \<Rightarrow> okAny j | _ \<Rightarrow> True)"
| "okValue TyRaw v = (case v of VRaw None \<Rightarrow> False | _ \<Rightarrow> True)"
| "okValue (TyPtr ty) v = (case v of VPtr (Some w) \<Rightarrow> okValue ty w | _ \<Rightarrow> True)"
| "okValue (TySlice ty) v = (case v of VSlice (Some vs) \<Rightarrow> list_all (okValue ty) vs | _ \<Rightarrow> True)"
| "okValue (TyMap ty) v = (case v of VMap (Some m) \<Rightarrow> list_all (okValue ty) (map snd m) | _ \<Rightarrow> True)"
| "okValue (TyStruct n fs) v = okValues fs (fieldsOf v)"
| "okValue (TyCustom n ty) v = False"
| "okValue _ v = True"
| "okValues [] vals = True"
| "okValues ((k, om, ty) # fs) vals = (case vals of (k', v) # rest \<Rightarrow> okValue ty v \<and> okValues fs rest | [] \<Rightarrow> True)"

fun solid :: "gotype \<Rightarrow> bool" and solidFields :: "field list \<Rightarrow> bool" where
  "solid (TyPtr ty) = (solid ty \<and> (case ty of TyString \<Rightarrow> True | TyInt \<Rightarrow> True | TyFloat \<Rightarrow> True | TyBool \<Rightarrow> True
     | TyStruct _ _ \<Rightarrow> True | _ \<Rightarrow> False))"
| "solid (TySlice ty) = solid ty"
| "solid (TyMap ty) = solid ty"
| "solid (TyStruct n fs) = solidFields fs"
| "solid (TyCustom n ty) = False"
| "solid _ = True"
| "solidFields [] = True"
| "solidFields ((k, om, ty) # fs) = (solid ty \<and> solidFields fs)"

subsection \<open>Maps\<close>

lemma insort_map: "insort_key fst (map_prod id f x) (map (map_prod id f) xs) = map (map_prod id f) (insort_key fst x xs)"
  by (induction xs) auto

lemma sortMembers_map: "sortMembers (map (map_prod id f) m) = map (map_prod id f) (sortMembers m)"
  by (induction m) (simp_all only: sortMembers_def sort_key_simps list.map insort_map)

lemma set_sortMembers [simp]: "set (sortMembers m) = set m"
  by (simp add: sortMembers_def)

lemma distinct_sortMembers: "distinct (map fst (sortMembers m)) \<longleftrightarrow> distinct (map fst m)"
  by (simp add: sortMembers_def distinct_map)

lemma gput_new: "k \<notin> fst ` set m \<Longrightarrow> gput k v m = m @ [(k, v)]"
  unfolding gput_def by (induction m) auto

lemma toAnyMap_entries:
  "\<forall>e \<in> set es. \<forall>sv. toAny (f (snd e)) sv = (g (snd e), sv) \<Longrightarrow> distinct (map fst m @ map fst es) \<Longrightarrow>
   toAnyMap (map (map_prod id f) es) m sv = (m @ map (map_prod id g) es, sv)"
proof (induction es arbitrary: m)
  case (Cons e es)
  obtain k v where e: "e = (k, v)" by (cases e)
  have "k \<notin> fst ` set m" using Cons.prems(2) by (auto simp: e)
  then show ?case using Cons by (simp add: e gput_new)
qed simp

lemma toAnys_elems:
  "\<forall>j \<in> set js. \<forall>sv. toAny (f j) sv = (g j, sv) \<Longrightarrow> toAnys (map f js) sv = (map g js, sv)"
  by (induction js) auto

lemma toAny_fromAny:
  assumes "formatsFloats fmt"
  shows "okAny j \<Longrightarrow> toAny (fromAny fmt j) sv = (tidyAny j, sv)"
proof (induction j arbitrary: sv)
  case (JNum x)
  then show ?case using assms by (simp add: formatsFloats_def)
next
  case (JArr js)
  then show ?case using toAnys_elems [of js "fromAny fmt" tidyAny sv] by simp
next
  case (JObj m)
  have "\<forall>e \<in> set (sortMembers m). \<forall>sv. toAny (fromAny fmt (snd e)) sv = (tidyAny (snd e), sv)"
    using JObj by (auto simp: snds.simps)
  moreover have "distinct (map fst (sortMembers m))" using JObj.prems by (simp add: distinct_sortMembers gwf_def)
  ultimately show ?case using toAnyMap_entries [of "sortMembers m" "fromAny fmt" tidyAny "[]" sv]
    by (simp add: sortMembers_map)
qed simp_all

lemma fromAny_number: "fromAny fmt j = TNum lit \<Longrightarrow> \<exists>x. j = JNum x \<and> lit = fmt x"
  by (cases j) auto

lemma decodeAny_fromAny:
  assumes "formatsFloats fmt" "okAny j"
  shows "decodeAny (fromAny fmt j) old sv = Inr (VAny (tidyAny j), sv)"
proof (cases j)
  case (JNum x)
  then show ?thesis using assms by (simp add: decodeAny_def formatsFloats_def)
qed (use toAny_fromAny [OF assms, of sv] in \<open>simp_all add: decodeAny_def\<close>)

lemma decodeEntries_entries:
  "\<forall>e \<in> set es. \<forall>sv. decode cu ty (f (snd e)) (zeroOf ty) sv = Inr (g (snd e), sv) \<Longrightarrow>
   distinct (map fst m @ map fst es) \<Longrightarrow>
   decodeEntries cu ty (map (\<lambda>(k, w). (k, f w)) es) m sv = Inr (m @ map (\<lambda>(k, w). (k, g w)) es, sv)"
proof (induction es arbitrary: m)
  case (Cons e es)
  obtain k v where e: "e = (k, v)" by (cases e)
  have "k \<notin> fst ` set m" using Cons.prems(2) by (auto simp: e)
  then show ?case using Cons by (simp add: e gput_new)
qed simp

lemma decodeElems_elems:
  "\<forall>x \<in> set vs. \<forall>sv. decode cu ty (f x) (zeroOf ty) sv = Inr (g x, sv) \<Longrightarrow>
   decodeElems cu ty (map f vs) [] sv = Inr (map g vs, sv)"
  by (induction vs) auto

subsection \<open>Structs\<close>

abbreviation zeros :: "field list \<Rightarrow> (string \<times> goval) list" where
  "zeros fs \<equiv> map (\<lambda>(k, om, ty). (k, zeroOf ty)) fs"

lemma fst_zeros: "map fst (zeros fs) = map fst fs"
  by (simp add: case_prod_unfold comp_def)

lemma assign_at:
  assumes "k \<notin> set (map fst pre)" "k \<notin> set (map fst post)"
  shows "assign k v (pre @ (k, w) # post) = pre @ (k, v) # post"
proof -
  have "assign k v vals = vals" if "k \<notin> set (map fst vals)" for vals :: "(string \<times> goval) list"
    using that by (induction vals) (auto simp: assign_def)
  then show ?thesis using assms by (simp add: assign_def)
qed

lemma fieldValue_at: "k \<notin> set (map fst pre) \<Longrightarrow> fieldValue k ty (pre @ (k, w) # post) = w"
  by (simp add: fieldValue_def map_of_append map_add_def map_of_eq_None_iff [THEN iffD2] split: option.split)

lemma decodeFields_next:
  assumes "folded (prefs @ (k, om, ty) # fs)" "map fst pre = map fst prefs"
    and "decode cu ty t (zeroOf ty) sv = Inr (v, sv')"
  shows "decodeFields cu (prefs @ (k, om, ty) # fs) ((k, t) # ms) (pre @ (k, zeroOf ty) # zeros fs) sv =
    decodeFields cu (prefs @ (k, om, ty) # fs) ms (pre @ (k, v) # zeros fs) sv'"
proof -
  have f: "fieldFor (prefs @ (k, om, ty) # fs) k = Some (k, om, ty)"
    using fieldFor_iff [OF assms(1)] by simp
  have "distinct (map fst (prefs @ (k, om, ty) # fs))" by (rule folded_names [OF assms(1)])
  then have k: "k \<notin> set (map fst pre)" "k \<notin> set (map fst (zeros fs))"
    using assms(2) fst_zeros [of fs] by auto
  show ?thesis using assms(3) k by (simp add: f fieldValue_at assign_at)
qed

subsection \<open>Values\<close>

lemma solid_encode_notnull:
  "hasType ty w \<Longrightarrow> solid (TyPtr ty) \<Longrightarrow> encode fmt mj ty w \<noteq> TNull"
  by (cases ty) (auto split: goval.splits)

lemma decode_of_encode:
  "formatsFloats fmt \<Longrightarrow> hasType ty v \<Longrightarrow> okValue ty v \<Longrightarrow> solid ty \<and> goodType ty \<Longrightarrow>
     decode cu ty (encode fmt mj ty v) (zeroOf ty) sv = Inr (tidy ty v, sv)"
  "formatsFloats fmt \<Longrightarrow> hasFields fs vals \<Longrightarrow> okValues fs vals \<Longrightarrow> solidFields fs \<and> goodFields fs \<Longrightarrow>
     folded (prefs @ fs) \<Longrightarrow> map fst pre = map fst prefs \<Longrightarrow>
     decodeFields cu (prefs @ fs) (encodeFields fmt mj fs vals) (pre @ zeros fs) sv = Inr (pre @ tidyFields fs vals, sv)"
proof (induction fmt mj ty v and fmt mj fs vals arbitrary: sv and prefs pre sv rule: encode_encodeFields.induct)
  case (1 fmt mj v)
  then show ?case by (cases v) (simp_all add: decodeString_def)
next
  case (2 fmt mj v)
  then show ?case by (cases v) (simp_all add: decodeInt_def parseInt64_Itoa)
next
  case (3 fmt mj v)
  then show ?case by (cases v) (simp_all add: decodeFloat_def formatsFloats_def)
next
  case (4 fmt mj v)
  then show ?case by (cases v) (simp_all add: decodeBool_def)
next
  case (5 fmt mj v)
  then show ?case by (cases v) (simp_all add: decodeAny_fromAny)
next
  case (6 fmt mj v)
  then show ?case by (cases v) (auto split: option.splits)
next
  case (7 fmt mj ty v)
  show ?case
  proof (cases v)
    case (VPtr p)
    then show ?thesis using 7 solid_encode_notnull [of ty _ fmt mj]
      by (cases p) (auto simp: pointee_def)
  qed (use 7 in simp_all)
next
  case (8 fmt mj ty v)
  show ?case
  proof (cases v)
    case (VSlice s)
    show ?thesis
    proof (cases s)
      case (Some vs)
      have "\<forall>x \<in> set vs. \<forall>sv. decode cu ty (encode fmt mj ty x) (zeroOf ty) sv = Inr (tidy ty x, sv)"
        using 8 VSlice Some by (auto simp: list_all_iff)
      then show ?thesis using decodeElems_elems [of vs cu ty "encode fmt mj ty" "tidy ty" sv]
        by (simp add: VSlice Some elemsOf_def)
    qed (simp add: VSlice)
  qed (use 8 in simp_all)
next
  case (9 fmt mj ty v)
  show ?case
  proof (cases v)
    case (VMap s)
    show ?thesis
    proof (cases s)
      case (Some m)
      have "\<forall>e \<in> set (sortMembers m). \<forall>sv. decode cu ty (encode fmt mj ty (snd e)) (zeroOf ty) sv = Inr (tidy ty (snd e), sv)"
        using 9 VMap Some by (fastforce simp: list_all_iff)
      moreover have "distinct (map fst (sortMembers m))"
        using 9(3) VMap Some by (simp add: distinct_sortMembers gwf_def)
      ultimately show ?thesis
        using decodeEntries_entries [of "sortMembers m" cu ty "encode fmt mj ty" "tidy ty" "[]" sv]
        by (simp add: VMap Some entriesOf_def)
    qed (simp add: VMap)
  qed (use 9 in simp_all)
next
  case (10 fmt mj n fs v)
  show ?case
  proof (cases v)
    case (VStruct vals)
    then have "decodeFields cu ([] @ fs) (encodeFields fmt mj fs (fieldsOf v)) ([] @ zeros fs) sv =
        Inr ([] @ tidyFields fs (fieldsOf v), sv)"
      using "10.IH" [of "[]" "[]" sv] "10.prems" by (simp add: fieldsOf_def folded_def)
    then show ?thesis by (simp add: VStruct fieldsOf_def)
  qed (use 10 in simp_all)
next
  case (13 fmt mj k om ty fs vals)
  obtain v rest where vals: "vals = (k, v) # rest" "hasType ty v" "hasFields fs rest" "okValue ty v" "okValues fs rest"
    using "13.prems"(2,3) by (cases vals) auto
  let ?w = "if om \<and> isEmptyValue v then zeroOf ty else tidy ty v"
  have rest: "decodeFields cu (prefs @ (k, om, ty) # fs) (encodeFields fmt mj fs rest) (pre @ (k, ?w) # zeros fs) sv =
      Inr (pre @ (k, ?w) # tidyFields fs rest, sv)"
    using "13.IH"(2) [of "(k, v)" rest k v "prefs @ [(k, om, ty)]" "pre @ [(k, ?w)]" sv] "13.prems" vals by simp
  show ?case
  proof (cases "om \<and> isEmptyValue v")
    case True
    then show ?thesis using rest by (simp add: vals)
  next
    case False
    have d: "decode cu ty (encode fmt mj ty v) (zeroOf ty) sv = Inr (tidy ty v, sv)"
      using "13.IH"(1) [of "(k, v)" rest k v sv] False "13.prems" vals by simp
    have "encodeFields fmt mj ((k, om, ty) # fs) vals = (k, encode fmt mj ty v) # encodeFields fmt mj fs rest"
      "tidyFields ((k, om, ty) # fs) vals = (k, tidy ty v) # tidyFields fs rest"
      using False by (auto simp: vals)
    then show ?thesis
      using decodeFields_next [OF "13.prems"(5,6) d, of "encodeFields fmt mj fs rest"] rest [unfolded if_not_P [OF False]]
      by (simp only: list.map prod.case)
  qed
qed (use fst_zeros in simp_all)

theorem Unmarshal_Marshal:
  assumes "formatsFloats fmt" "hasType ty v" "okValue ty v" "solid ty \<and> goodType ty"
    and "wfText (encode fmt mj ty v)" "depth (encode fmt mj ty v) \<le> maxNestingDepth"
  shows "Unmarshal cu ty (zeroOf ty) (Marshal fmt mj ty v) = Inr (tidy ty v)"
  using decode_of_encode(1) [OF assms(1-4), of cu mj None] parse_print [OF assms(5,6)]
  by (simp add: Unmarshal_def Marshal_def)

section \<open>A text of floats that keeps the promise\<close>

text \<open>Every float64 has a finite decimal: with \<open>x = p / 2 ^ k\<close> it is \<open>p * 5 ^ k\<close> shifted by k places.
  It is longer than strconv's, and shows that the promise can be kept.\<close>

fun twos :: "nat \<Rightarrow> nat" where
  "twos n = (if n \<noteq> 0 \<and> even n then Suc (twos (n div 2)) else 0)"

declare twos.simps [simp del]

definition exactFmt :: floatFmt where
  "exactFmt x = (case quotient_of x of (p, q) \<Rightarrow>
     let k = twos (nat q) in Itoa (p * 5 ^ k) @ ''e-'' @ decNat k)"

lemma twos_power: "twos (2 ^ k) = k"
  by (induction k) (simp_all add: twos.simps)

lemma dvd_power_two: "0 < q \<Longrightarrow> q dvd (2::int) ^ m \<Longrightarrow> \<exists>k. q = 2 ^ k"
proof (induction m arbitrary: q)
  case 0
  then have "q = 1" using zdvd1_eq [of q] by auto
  then show ?case by (metis power_0)
next
  case (Suc m)
  show ?case
  proof (cases "even q")
    case True
    then obtain r where r: "q = 2 * r" by blast
    then have "0 < r" "r dvd 2 ^ m" using Suc.prems by auto
    then obtain k where "r = 2 ^ k" using Suc.IH by blast
    then show ?thesis using r by (metis power_Suc)
  next
    case False
    then have "coprime q 2" by simp
    then have "q dvd 2 ^ m" using Suc.prems(2) by (simp add: coprime_dvd_mult_right_iff)
    then show ?thesis using Suc by blast
  qed
qed

lemma dyadic_quotient: "\<exists>p k. quotient_of (of_int n * pow2 e) = (p, 2 ^ k)"
proof (cases "0 \<le> e")
  case True
  then have x: "of_int n * pow2 e = rat_of_int (n * 2 ^ nat e)" by (simp add: pow2_def)
  have "quotient_of (of_int n * pow2 e) = (n * 2 ^ nat e, 2 ^ 0)"
    unfolding x using quotient_of_int [of "n * 2 ^ nat e", unfolded Rat.of_int_def] by simp
  then show ?thesis by blast
next
  case False
  let ?m = "nat (- e)"
  obtain p q where pq: "quotient_of (of_int n * pow2 e) = (p, q)" by fastforce
  have q: "0 < q" "coprime p q" "of_int n * pow2 e = of_int p / rat_of_int q"
    using quotient_of_denom_pos [OF pq] quotient_of_coprime [OF pq] quotient_of_div [OF pq] by simp_all
  have "rat_of_int (n * q) = rat_of_int (p * 2 ^ ?m)"
    using q(1,3) False by (simp add: pow2_def field_simps)
  then have "n * q = p * 2 ^ ?m" by (simp only: of_int_eq_iff)
  then have "q dvd 2 ^ ?m" using q(2) by (metis coprime_commute coprime_dvd_mult_right_iff dvd_triv_right)
  then show ?thesis using dvd_power_two [OF q(1)] pq by blast
qed

lemma float64_dyadic:
  assumes "float64 x = Some x"
  shows "\<exists>p k. quotient_of x = (p, 2 ^ k)"
proof (cases "x = 0")
  case True
  then have "quotient_of x = (0, 2 ^ 0)" by simp
  then show ?thesis by blast
next
  case False
  then obtain n e where "x = of_int n * pow2 e \<or> x = - (of_int n * pow2 e)"
    using assms by (auto simp: float64_def Let_def split: if_splits) metis+
  then have "x = of_int n * pow2 e \<or> x = of_int (- n) * pow2 e" by simp
  then show ?thesis using dyadic_quotient by metis
qed

lemma takeWhile_digits: "list_all digit ds \<Longrightarrow> \<not> digit c \<Longrightarrow> takeWhile digit (ds @ c # s) = ds \<and> dropWhile digit (ds @ c # s) = c # s"
  by (induction ds) auto

lemma unsigned_Itoa_append: "unsigned (Itoa i @ s) = (i < 0, decNat (nat \<bar>i\<bar>) @ s)"
  using digits_decNat(2) [of "nat i"] hd_decNat [of "nat i"]
  by (cases "decNat (nat i)") (auto simp: unsigned_def Itoa_def)

lemma decimalValue_exp: "decimalValue (Itoa i @ ''e-'' @ decNat k) = of_int i / 10 ^ k"
proof -
  have e: "\<not> digit CHR ''e''" by (simp add: digit_def byte_def)
  have x: "expValue (CHR ''-'' # decNat k) = - int k" by (simp add: expValue_def digitsValue_decNat)
  have p: "pow10 (- int k) = 1 / 10 ^ k" by (simp add: pow10_def)
  show ?thesis
    using takeWhile_digits [OF digits_decNat(1) [of "nat \<bar>i\<bar>"] e, of "CHR ''-'' # decNat k"] x p
    by (auto simp: decimalValue_def unsigned_Itoa_append Let_def digitsValue_decNat abs_if)
qed

lemma exactFmt_formats: "formatsFloats exactFmt"
proof -
  have "parseFloat64 (exactFmt x) = Some x" if x: "float64 x = Some x" for x
  proof -
    obtain p k where pk: "quotient_of x = (p, 2 ^ k)" using float64_dyadic [OF x] by blast
    have k: "twos (nat (2 ^ k)) = k" using twos_power [of k] by (simp add: nat_power_eq)
    have "x = of_int p / of_int (2 ^ k)" using quotient_of_div [OF pk] .
    then have "of_int (p * 5 ^ k) / 10 ^ k = x"
      using power_mult_distrib [of "2::rat" 5 k] by simp
    then show ?thesis
      using x decimalValue_exp [of "p * 5 ^ k" k] by (simp add: parseFloat64_def exactFmt_def pk k Let_def)
  qed
  then show ?thesis by (simp add: formatsFloats_def)
qed

end
