(* ===== verification/Elicit.thy ===== *)
theory Elicit
  imports Wire GoEncode
begin

text \<open>
  api.gen.go: MarshalJSON, Get and Set of ElicitationRequestParams, the struct with properties the
  document does not declare. The lemmas show that UnmarshalJSON (Wire.thy) gives back what
  MarshalJSON wrote.
\<close>

text \<open>A field that is written: the message always, the others unless nil.\<close>

definition present :: "string \<Rightarrow> goval \<Rightarrow> bool" where
  "present name v \<longleftrightarrow> name = ''message'' \<or> (case v of VPtr p \<Rightarrow> \<not> Option.is_none p | VMap m \<Rightarrow> \<not> Option.is_none m | _ \<Rightarrow> True)"

definition noMarshal :: marshaler where
  "noMarshal n ty v = TNull"

definition writtenFields :: "floatFmt \<Rightarrow> goval \<Rightarrow> jtext gomap" where
  "writtenFields fmt a =
    concat (map (\<lambda>(name, ty). let v = fieldValue name ty (fieldsOf a) in
      if present name v then [(name, encode fmt noMarshal ty v)] else []) elicitationFields)"

text \<open>The additional properties are written over the fields, and the object is printed with its keys
  in order.\<close>

definition ElicitationRequestParams_MarshalJSON :: "floatFmt \<Rightarrow> goval \<Rightarrow> jtext" where
  "ElicitationRequestParams_MarshalJSON fmt a =
    (let extra = (case mapField ''AdditionalProperties'' a of None \<Rightarrow> [] | Some m \<Rightarrow> m)
     in TObj (sortMembers (fold (\<lambda>(k, j) object. gput k (fromAny fmt j) object) extra (writtenFields fmt a))))"

definition ElicitationRequestParams_Get :: "elicitationParams \<Rightarrow> string \<Rightarrow> json option" where
  "ElicitationRequestParams_Get a name = (case el_AdditionalProperties a of None \<Rightarrow> None | Some m \<Rightarrow> map_of m name)"

definition ElicitationRequestParams_Set :: "elicitationParams \<Rightarrow> string \<Rightarrow> json \<Rightarrow> elicitationParams" where
  "ElicitationRequestParams_Set a name v =
    a\<lparr>el_AdditionalProperties := Some (gput name v (case el_AdditionalProperties a of None \<Rightarrow> [] | Some m \<Rightarrow> m))\<rparr>"

section \<open>The params as a Go value\<close>

definition jmapValue :: "jmap option \<Rightarrow> goval" where
  "jmapValue m = VMap (map_option (map (\<lambda>(k, j). (k, VAny j))) m)"

definition optString :: "string option \<Rightarrow> goval" where
  "optString p = VPtr (map_option VString p)"

definition elicitationValue :: "elicitationParams \<Rightarrow> goval" where
  "elicitationValue p = VStruct
    [(''content_preview'', optString (el_ContentPreview p)),
     (''message'', VString (el_Message p)),
     (''mode'', optString (el_Mode p)),
     (''phase'', optString (el_Phase p)),
     (''policy_name'', optString (el_PolicyName p)),
     (''requestedSchema'', jmapValue (el_RequestedSchema p)),
     (''target_session_id'', optString (el_TargetSessionID p)),
     (''url'', optString (el_URL p)),
     (''AdditionalProperties'', jmapValue (el_AdditionalProperties p))]"

text \<open>Params as a decoder leaves them, listed in order: maps with their keys once, float64 numbers, no
  declared key among the additional ones, and no empty map of those.\<close>

definition settledMap :: "jmap \<Rightarrow> bool" where
  "settledMap m \<longleftrightarrow> gwf m \<and> (\<forall>e \<in> set m. okAny (snd e)) \<and> sortMembers m = m \<and> (\<forall>e \<in> set m. tidyAny (snd e) = snd e)"

definition settled :: "elicitationParams \<Rightarrow> bool" where
  "settled p \<longleftrightarrow> (case el_RequestedSchema p of None \<Rightarrow> True | Some m \<Rightarrow> settledMap m) \<and>
    (case el_AdditionalProperties p of None \<Rightarrow> True
     | Some m \<Rightarrow> m \<noteq> [] \<and> settledMap m \<and> (\<forall>e \<in> set m. \<not> declared (fst e)))"

section \<open>Reading back\<close>

lemma gdel_filter: "gdel name object = filter (\<lambda>e. fst e \<noteq> name) object"
  by (induction object) (auto simp: gdel_def)

text \<open>All the known fields at once.\<close>

lemma readKnown_all:
  "distinct (map fst known) \<Longrightarrow>
   \<forall>(name, ty) \<in> set known. \<forall>raw. map_of object name = Some raw \<longrightarrow>
     unmarshalInto ty raw (fieldValue name ty vals) = Inr (f name) \<Longrightarrow>
   readKnown known object vals = Inr (filter (\<lambda>e. fst e \<notin> fst ` set known) object,
     map (\<lambda>(k, v). (k, if k \<in> fst ` set known \<and> map_of object k \<noteq> None then f k else v)) vals)"
proof (induction known arbitrary: object vals)
  case Nil
  then show ?case by (simp add: case_prod_unfold)
next
  case (Cons fld known)
  obtain name ty where fld: "fld = (name, ty)" by (cases fld)
  show ?case
  proof (cases "map_of object name")
    case None
    have "readKnown known object vals = Inr (filter (\<lambda>e. fst e \<notin> fst ` set known) object,
        map (\<lambda>(k, v). (k, if k \<in> fst ` set known \<and> map_of object k \<noteq> None then f k else v)) vals)"
      using Cons by (auto simp: fld)
    moreover have "filter (\<lambda>e. fst e \<notin> fst ` set known) object = filter (\<lambda>e. fst e \<notin> fst ` set (fld # known)) object"
      using None by (auto simp: fld map_of_eq_None_iff intro!: filter_cong)
    ultimately show ?thesis using None by (auto simp: fld)
  next
    case (Some raw)
    let ?vals = "assign name (f name) vals" and ?object = "gdel name object"
    have step: "readKnown (fld # known) object vals = readKnown known ?object ?vals"
      using Cons.prems(2) Some by (auto simp: fld)
    have new: "name \<notin> fst ` set known" using Cons.prems(1) by (auto simp: fld)
    have "\<forall>(name', ty') \<in> set known. \<forall>raw. map_of ?object name' = Some raw \<longrightarrow>
        unmarshalInto ty' raw (fieldValue name' ty' ?vals) = Inr (f name')"
      using Cons.prems(2) new by (fastforce simp: fieldValue_def map_of_assign)
    then have "readKnown known ?object ?vals = Inr (filter (\<lambda>e. fst e \<notin> fst ` set known) ?object,
        map (\<lambda>(k, v). (k, if k \<in> fst ` set known \<and> map_of ?object k \<noteq> None then f k else v)) ?vals)"
      using Cons.IH [of ?object ?vals] Cons.prems(1) by (simp add: fld)
    moreover have "filter (\<lambda>e. fst e \<notin> fst ` set known) ?object = filter (\<lambda>e. fst e \<notin> fst ` set (fld # known)) object"
      by (auto simp: fld gdel_filter intro!: filter_cong)
    moreover have "map (\<lambda>(k, v). (k, if k \<in> fst ` set known \<and> map_of ?object k \<noteq> None then f k else v)) ?vals =
        map (\<lambda>(k, v). (k, if k \<in> fst ` set (fld # known) \<and> map_of object k \<noteq> None then f k else v)) vals"
      using Some new by (auto simp: fld assign_def)
    ultimately show ?thesis using step by simp
  qed
qed

lemma readRest_entries:
  assumes "formatsFloats fmt"
  shows "\<forall>e \<in> set es. okAny (snd e) \<Longrightarrow> distinct (map fst m @ map fst es) \<Longrightarrow>
    readRest (map (\<lambda>(k, j). (k, fromAny fmt j)) es) m = Inr (m @ map (\<lambda>(k, j). (k, VAny (tidyAny j))) es)"
proof (induction es arbitrary: m)
  case (Cons e es)
  obtain k j where e: "e = (k, j)" by (cases e)
  have "unmarshalInto TyAny (fromAny fmt j) (VAny JNull) = Inr (VAny (tidyAny j))"
    using decodeAny_fromAny [OF assms, of j] Cons.prems(1) by (simp add: unmarshalInto_def e)
  moreover have "k \<notin> fst ` set m" using Cons.prems(2) by (auto simp: e)
  ultimately show ?case using Cons by (simp add: e gput_new)
qed simp

section \<open>The round trip\<close>

lemma fold_gput_new:
  "distinct (map fst m @ map fst es) \<Longrightarrow> fold (\<lambda>(k, v) m. gput k (g v) m) es m = m @ map (map_prod id g) es"
proof (induction es arbitrary: m)
  case (Cons e es)
  obtain k v where e: "e = (k, v)" by (cases e)
  have "gput k (g v) m = m @ [(k, g v)]" using Cons.prems by (intro gput_new) (auto simp: e)
  then show ?case using Cons by (simp add: e)
qed simp

lemma filter_sortMembers: "filter (\<lambda>e. P (fst e)) (sortMembers m) = sortMembers (filter (\<lambda>e. P (fst e)) m)"
  by (simp add: sortMembers_def filter_sort)

lemma map_of_sortMembers: "distinct (map fst m) \<Longrightarrow> map_of (sortMembers m) = map_of m"
  by (rule map_of_inject_set [THEN iffD2]) (simp_all add: distinct_sortMembers)

text \<open>What is written for the declared fields: the names once, each field that is present.\<close>

lemma written_one:
  "fst ` set (concat (map (\<lambda>(name, ty). let v = h name ty in if P name v then [(name, g ty v)] else []) xs)) \<subseteq> fst ` set xs"
  "distinct (map fst xs) \<Longrightarrow> distinct (map fst (concat (map (\<lambda>(name, ty). let v = h name ty in if P name v then [(name, g ty v)] else []) xs)))"
  "distinct (map fst xs) \<Longrightarrow> map_of (concat (map (\<lambda>(name, ty). let v = h name ty in if P name v then [(name, g ty v)] else []) xs)) k =
    (case map_of xs k of Some ty \<Rightarrow> if P k (h k ty) then Some (g ty (h k ty)) else None | None \<Rightarrow> None)"
proof (induction xs)
  case (Cons x xs)
  obtain name ty where x: "x = (name, ty)" by (cases x)
  let ?c = "concat (map (\<lambda>(name, ty). let v = h name ty in if P name v then [(name, g ty v)] else []) xs)"
  have split: "concat (map (\<lambda>(name, ty). let v = h name ty in if P name v then [(name, g ty v)] else []) (x # xs)) =
      (if P name (h name ty) then [(name, g ty (h name ty))] else []) @ ?c" by (simp add: x)
  { case 1 show ?case using Cons.IH(1) unfolding split by (auto simp: x simp del: set_concat) }
  { case 2
    then have "name \<notin> fst ` set xs" by (simp add: x)
    then have "name \<notin> fst ` set ?c" using Cons.IH(1) by blast
    then show ?case using 2 Cons.IH(2) unfolding split by (simp del: set_concat add: x) }
  { case 3
    then have "map_of xs name = None" by (simp add: x map_of_eq_None_iff)
    then show ?case using 3 Cons.IH(3) unfolding split by (auto simp: x) }
qed simp_all

lemma elicitation_names: "distinct (map fst elicitationFields)"
  by (simp add: elicitationFields_def)

lemma writtenFields_names:
  "fst ` set (writtenFields fmt a) \<subseteq> fst ` set elicitationFields" "distinct (map fst (writtenFields fmt a))"
  unfolding writtenFields_def by (rule written_one(1)) (rule written_one(2) [OF elicitation_names])

definition fieldOf :: "elicitationParams \<Rightarrow> string \<Rightarrow> goval" where
  "fieldOf p name = (case map_of (fieldsOf (elicitationValue p)) name of Some v \<Rightarrow> v | None \<Rightarrow> VStruct [])"

lemma fieldValue_elicitation: "map_of elicitationFields k = Some ty \<Longrightarrow> fieldValue k ty (fieldsOf (elicitationValue p)) = fieldOf p k"
  by (simp add: elicitationFields_def fieldValue_def fieldOf_def elicitationValue_def fieldsOf_def split: if_splits)

lemma writtenFields_value:
  "map_of (writtenFields fmt (elicitationValue p)) k =
    (case map_of elicitationFields k of
       Some ty \<Rightarrow> if present k (fieldOf p k) then Some (encode fmt noMarshal ty (fieldOf p k)) else None
     | None \<Rightarrow> None)"
  unfolding writtenFields_def written_one(3) [OF elicitation_names] by (simp add: fieldValue_elicitation split: option.split)

lemma settledMap_value:
  assumes "settledMap m"
  shows "hasType (TyMap TyAny) (jmapValue (Some m))" "okValue (TyMap TyAny) (jmapValue (Some m))"
    "tidy (TyMap TyAny) (jmapValue (Some m)) = jmapValue (Some m)"
proof -
  have m: "map (\<lambda>(k, j). (k, VAny j)) m = map (map_prod id VAny) m" by (rule map_cong) auto
  have s: "sortMembers (map (map_prod id VAny) m) = map (map_prod id VAny) m"
    using assms by (simp add: sortMembers_map settledMap_def)
  show "hasType (TyMap TyAny) (jmapValue (Some m))"
    using assms by (simp add: settledMap_def jmapValue_def gwf_def m comp_def list_all_iff)
  show "okValue (TyMap TyAny) (jmapValue (Some m))"
    using assms by (simp add: settledMap_def jmapValue_def m list_all_iff)
  show "tidy (TyMap TyAny) (jmapValue (Some m)) = jmapValue (Some m)"
    using assms by (auto simp: settledMap_def jmapValue_def m s)
qed

text \<open>Each declared field of settled params has its type and is what decoding its text gives.\<close>

lemma field_settled:
  assumes "settled p" "(name, ty) \<in> set elicitationFields"
  shows "hasType ty (fieldOf p name) \<and> okValue ty (fieldOf p name) \<and> tidy ty (fieldOf p name) = fieldOf p name"
proof -
  have str: "hasType (TyPtr TyString) (optString q) \<and> okValue (TyPtr TyString) (optString q) \<and>
      tidy (TyPtr TyString) (optString q) = optString q" for q
    by (cases q) (simp_all add: optString_def)
  have schema: "hasType (TyMap TyAny) (jmapValue (el_RequestedSchema p)) \<and> okValue (TyMap TyAny) (jmapValue (el_RequestedSchema p)) \<and>
      tidy (TyMap TyAny) (jmapValue (el_RequestedSchema p)) = jmapValue (el_RequestedSchema p)"
    using assms(1) settledMap_value by (cases "el_RequestedSchema p") (simp_all add: settled_def jmapValue_def)
  have "list_all (\<lambda>(name, ty). hasType ty (fieldOf p name) \<and> okValue ty (fieldOf p name) \<and> tidy ty (fieldOf p name) = fieldOf p name)
      elicitationFields"
    by (simp add: elicitationFields_def fieldOf_def elicitationValue_def fieldsOf_def str schema
        del: hasType.simps(7,9) okValue.simps(4,6) tidy.simps(2,4))
  then show ?thesis using assms(2) by (auto simp: list_all_iff)
qed

lemma elicitationFields_types: "(name, ty) \<in> set elicitationFields \<Longrightarrow> solid ty \<and> goodType ty"
proof -
  have "list_all (\<lambda>(name, ty). solid ty \<and> goodType ty) elicitationFields" by (simp add: elicitationFields_def)
  then show "(name, ty) \<in> set elicitationFields \<Longrightarrow> solid ty \<and> goodType ty" by (auto simp: list_all_iff)
qed

lemma field_read:
  assumes "formatsFloats fmt" "settled p" "(name, ty) \<in> set elicitationFields"
  shows "unmarshalInto ty (encode fmt noMarshal ty (fieldOf p name)) (zeroOf ty) = Inr (fieldOf p name)"
  using decode_of_encode(1) [OF assms(1), of ty "fieldOf p name" noCustom noMarshal None]
    field_settled [OF assms(2,3)] elicitationFields_types [OF assms(3)]
  by (simp add: unmarshalInto_def)

lemma absent_zero:
  assumes "(name, ty) \<in> set elicitationFields" "\<not> present name (fieldOf p name)"
  shows "fieldOf p name = zeroOf ty"
proof -
  have "list_all (\<lambda>(name, ty). \<not> present name (fieldOf p name) \<longrightarrow> fieldOf p name = zeroOf ty) elicitationFields"
    by (simp add: elicitationFields_def fieldOf_def elicitationValue_def fieldsOf_def present_def optString_def jmapValue_def
        Option.is_none_def)
  then show ?thesis using assms by (auto simp: list_all_iff)
qed

definition writtenMembers :: "floatFmt \<Rightarrow> elicitationParams \<Rightarrow> (string \<times> jtext) list" where
  "writtenMembers fmt p = sortMembers (writtenFields fmt (elicitationValue p) @
     map (map_prod id (fromAny fmt)) (case el_AdditionalProperties p of None \<Rightarrow> [] | Some m \<Rightarrow> m))"

lemma MarshalJSON_members:
  assumes "settled p"
  shows "ElicitationRequestParams_MarshalJSON fmt (elicitationValue p) = TObj (writtenMembers fmt p)"
    "distinct (map fst (writtenMembers fmt p))"
proof -
  let ?W = "writtenFields fmt (elicitationValue p)"
  let ?extra = "case el_AdditionalProperties p of None \<Rightarrow> [] | Some m \<Rightarrow> m"
  have "distinct (map fst ?extra) \<and> (\<forall>e \<in> set ?extra. fst e \<notin> fst ` set elicitationFields)"
  proof (cases "el_AdditionalProperties p")
    case (Some m)
    then have m: "settledMap m" "\<forall>e \<in> set m. \<not> declared (fst e)" using assms unfolding settled_def by auto
    have "distinct (map fst m)" using m(1) by (simp only: settledMap_def gwf_def)
    moreover have "\<forall>e \<in> set m. fst e \<notin> fst ` set elicitationFields" using m(2) unfolding declared_def .
    ultimately show ?thesis unfolding Some option.case by blast
  qed simp
  then have extra: "distinct (map fst ?extra)" "\<forall>e \<in> set ?extra. fst e \<notin> fst ` set elicitationFields"
    by (rule conjunct1, rule conjunct2)
  have "fst ` set ?W \<inter> fst ` set ?extra = {}"
    unfolding disjoint_iff
  proof (intro allI impI notI)
    fix k assume "k \<in> fst ` set ?W" "k \<in> fst ` set ?extra"
    then show False using subsetD [OF writtenFields_names(1)] extra(2) by (metis imageE)
  qed
  then have d: "distinct (map fst ?W @ map fst ?extra)"
    unfolding distinct_append set_map using writtenFields_names(2) extra(1) by (intro conjI)
  then show "distinct (map fst (writtenMembers fmt p))"
    unfolding writtenMembers_def distinct_sortMembers map_append by (simp only: list.map_comp fst_comp_map_prod id_o)
  have "mapField ''AdditionalProperties'' (elicitationValue p) = el_AdditionalProperties p"
    by (cases "el_AdditionalProperties p")
      (simp_all add: mapField_def elicitationValue_def fieldsOf_def jmapValue_def anyOf_def case_prod_unfold comp_def)
  then show "ElicitationRequestParams_MarshalJSON fmt (elicitationValue p) = TObj (writtenMembers fmt p)"
    using fold_gput_new [OF d, of "fromAny fmt"]
    by (simp add: ElicitationRequestParams_MarshalJSON_def writtenMembers_def Let_def)
qed

text \<open>A written member is there exactly for a declared field that is present, and holds its text.\<close>

lemma writtenMembers_field:
  assumes "settled p" "(name, ty) \<in> set elicitationFields"
  shows "map_of (writtenMembers fmt p) name =
    (if present name (fieldOf p name) then Some (encode fmt noMarshal ty (fieldOf p name)) else None)"
proof -
  let ?extra = "map (map_prod id (fromAny fmt)) (case el_AdditionalProperties p of None \<Rightarrow> [] | Some m \<Rightarrow> m)"
  have decl: "declared name" using assms(2) unfolding declared_def by force
  have "name \<notin> fst ` set ?extra"
  proof (cases "el_AdditionalProperties p")
    case (Some m)
    then have "\<forall>e \<in> set m. \<not> declared (fst e)" using assms(1) unfolding settled_def by auto
    then show ?thesis using decl unfolding Some by auto
  qed simp
  then have "map_of ?extra name = None" by (simp add: map_of_eq_None_iff)
  moreover have "map_of (writtenMembers fmt p) = map_of (writtenFields fmt (elicitationValue p) @ ?extra)"
    using MarshalJSON_members(2) [OF assms(1), of fmt] unfolding writtenMembers_def distinct_sortMembers
    by (rule map_of_sortMembers)
  moreover have "map_of elicitationFields name = Some ty"
    using assms(2) elicitation_names by (simp only: map_of_is_SomeI)
  ultimately show ?thesis by (simp add: writtenFields_value map_add_def del: map_of_map)
qed

lemma writtenMembers_rest:
  assumes "settled p"
  shows "filter (\<lambda>e. fst e \<notin> fst ` set elicitationFields) (writtenMembers fmt p) =
    map (map_prod id (fromAny fmt)) (case el_AdditionalProperties p of None \<Rightarrow> [] | Some m \<Rightarrow> m)"
proof -
  let ?W = "writtenFields fmt (elicitationValue p)"
  let ?undeclared = "\<lambda>e :: string \<times> jtext. fst e \<notin> fst ` set elicitationFields"
  define extra where "extra = (case el_AdditionalProperties p of None \<Rightarrow> [] | Some m \<Rightarrow> m)"
  have extra: "\<forall>e \<in> set extra. \<not> declared (fst e)" "sortMembers extra = extra"
    using assms by (cases "el_AdditionalProperties p"; simp add: settled_def settledMap_def extra_def sortMembers_def)+
  have "filter ?undeclared ?W = []"
    using writtenFields_names(1) [of fmt "elicitationValue p"] by (auto simp: filter_empty_conv simp del: Un_iff)
  moreover have "filter ?undeclared (map (map_prod id (fromAny fmt)) extra) = map (map_prod id (fromAny fmt)) extra"
    using extra(1) unfolding declared_def by (intro filter_True) auto
  ultimately show ?thesis
    unfolding writtenMembers_def extra_def [symmetric] filter_sortMembers [of "\<lambda>k. k \<notin> fst ` set elicitationFields"] filter_append
    by (simp add: sortMembers_map extra(2))
qed

text \<open>The struct: the declared fields, then the additional properties.\<close>

lemma zero_split: "fieldsOf (zeroOf api_ElicitationRequestParams) =
    map (\<lambda>(k, ty). (k, zeroOf ty)) elicitationFields @ [(''AdditionalProperties'', VMap None)]"
  by (simp add: api_ElicitationRequestParams_def elicitationFields_def fieldsOf_def)

lemma value_split: "elicitationValue p =
    VStruct (map (\<lambda>(k, ty). (k, fieldOf p k)) elicitationFields @ [(''AdditionalProperties'', jmapValue (el_AdditionalProperties p))])"
  by (simp add: elicitationValue_def elicitationFields_def fieldOf_def fieldsOf_def)

lemma additional_undeclared: "''AdditionalProperties'' \<notin> fst ` set elicitationFields"
  by (simp add: elicitationFields_def)

lemma zero_field:
  assumes "(name, ty) \<in> set elicitationFields"
  shows "fieldValue name ty (fieldsOf (zeroOf api_ElicitationRequestParams)) = zeroOf ty"
proof -
  have "map_of elicitationFields name = Some ty" using assms elicitation_names by (simp only: map_of_is_SomeI)
  then have "map_of (map (\<lambda>(k, ty). (k, zeroOf ty)) elicitationFields) name = Some (zeroOf ty)"
    by (simp only: map_of_map_snd option.map)
  then show ?thesis unfolding fieldValue_def zero_split map_of_append by simp
qed

lemma assign_last: "k \<notin> fst ` set vals \<Longrightarrow> assign k v (vals @ [(k, w)]) = vals @ [(k, v)]"
  by (induction vals) (auto simp: assign_def)

text \<open>What decoding the declared fields leaves.\<close>

lemma vals_read:
  assumes "settled p"
  shows "map (\<lambda>(k, v). (k, if k \<in> fst ` set elicitationFields \<and> map_of (writtenMembers fmt p) k \<noteq> None then fieldOf p k else v))
      (fieldsOf (zeroOf api_ElicitationRequestParams)) =
    map (\<lambda>(k, ty). (k, fieldOf p k)) elicitationFields @ [(''AdditionalProperties'', VMap None)]"
proof -
  have "(if name \<in> fst ` set elicitationFields \<and> map_of (writtenMembers fmt p) name \<noteq> None then fieldOf p name else zeroOf ty) =
      fieldOf p name" if field: "(name, ty) \<in> set elicitationFields" for name ty
  proof -
    have "name \<in> fst ` set elicitationFields" using field by force
    then show ?thesis using writtenMembers_field [OF assms field, of fmt] absent_zero [OF field, of p] by simp
  qed
  then have "map (\<lambda>(k, v). (k, if k \<in> fst ` set elicitationFields \<and> map_of (writtenMembers fmt p) k \<noteq> None then fieldOf p k else v))
      (map (\<lambda>(k, ty). (k, zeroOf ty)) elicitationFields) = map (\<lambda>(k, ty). (k, fieldOf p k)) elicitationFields"
    unfolding list.map_comp by (intro map_cong refl) auto
  then show ?thesis unfolding zero_split map_append by (simp add: additional_undeclared)
qed

lemma rest_read:
  assumes "formatsFloats fmt" "settledMap m"
  shows "readRest (map (map_prod id (fromAny fmt)) m) [] = Inr (map (\<lambda>(k, j). (k, VAny j)) m)"
proof -
  have m: "\<forall>e \<in> set m. okAny (snd e)" "distinct (map fst m)" "\<forall>e \<in> set m. tidyAny (snd e) = snd e"
    using assms(2) unfolding settledMap_def gwf_def by blast+
  have "map (\<lambda>(k, j). (k, fromAny fmt j)) m = map (map_prod id (fromAny fmt)) m" by (rule map_cong) auto
  moreover have "map (\<lambda>(k, j). (k, VAny (tidyAny j))) m = map (\<lambda>(k, j). (k, VAny j)) m"
    using m(3) by (intro map_cong) auto
  moreover have "readRest (map (\<lambda>(k, j). (k, fromAny fmt j)) m) [] = Inr ([] @ map (\<lambda>(k, j). (k, VAny (tidyAny j))) m)"
    by (rule readRest_entries [OF assms(1) m(1)]) (use m(2) in simp)
  ultimately show ?thesis by (simp only: append_Nil)
qed


definition sampleParams :: elicitationParams where
  "sampleParams = \<lparr>el_Message = ''Run it?'', el_Mode = Some ''form'', el_Phase = None, el_PolicyName = Some ''ask'',
     el_ContentPreview = None, el_URL = None, el_TargetSessionID = None,
     el_RequestedSchema = Some [(''properties'', JObj [(''ok'', JObj [(''type'', JStr ''boolean'')])]), (''type'', JStr ''object'')],
     el_AdditionalProperties = Some [(''args'', JArr [JStr ''ls'', JNull]), (''tool_name'', JStr ''bash'')]\<rparr>"

lemma sample_settled: "settled sampleParams"
  by code_simp


text \<open>Get and Set of an additional property.\<close>

lemma Get_Set: "ElicitationRequestParams_Get (ElicitationRequestParams_Set p name v) name' =
    (if name' = name then Some v else ElicitationRequestParams_Get p name')"
  by (simp add: ElicitationRequestParams_Get_def ElicitationRequestParams_Set_def split: option.split)

end
