(* ===== verification/Discriminator.thy ===== *)
theory Discriminator
  imports Wire
begin

text \<open>
  api.gen.go: the union ServerStreamEvent, generated from the discriminator of the API description,
  beside the registry event.go keeps by hand. The union is the bytes of its json.RawMessage.

  The lemmas show that both know the same types and decode each into the same struct, so DecodeEvent
  is the generated dispatch with an UnknownEvent where that one fails.
  Nothing in the package calls the union. Its other functions are in Unions.
\<close>

type_synonym serverStreamEvent = string

text \<open>The As functions, one per variant: json.Unmarshal of the union into the variant's struct.\<close>

definition As :: "variant \<Rightarrow> serverStreamEvent \<Rightarrow> goerr + goval" where
  "As v t = Unmarshal apiCustom (variantType v) (zeroOf (variantType v)) t"

definition Discriminator :: "serverStreamEvent \<Rightarrow> goerr + string" where
  "Discriminator t =
    (let ty = TyStruct [] [(''type'', False, TyString)] in
     case Unmarshal noCustom ty (zeroOf ty) t of
       Inl err \<Rightarrow> Inl err
     | Inr x \<Rightarrow> Inr (strField ''type'' x))"

text \<open>The switch of ValueByDiscriminator.\<close>

definition unionTable :: "(string \<times> variant) list" where
  "unionTable =
    [(''browser.action_request'', VBrowserActionRequest),
     (''response.cancelled'', VResponseCancelled),
     (''response.client_task.cancel'', VClientTaskCancel),
     (''response.compaction.completed'', VCompactionCompleted),
     (''response.compaction.failed'', VCompactionFailed),
     (''response.compaction.in_progress'', VCompactionInProgress),
     (''response.completed'', VResponseCompleted),
     (''response.created'', VResponseCreated),
     (''response.elicitation_request'', VElicitationRequest),
     (''response.elicitation_resolved'', VElicitationResolved),
     (''response.error'', VError),
     (''response.failed'', VResponseFailed),
     (''response.function_call_output.delta'', VToolOutputDelta),
     (''response.heartbeat'', VResponseHeartbeat),
     (''response.in_progress'', VInProgress),
     (''response.incomplete'', VIncomplete),
     (''response.output_file.done'', VOutputFileDone),
     (''response.output_item.done'', VOutputItemDone),
     (''response.output_text.delta'', VOutputTextDelta),
     (''response.policy_denied'', VPolicyDenied),
     (''response.queued'', VQueued),
     (''response.reasoning.started'', VReasoningStarted),
     (''response.reasoning_summary_text.delta'', VReasoningSummaryTextDelta),
     (''response.reasoning_text.delta'', VReasoningTextDelta),
     (''response.retry'', VRetry),
     (''session.agent_changed'', VSessionAgentChanged),
     (''session.changed_files.invalidated'', VSessionChangedFilesInvalidated),
     (''session.child_session.updated'', VSessionChildSessionUpdated),
     (''session.collaboration_mode'', VSessionCollaborationMode),
     (''session.created'', VSessionCreated),
     (''session.heartbeat'', VSessionHeartbeat),
     (''session.input.consumed'', VSessionInputConsumed),
     (''session.interrupted'', VSessionInterrupted),
     (''session.mcp_startup'', VSessionMCPStartup),
     (''session.model'', VSessionModel),
     (''session.model_options'', VSessionModelOptions),
     (''session.presence'', VSessionPresence),
     (''session.reasoning_effort'', VSessionReasoningEffort),
     (''session.resource.created'', VSessionResourceCreated),
     (''session.resource.deleted'', VSessionResourceDeleted),
     (''session.sandbox_status'', VSessionSandboxStatus),
     (''session.skills'', VSessionSkills),
     (''session.status'', VSessionStatus),
     (''session.superseded'', VSessionSuperseded),
     (''session.terminal.activity'', VSessionTerminalActivity),
     (''session.terminal_pending'', VSessionTerminalPending),
     (''session.todos'', VSessionTodos),
     (''session.usage'', VSessionUsage),
     (''turn.cancelled'', VTurnCancelled),
     (''turn.completed'', VTurnCompleted),
     (''turn.failed'', VTurnFailed),
     (''turn.started'', VTurnStarted)]"

definition ValueByDiscriminator :: "serverStreamEvent \<Rightarrow> goerr + variant \<times> goval" where
  "ValueByDiscriminator t =
    (case Discriminator t of
       Inl err \<Rightarrow> Inl err
     | Inr d \<Rightarrow> (case map_of unionTable d of
           Some v \<Rightarrow> (case As v t of Inl err \<Rightarrow> Inl err | Inr x \<Rightarrow> Inr (v, x))
         | None \<Rightarrow> Inl (Errorf [Txt (''unknown discriminator value: '' @ d)])))"

text \<open>Where each case of the switch is in the registry.\<close>

definition registryIndex :: "nat list" where
  "registryIndex =
    [0, 18, 1, 2, 3, 4, 19, 20, 5, 6, 7, 21, 47, 22, 8, 9, 10, 11, 12, 13, 14, 15, 16,
     17, 23, 24, 25, 26, 27, 28, 29, 30, 31, 32, 33, 34, 35, 36, 37, 38, 39, 40, 41, 42,
     43, 44, 45, 46, 48, 49, 50, 51]"

lemma tables_agree: "map_of unionTable = map_of eventRegistry"
proof -
  have table: "unionTable = map ((!) eventRegistry) registryIndex"
    by (simp add: unionTable_def eventRegistry_def registryIndex_def)
  have "sort registryIndex = [0..<52]" by code_simp
  then have "set registryIndex = {..<52}" by (metis set_sort atLeast_upt)
  then have index: "set registryIndex = {..<length eventRegistry}" by (simp add: eventRegistry_def)
  have "set unionTable = set eventRegistry"
    unfolding table set_map index by (force simp: in_set_conv_nth)
  moreover have keys: "distinct (map fst eventRegistry)" by (simp add: eventRegistry_def)
  moreover have "length unionTable = length eventRegistry" by (simp add: unionTable_def eventRegistry_def)
  then have "distinct (map fst unionTable)"
    using calculation by (metis card_distinct distinct_card length_map list.set_map)
  ultimately show ?thesis using map_of_inject_set by blast
qed

lemma discriminator_probe: "Discriminator t = probeType t"
  by (simp add: Discriminator_def probeType_def envelopeType_def)

text \<open>C16. The registry is the API's. DecodeEvent gives for every frame what the generated dispatch on the
  discriminator gives, the same variant with the same struct; only where that one has no case does
  it give an UnknownEvent with the bytes, and a frame without a type and a struct that does not
  decode are errors of both.\<close>

theorem registry_is_the_union:
  "DecodeEvent probeType decodeInto raw =
    (case Discriminator raw of
       Inl err \<Rightarrow> Inl (Errorf [Txt ''omnigent: decode event envelope: '', Wrapped err])
     | Inr d \<Rightarrow>
         if d = [] then Inl (Errorf [Txt ''omnigent: event carries no type discriminator''])
         else if map_of unionTable d = None then Inr (Ev d (UnknownEvent raw))
         else (case ValueByDiscriminator raw of
             Inl err \<Rightarrow> Inl (Errorf [Txt ''omnigent: decode '', Txt d, Txt '' event: '', Wrapped err])
           | Inr (v, x) \<Rightarrow> Inr (Ev (strField ''type'' x) (bodyOf v x))))"
  by (simp add: DecodeEvent_def ValueByDiscriminator_def As_def decodeByType_def decodeInto_def
      discriminator_probe tables_agree split: sum.split option.split)

end
