(* ===== verification/Enums.thy ===== *)
theory Enums
  imports Wire
begin

text \<open>
  enums.go and list.go: the constants for the enumerated fields, by the struct and the JSON name of the field
  they are for. The lemmas show that such a field is a plain string, so that a value the constants
  do not have decodes too, and that no two constants of a field share a value.
\<close>

definition enumTable :: "(gotype \<times> string \<times> (string \<times> string) list) list" where
  "enumTable =
    [(api_ElicitationRequestParams, ''mode'',
       [(''ElicitationRequestParamsModeForm'', ''form''), (''ElicitationRequestParamsModeURL'', ''url'')]),
     (api_ErrorData, ''source'',
       [(''ErrorDataSourceLLM'', ''llm''), (''ErrorDataSourceExecution'', ''execution''),
        (''ErrorDataSourceTool'', ''tool'')]),
     (api_ErrorEvent, ''source'',
       [(''ErrorEventSourceLLM'', ''llm''), (''ErrorEventSourceExecution'', ''execution''),
        (''ErrorEventSourceTool'', ''tool'')]),
     (api_MCPServerStartup, ''status'',
       [(''MCPServerStartupStatusStarting'', ''starting''), (''MCPServerStartupStatusReady'', ''ready''),
        (''MCPServerStartupStatusFailed'', ''failed''), (''MCPServerStartupStatusCancelled'', ''cancelled'')]),
     (api_MessageData, ''role'',
       [(''MessageDataRoleUser'', ''user''), (''MessageDataRoleAssistant'', ''assistant'')]),
     (api_RetryEvent, ''source'',
       [(''RetryEventSourceLLM'', ''llm''), (''RetryEventSourceTool'', ''tool'')]),
     (api_RoutingDecisionData, ''scope'',
       [(''RoutingDecisionDataScopeSession'', ''session''), (''RoutingDecisionDataScopeTurn'', ''turn''),
        (''RoutingDecisionDataScopeChildSession'', ''child_session''),
        (''RoutingDecisionDataScopeNativeSubagent'', ''native_subagent'')]),
     (api_SandboxStatus, ''stage'',
       [(''SandboxStatusStageProvisioning'', ''provisioning''), (''SandboxStatusStageCloning'', ''cloning''),
        (''SandboxStatusStageStarting'', ''starting''), (''SandboxStatusStageConnecting'', ''connecting''),
        (''SandboxStatusStageReady'', ''ready''), (''SandboxStatusStageFailed'', ''failed'')]),
     (api_SessionListItem, ''status'',
       [(''SessionListItemStatusIdle'', ''idle''), (''SessionListItemStatusRunning'', ''running''),
        (''SessionListItemStatusWaiting'', ''waiting''), (''SessionListItemStatusFailed'', ''failed'')]),
     (api_SessionResponse, ''status'',
       [(''SessionResponseStatusIdle'', ''idle''), (''SessionResponseStatusRunning'', ''running''),
        (''SessionResponseStatusWaiting'', ''waiting''), (''SessionResponseStatusFailed'', ''failed'')]),
     (api_SessionSandboxStatusEvent, ''stage'',
       [(''SessionSandboxStatusEventStageProvisioning'', ''provisioning''),
        (''SessionSandboxStatusEventStageCloning'', ''cloning''),
        (''SessionSandboxStatusEventStageStarting'', ''starting''),
        (''SessionSandboxStatusEventStageConnecting'', ''connecting''),
        (''SessionSandboxStatusEventStageReady'', ''ready''),
        (''SessionSandboxStatusEventStageFailed'', ''failed'')]),
     (api_SessionStatusEvent, ''status'',
       [(''SessionStatusEventStatusIdle'', ''idle''), (''SessionStatusEventStatusLaunching'', ''launching''),
        (''SessionStatusEventStatusRunning'', ''running''), (''SessionStatusEventStatusWaiting'', ''waiting''),
        (''SessionStatusEventStatusFailed'', ''failed'')]),
     (api_SlashCommandData, ''kind'',
       [(''SlashCommandDataKindSkill'', ''skill''), (''SlashCommandDataKindCommand'', ''command'')]),
     (api_TerminalCommandData, ''kind'',
       [(''TerminalCommandDataKindInput'', ''input''), (''TerminalCommandDataKindOutput'', ''output'')])]"

text \<open>The field of a decoded struct holds the string, or points to it.\<close>

definition carries :: "goval \<Rightarrow> string \<Rightarrow> string \<Rightarrow> bool" where
  "carries v k s \<longleftrightarrow> map_of (fieldsOf v) k = Some (VString s) \<or> map_of (fieldsOf v) k = Some (VPtr (Some (VString s)))"

definition decodesAny :: "gotype \<Rightarrow> string \<Rightarrow> bool" where
  "decodesAny ty k \<longleftrightarrow> (\<forall>s. \<exists>v. decode apiCustom ty (TObj [(k, TStr s)]) (zeroOf ty) None = Inr (v, None) \<and> carries v k s)"

lemma zero_has: "k \<in> fst ` set fs \<Longrightarrow> \<exists>z. map_of (map (\<lambda>(k, om, ty). (k, zeroOf ty)) fs) k = Some z"
  by (induction fs) auto

lemma decodesAny_struct:
  assumes "fieldFor fs k = Some (k, om, fty)" "fty = TyString \<or> fty = TyPtr TyString" "k \<in> fst ` set fs"
  shows "decodesAny (TyStruct n fs) k"
proof -
  obtain v where v: "decode apiCustom fty (TStr s) (fieldValue k fty (fieldsOf (zeroOf (TyStruct n fs)))) None = Inr (v s, None)"
      "v s = VString s \<or> v s = VPtr (Some (VString s))" for s
    using assms(2) by (auto simp: decodeString_def)
  have "decode apiCustom (TyStruct n fs) (TObj [(k, TStr s)]) (zeroOf (TyStruct n fs)) None =
      Inr (VStruct (assign k (v s) (fieldsOf (zeroOf (TyStruct n fs)))), None)" for s
    using assms(1) v(1) by simp
  moreover have "carries (VStruct (assign k (v s) (fieldsOf (zeroOf (TyStruct n fs))))) k s" for s
    using zero_has [OF assms(3)] v(2) [of s] by (auto simp: carries_def fieldsOf_def map_of_assign)
  ultimately show ?thesis by (auto simp: decodesAny_def)
qed

definition stringField :: "gotype \<Rightarrow> string \<Rightarrow> bool" where
  "stringField ty k = (case ty of
      TyStruct n fs \<Rightarrow> (case find (\<lambda>f. fst f = k) fs of Some (_, _, fty) \<Rightarrow> fty \<in> {TyString, TyPtr TyString} | None \<Rightarrow> False)
    | _ \<Rightarrow> False)"

lemma decodesAny_stringField:
  assumes "stringField ty k"
  shows "decodesAny ty k"
proof -
  obtain n fs k' om fty where ty: "ty = TyStruct n fs" and find: "find (\<lambda>f. fst f = k) fs = Some (k', om, fty)"
    and fty: "fty = TyString \<or> fty = TyPtr TyString"
    using assms by (auto simp: stringField_def split: gotype.splits option.splits)
  obtain i where i: "i < length fs" "fst (fs ! i) = k" "fs ! i = (k', om, fty)"
    using find unfolding find_Some_iff by metis
  then have k: "k' = k" by simp
  have fs: "k \<in> fst ` set fs" using i(1,2) nth_mem by blast
  show ?thesis unfolding ty
    by (rule decodesAny_struct [OF _ fty fs]) (simp add: fieldFor_def find k)
qed

lemma decodesAny_elicitation: "decodesAny api_ElicitationRequestParams ''mode''"
proof -
  have c: "apiCustom n ty t old = ElicitationRequestParams_UnmarshalJSON t old"
    if "TyCustom n ty = api_ElicitationRequestParams" for n ty t old using that by (simp add: apiCustom_def)
  define v where "v s = VStruct (assign ''mode'' (VPtr (Some (VString s))) (fieldsOf (zeroOf api_ElicitationRequestParams)))" for s
  have "ElicitationRequestParams_UnmarshalJSON (TObj [(''mode'', TStr s)]) (zeroOf api_ElicitationRequestParams) = Inr (v s)" for s
    by (simp add: ElicitationRequestParams_UnmarshalJSON_def rawMap_def elicitationFields_def gdel_def gput_def
        unmarshalInto_def decodeString_def v_def)
  then have "decode apiCustom api_ElicitationRequestParams (TObj [(''mode'', TStr s)]) (zeroOf api_ElicitationRequestParams) None =
      Inr (v s, None)" for s
    using c by (simp add: api_ElicitationRequestParams_def)
  moreover have "carries (v s) ''mode'' s" for s
    by (simp add: carries_def v_def fieldsOf_def map_of_assign api_ElicitationRequestParams_def)
  ultimately show ?thesis by (auto simp: decodesAny_def)
qed

text \<open>The constants of list.go, by their string type.\<close>

definition listConstants :: "(string \<times> (string \<times> string) list) list" where
  "listConstants =
    [(''SortOrder'', [(''SortDescending'', ''desc''), (''SortAscending'', ''asc'')]),
     (''SessionSortBy'', [(''SessionSortByCreatedAt'', ''created_at''), (''SessionSortByUpdatedAt'', ''updated_at'')]),
     (''SessionKind'', [(''SessionKindDefault'', ''default''), (''SessionKindSubAgent'', ''sub_agent''), (''SessionKindAny'', ''any'')])]"

lemma listConstants_distinct: "list_all (\<lambda>(ty, consts). distinct (map snd consts)) listConstants"
  by (simp add: listConstants_def)

text \<open>An enumerated field is open. For every field the constants are for, a string that is none of
  them decodes like one of them, into the field itself, so a newer server's value reaches the
  default arm of the caller's switch; the values of a field are distinct.\<close>

theorem enumerated_fields_open:
  "list_all (\<lambda>(ty, k, consts). decodesAny ty k \<and> distinct (map snd consts)) enumTable"
proof -
  have "list_all (\<lambda>(ty, k, consts). (stringField ty k \<or> ty = api_ElicitationRequestParams \<and> k = ''mode'') \<and>
      distinct (map snd consts)) enumTable"
    by code_simp
  then show ?thesis
    by (rule list.pred_mono_strong) (use decodesAny_stringField decodesAny_elicitation in auto)
qed

end
