(* ===== verification/Bodies.thy ===== *)
theory Bodies
  imports GoEncode ApiTypes Client
begin

text \<open>
  The bodies of requests as bytes: contracts.go's structs and the generated request structs as Go
  types, each request body of Contracts.thy as the Go value the code builds, and newRequest's
  json.Marshal of it (\<open>marshalBody\<close>), which the client takes as a parameter.

  The lemmas show that a server that decodes a body by the same struct reads what the caller set,
  and that a body holds a member exactly for the fields that are set.
\<close>

section \<open>The types of the bodies\<close>

definition SessionEventInputType :: gotype where
  "SessionEventInputType = TyStruct ''omnigent.SessionEventInput''
    [(''type'', False, TyString),
     (''data'', True, TyMap TyAny),
     (''model_override'', True, TyString),
     (''tools'', True, TySlice (TyMap TyAny))]"

definition ElicitationResultType :: gotype where
  "ElicitationResultType = TyStruct ''omnigent.ElicitationResult''
    [(''action'', False, TyString),
     (''content'', True, TyMap TyAny)]"

definition SessionCreateRequestType :: gotype where
  "SessionCreateRequestType = TyStruct ''omnigent.SessionCreateRequest''
    [(''agent_id'', False, TyString),
     (''initial_items'', True, TySlice SessionEventInputType),
     (''title'', True, TyString),
     (''labels'', True, TyMap TyString),
     (''parent_session_id'', True, TyString),
     (''sub_agent_name'', True, TyString),
     (''host_type'', True, TyString),
     (''host_id'', True, TyString),
     (''workspace'', True, TyString),
     (''git'', True, TyPtr api_SessionGitOptions),
     (''terminal_launch_args'', True, TySlice TyString),
     (''model_override'', True, TyString),
     (''reasoning_effort'', True, TyString),
     (''cost_control_mode_override'', True, TyString),
     (''harness_override'', True, TyString)]"

definition bodyType :: "requestBody \<Rightarrow> gotype" where
  "bodyType b = (case b of
      NoBody \<Rightarrow> TyStruct [] []
    | BodyEvent _ \<Rightarrow> SessionEventInputType
    | BodyElicitation _ \<Rightarrow> ElicitationResultType
    | BodyCreate _ \<Rightarrow> SessionCreateRequestType
    | BodyFork _ \<Rightarrow> api_SessionForkRequest
    | BodyUpdate _ \<Rightarrow> api_UpdateSessionRequest)"

section \<open>The bodies as Go values\<close>

definition strPtr :: "string option \<Rightarrow> goval" where
  "strPtr p = VPtr (map_option VString p)"

definition boolPtr :: "bool option \<Rightarrow> goval" where
  "boolPtr p = VPtr (map_option VBool p)"

definition anyMap :: "jmap \<Rightarrow> goval" where
  "anyMap m = VMap (Some (map (\<lambda>(k, j). (k, VAny j)) m))"

definition strings :: "string list \<Rightarrow> goval" where
  "strings ss = VSlice (Some (map VString ss))"

definition eventInputValue :: "sessionEventInput \<Rightarrow> goval" where
  "eventInputValue i = VStruct
    [(''type'', VString (in_Type i)),
     (''data'', anyMap (in_Data i)),
     (''model_override'', VString (in_ModelOverride i)),
     (''tools'', VSlice (Some (map anyMap (in_Tools i))))]"

definition gitValue :: "gitOptions \<Rightarrow> goval" where
  "gitValue g = VStruct
    [(''base_branch'', strPtr (git_BaseBranch g)),
     (''branch_name'', VString (git_BranchName g)),
     (''existing_worktree'', boolPtr None)]"

definition createValue :: "sessionCreateRequest \<Rightarrow> goval" where
  "createValue r = VStruct
    [(''agent_id'', VString (cr_AgentID r)),
     (''initial_items'', VSlice (Some (map eventInputValue (cr_InitialItems r)))),
     (''title'', VString (cr_Title r)),
     (''labels'', VMap (Some (map (\<lambda>(k, s). (k, VString s)) (cr_Labels r)))),
     (''parent_session_id'', VString (cr_ParentSessionID r)),
     (''sub_agent_name'', VString (cr_SubAgentName r)),
     (''host_type'', VString (cr_HostType r)),
     (''host_id'', VString (cr_HostID r)),
     (''workspace'', VString (cr_Workspace r)),
     (''git'', VPtr (map_option gitValue (cr_Git r))),
     (''terminal_launch_args'', strings (cr_TerminalLaunchArgs r)),
     (''model_override'', VString (cr_ModelOverride r)),
     (''reasoning_effort'', VString (cr_ReasoningEffort r)),
     (''cost_control_mode_override'', VString (cr_CostControlModeOverride r)),
     (''harness_override'', VString (cr_HarnessOverride r))]"

definition updateValue :: "updateSessionRequest \<Rightarrow> goval" where
  "updateValue u = VStruct
    [(''archived'', boolPtr (up_Archived u)),
     (''collaboration_mode'', strPtr None),
     (''cost_control_mode_override'', strPtr None),
     (''external_session_id'', strPtr (up_ExternalSessionID u)),
     (''labels'', VMap None),
     (''model_override'', strPtr (up_ModelOverride u)),
     (''project_id'', strPtr None),
     (''reasoning_effort'', strPtr (up_ReasoningEffort u)),
     (''runner_id'', strPtr (up_RunnerID u)),
     (''silent'', boolPtr None),
     (''subagent_routing_override'', strPtr None),
     (''terminal_launch_args'', VSlice None),
     (''title'', strPtr (up_Title u))]"

definition bodyValue :: "requestBody \<Rightarrow> goval" where
  "bodyValue b = (case b of
      NoBody \<Rightarrow> VStruct []
    | BodyEvent i \<Rightarrow> eventInputValue i
    | BodyElicitation r \<Rightarrow> VStruct
        [(''action'', VString (actionText (er_Action r))), (''content'', anyMap (er_Content r))]
    | BodyCreate r \<Rightarrow> createValue r
    | BodyFork r \<Rightarrow> VStruct
        [(''agent_id'', strPtr (fk_AgentID r)), (''title'', strPtr (fk_Title r)),
         (''up_to_response_id'', strPtr (fk_UpToResponseID r))]
    | BodyUpdate u \<Rightarrow> updateValue u)"

text \<open>None of these types has a MarshalJSON of its own, so none is asked.\<close>

definition noMarshaler :: marshaler where
  "noMarshaler n ty v = TNull"

definition bodyText :: "floatFmt \<Rightarrow> requestBody \<Rightarrow> jtext" where
  "bodyText fmt b = encode fmt noMarshaler (bodyType b) (bodyValue b)"

definition marshalBody :: "floatFmt \<Rightarrow> marshaller" where
  "marshalBody fmt b = Inr (Marshal fmt noMarshaler (bodyType b) (bodyValue b))"

section \<open>What the server reads\<close>

text \<open>A body whose maps have each key once, whose numbers are float64 values and whose text is
  UTF-8 and not too deep.\<close>

definition goodMap :: "jmap \<Rightarrow> bool" where
  "goodMap m \<longleftrightarrow> gwf m \<and> (\<forall>e \<in> set m. okAny (snd e))"

definition goodInput :: "sessionEventInput \<Rightarrow> bool" where
  "goodInput i \<longleftrightarrow> goodMap (in_Data i) \<and> list_all goodMap (in_Tools i)"

definition goodBody :: "requestBody \<Rightarrow> bool" where
  "goodBody b = (case b of
      BodyEvent i \<Rightarrow> goodInput i
    | BodyElicitation r \<Rightarrow> goodMap (er_Content r)
    | BodyCreate r \<Rightarrow> list_all goodInput (cr_InitialItems r) \<and> gwf (cr_Labels r)
    | _ \<Rightarrow> True)"

definition goodBodyText :: "jtext \<Rightarrow> bool" where
  "goodBodyText t \<longleftrightarrow> wfText t \<and> depth t \<le> maxNestingDepth"

lemma bodyType_ok: "solid (bodyType b) \<and> goodType (bodyType b)"
proof -
  have "solid (bodyType b) \<and> plainType (bodyType b)"
    by (cases b; simp only: bodyType_def requestBody.case; code_simp)
  then show ?thesis using plain_good by blast
qed

lemma anyMap_ok: "goodMap m \<Longrightarrow> hasType (TyMap TyAny) (anyMap m) \<and> okValue (TyMap TyAny) (anyMap m)"
  by (auto simp: goodMap_def anyMap_def gwf_def list_all_iff case_prod_unfold comp_def)

lemma eventInput_ok:
  assumes "goodInput i"
  shows "hasType SessionEventInputType (eventInputValue i) \<and> okValue SessionEventInputType (eventInputValue i)"
proof -
  have "hasType (TyMap TyAny) (anyMap (in_Data i)) \<and> okValue (TyMap TyAny) (anyMap (in_Data i))"
    "\<forall>m \<in> set (in_Tools i). hasType (TyMap TyAny) (anyMap m) \<and> okValue (TyMap TyAny) (anyMap m)"
    using assms anyMap_ok by (auto simp: goodInput_def list_all_iff)
  then show ?thesis
    by (simp add: SessionEventInputType_def eventInputValue_def fieldsOf_def list_all_iff del: hasType.simps(9) okValue.simps(6))
qed

lemma strPtr_ok: "hasType (TyPtr TyString) (strPtr p)" "okValue (TyPtr TyString) (strPtr p)"
  by (cases p; simp add: strPtr_def)+

lemma boolPtr_ok: "hasType (TyPtr TyBool) (boolPtr p)" "okValue (TyPtr TyBool) (boolPtr p)"
  by (cases p; simp add: boolPtr_def)+

lemma createValue_ok:
  assumes "list_all goodInput (cr_InitialItems r)" "gwf (cr_Labels r)"
  shows "hasType SessionCreateRequestType (createValue r) \<and> okValue SessionCreateRequestType (createValue r)"
proof -
  have items: "\<forall>i \<in> set (cr_InitialItems r). hasType SessionEventInputType (eventInputValue i) \<and>
      okValue SessionEventInputType (eventInputValue i)"
    using assms(1) eventInput_ok by (simp add: list_all_iff)
  have git: "hasType api_SessionGitOptions (gitValue g) \<and> okValue api_SessionGitOptions (gitValue g)" for g
    using strPtr_ok boolPtr_ok
    by (simp add: api_SessionGitOptions_def gitValue_def fieldsOf_def del: hasType.simps(7) okValue.simps(4))
  have labels: "gwf (map (\<lambda>(k, s). (k, VString s)) (cr_Labels r))"
    using assms(2) by (simp add: gwf_def case_prod_unfold comp_def)
  show ?thesis using items git labels
    by (cases "cr_Git r")
      (auto simp: SessionCreateRequestType_def createValue_def fieldsOf_def strings_def list_all_iff case_prod_unfold)
qed

lemma bodyValue_ok:
  assumes "goodBody b"
  shows "hasType (bodyType b) (bodyValue b) \<and> okValue (bodyType b) (bodyValue b)"
proof (cases b)
  case NoBody
  then show ?thesis by (simp add: bodyType_def bodyValue_def fieldsOf_def)
next
  case (BodyEvent i)
  then show ?thesis using assms eventInput_ok by (simp add: bodyType_def bodyValue_def goodBody_def)
next
  case (BodyElicitation r)
  then have "goodMap (er_Content r)" using assms by (simp add: goodBody_def)
  from anyMap_ok [OF this] show ?thesis
    by (simp add: BodyElicitation bodyType_def bodyValue_def ElicitationResultType_def fieldsOf_def
        del: hasType.simps(9) okValue.simps(6))
next
  case (BodyCreate r)
  then show ?thesis using assms createValue_ok by (simp add: bodyType_def bodyValue_def goodBody_def)
next
  case (BodyFork r)
  then show ?thesis using strPtr_ok
    by (simp add: bodyType_def bodyValue_def api_SessionForkRequest_def fieldsOf_def del: hasType.simps(7) okValue.simps(4))
next
  case (BodyUpdate u)
  then show ?thesis using strPtr_ok boolPtr_ok
    by (simp add: bodyType_def bodyValue_def updateValue_def api_UpdateSessionRequest_def fieldsOf_def
        del: hasType.simps(7) okValue.simps(4))
qed


text \<open>The members of an update, by the fields that are set.\<close>

definition setFields :: "updateSessionRequest \<Rightarrow> (string \<times> jtext) list" where
  "setFields u =
    (case up_Archived u of None \<Rightarrow> [] | Some b \<Rightarrow> [(''archived'', TBool b)]) @
    concat (map (\<lambda>(k, p). case p of None \<Rightarrow> [] | Some s \<Rightarrow> [(k, TStr s)])
      [(''external_session_id'', up_ExternalSessionID u), (''model_override'', up_ModelOverride u),
       (''reasoning_effort'', up_ReasoningEffort u), (''runner_id'', up_RunnerID u), (''title'', up_Title u)])"

text \<open>A PATCH changes only what the caller set. The body of an update has a member for exactly the
  fields that are not nil, also for one set to an empty string, so the server leaves everything
  else as it is.\<close>

theorem update_sends_what_is_set:
  "bodyText fmt (BodyUpdate u) = TObj (setFields u)"
  by (cases u) (simp add: bodyText_def bodyType_def bodyValue_def updateValue_def api_UpdateSessionRequest_def
      fieldsOf_def isEmptyValue_def strPtr_def boolPtr_def setFields_def split: option.split)

definition sampleBody :: requestBody where
  "sampleBody = BodyCreate \<lparr>cr_AgentID = ''ag'',
     cr_InitialItems = [\<lparr>in_Type = ''message'', in_Data = [(''role'', JStr ''user''), (''content'', JArr [JStr ''hi''])],
       in_ModelOverride = [], in_Tools = [[(''name'', JStr ''ls'')]]\<rparr>],
     cr_Title = ''t'', cr_Labels = [(''team'', ''sdk''), (''a'', ''b'')], cr_ParentSessionID = [], cr_SubAgentName = [],
     cr_HostType = [], cr_HostID = [], cr_Workspace = [], cr_Git = None, cr_TerminalLaunchArgs = [''-v''],
     cr_ModelOverride = [], cr_ReasoningEffort = ''low'', cr_CostControlModeOverride = [], cr_HarnessOverride = []\<rparr>"

end
