(* ===== verification/Replies.thy ===== *)
theory Replies
  imports Wire Client
begin

text \<open>
  json.NewDecoder(r).Decode(out), which doJSON and doUpload read a reply with: the scanner takes one
  value off the stream and what follows it is not looked at. How far the decoder's buffer has read
  ahead of the value is the transport's and a parameter (\<open>ahead\<close>); it decides only whether a failed
  reply is reported as too large.

  The lemmas show that a reply is decoded exactly when all of it arrived within the bound, into what
  json.Unmarshal makes of it, and what a cut one is reported as.
\<close>

section \<open>One value of a stream\<close>

text \<open>The value read so far, when it may end here.\<close>

definition ended :: "scanner \<Rightarrow> jtext option" where
  "ended st = (case fst (scanStep (CHR '' '') st) of EndTop v \<Rightarrow> Some v | _ \<Rightarrow> None)"

datatype valueRead = ValueRead nat jtext | ValueBad nat string | ValueShort scanner

text \<open>An object or an array ends with its last byte. Anything else ends with the byte after it,
  whatever that is.\<close>

fun readValue :: "nat \<Rightarrow> scanner \<Rightarrow> string \<Rightarrow> valueRead" where
  "readValue k st [] = ValueShort st"
| "readValue k st (c # s) =
    (case scanStep c st of
       (EndTop v, stk) \<Rightarrow> ValueRead (Suc k) v
     | (ScanError err, stk) \<Rightarrow> (case ended st of Some v \<Rightarrow> ValueRead (Suc k) v | None \<Rightarrow> ValueBad (Suc k) err)
     | st' \<Rightarrow> readValue (Suc k) st' s)"

definition decodeText :: "custom \<Rightarrow> gotype \<Rightarrow> goval \<Rightarrow> jtext \<Rightarrow> goerr + goval" where
  "decodeText cu ty old t = (case decode cu ty t old None of
      Inl e \<Rightarrow> Inl e | Inr (v, Some e) \<Rightarrow> Inl e | Inr (v, None) \<Rightarrow> Inr v)"

definition jsonDecoder :: "(nat \<Rightarrow> nat) \<Rightarrow> custom \<Rightarrow> gotype \<Rightarrow> goval \<Rightarrow> goval decoder" where
  "jsonDecoder ahead cu ty old body fault =
    (let sofar = (\<lambda>k. max k (min (ahead k) (length body))) in
     case readValue 0 (BeginValue, []) body of
       ValueRead k t \<Rightarrow> (sofar k, decodeText cu ty old t)
     | ValueBad k err \<Rightarrow> (sofar k, Inl (External err))
     | ValueShort st \<Rightarrow> (length body,
         (case fault of
            Some err \<Rightarrow> Inl err
          | None \<Rightarrow> (case ended st of
                Some t \<Rightarrow> decodeText cu ty old t
              | None \<Rightarrow> if list_all jsonSpace body then Inl (Std EOF) else Inl (External ''unexpected EOF'')))))"

section \<open>A printed object\<close>

lemma readValue_done:
  assumes "scan s st = (EndTop v, stk)" "\<And>p r. s = p @ r \<Longrightarrow> r \<noteq> [] \<Longrightarrow> \<not> overMode (fst (scan p st))" "s \<noteq> []"
  shows "readValue k st (s @ rest) = ValueRead (k + length s) v"
  using assms
proof (induction s arbitrary: k st)
  case (Cons c s)
  show ?case
  proof (cases "s = []")
    case True
    then show ?thesis using Cons.prems(1) by simp
  next
    case False
    have "\<not> overMode (fst (scanStep c st))" using Cons.prems(2) [of "[c]" s] False by simp
    moreover have "readValue (Suc k) (scanStep c st) (s @ rest) = ValueRead (Suc k + length s) v"
    proof (rule Cons.IH)
      fix p r assume "s = p @ r" "r \<noteq> []"
      then show "\<not> overMode (fst (scan p (scanStep c st)))" using Cons.prems(2) [of "c # p" r] by simp
    qed (use Cons.prems(1) False in simp_all)
    ultimately show ?thesis by (auto split: prod.split scanMode.split)
  qed
qed simp

lemma readValue_short:
  assumes "\<And>p r. s = p @ r \<Longrightarrow> \<not> overMode (fst (scan p st))"
  shows "readValue k st s = ValueShort (scan s st)"
  using assms
proof (induction s arbitrary: k st)
  case (Cons c s)
  have "\<not> overMode (fst (scanStep c st))" using Cons.prems [of "[c]" s] by simp
  moreover have "readValue (Suc k) (scanStep c st) s = ValueShort (scan s (scanStep c st))"
  proof (rule Cons.IH)
    fix p r assume "s = p @ r"
    then show "\<not> overMode (fst (scan p (scanStep c st)))" using Cons.prems [of "c # p" r] by simp
  qed
  ultimately show ?case by (auto split: prod.split scanMode.split)
qed simp

lemma scan_failed: "scan s (ScanError err, stk) = (ScanError err, stk)"
  by (induction s) auto

text \<open>After the end of the input's value only space is no error.\<close>

lemma scan_after: "\<not> jsonSpace c \<Longrightarrow> c \<in> set s \<Longrightarrow> \<exists>err stk'. scan s (EndTop v, stk) = (ScanError err, stk')"
  by (induction s) (auto simp: stateEndTop_def scanFail_def scan_failed)

text \<open>An object a server sends.\<close>

definition sentObject :: "jtext \<Rightarrow> bool" where
  "sentObject t \<longleftrightarrow> (case t of TObj _ \<Rightarrow> True | _ \<Rightarrow> False) \<and> wfText t \<and> depth t \<le> maxNestingDepth"

lemma scan_object:
  assumes "sentObject t"
  shows "scan (printJSON t) (BeginValue, []) = (EndTop t, [])"
proof -
  obtain ms where t: "t = TObj ms" and wf: "wfMembers ms" "Suc (depthMembers ms) \<le> maxNestingDepth"
    using assms by (auto simp: sentObject_def split: jtext.splits)
  have "stateBeginValue CHR ''{'' [] = (BeginStringOrEmpty, [ParseObjectKey []])"
    using wf(2) by (simp add: stateBeginValue_def jsonSpace_def pushOpen_def)
  moreover have "scan (printMembers ms) (BeginStringOrEmpty, [ParseObjectKey []]) = (EndTop t, [])"
  proof (cases "ms = []")
    case True
    then show ?thesis by (simp add: jsonSpace_def closed_def t)
  next
    case False
    then show ?thesis
      using scan_values(3) [of ms] wf scan_first_Members [OF False] by (simp add: closed_def t)
  qed
  ultimately show ?thesis by (simp add: t)
qed

lemma object_prefix:
  assumes "sentObject t" "printJSON t = p @ r" "r \<noteq> []"
  shows "\<not> overMode (fst (scan p (BeginValue, [])))"
proof
  assume over: "overMode (fst (scan p (BeginValue, [])))"
  obtain ms where t: "t = TObj ms" using assms(1) by (auto simp: sentObject_def split: jtext.splits)
  have "last (printJSON t) = CHR ''}''" using printMembers_last [of ms] by (auto simp: t)
  then have brace: "CHR ''}'' \<in> set r" using assms(2,3) by (metis last_appendR last_in_set)
  have fin: "scan r (scan p (BeginValue, [])) = (EndTop t, [])"
    using scan_object [OF assms(1)] assms(2) by simp
  obtain m stk where st: "scan p (BeginValue, []) = (m, stk)" by force
  show False
  proof (cases m)
    case (EndTop v)
    then show False using scan_after [OF _ brace, of v stk] fin st by (auto simp: jsonSpace_def)
  next
    case (ScanError err)
    then show False using scan_failed [of r err stk] fin st by simp
  qed (use over st in simp_all)
qed

text \<open>Inside the object something is open, and a space ends nothing.\<close>

lemma scanStep_open:
  assumes "snd st \<noteq> []"
  shows "overMode (fst (scanStep c st)) \<or> snd (scanStep c st) \<noteq> []"
proof -
  obtain m f below where st: "st = (m, f # below)" using assms by (cases st; cases "snd st") auto
  show ?thesis unfolding st
    by (cases m; cases f) (auto simp: scan_defs stateBeginValue_def stateBeginString_def pushOpen_def closed_def
        split: jtext.split list.split)
qed

lemma scan_open: "snd st \<noteq> [] \<Longrightarrow> \<not> overMode (fst (scan s st)) \<Longrightarrow> snd (scan s st) \<noteq> []"
proof (induction s arbitrary: st)
  case (Cons c s)
  have "\<not> overMode (fst (scanStep c st))" using Cons.prems(2) overMode_scan [of "scanStep c st" s] by auto
  then show ?case using Cons scanStep_open [of st c] by auto
qed simp

lemma ended_open:
  assumes "snd st \<noteq> []" "\<not> overMode (fst st)"
  shows "ended st = None"
proof -
  obtain m f below where st: "st = (m, f # below)" using assms(1) by (cases st; cases "snd st") auto
  show ?thesis using assms(2) unfolding st
    by (cases m; cases f) (auto simp: ended_def scan_defs stateBeginValue_def stateBeginString_def pushOpen_def closed_def
        jsonSpace_def digit_def byte_def isHex_def split: jtext.split list.split)
qed

lemma ended_prefix:
  assumes "sentObject t" "printJSON t = p @ r" "r \<noteq> []"
  shows "ended (scan p (BeginValue, [])) = None"
proof (cases p)
  case Nil
  then show ?thesis by (simp add: ended_def stateBeginValue_def jsonSpace_def)
next
  case (Cons c q)
  obtain ms where t: "t = TObj ms" using assms(1) by (auto simp: sentObject_def split: jtext.splits)
  then have "c = CHR ''{''" using assms(2) by (simp add: Cons)
  then have "scanStep c (BeginValue, []) = (BeginStringOrEmpty, [ParseObjectKey []])"
    by (simp add: stateBeginValue_def jsonSpace_def pushOpen_def maxNestingDepth_def)
  then have "snd (scan p (BeginValue, [])) \<noteq> []"
    using scan_open [of "scanStep c (BeginValue, [])" q] object_prefix [OF assms] by (simp add: Cons)
  then show ?thesis using ended_open object_prefix [OF assms] by blast
qed

section \<open>Replies\<close>

lemma jsonDecoder_whole:
  assumes "sentObject t"
  shows "\<exists>n. jsonDecoder ahead cu ty old (printJSON t @ rest) fault = (n, decodeText cu ty old t)"
proof -
  have "readValue 0 (BeginValue, []) (printJSON t @ rest) = ValueRead (0 + length (printJSON t)) t"
    by (rule readValue_done [OF scan_object [OF assms]])
      (use assms object_prefix in \<open>auto simp: sentObject_def split: jtext.splits\<close>)
  then show ?thesis by (simp add: jsonDecoder_def Let_def)
qed

lemma jsonDecoder_cut:
  assumes "sentObject t" "printJSON t = p @ r" "r \<noteq> []"
  shows "jsonDecoder ahead cu ty old p fault = (length p, Inl (case fault of Some err \<Rightarrow> err
    | None \<Rightarrow> if p = [] then Std EOF else External ''unexpected EOF''))"
proof -
  have "readValue 0 (BeginValue, []) p = ValueShort (scan p (BeginValue, []))"
    by (rule readValue_short) (use object_prefix [OF assms(1)] assms(2,3) in fastforce)
  moreover have "list_all jsonSpace p \<longleftrightarrow> p = []"
    using assms(1,2) by (cases p) (auto simp: sentObject_def jsonSpace_def split: jtext.splits)
  moreover have "ended (BeginValue, []) = None" by (simp add: ended_def stateBeginValue_def jsonSpace_def)
  ultimately show ?thesis
    using ended_prefix [OF assms] by (auto simp: jsonDecoder_def Let_def split: option.split)
qed

lemma Unmarshal_object: "sentObject t \<Longrightarrow> Unmarshal cu ty old (printJSON t) = decodeText cu ty old t"
  using parse_print [of t] by (simp add: sentObject_def Unmarshal_def decodeText_def)

text \<open>What is read of a reply whose bytes begin with an object: all of it or a part.\<close>

lemma reply_parts:
  assumes "body = take n (s @ rest)"
  shows "length s \<le> min (length body) l \<longrightarrow> (\<exists>rest'. take l body = s @ rest')"
    "\<not> length s \<le> min (length body) l \<longrightarrow> (\<exists>r. s = take l body @ r \<and> r \<noteq> [])"
proof -
  show "length s \<le> min (length body) l \<longrightarrow> (\<exists>rest'. take l body = s @ rest')" using assms by auto
  show "\<not> length s \<le> min (length body) l \<longrightarrow> (\<exists>r. s = take l body @ r \<and> r \<noteq> [])"
  proof
    assume "\<not> length s \<le> min (length body) l"
    then have m: "min l n < length s" using assms by (auto simp: min_def split: if_splits)
    moreover have "take l body = take (min l n) (s @ rest)" using assms by (simp only: take_take)
    ultimately have "take l body = take (min l n) s" by simp
    then have "s = take l body @ drop (min l n) s" by simp
    then show "\<exists>r. s = take l body @ r \<and> r \<noteq> []" using m by (metis drop_eq_Nil not_less)
  qed
qed

text \<open>C15. A reply is decoded when all of it arrived, and not otherwise. However many bytes of a server's
  reply arrive, whatever follows its object and however the connection ends, decodeBounded returns
  a value exactly when the whole object arrived within the bound and json.Unmarshal takes it, and
  then that value: a cut reply is never taken for a shorter one.\<close>

theorem reply_whole_or_error:
  assumes "sentObject t" "hr_Body resp = take n (printJSON t @ rest)"
  shows "decodeBounded (jsonDecoder ahead cu ty old) resp method path = Inr v \<longleftrightarrow>
    length (printJSON t) \<le> min (length (hr_Body resp)) (maxResponseBytes + 1) \<and>
    Unmarshal cu ty old (printJSON t) = Inr v"
proof -
  define limit where "limit = maxResponseBytes + 1"
  define fault where "fault = (if limit \<le> length (hr_Body resp) then None else hr_Fault resp)"
  note parts = reply_parts [OF assms(2), of limit]
  have result: "decodeBounded (jsonDecoder ahead cu ty old) resp method path = Inr v \<longleftrightarrow>
      snd (jsonDecoder ahead cu ty old (take limit (hr_Body resp)) fault) = Inr v"
    unfolding decodeBounded_def Let_def limit_def [symmetric] fault_def [symmetric] by (auto split: prod.split sum.split)
  show ?thesis
  proof (cases "length (printJSON t) \<le> min (length (hr_Body resp)) limit")
    case True
    then obtain rest' where "take limit (hr_Body resp) = printJSON t @ rest'" using parts(1) by blast
    then show ?thesis
      using True result jsonDecoder_whole [OF assms(1), of ahead cu ty old rest' fault] Unmarshal_object [OF assms(1), of cu ty old]
      by (auto simp: limit_def)
  next
    case False
    then obtain r where "printJSON t = take limit (hr_Body resp) @ r" "r \<noteq> []" using parts(2) by blast
    from jsonDecoder_cut [OF assms(1) this, of ahead cu ty old fault]
    have "decodeBounded (jsonDecoder ahead cu ty old) resp method path \<noteq> Inr v" unfolding result by simp
    then show ?thesis using False unfolding limit_def by blast
  qed
qed

text \<open>What a cut reply is reported as. One that fills the bound is ErrResponseTooLarge; any other is
  the error the connection ended in, and when it ended in none an unexpected end, or io.EOF where
  nothing arrived at all.\<close>

theorem cut_reply_reported:
  assumes "sentObject t" "hr_Body resp = take n (printJSON t @ rest)"
    and "min (length (hr_Body resp)) (maxResponseBytes + 1) < length (printJSON t)"
  shows "decodeBounded (jsonDecoder ahead cu ty old) resp method path = Inl (Errorf
    ([Txt ''decode '', Txt method, Txt '' '', Txt path, Txt '' response: ''] @
     (if maxResponseBytes < length (hr_Body resp)
      then [Wrapped (Sentinel ErrResponseTooLarge), Txt '': over '', Num (int maxResponseBytes), Txt '' bytes'']
      else [Wrapped (case hr_Fault resp of Some err \<Rightarrow> err
        | None \<Rightarrow> if hr_Body resp = [] then Std EOF else External ''unexpected EOF'')])))"
proof -
  define limit where "limit = maxResponseBytes + 1"
  define fault where "fault = (if limit \<le> length (hr_Body resp) then None else hr_Fault resp)"
  obtain r where "printJSON t = take limit (hr_Body resp) @ r" "r \<noteq> []"
    using reply_parts(2) [OF assms(2), of limit] assms(3) by (auto simp: limit_def)
  from jsonDecoder_cut [OF assms(1) this, of ahead cu ty old fault]
  have "decodeBounded (jsonDecoder ahead cu ty old) resp method path = Inl (Errorf
      ([Txt ''decode '', Txt method, Txt '' '', Txt path, Txt '' response: ''] @
       (if limit \<le> length (take limit (hr_Body resp))
        then [Wrapped (Sentinel ErrResponseTooLarge), Txt '': over '', Num (int maxResponseBytes), Txt '' bytes'']
        else [Wrapped (case fault of Some err \<Rightarrow> err
          | None \<Rightarrow> if take limit (hr_Body resp) = [] then Std EOF else External ''unexpected EOF'')])))"
    unfolding decodeBounded_def Let_def limit_def [symmetric] fault_def [symmetric] by simp
  moreover have "take limit (hr_Body resp) = [] \<longleftrightarrow> hr_Body resp = []" by (simp add: limit_def)
  moreover have "limit \<le> length (take limit (hr_Body resp)) \<longleftrightarrow> maxResponseBytes < length (hr_Body resp)"
    by (auto simp: limit_def)
  moreover have "fault = hr_Fault resp" if "\<not> maxResponseBytes < length (hr_Body resp)"
    using that by (simp add: fault_def limit_def)
  ultimately show ?thesis by simp
qed

section \<open>A session's reply\<close>

definition sampleReply :: jtext where
  "sampleReply = TObj [(''id'', TStr ''c'')]"

lemma sampleReply_sent: "sentObject sampleReply"
  by code_simp

definition sampleResponse :: "nat \<Rightarrow> response" where
  "sampleResponse n = \<lparr>hr_StatusCode = 200, hr_Header = [], hr_Body = take n (printJSON sampleReply @ ''x''), hr_Fault = None\<rparr>"

lemma sampleReply_text: "length (printJSON sampleReply) \<le> 99"
  using length_quoteJSON [of "''id''"] length_quoteJSON [of "''c''"] by (simp add: sampleReply_def)

lemma sampleReply_decodes:
  "Unmarshal apiCustom api_ConversationDeleted (zeroOf api_ConversationDeleted) (printJSON sampleReply) =
    Inr (VStruct [(''deleted'', VPtr None), (''id'', VString ''c''), (''object'', VPtr None)])"
proof -
  have "decode apiCustom api_ConversationDeleted sampleReply (zeroOf api_ConversationDeleted) None =
      Inr (VStruct [(''deleted'', VPtr None), (''id'', VString ''c''), (''object'', VPtr None)], None)" by code_simp
  then show ?thesis by (simp add: Unmarshal_object [OF sampleReply_sent] decodeText_def)
qed

theorem reply_whole_or_error_witness:
  "decodeBounded (jsonDecoder (\<lambda>k. k) apiCustom api_ConversationDeleted (zeroOf api_ConversationDeleted)) (sampleResponse 500) ''DELETE'' ''/s'' =
    Inr (VStruct [(''deleted'', VPtr None), (''id'', VString ''c''), (''object'', VPtr None)])"
proof (rule iffD2 [OF reply_whole_or_error [OF sampleReply_sent, of _ 500 "''x''"]])
  show "hr_Body (sampleResponse 500) = take 500 (printJSON sampleReply @ ''x'')" by (simp add: sampleResponse_def)
qed (use sampleReply_text sampleReply_decodes in \<open>simp add: sampleResponse_def maxResponseBytes_def\<close>)

theorem cut_reply_reported_witness:
  "decodeBounded (jsonDecoder (\<lambda>k. k) apiCustom api_ConversationDeleted (zeroOf api_ConversationDeleted)) (sampleResponse 1) ''DELETE'' ''/s'' =
    Inl (Errorf [Txt ''decode '', Txt ''DELETE'', Txt '' '', Txt ''/s'', Txt '' response: '', Wrapped (External ''unexpected EOF'')])"
proof -
  have "hr_Body (sampleResponse 1) = take 1 (printJSON sampleReply @ ''x'')" by (simp add: sampleResponse_def)
  from cut_reply_reported [OF sampleReply_sent this] show ?thesis
    by (simp add: sampleResponse_def sampleReply_def quoteJSON_def maxResponseBytes_def)
qed

end
