(* ===== verification/Script.thy ===== *)
theory Script
  imports Stream
begin

text \<open>
  What a stream asks of its caller, apart from how the caller answers: the script of its bytes. The
  script is the list of calls a caller that agrees to everything gets; \<open>perform\<close> makes the calls of
  a script until an answer ends it.

  The lemma shows that every stream is the performance of its script, so what a stream does to any
  caller is determined by the bytes and the caller's own answers, and nothing is read, counted or
  reported differently for what the caller did before.
\<close>

section \<open>Scripts\<close>

datatype streamCall = CallSubscribed subscription | CallSkipped skippedFrame | CallYield streamStep

definition recorder :: "streamCall list streamCalls" where
  "recorder =
     \<lparr>onYield = (\<lambda>x l. (True, l @ [CallYield x])),
      onSubscribed = Some (\<lambda>sub l. (None, l @ [CallSubscribed sub])),
      onSkippedFrame = Some (\<lambda>fr l. (None, l @ [CallSkipped fr]))\<rparr>"

definition streamScript :: "jsonDeps \<Rightarrow> int \<Rightarrow> streamOptions \<Rightarrow> string \<Rightarrow> opened \<Rightarrow> streamCall list" where
  "streamScript deps d opts sid conn = Stream deps d recorder opts sid conn []"

text \<open>The flag is True while the caller may get more calls: an error that is yielded, a yield that is
  refused and a hook that fails end them.\<close>

definition performCall :: "'w streamCalls \<Rightarrow> streamCall \<Rightarrow> 'w \<Rightarrow> bool \<times> 'w" where
  "performCall cb c w = (case c of
      CallYield x \<Rightarrow> (let (go, w') = onYield cb x w in (go \<and> snd x = None, w'))
    | CallSubscribed sub \<Rightarrow> (case onSubscribed cb of
          None \<Rightarrow> (True, w)
        | Some h \<Rightarrow> (case h sub w of
              (None, w') \<Rightarrow> (True, w')
            | (Some err, w') \<Rightarrow> (False, yieldErr cb (Errorf [Txt ''stream for session '', Txt (sub_SessionID sub),
                Txt '': on subscribed: '', Wrapped err]) w')))
    | CallSkipped fr \<Rightarrow> (case onSkippedFrame cb of
          None \<Rightarrow> (True, w)
        | Some h \<Rightarrow> (case h fr w of
              (None, w') \<Rightarrow> (True, w')
            | (Some err, w') \<Rightarrow> (False, yieldErr cb (Errorf [Txt ''stream for session '', Txt (sk_SessionID fr),
                Txt '': on skipped frame: '', Wrapped err]) w'))))"

definition perform :: "'w streamCalls \<Rightarrow> streamCall list \<Rightarrow> 'w \<Rightarrow> bool \<times> 'w" where
  "perform cb cs w = feed cs (performCall cb) w"

lemma perform_simps [simp]:
  "perform cb [] w = (True, w)"
  "perform cb (c # cs) w = (let (go, w') = performCall cb c w in if go then perform cb cs w' else (False, w'))"
  by (simp_all add: perform_def split: prod.split)

lemma perform_append:
  "perform cb (cs @ ds) w = (let (go, w') = perform cb cs w in if go then perform cb ds w' else (False, w'))"
  by (simp add: perform_def feed_append split: prod.split)

section \<open>The recorder only records\<close>

definition extends :: "streamCall list \<Rightarrow> streamCall list \<Rightarrow> bool" where
  "extends l0 l \<longleftrightarrow> (\<exists>m. l = l0 @ m)"

lemma extends_refl [simp]: "extends l l"
  by (simp add: extends_def)

lemma extends_snoc: "extends l0 l \<Longrightarrow> extends l0 (l @ [c])"
  by (auto simp: extends_def)

interpretation rec: stream_client recorder sid "extends l0" "extends l0" for sid l0
  by unfold_locales (auto simp: recorder_def extends_snoc)

fun flowWorld :: "'w flow \<Rightarrow> 'w" where
  "flowWorld (GoOn st) = rs_world st"
| "flowWorld (BreakRead st) = rs_world st"
| "flowWorld (Return w) = w"

lemma extends_flow:
  assumes "rec.flowPhase l0 fl"
  shows "extends l0 (flowWorld fl)"
  using assms by (cases fl) (auto simp: rec.phase_def split: if_splits)

text \<open>Once a performance has ended, what is recorded later changes nothing.\<close>

lemma perform_extends: "perform cb l w = (False, w') \<Longrightarrow> extends l m \<Longrightarrow> perform cb m w = (False, w')"
  by (auto simp: extends_def perform_append)

section \<open>Every stream performs its script\<close>

text \<open>A state of the loop and the recorder's: the same but for the world, which is what performing the
  record gives.\<close>

definition loopFields :: "'w readState \<Rightarrow> string \<times> string \<times> bool \<times> bool \<times> bool \<times> nat \<times> goerr option" where
  "loopFields st = (rs_name st, rs_payload st, rs_sawDone st, rs_subscribed st, rs_delivered st, rs_skipped st, rs_firstSkip st)"

definition follows :: "'w streamCalls \<Rightarrow> 'w \<Rightarrow> streamCall list readState \<Rightarrow> 'w readState \<Rightarrow> bool" where
  "follows cb w0 sr st \<longleftrightarrow> perform cb (rs_world sr) w0 = (True, rs_world st) \<and> loopFields sr = loopFields st"

fun flowFollows :: "'w streamCalls \<Rightarrow> 'w \<Rightarrow> streamCall list flow \<Rightarrow> 'w flow \<Rightarrow> bool" where
  "flowFollows cb w0 fl (GoOn st) = (\<exists>sr. fl = GoOn sr \<and> follows cb w0 sr st)"
| "flowFollows cb w0 fl (BreakRead st) = (\<exists>sr. fl = BreakRead sr \<and> follows cb w0 sr st)"
| "flowFollows cb w0 fl (Return w) = (perform cb (flowWorld fl) w0 = (False, w))"

lemma follows_step:
  assumes "follows cb w0 sr st" "performCall cb c (rs_world st) = (True, w)" "loopFields sr' = loopFields st'"
    "rs_world sr' = rs_world sr @ [c]" "rs_world st' = w"
  shows "follows cb w0 sr' st'"
  using assms by (simp add: follows_def perform_append)

lemma performed_end:
  assumes "follows cb w0 sr st" "performCall cb c (rs_world st) = (False, w)"
  shows "perform cb (rs_world sr @ [c]) w0 = (False, w)"
  using assms by (simp add: follows_def perform_append)

lemma performCall_err: "performCall cb (CallYield (ev, Some err)) w = (False, snd (onYield cb (ev, Some err) w))"
  by (simp add: performCall_def split: prod.split)

lemma yieldErr_follows:
  assumes "follows cb w0 sr st"
  shows "perform cb (yieldErr recorder err (rs_world sr)) w0 = (False, yieldErr cb err (rs_world st))"
  using performed_end [OF assms performCall_err] by (simp add: yieldErr_def recorder_def)

lemma subscribe_follows:
  assumes "follows cb w0 sr st"
  shows "flowFollows cb w0 (subscribe recorder sid idle sr) (subscribe cb sid idle st)"
proof (cases "rs_subscribed st")
  case True
  then show ?thesis using assms by (simp add: subscribe_def follows_def loopFields_def)
next
  case False
  let ?c = "CallSubscribed \<lparr>sub_SessionID = sid, sub_Idle = idle\<rparr>"
  have s: "\<not> rs_subscribed sr" using False assms by (simp add: follows_def loopFields_def)
  obtain go w where c: "performCall cb ?c (rs_world st) = (go, w)" by fastforce
  show ?thesis
  proof (cases go)
    case True
    then have "follows cb w0 (sr\<lparr>rs_subscribed := True, rs_world := rs_world sr @ [?c]\<rparr>) (st\<lparr>rs_subscribed := True, rs_world := w\<rparr>)"
      using assms c by (intro follows_step [OF assms, of ?c w]) (simp_all add: follows_def loopFields_def)
    moreover have "subscribe cb sid idle st = GoOn (st\<lparr>rs_subscribed := True, rs_world := w\<rparr>)"
      using c True False by (auto simp: subscribe_def performCall_def split: option.splits prod.splits)
    ultimately show ?thesis using s by (simp add: subscribe_def recorder_def)
  next
    case go: False
    then have "subscribe cb sid idle st = Return w"
      using c False by (auto simp: subscribe_def performCall_def split: option.splits prod.splits)
    then show ?thesis using performed_end [OF assms] c go s by (simp add: subscribe_def recorder_def)
  qed
qed

lemma skipFrame_follows:
  assumes "follows cb w0 sr st"
  shows "flowFollows cb w0 (skipFrame recorder sid n p err sr) (skipFrame cb sid n p err st)"
proof -
  let ?c = "CallSkipped \<lparr>sk_SessionID = sid, sk_Name = n, sk_Payload = p, sk_Err = err\<rparr>"
  let ?skip = "\<lambda>st. st\<lparr>rs_skipped := rs_skipped st + 1,
    rs_firstSkip := (case rs_firstSkip st of None \<Rightarrow> Some err | Some e \<Rightarrow> Some e)\<rparr>"
  obtain go w where c: "performCall cb ?c (rs_world st) = (go, w)" by fastforce
  show ?thesis
  proof (cases go)
    case True
    then have "follows cb w0 ((?skip sr)\<lparr>rs_world := rs_world sr @ [?c]\<rparr>) ((?skip st)\<lparr>rs_world := w\<rparr>)"
      using assms c by (intro follows_step [OF assms, of ?c w]) (simp_all add: follows_def loopFields_def)
    moreover have "skipFrame cb sid n p err st = GoOn ((?skip st)\<lparr>rs_world := w\<rparr>)"
      using c True by (auto simp: skipFrame_def performCall_def split: option.splits prod.splits)
    ultimately show ?thesis by (simp add: skipFrame_def recorder_def)
  next
    case False
    then have "skipFrame cb sid n p err st = Return w"
      using c by (auto simp: skipFrame_def performCall_def split: option.splits prod.splits)
    then show ?thesis using performed_end [OF assms] c False by (simp add: skipFrame_def recorder_def)
  qed
qed

lemma deliver_follows:
  assumes "follows cb w0 sr st"
  shows "flowFollows cb w0 (deliver recorder ev sr) (deliver cb ev st)"
proof -
  let ?c = "CallYield (Some ev, None)"
  obtain go w where c: "onYield cb (Some ev, None) (rs_world st) = (go, w)" by fastforce
  show ?thesis
  proof (cases go)
    case True
    then have "follows cb w0 (sr\<lparr>rs_world := rs_world sr @ [?c], rs_delivered := True\<rparr>) (st\<lparr>rs_world := w, rs_delivered := True\<rparr>)"
      using assms c by (intro follows_step [OF assms, of ?c w]) (simp_all add: follows_def loopFields_def performCall_def)
    then show ?thesis using True c by (simp add: deliver_def recorder_def)
  next
    case False
    then show ?thesis using performed_end [OF assms, of ?c] c by (simp add: deliver_def recorder_def performCall_def)
  qed
qed

text \<open>The recorder goes on where the caller ended; what it records then is after the end.\<close>

lemma endFrame_follows:
  assumes "follows cb w0 sr st" "sid \<noteq> []"
  shows "flowFollows cb w0 (endFrame deps recorder sid idle sr) (endFrame deps cb sid idle st)"
proof -
  let ?sr = "sr\<lparr>rs_name := [], rs_payload := []\<rparr>" and ?st = "st\<lparr>rs_name := [], rs_payload := []\<rparr>"
  have names: "rs_name sr = rs_name st" "rs_payload sr = rs_payload st" using assms(1) by (simp_all add: follows_def loopFields_def)
  have "follows cb w0 ?sr ?st" using assms(1) by (simp add: follows_def loopFields_def)
  note f = subscribe_follows [OF this, of sid idle]
  show ?thesis
  proof (cases "subscribe cb sid idle ?st")
    case (GoOn st')
    then obtain sr' where sr': "subscribe recorder sid idle ?sr = GoOn sr'" and ff: "follows cb w0 sr' st'" using f by auto
    then have "follows cb w0 (sr'\<lparr>rs_sawDone := True\<rparr>) (st'\<lparr>rs_sawDone := True\<rparr>)" by (simp add: follows_def loopFields_def)
    then show ?thesis
      using ff by (simp add: endFrame_def Let_def names GoOn sr' skipFrame_follows deliver_follows split: sum.split prod.split option.split)
  next
    case (BreakRead st')
    then show ?thesis by (auto simp: subscribe_def Let_def split: if_splits option.splits prod.splits)
  next
    case (Return w)
    then have p: "perform cb (flowWorld (subscribe recorder sid idle ?sr)) w0 = (False, w)" using f by simp
    have "extends (flowWorld (subscribe recorder sid idle ?sr)) (flowWorld (endFrame deps recorder sid idle sr))"
    proof (cases "subscribe recorder sid idle ?sr")
      case (GoOn sr')
      then show ?thesis
        by (auto simp: endFrame_def Let_def skipFrame_def deliver_def recorder_def extends_def split: sum.split prod.split option.split)
    qed (auto simp: endFrame_def Let_def)
    then show ?thesis using perform_extends [OF p] Return by (simp add: endFrame_def Let_def)
  qed
qed

lemma lineStep_follows:
  assumes "follows cb w0 sr st" "sid \<noteq> []"
  shows "flowFollows cb w0 (lineStep deps recorder sid idle line sr) (lineStep deps cb sid idle line st)"
  using assms yieldErr_follows [OF assms(1)] endFrame_follows [OF assms]
  by (auto simp: lineStep_def Let_def follows_def loopFields_def)

lemma readLoop_extends:
  assumes "sid \<noteq> []" "extends l0 (rs_world sr)"
  shows "extends l0 (flowWorld (readLoop deps recorder sid idle ls sr))"
  using rec.readLoop_phase [of sid l0 sr deps idle ls] assms by (intro extends_flow) (simp add: rec.phase_def)

lemma readLoop_follows:
  "follows cb w0 sr st \<Longrightarrow> sid \<noteq> [] \<Longrightarrow>
   flowFollows cb w0 (readLoop deps recorder sid idle ls sr) (readLoop deps cb sid idle ls st)"
proof (induction ls arbitrary: sr st)
  case (Cons line ls)
  have f: "flowFollows cb w0 (lineStep deps recorder sid idle line sr) (lineStep deps cb sid idle line st)"
    by (rule lineStep_follows [OF Cons.prems])
  show ?case
  proof (cases "lineStep deps cb sid idle line st")
    case (GoOn st')
    then show ?thesis using f Cons.IH Cons.prems(2) by auto
  next
    case (BreakRead st')
    then show ?thesis using f by auto
  next
    case (Return w)
    then have p: "perform cb (flowWorld (lineStep deps recorder sid idle line sr)) w0 = (False, w)" using f by simp
    have "extends (flowWorld (lineStep deps recorder sid idle line sr)) (flowWorld (readLoop deps recorder sid idle (line # ls) sr))"
      using readLoop_extends [OF Cons.prems(2) extends_refl]
      by (cases "lineStep deps recorder sid idle line sr") simp_all
    then show ?thesis using perform_extends [OF p] Return by simp
  qed
qed simp

lemma finish_follows:
  assumes "follows cb w0 sr st"
  shows "snd (perform cb (finish recorder sid d long re sr) w0) = finish cb sid d long re st"
proof -
  have f: "rs_skipped sr = rs_skipped st" "rs_delivered sr = rs_delivered st" "rs_firstSkip sr = rs_firstSkip st"
      "rs_sawDone sr = rs_sawDone st" "perform cb (rs_world sr) w0 = (True, rs_world st)"
    using assms by (simp_all add: follows_def loopFields_def)
  have e: "snd (perform cb (yieldErr recorder err (rs_world sr)) w0) = yieldErr cb err (rs_world st)" for err
    using yieldErr_follows [OF assms] by simp
  show ?thesis
    unfolding finish_def Let_def f(1-4)
    by (simp only: if_distrib [of "\<lambda>l. snd (perform cb l w0)"] e f(5) snd_conv option.case_distrib [of "\<lambda>l. snd (perform cb l w0)"] cong: if_cong option.case_cong)
qed

lemma finish_extends: "extends l0 (rs_world sr) \<Longrightarrow> extends l0 (finish recorder sid d long re sr)"
  using rec.finish_phase [of l0 sr] by (simp add: rec.phase_def)

lemma Stream_performs:
  "Stream deps d cb opts sid conn w = snd (perform cb (streamScript deps d opts sid conn) w)"
proof (cases "sid = [] \<or> (\<forall>bytes re. conn \<noteq> Opened bytes re)")
  case True
  have e: "snd (perform cb (yieldErr recorder err []) w) = yieldErr cb err w" for err
    by (simp add: yieldErr_def recorder_def performCall_err)
  show ?thesis using True by (cases conn) (auto simp: Stream_def streamScript_def e Let_def)
next
  case False
  then obtain bytes re where c: "conn = Opened bytes re" and sid: "sid \<noteq> []" by blast
  obtain ls long where ls: "scanLines bytes = (ls, long)" by fastforce
  let ?loop = "readLoop deps cb sid (so_Idle opts) ls (readStart w)"
  let ?rec = "readLoop deps recorder sid (so_Idle opts) ls (readStart [])"
  have "follows cb w (readStart []) (readStart w)" by (simp add: follows_def readStart_def loopFields_def)
  note f = readLoop_follows [OF this sid, of deps "so_Idle opts" ls]
  show ?thesis
  proof (cases ?loop)
    case (Return w')
    then have p: "perform cb (flowWorld ?rec) w = (False, w')" using f by simp
    have "extends (flowWorld ?rec) (streamScript deps d opts sid conn)"
      using sid by (cases ?rec) (simp_all add: streamScript_def Stream_def c ls Let_def finish_extends)
    then show ?thesis using perform_extends [OF p] Return sid by (simp add: Stream_def c ls Let_def)
  next
    case (GoOn st)
    then obtain sr where "?rec = GoOn sr" "follows cb w sr st" using f by auto
    then show ?thesis using GoOn sid finish_follows [of cb w sr st] by (simp add: streamScript_def Stream_def c ls Let_def)
  next
    case (BreakRead st)
    then obtain sr where "?rec = BreakRead sr" "follows cb w sr st" using f by auto
    then show ?thesis using BreakRead sid finish_follows [of cb w sr st] by (simp add: streamScript_def Stream_def c ls Let_def)
  qed
qed

section \<open>What a script holds\<close>

text \<open>An event or an error, not both and not neither.\<close>

definition proper :: "streamStep \<Rightarrow> bool" where
  "proper x \<longleftrightarrow> (fst x = None) \<noteq> (snd x = None)"

fun properCall :: "streamCall \<Rightarrow> bool" where
  "properCall (CallYield x) = proper x"
| "properCall _ = True"

lemma proper_yieldErr: "list_all properCall l \<Longrightarrow> list_all properCall (yieldErr recorder err l)"
  by (simp add: yieldErr_def recorder_def proper_def)

lemma proper_lineStep:
  "list_all properCall (rs_world st) \<Longrightarrow> list_all properCall (flowWorld (lineStep deps recorder sid idle line st))"
proof -
  assume p: "list_all properCall (rs_world st)"
  have skip: "list_all properCall (flowWorld (skipFrame recorder sid n pl err st))" if "list_all properCall (rs_world st)" for n pl err st
    using that by (simp add: skipFrame_def recorder_def)
  have deliver: "list_all properCall (flowWorld (deliver recorder ev st))" if "list_all properCall (rs_world st)" for ev st
    using that by (simp add: deliver_def recorder_def proper_def)
  have sub: "\<exists>st'. subscribe recorder sid idle st = GoOn st' \<and> list_all properCall (rs_world st')"
    if "list_all properCall (rs_world st)" for st
    using that by (simp add: subscribe_def recorder_def)
  obtain st' where s: "subscribe recorder sid idle (st\<lparr>rs_name := [], rs_payload := []\<rparr>) = GoOn st'" "list_all properCall (rs_world st')"
    using sub [of "st\<lparr>rs_name := [], rs_payload := []\<rparr>"] p by auto
  have "list_all properCall (flowWorld (endFrame deps recorder sid idle st))"
    using s skip deliver by (auto simp: endFrame_def Let_def split: sum.split option.split)
  then show ?thesis using p proper_yieldErr by (simp add: lineStep_def Let_def)
qed

lemma proper_readLoop:
  "list_all properCall (rs_world st) \<Longrightarrow> list_all properCall (flowWorld (readLoop deps recorder sid idle ls st))"
proof (induction ls arbitrary: st)
  case (Cons line ls)
  then show ?case using proper_lineStep [of st deps sid idle line]
    by (cases "lineStep deps recorder sid idle line st") auto
qed simp

lemma proper_finish: "list_all properCall (rs_world st) \<Longrightarrow> list_all properCall (finish recorder sid d long re st)"
  by (simp add: finish_def Let_def proper_yieldErr split: option.split)

lemma proper_script: "list_all properCall (streamScript deps d opts sid conn)"
proof (cases conn)
  case (Opened bytes re)
  obtain ls long where ls: "scanLines bytes = (ls, long)" by fastforce
  have "list_all properCall (flowWorld (readLoop deps recorder sid (so_Idle opts) ls (readStart [])))"
    by (rule proper_readLoop) (simp add: readStart_def)
  then show ?thesis
    by (cases "readLoop deps recorder sid (so_Idle opts) ls (readStart [])")
      (simp_all add: streamScript_def Stream_def Opened ls proper_yieldErr proper_finish Let_def)
qed (simp_all add: streamScript_def Stream_def proper_yieldErr Let_def)

section \<open>Properties\<close>

text \<open>C27. A stream is its script. Whatever the caller's consumer and hooks do, Stream makes the calls of
  the script of the bytes, in order, until an answer of the caller's ends it: a refused event, a
  failing hook, whose error it then yields, or an error yielded. What it yields is an event or an
  error, never both and never neither.\<close>

theorem stream_performs_script:
  "Stream deps d cb opts sid conn w = snd (perform cb (streamScript deps d opts sid conn) w) \<and>
   list_all properCall (streamScript deps d opts sid conn)"
  by (simp add: Stream_performs proper_script)

end
