(* ===== verification/Callers.thy ===== *)
theory Callers
  imports Chat Script
begin

text \<open>
  A turn and what its caller can change of it.

  Two callers of a turn are related when their hooks, tools and servers answer alike and their
  consumers take the same steps until the first stops reading. The contract is the locale
  \<open>related_callers\<close>: inside it every operation of a turn takes related runs to related runs, so two
  related turns differ in nothing but what their callers keep.

  The interpretation relates the caller with a consumer of its own to the one that reads everything
  and keeps a log. From it: a turn is a sequence of steps, fixed by the server's bytes and answers,
  the caller's hooks and its tools, and a consumer gets that sequence up to where it stops.
\<close>

section \<open>Callers that answer alike\<close>

definition alike :: "('a \<Rightarrow> 'b \<Rightarrow> bool) \<Rightarrow> ('a \<Rightarrow> 'b \<Rightarrow> bool) \<Rightarrow> ('a \<Rightarrow> 'x \<times> 'a) \<Rightarrow> ('b \<Rightarrow> 'x \<times> 'b) \<Rightarrow> bool" where
  "alike L D f g \<longleftrightarrow> (\<forall>a b. L a b \<longrightarrow> fst (f a) = fst (g b) \<and> L (snd (f a)) (snd (g b))) \<and>
     (\<forall>a b. D a b \<longrightarrow> D (snd (f a)) b \<and> D a (snd (g b)))"

definition hooksAlike ::
  "('a \<Rightarrow> 'b \<Rightarrow> bool) \<Rightarrow> ('a \<Rightarrow> 'b \<Rightarrow> bool) \<Rightarrow> ('p \<Rightarrow> 'a \<Rightarrow> 'x \<times> 'a) option \<Rightarrow> ('p \<Rightarrow> 'b \<Rightarrow> 'x \<times> 'b) option \<Rightarrow> bool" where
  "hooksAlike L D hA hB \<longleftrightarrow> rel_option (\<lambda>f g. \<forall>p. alike L D (f p) (g p)) hA hB"

lemma alike_return [simp]: "alike L D (\<lambda>a. (x, a)) (\<lambda>b. (x, b))"
  by (simp add: alike_def)

lemma alike_map: "alike L D f g \<Longrightarrow> alike L D (\<lambda>a. let (x, a') = f a in (h x, a')) (\<lambda>b. let (x, b') = g b in (h x, b'))"
  by (simp add: alike_def split_def Let_def)

lemma alike_PostEvent:
  assumes "\<And>rq. alike L D (p rq) (q rq)"
  shows "alike L D (PostEvent p sid input) (PostEvent q sid input)"
  using assms by (simp add: alike_def PostEvent_def)

lemma alike_Resolve:
  assumes "\<And>rq. alike L D (p rq) (q rq)"
  shows "alike L D (ResolveElicitation p sid eid res) (ResolveElicitation q sid eid res)"
proof -
  have r: "ResolveElicitation doJSON sid eid res = (\<lambda>w.
      if sid = [] \<or> eid = [] then (Some (invalid ''resolve elicitation'' ''sessionID and elicitationID are required''), w)
      else if actionText (er_Action res) = [] then (Some (invalid ''resolve elicitation'' ''Action is required''), w)
      else let (x, w') = doJSON \<lparr>rq_Method = POST,
            rq_Segments = [''v1'', ''sessions'', sid, ''elicitations'', eid, ''resolve''],
            rq_Query = [], rq_Body = BodyElicitation res\<rparr> w in (case x of Inl e \<Rightarrow> Some e | Inr _ \<Rightarrow> None, w'))"
    for doJSON :: "(unit, 'x) exchange"
    by (rule ext) (auto simp: ResolveElicitation_def split: prod.split sum.split)
  show ?thesis
    using alike_map [OF assms, of _ "\<lambda>x. case x of Inl e \<Rightarrow> Some e | Inr _ \<Rightarrow> None"]
    unfolding r by (cases "sid = [] \<or> eid = []"; cases "actionText (er_Action res) = []"; simp)
qed

lemma alike_registryRun:
  assumes "hooksAlike L D (lookup r (ti_Name info)) (lookup s (ti_Name info))" "Names r = Names s"
  shows "alike L D (registryRun quote r info) (registryRun quote s info)"
proof -
  let ?safe = "sanitizeForError (ti_Name info) maxToolNameRunes"
  let ?answer = "\<lambda>x. case x of
      ToolPanicked recovered \<Rightarrow> let reason = sanitizeForError recovered maxErrorFieldRunes in
        (''error: the tool panicked: '' @ reason, Some (Errorf [Wrapped (Sentinel ErrToolFailed), Txt '': tool '', Quoted ?safe,
          Txt '' panicked: '', Txt reason]))
    | ToolReturned output None \<Rightarrow> (output, None)
    | ToolReturned output (Some err) \<Rightarrow> (''error: '' @ errText quote err,
        Some (Errorf [Wrapped (Sentinel ErrToolFailed), Txt '': tool '', Quoted ?safe, Txt '': '', Wrapped err]))"
  have run: "registryRun quote t info = (\<lambda>w. case lookup t (ti_Name info) of
      None \<Rightarrow> ((''error: no tool named '' @ quote ?safe @ '' is registered with this client'',
        Some (Errorf [Wrapped (Sentinel ErrToolNotRegistered), Txt '': '', Quoted ?safe, Txt ''; registered: '', Txt (namesText (Names t))])), w)
    | Some run \<Rightarrow> let (x, w') = run info w in (?answer x, w'))" for t :: "'x toolRegistry option"
    by (rule ext) (auto simp: registryRun_def Let_def split: option.split prod.split toolResult.split)
  show ?thesis
  proof (cases "lookup r (ti_Name info)")
    case None
    then have "lookup s (ti_Name info) = None" using assms(1) by (simp add: hooksAlike_def)
    then show ?thesis unfolding run by (simp add: None assms(2))
  next
    case (Some f)
    then obtain g where g: "lookup s (ti_Name info) = Some g" "alike L D (f info) (g info)"
      using assms(1) by (auto simp: hooksAlike_def option_rel_Some1)
    show ?thesis unfolding run Some g(1) option.case using g(2) by (rule alike_map)
  qed
qed

text \<open>A call on the caller's state inside the turn's.\<close>

definition onRun :: "('w \<Rightarrow> 'x \<times> 'w) \<Rightarrow> 'w turnRun \<Rightarrow> 'x \<times> 'w turnRun" where
  "onRun f r = (let (x, w) = f (run_world r) in (x, r\<lparr>run_world := w\<rparr>))"

lemma onRun_eq: "onRun f r = (fst (f (run_world r)), r\<lparr>run_world := snd (f (run_world r))\<rparr>)"
  by (simp add: onRun_def split_def Let_def)

section \<open>The operations over calls of the caller\<close>

lemma fireHook_calls:
  "fireHook env name (Some h) p r = (let (res, r) = onRun (h p) r in
     case res of None \<Rightarrow> r | Some recovered \<Rightarrow> report env (panicErr name recovered) r)"
  by (simp add: fireHook_def fire_def onWorld_def onRun_def split: prod.split option.split)

lemma runTool_calls:
  "runTool env info r =
    (let ((output, runErr), r) = onRun (registryRun (lib_quote (ch_lib env)) (ch_tools env) info) r;
         r = fireHook env ''OnToolCallEnd'' (OnToolCallEnd (ch_hooks env))
               \<lparr>tce_Name = ti_Name info, tce_CallID = ti_CallID info, tce_Output = output, tce_Err = runErr\<rparr> r;
         (accepted, r) = onRun (PostEvent (ch_post env) (ch_sessionID env)
            \<lparr>in_Type = InputTypeFunctionCallOutput,
             in_Data = [(''call_id'', JStr (ti_CallID info)), (''output'', JStr output)],
             in_ModelOverride = [], in_Tools = []\<rparr>) r
     in case accepted of
          Inl err \<Rightarrow> report env (Errorf [Txt ''post output for tool '',
            Quoted (sanitizeForError (ti_Name info) maxToolNameRunes), Txt '': '', Wrapped err]) r
        | Inr acc \<Rightarrow>
            if acc_Denied acc then
              report env (Errorf [Txt ''post output for tool '',
                Quoted (sanitizeForError (ti_Name info) maxToolNameRunes), Txt '': '',
                Wrapped (Sentinel ErrInputDenied), Txt '': '',
                Txt (sanitizeForError (acc_Reason acc) maxErrorFieldRunes)]) r
            else (case runErr of None \<Rightarrow> r | Some e \<Rightarrow> report env e r))"
  by (simp only: runTool_def onRun_eq Let_def split_def fst_conv snd_conv)

lemma decide_calls:
  "decideElicitation env eid p r = (case OnElicitation (ch_hooks env) of
      None \<Rightarrow> (False, r)
    | Some hook \<Rightarrow>
        let (res, r) = onRun (hook (elicitationCtxOf (ch_sessionID env) (run_responseID r) eid p)) r in
        (case res of Inr accept \<Rightarrow> (accept, r)
         | Inl recovered \<Rightarrow> (False, report env (Errorf [Wrapped (Sentinel ErrHookPanicked),
                Txt '': hook OnElicitation, declined: '', Txt (sanitizeForError recovered maxErrorFieldRunes)]) r)))"
  by (simp add: decideElicitation_def onRun_def split: option.split prod.split sum.split)

lemma resolve_calls:
  "resolveElicitation env eid p r =
    (let (accept, r) = decideElicitation env eid p r;
         (err, r) = onRun (ResolveElicitation (ch_resolve env) (elicitationTarget (ch_sessionID env) p) eid
            \<lparr>er_Action = (if accept then ElicitationAccept else ElicitationDecline), er_Content = []\<rparr>) r
     in case err of
          None \<Rightarrow> r
        | Some e \<Rightarrow> report env (Errorf [Txt ''resolve elicitation '',
            Txt (sanitizeForError eid maxRequestIDRunes), Txt '': '', Wrapped e]) r)"
  by (simp only: resolveElicitation_def onRun_eq Let_def split_def fst_conv snd_conv)

lemma prompt_calls:
  "onSubscribedHook env t sub r =
    (let (res, r) = onRun (SendMessage (ch_post env) (sub_SessionID sub) t) r
     in case res of
          Inl err \<Rightarrow> (Some (Errorf [Txt ''send prompt: '', Wrapped err]), r)
        | Inr accepted \<Rightarrow>
            if acc_Denied accepted then
              (Some (Errorf [Txt ''send prompt: '', Wrapped (Sentinel ErrInputDenied), Txt '': '',
                 Txt (sanitizeForError (acc_Reason accepted) maxErrorFieldRunes)]), r)
            else (None, r\<lparr>run_tracker := anchorOn (anchorOf (Some accepted)) (run_tracker r)\<rparr>))"
  by (simp only: onSubscribedHook_def onRun_eq Let_def split_def fst_conv snd_conv)

section \<open>Related turns\<close>

text \<open>While the caller of \<open>A\<close> reads, the two worlds are related by \<open>L\<close>; once it has stopped, by \<open>D\<close>,
  which nothing breaks that either turn still does.\<close>

locale related_callers =
  fixes A :: "'a chatEnv" and B :: "'b chatEnv" and L D :: "'a \<Rightarrow> 'b \<Rightarrow> bool"
  assumes same: "ch_sessionID A = ch_sessionID B" "ch_lib A = ch_lib B" "ch_maxToolCalls A = ch_maxToolCalls B"
      "ch_turn A = ch_turn B" "ch_stream A = ch_stream B" "Names (ch_tools A) = Names (ch_tools B)"
    and yield_live: "L a b \<Longrightarrow> proper x \<Longrightarrow> ch_yield A x a = (ga, a') \<Longrightarrow> ch_yield B x b = (gb, b') \<Longrightarrow>
        (if ga then gb \<and> L a' b' else D a' b')"
    and yield_dead: "D a b \<Longrightarrow> proper x \<Longrightarrow> D a (snd (ch_yield B x b))"
    and calls: "alike L D (ch_post A rq) (ch_post B rq)" "alike L D (ch_resolve A rq) (ch_resolve B rq)"
      "hooksAlike L D (ch_onSkipped A) (ch_onSkipped B)" "hooksAlike L D (lookup (ch_tools A) n) (lookup (ch_tools B) n)"
    and hooks: "hooksAlike L D (OnResponseStart (ch_hooks A)) (OnResponseStart (ch_hooks B))"
      "hooksAlike L D (OnResponseEnd (ch_hooks A)) (OnResponseEnd (ch_hooks B))"
      "hooksAlike L D (OnToolCallStart (ch_hooks A)) (OnToolCallStart (ch_hooks B))"
      "hooksAlike L D (OnToolCallEnd (ch_hooks A)) (OnToolCallEnd (ch_hooks B))"
      "hooksAlike L D (OnReasoningStart (ch_hooks A)) (OnReasoningStart (ch_hooks B))"
      "hooksAlike L D (OnRetry (ch_hooks A)) (OnRetry (ch_hooks B))"
      "hooksAlike L D (OnServerError (ch_hooks A)) (OnServerError (ch_hooks B))"
      "hooksAlike L D (OnFileOutput (ch_hooks A)) (OnFileOutput (ch_hooks B))"
      "hooksAlike L D (OnElicitation (ch_hooks A)) (OnElicitation (ch_hooks B))"
begin

definition live :: "'a turnRun \<Rightarrow> 'b turnRun \<Rightarrow> bool" where
  "live r s \<longleftrightarrow> \<not> run_stopped r \<and> \<not> run_stopped s \<and> L (run_world r) (run_world s) \<and>
     run_tracker r = run_tracker s \<and> run_dispatched r = run_dispatched s \<and> run_responseID r = run_responseID s \<and>
     run_unfinishable r = run_unfinishable s \<and> run_announced r = run_announced s"

definition dead :: "'a turnRun \<Rightarrow> 'b turnRun \<Rightarrow> bool" where
  "dead r s \<longleftrightarrow> run_stopped r \<and> D (run_world r) (run_world s)"

text \<open>A step of both turns, and one that gives a result.\<close>

definition good :: "('a turnRun \<Rightarrow> 'a turnRun) \<Rightarrow> ('b turnRun \<Rightarrow> 'b turnRun) \<Rightarrow> bool" where
  "good f g \<longleftrightarrow> (\<forall>r s. live r s \<longrightarrow> live (f r) (g s) \<or> dead (f r) (g s)) \<and>
     (\<forall>r s. dead r s \<longrightarrow> dead (f r) s \<and> dead r (g s))"

definition yields :: "('a turnRun \<Rightarrow> 'x \<times> 'a turnRun) \<Rightarrow> ('b turnRun \<Rightarrow> 'x \<times> 'b turnRun) \<Rightarrow> bool" where
  "yields m n \<longleftrightarrow>
     (\<forall>r s. live r s \<longrightarrow> fst (m r) = fst (n s) \<and> live (snd (m r)) (snd (n s)) \<or> dead (snd (m r)) (snd (n s))) \<and>
     (\<forall>r s. dead r s \<longrightarrow> dead (snd (m r)) s \<and> dead r (snd (n s)))"

lemma good_id: "good (\<lambda>r. r) (\<lambda>s. s)"
  by (simp add: good_def)

lemma good_dep: "(\<And>r s. live r s \<Longrightarrow> v r = v' s) \<Longrightarrow> (\<And>x. good (f x) (g x)) \<Longrightarrow> good (\<lambda>r. f (v r) r) (\<lambda>s. g (v' s) s)"
  unfolding good_def by metis

lemma good_bind:
  assumes "yields m n" "\<And>x. good (f x) (g x)"
  shows "good (\<lambda>r. let (x, r') = m r in f x r') (\<lambda>s. let (x, s') = n s in g x s')"
  using assms unfolding good_def yields_def split_def Let_def by metis

lemma good_comp: "good f g \<Longrightarrow> good f' g' \<Longrightarrow> good (\<lambda>r. f' (f r)) (\<lambda>s. g' (g s))"
  unfolding good_def by metis

lemma good_let: "good f g \<Longrightarrow> good f' g' \<Longrightarrow> good (\<lambda>r. let r = f r in f' r) (\<lambda>s. let s = g s in g' s)"
  unfolding Let_def by (rule good_comp)

lemma good_snd: "yields m n \<Longrightarrow> good (\<lambda>r. snd (m r)) (\<lambda>s. snd (n s))"
  unfolding good_def yields_def by metis

lemma yields_pair: "good f g \<Longrightarrow> yields (\<lambda>r. (c, f r)) (\<lambda>s. (c, g s))"
  by (simp add: good_def yields_def)

lemma yields_dep: "(\<And>r s. live r s \<Longrightarrow> v r = v' s) \<Longrightarrow> (\<And>x. yields (f x) (g x)) \<Longrightarrow> yields (\<lambda>r. f (v r) r) (\<lambda>s. g (v' s) s)"
  unfolding yields_def by metis

lemma yields_bind:
  assumes "yields m n" "\<And>x. yields (f x) (g x)"
  shows "yields (\<lambda>r. let (x, r') = m r in f x r') (\<lambda>s. let (x, s') = n s in g x s')"
  using assms unfolding yields_def split_def Let_def by metis

lemma yields_comp: "good f g \<Longrightarrow> yields m n \<Longrightarrow> yields (\<lambda>r. m (f r)) (\<lambda>s. n (g s))"
  unfolding good_def yields_def by metis

lemma good_cases:
  "good f g \<Longrightarrow> good f' g' \<Longrightarrow> good (\<lambda>r. if c then f r else f' r) (\<lambda>s. if c then g s else g' s)"
  "good f g \<Longrightarrow> (\<And>x. good (k x) (k' x)) \<Longrightarrow>
    good (\<lambda>r. case opt of None \<Rightarrow> f r | Some x \<Rightarrow> k x r) (\<lambda>s. case opt of None \<Rightarrow> g s | Some x \<Rightarrow> k' x s)"
  "(\<And>x. good (h x) (h' x)) \<Longrightarrow> (\<And>y. good (j y) (j' y)) \<Longrightarrow>
    good (\<lambda>r. case sm of Inl x \<Rightarrow> h x r | Inr y \<Rightarrow> j y r) (\<lambda>s. case sm of Inl x \<Rightarrow> h' x s | Inr y \<Rightarrow> j' y s)"
  by (cases c; simp) ((cases opt; simp), (cases sm; simp))

lemma yields_cases:
  "yields m n \<Longrightarrow> yields m' n' \<Longrightarrow> yields (\<lambda>r. if c then m r else m' r) (\<lambda>s. if c then n s else n' s)"
  "yields m n \<Longrightarrow> (\<And>x. yields (k x) (k' x)) \<Longrightarrow>
    yields (\<lambda>r. case opt of None \<Rightarrow> m r | Some x \<Rightarrow> k x r) (\<lambda>s. case opt of None \<Rightarrow> n s | Some x \<Rightarrow> k' x s)"
  "(\<And>x. yields (h x) (h' x)) \<Longrightarrow> (\<And>y. yields (j y) (j' y)) \<Longrightarrow>
    yields (\<lambda>r. case sm of Inl x \<Rightarrow> h x r | Inr y \<Rightarrow> j y r) (\<lambda>s. case sm of Inl x \<Rightarrow> h' x s | Inr y \<Rightarrow> j' y s)"
  by (cases c; simp) ((cases opt; simp), (cases sm; simp))

lemma good_fields:
  "good (\<lambda>r. r\<lparr>run_tracker := t\<rparr>) (\<lambda>s. s\<lparr>run_tracker := t\<rparr>)"
  "good (\<lambda>r. r\<lparr>run_dispatched := d\<rparr>) (\<lambda>s. s\<lparr>run_dispatched := d\<rparr>)"
  "good (\<lambda>r. r\<lparr>run_responseID := i\<rparr>) (\<lambda>s. s\<lparr>run_responseID := i\<rparr>)"
  "good (\<lambda>r. r\<lparr>run_unfinishable := u\<rparr>) (\<lambda>s. s\<lparr>run_unfinishable := u\<rparr>)"
  "good (\<lambda>r. r\<lparr>run_announced := n\<rparr>) (\<lambda>s. s\<lparr>run_announced := n\<rparr>)"
  by (simp_all add: good_def live_def dead_def)

lemma yields_call: "alike L D f g \<Longrightarrow> yields (onRun f) (onRun g)"
  by (simp add: alike_def yields_def onRun_eq live_def dead_def)

lemma yields_emit:
  assumes "proper x"
  shows "yields (emit A x) (emit B x)"
proof -
  have "fst (emit A x r) = fst (emit B x s) \<and> live (snd (emit A x r)) (snd (emit B x s)) \<or>
      dead (snd (emit A x r)) (snd (emit B x s))" if l: "live r s" for r s
  proof -
    obtain ga a where a: "ch_yield A x (run_world r) = (ga, a)" by fastforce
    obtain gb b where b: "ch_yield B x (run_world s) = (gb, b)" by fastforce
    have "if ga then gb \<and> L a b else D a b" using yield_live [OF _ assms a b] l by (simp add: live_def)
    then show ?thesis using l by (cases ga; cases gb) (simp_all add: emit_def a b live_def dead_def)
  qed
  moreover have "dead (snd (emit A x r)) s \<and> dead r (snd (emit B x s))" if d: "dead r s" for r s
    using d yield_dead [of "run_world r" "run_world s" x] assms
    by (auto simp: emit_def dead_def split: prod.split)
  ultimately show ?thesis unfolding yields_def by blast
qed

lemma good_report: "good (report A err) (report B err)"
  using good_snd [OF yields_emit [of "(None, Some err)"]] by (simp add: report_def [abs_def] proper_def)

end

context related_callers
begin

section \<open>Every operation keeps related turns related\<close>

lemma good_fire:
  assumes "hooksAlike L D h h'"
  shows "good (fireHook A name h p) (fireHook B name h' p)"
proof (cases h)
  case None
  then have "h' = None" using assms by (simp add: hooksAlike_def)
  then show ?thesis using None good_id by (simp add: fireHook_def [abs_def] fire_def)
next
  case (Some f)
  then obtain g where g: "h' = Some g" "alike L D (f p) (g p)"
    using assms by (auto simp: hooksAlike_def option_rel_Some1)
  have "good (\<lambda>r. case res of None \<Rightarrow> r | Some recovered \<Rightarrow> report A (panicErr name recovered) r)
      (\<lambda>r. case res of None \<Rightarrow> r | Some recovered \<Rightarrow> report B (panicErr name recovered) r)" for res
    by (cases res) (simp_all add: good_id good_report)
  from good_bind [OF yields_call [OF g(2)] this] show ?thesis
    by (simp add: Some g(1) fireHook_calls [abs_def])
qed

lemmas good_hooks = hooks(1-8) [THEN good_fire]

lemma good_announce: "good (announceResponse A resp) (announceResponse B resp)"
proof -
  let ?id = "resp_ID resp"
  let ?ctx = "\<lparr>rsc_ResponseID = ?id, rsc_Model = resp_Model resp\<rparr>"
  have "good (\<lambda>r. if ?id = [] \<or> boolAt n ?id then r
        else fireHook A ''OnResponseStart'' (OnResponseStart (ch_hooks A)) ?ctx (r\<lparr>run_announced := gput ?id True n\<rparr>))
      (\<lambda>r. if ?id = [] \<or> boolAt n ?id then r
        else fireHook B ''OnResponseStart'' (OnResponseStart (ch_hooks B)) ?ctx (r\<lparr>run_announced := gput ?id True n\<rparr>))" for n
    by (cases "?id = [] \<or> boolAt n ?id") (auto intro: good_id good_comp [OF good_fields(5) good_hooks(1)])
  from good_dep [OF _ this, of run_announced run_announced] show ?thesis
    by (simp add: announceResponse_def [abs_def] live_def)
qed

lemma good_endResponse: "good (endResponse A resp) (endResponse B resp)"
  using good_comp [OF good_announce good_hooks(2)] by (simp add: endResponse_def [abs_def])

lemma good_runTool: "good (runTool A info) (runTool B info)"
proof -
  note post = yields_call [OF alike_PostEvent [OF calls(1)]]
  note run = yields_call [OF alike_registryRun [OF calls(4) same(6)]]
  show ?thesis
    unfolding runTool_calls [abs_def] same
    by (rule good_bind [OF run], clarify)
      (intro good_let [OF good_hooks(4)] good_bind [OF post] good_cases good_report good_id)
qed

end

context related_callers
begin

lemma good_observeItem: "good (observeItem A item) (observeItem B item)"
proof -
  let ?callID = "TrimSpace (itemString item ''call_id'')" and ?name = "TrimSpace (itemString item ''name'')"
  let ?aw = "itemString item ''status'' = itemStatusActionRequired"
  let ?info = "\<lparr>ti_Name = ?name, ti_Arguments = itemArguments (ch_lib B) item,
      ti_CallID = ?callID, ti_ItemID = itemString item ''id''\<rparr>"
  let ?again = "Errorf [Wrapped (Sentinel ErrToolCallDuplicated), Txt '': '',
      Txt (sanitizeForError ?callID maxRequestIDRunes), Txt '' already ran'']"
  let ?over = "Errorf [Wrapped (Sentinel ErrToolCallBudget), Txt '': '',
      Num (int (toolBudget B)), Txt '' in one turn; raise ChatOptions.MaxToolCalls '',
      Txt ''if this turn is legitimate'']"
  have budget: "toolBudget A = toolBudget B" by (simp add: toolBudget_def same)
  have "good (\<lambda>r. if \<not> ?aw then r else if boolAt d ?callID then report A ?again r
        else if 0 < toolBudget B \<and> toolBudget B \<le> length d then (report A ?over r)\<lparr>run_unfinishable := True\<rparr>
        else runTool A ?info (r\<lparr>run_dispatched := gput ?callID True d\<rparr>))
      (\<lambda>r. if \<not> ?aw then r else if boolAt d ?callID then report B ?again r
        else if 0 < toolBudget B \<and> toolBudget B \<le> length d then (report B ?over r)\<lparr>run_unfinishable := True\<rparr>
        else runTool B ?info (r\<lparr>run_dispatched := gput ?callID True d\<rparr>))" for d
    by (intro good_cases good_id good_report good_comp [OF good_report good_fields(4)] good_comp [OF good_fields(2) good_runTool])
  note after = good_dep [OF _ this, of run_dispatched run_dispatched]
  show ?thesis
    unfolding observeItem_def [abs_def] Let_def same budget toolCallInfo.simps
    by (intro good_cases good_id good_comp [OF good_hooks(3) after]) (simp add: live_def)
qed

lemma yields_decide: "yields (decideElicitation A eid p) (decideElicitation B eid p)"
proof (cases "OnElicitation (ch_hooks A)")
  case None
  then have "OnElicitation (ch_hooks B) = None" using hooks(9) by (simp add: hooksAlike_def)
  then show ?thesis using None yields_pair [OF good_id] by (simp add: decideElicitation_def [abs_def])
next
  case (Some f)
  then obtain g where g: "OnElicitation (ch_hooks B) = Some g" "\<And>c. alike L D (f c) (g c)"
    using hooks(9) by (auto simp: hooksAlike_def option_rel_Some1)
  let ?err = "\<lambda>recovered. Errorf [Wrapped (Sentinel ErrHookPanicked), Txt '': hook OnElicitation, declined: '',
      Txt (sanitizeForError recovered maxErrorFieldRunes)]"
  have "yields (\<lambda>r. let (res, r) = onRun (f (elicitationCtxOf (ch_sessionID B) rid eid p)) r in
        (case res of Inl recovered \<Rightarrow> (False, report A (?err recovered) r) | Inr accept \<Rightarrow> (accept, r)))
      (\<lambda>r. let (res, r) = onRun (g (elicitationCtxOf (ch_sessionID B) rid eid p)) r in
        (case res of Inl recovered \<Rightarrow> (False, report B (?err recovered) r) | Inr accept \<Rightarrow> (accept, r)))" for rid
    by (intro yields_bind yields_call g(2) yields_cases yields_pair good_id good_report)
  from yields_dep [OF _ this, of run_responseID run_responseID] show ?thesis
    by (simp add: decide_calls [abs_def] Some g(1) same live_def)
qed

lemma good_resolve: "good (resolveElicitation A eid p) (resolveElicitation B eid p)"
  unfolding resolve_calls [abs_def] same
  by (intro good_bind [OF yields_decide] good_bind yields_call alike_Resolve calls(2) good_cases good_id good_report)

lemma good_act: "good (act A evo) (act B evo)"
proof (cases evo)
  case (Some ev)
  have reasoning: "good (\<lambda>r. fireHook A ''OnReasoningStart'' (OnReasoningStart (ch_hooks A)) (run_responseID r) r)
      (\<lambda>r. fireHook B ''OnReasoningStart'' (OnReasoningStart (ch_hooks B)) (run_responseID r) r)"
    by (rule good_dep [OF _ good_hooks(5)]) (simp add: live_def)
  show ?thesis
    by (cases "ev_body ev")
      (simp_all add: act_def [abs_def] Some good_id good_announce good_endResponse good_observeItem good_resolve good_hooks reasoning)
qed (simp add: act_def [abs_def] good_id)

lemma good_track: "good (track evo) (track evo)"
proof (cases evo)
  case (Some ev)
  have tracker: "good (\<lambda>r. r\<lparr>run_tracker := trackerStep e (run_tracker r)\<rparr>) (\<lambda>s. s\<lparr>run_tracker := trackerStep e (run_tracker s)\<rparr>)" for e
    by (rule good_dep [OF _ good_fields(1)]) (simp add: live_def)
  have begins: "good (beginResponse rid) (beginResponse rid)" for rid
    by (auto simp: good_def beginResponse_def live_def dead_def)
  show ?thesis
    by (cases "ev_body ev") (simp_all add: track_def [abs_def] Some tracker begins)
qed (simp add: track_def [abs_def] good_id)

text \<open>The body of the loop, and what of the run it decides on.\<close>

lemma yields_driveBody:
  assumes "proper x"
  shows "yields (driveBody A x) (driveBody B x)"
proof (cases "snd x")
  case (Some err)
  have "proper (None, Some err)" by (simp add: proper_def)
  then show ?thesis
    using yields_pair [OF good_snd [OF yields_emit]] Some by (cases x) (simp add: driveBody_def [abs_def])
next
  case None
  then obtain evo where x: "x = (evo, None)" by (cases x) simp
  have last: "good (\<lambda>r. case tr_failure t of Some f \<Rightarrow> snd (emit A (None, Some f) r) | None \<Rightarrow> r)
      (\<lambda>r. case tr_failure t of Some f \<Rightarrow> snd (emit B (None, Some f) r) | None \<Rightarrow> r)" for t
    by (intro good_cases good_id good_snd yields_emit) (simp add: proper_def)
  let ?go = "\<lambda>C (st, un, t) r. if st \<or> un then (False, r)
      else if ended t then (False, case tr_failure t of Some f \<Rightarrow> snd (emit C (None, Some f) r) | None \<Rightarrow> r)
      else (True, r)"
  let ?fields = "\<lambda>r. (run_stopped r, run_unfinishable r, run_tracker r)"
  have "yields (?go A v) (?go B v)" for v
    by (cases v) (simp add: yields_cases yields_pair good_id last)
  then have rest: "yields (\<lambda>r. ?go A (?fields r) r) (\<lambda>r. ?go B (?fields r) r)"
    by (rule yields_dep [where f = "?go A" and g = "?go B", rotated]) (simp add: live_def)
  have run: "driveBody C (evo, None) = (\<lambda>r. let (go, r) = emit C (evo, None) (track evo r) in
      if \<not> go then (False, r) else ?go C (run_stopped (act C evo r), run_unfinishable (act C evo r), run_tracker (act C evo r)) (act C evo r))"
    for C :: "'x chatEnv"
    by (rule ext) (simp only: driveBody_def Let_def prod.case option.case split_def fst_conv snd_conv)
  show ?thesis
    unfolding x run
    by (intro yields_bind yields_cases(1) yields_comp [OF good_track yields_emit [OF assms [unfolded x]]]
        yields_pair good_id yields_comp [OF good_act rest])
qed

lemma yields_prompt: "yields (onSubscribedHook A t sub) (onSubscribedHook B t sub)"
proof -
  have "alike L D (SendMessage (ch_post A) sid t) (SendMessage (ch_post B) sid t)" for sid
    using alike_PostEvent [OF calls(1)] by (simp add: SendMessage_def [abs_def])
  moreover have "good (\<lambda>r. r\<lparr>run_tracker := anchorOn a (run_tracker r)\<rparr>) (\<lambda>s. s\<lparr>run_tracker := anchorOn a (run_tracker s)\<rparr>)" for a
    by (rule good_dep [OF _ good_fields(1)]) (simp add: live_def)
  ultimately show ?thesis
    unfolding prompt_calls [abs_def] by (intro yields_bind yields_call yields_cases yields_pair good_id)
qed

end

section \<open>Whole turns\<close>

definition flat :: "'x \<times> 'y \<times> 'z \<Rightarrow> ('x \<times> 'y) \<times> 'z" where
  "flat p = ((fst p, fst (snd p)), snd (snd p))"

lemma flat_simps [simp]: "flat (go, (left, r)) = ((go, left), r)"
  by (simp add: flat_def)

text \<open>The calls of a stream on a turn, over the steps above.\<close>

lemma driveCall_yield:
  "flat (performCall (driveCalls env t) (CallYield x) (left, r)) =
    (let (go, r) = driveBody env x r in ((go \<and> snd x = None, \<not> go), r))"
  by (simp add: performCall_def driveCalls_def split_def Let_def)

lemma driveCall_failed:
  "yieldErr (driveCalls env t) err (left, r) = (let (go, r) = driveBody env (None, Some err) r in (\<not> go, r))"
  by (simp add: yieldErr_def driveCalls_def split_def Let_def)

lemma driveCall_prompt:
  "flat (performCall (driveCalls env t) (CallSubscribed sub) (left, r)) =
    (let (res, r) = onSubscribedHook env t sub r in case res of
        None \<Rightarrow> ((True, left), r)
      | Some err \<Rightarrow> let (go, r) = driveBody env (None, Some (Errorf [Txt ''stream for session '', Txt (sub_SessionID sub),
                Txt '': on subscribed: '', Wrapped err])) r in ((False, \<not> go), r))"
  by (auto simp: performCall_def driveCalls_simps driveCall_failed split: prod.split option.split)

lemma driveCall_skipped:
  "flat (performCall (driveCalls env t) (CallSkipped fr) (left, r)) = (case ch_onSkipped env of
      None \<Rightarrow> ((True, left), r)
    | Some h \<Rightarrow> (let (res, r) = onRun (h fr) r in (case res of
        None \<Rightarrow> ((True, left), r)
      | Some err \<Rightarrow> (let (go, r) = driveBody env (None, Some (Errorf [Txt ''stream for session '', Txt (sk_SessionID fr),
                Txt '': on skipped frame: '', Wrapped err])) r in ((False, \<not> go), r)))))"
proof -
  have "onSkippedFrame (driveCalls env t) = map_option (\<lambda>h fr (left, r).
        let (err, w) = h fr (run_world r) in (err, (left, r\<lparr>run_world := w\<rparr>))) (ch_onSkipped env)"
    by (simp add: driveCalls_def)
  then show ?thesis
    by (auto simp: performCall_def driveCall_failed onRun_def split: prod.split option.split)
qed

lemma perform_flat:
  "flat (perform cb (c # cs) (left, r)) = (let ((go, left), r) = flat (performCall cb c (left, r)) in
     if go then flat (perform cb cs (left, r)) else ((False, left), r))"
  by (auto split: prod.split)

lemma drive_calls:
  "drive deps d env t conn w =
    (let ((go, left), r) = flat (perform (driveCalls env t) (streamScript deps d (ch_stream env) (ch_sessionID env) conn)
           (False, newTurnRun env w)) in
     if \<not> left \<and> \<not> ended (run_tracker r) \<and> \<not> run_stopped r \<and> \<not> run_unfinishable r then
       snd (emit env (None, Some (Errorf [Txt ''turn on session '', Txt (ch_sessionID env),
         Txt '': '', Wrapped (Sentinel ErrTurnIncomplete)])) r)
     else r)"
  by (simp add: drive_def Stream_performs split_def Let_def flat_def)

context related_callers
begin

lemma yields_performCall:
  assumes "properCall c"
  shows "yields (\<lambda>r. flat (performCall (driveCalls A t) c (left, r))) (\<lambda>r. flat (performCall (driveCalls B t) c (left, r)))"
proof -
  have err: "yields (\<lambda>r. let (go, r) = driveBody A (None, Some e) r in ((False, \<not> go), r))
      (\<lambda>r. let (go, r) = driveBody B (None, Some e) r in ((False, \<not> go), r))" for e
    by (intro yields_bind yields_driveBody yields_pair good_id) (simp add: proper_def)
  show ?thesis
  proof (cases c)
    case (CallYield x)
    then show ?thesis using assms unfolding CallYield driveCall_yield
      by (intro yields_bind yields_driveBody yields_pair good_id) simp
  next
    case (CallSubscribed sub)
    then show ?thesis unfolding CallSubscribed driveCall_prompt
      by (intro yields_bind yields_prompt yields_cases yields_pair good_id err)
  next
    case (CallSkipped fr)
    show ?thesis
    proof (cases "ch_onSkipped A")
      case None
      then have "ch_onSkipped B = None" using calls(3) by (simp add: hooksAlike_def)
      then show ?thesis unfolding CallSkipped driveCall_skipped using None yields_pair [OF good_id] by simp
    next
      case (Some f)
      then obtain g where g: "ch_onSkipped B = Some g" "\<And>fr. alike L D (f fr) (g fr)"
        using calls(3) by (auto simp: hooksAlike_def option_rel_Some1)
      show ?thesis unfolding CallSkipped driveCall_skipped Some g(1) option.case
        by (intro yields_bind yields_call g(2) yields_cases yields_pair good_id err)
    qed
  qed
qed

lemma yields_perform:
  "list_all properCall cs \<Longrightarrow>
   yields (\<lambda>r. flat (perform (driveCalls A t) cs (left, r))) (\<lambda>r. flat (perform (driveCalls B t) cs (left, r)))"
proof (induction cs arbitrary: left)
  case Nil
  then show ?case using yields_pair [OF good_id] by simp
next
  case (Cons c cs)
  then show ?case
    unfolding perform_flat
    by (intro yields_bind yields_performCall, simp, clarify) (intro yields_cases yields_pair good_id, simp)
qed

text \<open>Related turns end related.\<close>

lemma drive_related:
  assumes "L a b"
  shows "live (drive deps d A t conn a) (drive deps d B t conn b) \<or> dead (drive deps d A t conn a) (drive deps d B t conn b)"
proof -
  let ?script = "streamScript deps d (ch_stream B) (ch_sessionID B) conn"
  let ?left = "\<lambda>C x r. if \<not> x \<and> \<not> ended (run_tracker r) \<and> \<not> run_stopped r \<and> \<not> run_unfinishable r then
       snd (emit C (None, Some (Errorf [Txt ''turn on session '', Txt (ch_sessionID C),
         Txt '': '', Wrapped (Sentinel ErrTurnIncomplete)])) r) else r"
  have "good (?left A left) (?left B left)" for left
    unfolding good_def
    using yields_emit [of "(None, Some (Errorf [Txt ''turn on session '', Txt (ch_sessionID B),
         Txt '': '', Wrapped (Sentinel ErrTurnIncomplete)]))"]
    by (auto simp: same proper_def yields_def live_def dead_def)
  then have run: "good (\<lambda>r. let (x, r) = flat (perform (driveCalls A t) ?script (False, r)) in ?left A (snd x) r)
      (\<lambda>r. let (x, r) = flat (perform (driveCalls B t) ?script (False, r)) in ?left B (snd x) r)"
    by (intro good_bind yields_perform proper_script)
  have "live (newTurnRun A a) (newTurnRun B b)"
    using assms by (simp add: live_def newTurnRun_def same)
  with run show ?thesis unfolding good_def drive_calls by (simp add: same split_def Let_def)
qed

end

section \<open>A turn is a sequence of steps\<close>

text \<open>A caller with a consumer of its own: the consumer keeps \<open>'c\<close>, everything else is as in \<open>env\<close>.\<close>

definition onSnd :: "('w \<Rightarrow> 'x \<times> 'w) \<Rightarrow> 'c \<times> 'w \<Rightarrow> 'x \<times> ('c \<times> 'w)" where
  "onSnd f p = (let (x, w) = f (snd p) in (x, (fst p, w)))"

definition liftHooks :: "'w streamHooks \<Rightarrow> ('c \<times> 'w) streamHooks" where
  "liftHooks hs =
     \<lparr>OnResponseStart = map_option (\<lambda>h p. onSnd (h p)) (OnResponseStart hs),
      OnResponseEnd = map_option (\<lambda>h p. onSnd (h p)) (OnResponseEnd hs),
      OnToolCallStart = map_option (\<lambda>h p. onSnd (h p)) (OnToolCallStart hs),
      OnToolCallEnd = map_option (\<lambda>h p. onSnd (h p)) (OnToolCallEnd hs),
      OnReasoningStart = map_option (\<lambda>h p. onSnd (h p)) (OnReasoningStart hs),
      OnRetry = map_option (\<lambda>h p. onSnd (h p)) (OnRetry hs),
      OnServerError = map_option (\<lambda>h p. onSnd (h p)) (OnServerError hs),
      OnFileOutput = map_option (\<lambda>h p. onSnd (h p)) (OnFileOutput hs),
      OnElicitation = map_option (\<lambda>h p. onSnd (h p)) (OnElicitation hs)\<rparr>"

definition liftTools :: "'w toolRegistry \<Rightarrow> ('c \<times> 'w) toolRegistry" where
  "liftTools reg =
     \<lparr>reg_tools = map (\<lambda>(n, f). (n, \<lambda>i. onSnd (f i))) (reg_tools reg), reg_schemas = reg_schemas reg\<rparr>"

definition liftEnv :: "(streamStep, 'c) yield \<Rightarrow> 'w chatEnv \<Rightarrow> ('c \<times> 'w) chatEnv" where
  "liftEnv y env =
     \<lparr>ch_sessionID = ch_sessionID env, ch_lib = ch_lib env, ch_maxToolCalls = ch_maxToolCalls env,
      ch_turn = ch_turn env, ch_stream = ch_stream env,
      ch_onSkipped = map_option (\<lambda>h p. onSnd (h p)) (ch_onSkipped env),
      ch_tools = map_option liftTools (ch_tools env), ch_hooks = liftHooks (ch_hooks env),
      ch_post = (\<lambda>rq. onSnd (ch_post env rq)), ch_resolve = (\<lambda>rq. onSnd (ch_resolve env rq)),
      ch_yield = (\<lambda>x p. let (go, c) = y x (fst p) in (go, (c, snd p)))\<rparr>"

text \<open>Turn.Events as a range-over-func sequence, and the steps of the turn that is read to its end.\<close>

definition turnEvents ::
  "jsonDeps \<Rightarrow> int \<Rightarrow> 'w chatEnv \<Rightarrow> string \<Rightarrow> opened \<Rightarrow> 'w \<Rightarrow> (streamStep, 'c) seq" where
  "turnEvents deps d env t conn w y c = fst (snd (Events deps d (liftEnv y env) t conn (False, (c, w))))"

definition readAll :: "'w chatEnv \<Rightarrow> 'w chatEnv" where
  "readAll env = env\<lparr>ch_yield := (\<lambda>x w. (True, w))\<rparr>"

fun stepOf :: "chatObs \<Rightarrow> streamStep list" where
  "stepOf (ObsEmit x go) = [x]"
| "stepOf _ = []"

definition emitted :: "chatObs list \<Rightarrow> streamStep list" where
  "emitted l = concat (map stepOf l)"

lemma emitted_simps [simp]:
  "emitted [] = []" "emitted (l @ m) = emitted l @ emitted m" "emitted [x] = stepOf x"
  by (simp_all add: emitted_def)

definition turnSteps :: "jsonDeps \<Rightarrow> int \<Rightarrow> 'w chatEnv \<Rightarrow> string \<Rightarrow> opened \<Rightarrow> 'w \<Rightarrow> streamStep list" where
  "turnSteps deps d env t conn w = emitted (turnLog deps d (readAll env) t conn w)"

text \<open>The consumer has been fed the steps of the log and goes on, or has refused one.\<close>

definition plainLog :: "chatObs list \<Rightarrow> bool" where
  "plainLog l \<longleftrightarrow> list_all proper (emitted l) \<and> list_all (\<lambda>go. go) (emits l)"

definition reads :: "(streamStep, 'c) yield \<Rightarrow> 'c \<Rightarrow> 'c \<times> 'w \<Rightarrow> 'w logged \<Rightarrow> bool" where
  "reads y c0 p q \<longleftrightarrow> snd p = fst q \<and> plainLog (snd q) \<and> feed (emitted (snd q)) y c0 = (True, fst p)"

definition refused :: "(streamStep, 'c) yield \<Rightarrow> 'c \<Rightarrow> 'c \<times> 'w \<Rightarrow> 'w logged \<Rightarrow> bool" where
  "refused y c0 p q \<longleftrightarrow> plainLog (snd q) \<and> feed (emitted (snd q)) y c0 = (False, fst p)"

lemma alike_onSnd:
  assumes "\<And>x. stepOf (obs x) = [] \<and> goOf (obs x) = []"
  shows "alike (reads y c0) (refused y c0) (onSnd f) (\<lambda>(w, l). let (x, w') = f w in (x, (w', l @ [obs x])))"
  using assms
  by (auto simp: alike_def onSnd_def reads_def refused_def plainLog_def split: prod.split)

lemma alike_quiet: "alike (reads y c0) (refused y c0) (onSnd f) (\<lambda>(w, l). let (x, w') = f w in (x, (w', l)))"
  by (auto simp: alike_def onSnd_def reads_def refused_def plainLog_def split: prod.split)

lemma alike_logged:
  assumes "stepOf obs = [] \<and> goOf obs = []"
  shows "alike (reads y c0) (refused y c0) (onSnd f) (\<lambda>(w, l). let (x, w') = f w in (x, (w', l @ [obs])))"
  using alike_onSnd [of "\<lambda>_. obs"] assms by simp

lemma hooks_logged:
  assumes "\<And>p. stepOf (obs p) = [] \<and> goOf (obs p) = []"
  shows "hooksAlike (reads y c0) (refused y c0) (map_option (\<lambda>h p. onSnd (h p)) h) (map_option (logHook obs) h)"
proof (cases h)
  case (Some g)
  show ?thesis
    unfolding Some hooksAlike_def option.map option.rel_inject logHook_def [abs_def] by (intro allI alike_logged assms)
qed (simp add: hooksAlike_def)

lemma hooks_quiet: "hooksAlike (reads y c0) (refused y c0) (map_option (\<lambda>h p. onSnd (h p)) h) (map_option liftHook h)"
proof (cases h)
  case (Some g)
  show ?thesis
    unfolding Some hooksAlike_def option.map option.rel_inject liftHook_def [abs_def] by (intro allI alike_quiet)
qed (simp add: hooksAlike_def)

lemma lookup_lift: "lookup (map_option liftTools t) n = map_option (\<lambda>f i. onSnd (f i)) (lookup t n)"
  by (cases t) (simp_all add: lookup_def liftTools_def map_of_map)

lemma Names_lift: "Names (map_option liftTools t) = Names (map_option logTools t)"
  by (cases t) (simp_all add: Names_def liftTools_def logTools_def comp_def split_def)

lemma readAll_simps [simp]:
  "ch_sessionID (readAll env) = ch_sessionID env" "ch_lib (readAll env) = ch_lib env"
  "ch_maxToolCalls (readAll env) = ch_maxToolCalls env" "ch_turn (readAll env) = ch_turn env"
  "ch_stream (readAll env) = ch_stream env" "ch_onSkipped (readAll env) = ch_onSkipped env"
  "ch_tools (readAll env) = ch_tools env" "ch_hooks (readAll env) = ch_hooks env"
  "ch_post (readAll env) = ch_post env" "ch_resolve (readAll env) = ch_resolve env"
  "ch_yield (readAll env) = (\<lambda>x w. (True, w))"
  by (simp_all add: readAll_def)

lemma obs_plain [simp]:
  "stepOf (postObs rq) = [] \<and> goOf (postObs rq) = []" "stepOf (resolveObs rq) = [] \<and> goOf (resolveObs rq) = []"
  by (auto simp: postObs_def resolveObs_def split: requestBody.split)

lemma logEnv_budget: "ch_maxToolCalls (logEnv env) = ch_maxToolCalls env"
  by (simp add: logEnv_def)

interpretation consumer: related_callers "liftEnv y env" "logEnv (readAll env)" "reads y c0" "refused y c0" for y env c0
proof
  show "hooksAlike (reads y c0) (refused y c0) (OnElicitation (ch_hooks (liftEnv y env))) (OnElicitation (ch_hooks (logEnv (readAll env))))"
  proof (cases "OnElicitation (ch_hooks env)")
    case (Some h)
    have "alike (reads y c0) (refused y c0) (onSnd (h c)) (\<lambda>(w, l). let (res, w') = h c w in
        (res, (w', l @ [ObsDecide (ec_SessionID c) (ec_ElicitationID c) (case res of Inr b \<Rightarrow> b | Inl _ \<Rightarrow> False)])))" for c
      by (intro alike_onSnd) simp
    then show ?thesis by (simp add: hooksAlike_def liftEnv_def liftHooks_def logHooks_def Some)
  qed (simp add: hooksAlike_def liftEnv_def liftHooks_def logHooks_def)
  show "hooksAlike (reads y c0) (refused y c0) (lookup (ch_tools (liftEnv y env)) n) (lookup (ch_tools (logEnv (readAll env))) n)" for n
  proof (cases "lookup (ch_tools env) n")
    case (Some f)
    have "alike (reads y c0) (refused y c0) (onSnd (f i)) (\<lambda>(w, l). let (res, w') = f i w in (res, (w', l @ [ObsTool i])))" for i
      by (intro alike_logged) simp
    then show ?thesis by (simp add: hooksAlike_def liftEnv_def lookup_lift lookup_log Some)
  qed (simp add: hooksAlike_def liftEnv_def lookup_lift lookup_log)
  show "hooksAlike (reads y c0) (refused y c0) (ch_onSkipped (liftEnv y env)) (ch_onSkipped (logEnv (readAll env)))"
  proof (cases "ch_onSkipped env")
    case (Some h)
    have "alike (reads y c0) (refused y c0) (onSnd (h fr)) (\<lambda>(w, l). let (res, w') = h fr w in (res, (w', l)))" for fr
      by (intro alike_quiet)
    then show ?thesis by (simp add: hooksAlike_def liftEnv_def logEnv_def Some)
  qed (simp add: hooksAlike_def liftEnv_def logEnv_def)
  show "alike (reads y c0) (refused y c0) (ch_post (liftEnv y env) rq) (ch_post (logEnv (readAll env)) rq)" for rq
    unfolding liftEnv_def logEnv_def chatEnv.simps readAll_simps by (intro alike_logged) simp
  show "alike (reads y c0) (refused y c0) (ch_resolve (liftEnv y env) rq) (ch_resolve (logEnv (readAll env)) rq)" for rq
    unfolding liftEnv_def logEnv_def chatEnv.simps readAll_simps by (intro alike_logged) simp
  show "if ga then gb \<and> reads y c0 a' b' else refused y c0 a' b'"
    if "reads y c0 a b" "proper x" "ch_yield (liftEnv y env) x a = (ga, a')" "ch_yield (logEnv (readAll env)) x b = (gb, b')"
    for a b x ga a' gb b'
    using that by (cases a; cases b) (auto simp: liftEnv_def logEnv_def reads_def refused_def plainLog_def feed_append split: prod.splits)
  show "refused y c0 a (snd (ch_yield (logEnv (readAll env)) x b))" if "refused y c0 a b" "proper x" for a b x
    using that by (cases b) (simp add: logEnv_def refused_def plainLog_def feed_append)
qed (simp_all add: liftEnv_def liftHooks_def hooks_logged hooks_quiet Names_lift logEnv_budget)

lemma turnEvents_feed: "turnEvents deps d env t conn w y c = snd (feed (turnSteps deps d env t conn w) y c)"
proof -
  have "reads y c (c, w) (w, [])" by (simp add: reads_def plainLog_def)
  from consumer.drive_related [OF this, where deps = deps and d = d and t = t and conn = conn and env = env]
  show ?thesis
    by (auto simp: consumer.live_def consumer.dead_def reads_def refused_def turnEvents_def turnSteps_def turnLog_def
        logOf_def Events_def claim_def)
qed

text \<open>The consumer that keeps everything stops nothing.\<close>

lemma read_to_end:
  "\<not> run_stopped (drive deps d (logEnv (readAll env)) t conn (w, [])) \<and> plainLog (turnLog deps d (readAll env) t conn w)"
proof -
  have "reads collect [] ([], w) (w, [])" by (simp add: reads_def plainLog_def)
  from consumer.drive_related [OF this, where deps = deps and d = d and t = t and conn = conn and env = env]
  show ?thesis
    by (auto simp: consumer.live_def consumer.dead_def reads_def refused_def turnLog_def logOf_def)
qed

lemma errs_emitted: "errs l = concat (map (\<lambda>s. case snd s of Some e \<Rightarrow> [e] | None \<Rightarrow> []) (emitted l))"
proof (induction l)
  case (Cons x l)
  then show ?case by (cases x) (simp_all add: errs_def emitted_def split: option.split)
qed (simp add: errs_def)

section \<open>Properties\<close>

text \<open>C7. A turn is one sequence of steps: for the server's bytes and answers and the caller's hooks
  and tools there is a list of steps, each an event or an error and not both, and whatever a consumer
  keeps and wherever it stops, ranging over the turn hands it exactly that list, in order, up to the
  step it refuses.\<close>

theorem turn_is_sequence:
  "denotes (turnEvents deps d env t conn w) (turnSteps deps d env t conn w) \<and>
   list_all proper (turnSteps deps d env t conn w)"
  using read_to_end [of deps d env t conn w] by (simp add: denotes_def turnEvents_feed plainLog_def turnSteps_def)

end
