(* ===== verification/Asking.thy ===== *)
theory Asking
  imports Query Callers
begin

text \<open>
  query.go over chat.go: a query of a turn.

  Query takes the events of a turn as an argument; here they are those of the model of Turn.Events,
  and its answer is what the turn's own steps carry. The lemmas cut a turn's steps at the first
  error.
\<close>

section \<open>The steps before an error\<close>

definition cleanSteps :: "streamStep list \<Rightarrow> streamStep list" where
  "cleanSteps steps = takeWhile (\<lambda>s. snd s = None) steps"

definition firstError :: "streamStep list \<Rightarrow> goerr option" where
  "firstError steps = (case dropWhile (\<lambda>s. snd s = None) steps of [] \<Rightarrow> None | s # _ \<Rightarrow> snd s)"

lemma clean_oks: "list_all proper steps \<Longrightarrow> \<exists>es. cleanSteps steps = map ok es"
proof (induction steps)
  case (Cons x steps)
  show ?case
  proof (cases x)
    case (Pair evo erro)
    show ?thesis
    proof (cases erro)
      case None
      then obtain e where "x = ok e" using Cons.prems Pair by (cases evo) (simp_all add: proper_def ok_def)
      moreover obtain es where "cleanSteps steps = map ok es" using Cons by auto
      ultimately have "cleanSteps (x # steps) = map ok (e # es)" by (simp add: cleanSteps_def ok_def)
      then show ?thesis by blast
    qed (simp add: cleanSteps_def Pair)
  qed
qed (simp add: cleanSteps_def)

lemma firstError_cases:
  "firstError steps = None \<and> cleanSteps steps = steps \<or>
   (\<exists>evo err rest. firstError steps = Some err \<and> steps = cleanSteps steps @ (evo, Some err) # rest)"
proof (induction steps)
  case (Cons x steps)
  show ?case
  proof (cases "snd x")
    case None
    then show ?thesis using Cons by (auto simp: firstError_def cleanSteps_def)
  next
    case (Some err)
    then show ?thesis by (cases x) (simp add: firstError_def cleanSteps_def)
  qed
qed (simp add: firstError_def cleanSteps_def)

lemma no_error_errs: "firstError (emitted l) = None \<Longrightarrow> errs l = []"
proof -
  assume "firstError (emitted l) = None"
  then have "takeWhile (\<lambda>s. snd s = None) (emitted l) = emitted l"
    using firstError_cases [of "emitted l"] by (auto simp: cleanSteps_def)
  then show ?thesis by (simp add: errs_emitted takeWhile_eq_all_conv)
qed

section \<open>Properties\<close>

text \<open>C6. A query asks, drives and folds one whole turn. When the turn's steps hold no error, Query
  answers with exactly the finished texts and the files of their blocks, and the turn has ended on
  a response that answers the prompt; otherwise it returns the first error with the files of the
  steps before it, and no text. There is no third outcome: a query never returns part of an answer
  as if it were whole.\<close>

theorem query_of_turn:
  "let steps = turnSteps deps d env t conn w; before = blocksOut lib 0 (cleanSteps steps) in
   (\<exists>s'. Query lib (turnEvents deps d env t conn w) s =
     (\<lparr>qr_Text = (if firstError steps = None then doneText before else []), qr_Files = filesOf before\<rparr>,
      firstError steps, s')) \<and>
   ((\<exists>err. firstError steps = Some err) \<or>
    0 < length (tr_id (run_tracker (drive deps d (logEnv (readAll env)) t conn (w, [])))))"
proof -
  let ?steps = "turnSteps deps d env t conn w"
  let ?last = "drive deps d (logEnv (readAll env)) t conn (w, [])"
  note whole = read_to_end [of deps d env t conn w]
  have seq: "denotes (turnEvents deps d env t conn w) ?steps" by (simp add: denotes_def turnEvents_feed)
  have "list_all proper ?steps" using whole by (simp add: plainLog_def turnSteps_def)
  then obtain es where es: "cleanSteps ?steps = map ok es" using clean_oks by blast
  show ?thesis
  proof (cases "firstError ?steps")
    case None
    then have s: "?steps = map ok es" using firstError_cases [of ?steps] es by auto
    have "errs (turnLog deps d (readAll env) t conn w) = []"
      using None by (intro no_error_errs) (simp add: turnSteps_def)
    then have "errFree ?last" using whole by (simp add: errFree_def turnLog_def)
    then have "tr_id (run_tracker ?last) \<noteq> []" by (rule drive_answered)
    then show ?thesis using query_answer [of _ es lib s] seq None es s by (simp add: Let_def)
  next
    case (Some err)
    then obtain evo rest where "?steps = map ok es @ (evo, Some err) # rest"
      using firstError_cases [of ?steps] es by auto
    then show ?thesis using query_error_drops_text [of _ es evo err rest lib s] seq Some es by (simp add: Let_def)
  qed
qed

end
