(* ===== verification/Conversation.thy ===== *)
theory Conversation
  imports Asking
begin

text \<open>
  One exchange over the wire, through every layer: frames in, prompt posted, turn tracked, blocks
  folded, answer out.

  The turn of a caller without hooks is stated by the tracker alone: the events of the frames up to
  the one that ends the turn, and then the failure if that event was one. The lemmas follow the loop
  of drive over such a stream.
\<close>

section \<open>A turn by its tracker\<close>

definition noHooks :: "'w streamHooks" where
  "noHooks = \<lparr>OnResponseStart = None, OnResponseEnd = None, OnToolCallStart = None, OnToolCallEnd = None,
     OnReasoningStart = None, OnRetry = None, OnServerError = None, OnFileOutput = None, OnElicitation = None\<rparr>"

text \<open>An event that asks nothing of the client.\<close>

definition plainBody :: "eventBody \<Rightarrow> bool" where
  "plainBody e = (case e of
      ElicitationRequestEvent eid p \<Rightarrow> False
    | OutputItemDoneEvent item \<Rightarrow> itemString item ''type'' \<noteq> ''function_call'' \<or> itemString item ''status'' \<noteq> itemStatusActionRequired
    | _ \<Rightarrow> True)"

text \<open>The events up to the first after which the turn has ended, and the tracker there.\<close>

fun untilEnded :: "turnTracker \<Rightarrow> event list \<Rightarrow> event list \<times> turnTracker" where
  "untilEnded t [] = ([], t)"
| "untilEnded t (e # es) =
    (let t' = trackerStep (ev_body e) t in
     if ended t' then ([e], t') else let (seen, t'') = untilEnded t' es in (e # seen, t''))"

definition endingSteps :: "string \<Rightarrow> turnTracker \<Rightarrow> streamStep list" where
  "endingSteps sid t =
    (if ended t then (case tr_failure t of Some f \<Rightarrow> [(None, Some f)] | None \<Rightarrow> [])
     else [(None, Some (Errorf [Txt ''turn on session '', Txt sid, Txt '': '', Wrapped (Sentinel ErrTurnIncomplete)]))])"

section \<open>The loop\<close>

lemma track_tracker: "run_tracker (track (Some e) r) = trackerStep (ev_body e) (run_tracker r)"
  by (cases "ev_body e") (simp_all add: track_def trackerStep_def beginResponse_def)

lemma track_rest:
  "run_world (track evo r) = run_world r" "run_stopped (track evo r) = run_stopped r"
  "run_unfinishable (track evo r) = run_unfinishable r"
  by (auto simp: track_def beginResponse_def split: option.split eventBody.split)

lemma act_plain:
  assumes "ch_hooks env = noHooks" "plainBody (ev_body e)"
  shows "\<exists>a. act env (Some e) r = r\<lparr>run_announced := a\<rparr>"
proof -
  have fire: "fireHook env n None p r = r" for n p and r :: "'a turnRun" by (simp add: fireHook_def fire_def)
  have id: "\<exists>a. r = r\<lparr>run_announced := a\<rparr>" for r :: "'a turnRun" by (rule exI [of _ "run_announced r"]) simp
  have announce: "\<exists>a. announceResponse env resp r = r\<lparr>run_announced := a\<rparr>" for resp
    using id [of r] assms(1) by (auto simp: announceResponse_def noHooks_def fire)
  have ends: "\<exists>a. endResponse env resp r = r\<lparr>run_announced := a\<rparr>" for resp
    using announce [of resp] assms(1) by (simp add: endResponse_def noHooks_def fire)
  have item: "observeItem env item r = r"
    if "itemString item ''type'' \<noteq> ''function_call'' \<or> itemString item ''status'' \<noteq> itemStatusActionRequired" for item
    using that assms(1) by (simp add: observeItem_def noHooks_def fire Let_def)
  show ?thesis
    using assms announce ends item id
    by (cases "ev_body e") (simp_all add: act_def noHooks_def fire plainBody_def)
qed

abbreviation collecting :: "'w chatEnv \<Rightarrow> (streamStep list \<times> 'w) chatEnv" where
  "collecting env \<equiv> liftEnv collect env"

lemma emit_collecting:
  "\<not> run_stopped r \<Longrightarrow> emit (collecting env) x r = (True, r\<lparr>run_world := (fst (run_world r) @ [x], snd (run_world r))\<rparr>)"
  by (simp add: emit_def liftEnv_def collect_def)

lemma driveBody_plain:
  assumes "ch_hooks env = noHooks" "plainBody (ev_body e)" "\<not> run_stopped r" "\<not> run_unfinishable r"
  shows "\<exists>r'. driveBody (collecting env) (Some e, None) r = (\<not> ended (run_tracker r'), r') \<and>
    run_tracker r' = trackerStep (ev_body e) (run_tracker r) \<and> \<not> run_stopped r' \<and> \<not> run_unfinishable r' \<and>
    fst (run_world r') = fst (run_world r) @ ok e #
      (if ended (run_tracker r') then endingSteps (ch_sessionID env) (run_tracker r') else [])"
proof -
  let ?r1 = "(track (Some e) r)\<lparr>run_world := (fst (run_world r) @ [ok e], snd (run_world r))\<rparr>"
  have h: "ch_hooks (collecting env) = noHooks" using assms(1) by (simp add: liftEnv_def liftHooks_def noHooks_def)
  obtain a where a: "act (collecting env) (Some e) ?r1 = ?r1\<lparr>run_announced := a\<rparr>" using act_plain [OF h assms(2)] by blast
  let ?r2 = "?r1\<lparr>run_announced := a\<rparr>"
  have e: "emit (collecting env) (Some e, None) (track (Some e) r) = (True, ?r1)"
    using emit_collecting [of "track (Some e) r" env "ok e"] assms(3) by (simp add: track_rest ok_def)
  have d: "driveBody (collecting env) (Some e, None) r =
      (if ended (run_tracker ?r2) then (False, case tr_failure (run_tracker ?r2) of
          Some f \<Rightarrow> snd (emit (collecting env) (None, Some f) ?r2) | None \<Rightarrow> ?r2) else (True, ?r2))"
    using assms(3,4) unfolding driveBody_def Let_def prod.case option.case e a by (simp add: track_rest)
  show ?thesis
    using assms(3,4) unfolding d
    by (cases "tr_failure (run_tracker ?r2)")
      (auto simp: track_tracker track_rest emit_collecting endingSteps_def)
qed

lemma feed_plain:
  assumes "ch_hooks env = noHooks" "list_all (\<lambda>e. plainBody (ev_body e)) es" "\<not> run_stopped r" "\<not> run_unfinishable r"
    "\<not> ended (run_tracker r)" "untilEnded (run_tracker r) es = (seen, tr)"
  shows "\<exists>r'. feed (map ok es) (onYield (driveCalls (collecting env) t)) (False, r) = (\<not> ended tr, (ended tr, r')) \<and>
    run_tracker r' = tr \<and> \<not> run_stopped r' \<and> \<not> run_unfinishable r' \<and>
    fst (run_world r') = fst (run_world r) @ map ok seen @ (if ended tr then endingSteps (ch_sessionID env) tr else [])"
  using assms
proof (induction es arbitrary: r seen)
  case Nil
  then show ?case by auto
next
  case (Cons e es)
  obtain r1 where r1: "driveBody (collecting env) (Some e, None) r = (\<not> ended (run_tracker r1), r1)"
    "run_tracker r1 = trackerStep (ev_body e) (run_tracker r)" "\<not> run_stopped r1" "\<not> run_unfinishable r1"
    "fst (run_world r1) = fst (run_world r) @ ok e #
      (if ended (run_tracker r1) then endingSteps (ch_sessionID env) (run_tracker r1) else [])"
    using driveBody_plain [OF Cons.prems(1) _ Cons.prems(3,4), of e] Cons.prems(2) by auto
  have y: "onYield (driveCalls (collecting env) t) (ok e) (False, r) = (\<not> ended (run_tracker r1), (ended (run_tracker r1), r1))"
    using r1(1) by (simp add: driveCalls_def ok_def)
  show ?case
  proof (cases "ended (run_tracker r1)")
    case True
    then have "seen = [e]" "tr = run_tracker r1" using Cons.prems(6) r1(2) by (simp_all add: Let_def)
    then show ?thesis using True r1 y by simp
  next
    case False
    obtain seen' where c: "untilEnded (run_tracker r1) es = (seen', tr)" "seen = e # seen'"
      using Cons.prems(6) False r1(2) by (auto simp: Let_def split: prod.splits)
    from Cons.IH [OF Cons.prems(1) _ r1(3,4) False c(1)] Cons.prems(2)
    obtain r' where "feed (map ok es) (onYield (driveCalls (collecting env) t)) (False, r1) = (\<not> ended tr, (ended tr, r'))"
      "run_tracker r' = tr" "\<not> run_stopped r'" "\<not> run_unfinishable r'"
      "fst (run_world r') = fst (run_world r1) @ map ok seen' @ (if ended tr then endingSteps (ch_sessionID env) tr else [])"
      by auto
    then show ?thesis using y False r1(5) c(2) by simp
  qed
qed

section \<open>The whole exchange\<close>

text \<open>The tracker of a turn whose prompt was accepted.\<close>

definition promptTracker :: "'w chatEnv \<Rightarrow> eventAccepted \<Rightarrow> turnTracker" where
  "promptTracker env acc = anchorOn (anchorOf (Some acc)) (newTurnTracker (ch_turn env) (ch_sessionID env))"

lemma promptTracker_open: "\<not> ended (promptTracker env acc)"
  by (simp add: promptTracker_def ended_def anchorOn_def newTurnTracker_def)

lemma turnSteps_collected:
  "turnSteps deps d env t conn w = fst (run_world (drive deps d (collecting env) t conn ([], w)))"
  using turnEvents_feed [of deps d env t conn w collect "[]"] by (simp add: turnEvents_def Events_def claim_def)

lemma hook_accepted:
  assumes "SendMessage (ch_post env) (ch_sessionID env) t w = (Inr acc, w1)" "\<not> acc_Denied acc"
  shows "onSubscribedHook (collecting env) t \<lparr>sub_SessionID = ch_sessionID env, sub_Idle = idle\<rparr> (newTurnRun (collecting env) ([], w)) =
    (None, (newTurnRun (collecting env) ([], w))\<lparr>run_world := ([], w1), run_tracker := promptTracker env acc\<rparr>)"
proof -
  have p: "SendMessage (ch_post (collecting env)) (ch_sessionID env) t ([], w) = (Inr acc, ([], w1))"
    using assms(1) by (auto simp: SendMessage_def PostEvent_def onSnd_def liftEnv_def split: if_splits)
  have "ch_turn (collecting env) = ch_turn env" "ch_sessionID (collecting env) = ch_sessionID env"
    by (simp_all add: liftEnv_def)
  then show ?thesis
    using assms(2) by (simp add: onSubscribedHook_def newTurnRun_def promptTracker_def p)
qed

lemma turnSteps_wire:
  assumes "list_all2 (frameReads deps) fs es" "list_all plainLine (wireLines fs)"
    and "ch_sessionID env \<noteq> []" "ch_hooks env = noHooks" "list_all (\<lambda>e. plainBody (ev_body e)) es"
    and "SendMessage (ch_post env) (ch_sessionID env) t w = (Inr acc, w1)" "\<not> acc_Denied acc"
    and "untilEnded (promptTracker env acc) es = (seen, tr)"
  shows "turnSteps deps d env t (Opened (wireBytes (wireLines fs)) re) w = map ok seen @ endingSteps (ch_sessionID env) tr"
proof -
  let ?cb = "driveCalls (collecting env) t" and ?r0 = "newTurnRun (collecting env) ([], w)"
  let ?r1 = "?r0\<lparr>run_world := ([], w1), run_tracker := promptTracker env acc\<rparr>"
  have ids: "ch_sessionID (collecting env) = ch_sessionID env" "ch_stream (collecting env) = ch_stream env"
    by (simp_all add: liftEnv_def)
  have h: "hookOk ?cb (ch_sessionID env) idle (False, ?r0) \<and> hookWorld ?cb (ch_sessionID env) idle (False, ?r0) = (False, ?r1)" for idle
    using hook_accepted [OF assms(6,7), of idle] by (simp add: hookOk_def hookWorld_def driveCalls_simps)
  have s: "Stream deps d ?cb (ch_stream env) (ch_sessionID env) (Opened (wireBytes (wireLines fs)) re) (False, ?r0) =
      snd (feed (map ok es) (onYield ?cb) (False, ?r1))"
    using frames_read [OF assms(1-3), of ?cb "ch_stream env" "(False, ?r0)" d re] h by (simp add: ok_def [abs_def])
  have r1: "\<not> run_stopped ?r1" "\<not> run_unfinishable ?r1" "run_tracker ?r1 = promptTracker env acc" "fst (run_world ?r1) = []"
    by (simp_all add: newTurnRun_def)
  obtain r' where r': "feed (map ok es) (onYield ?cb) (False, ?r1) = (\<not> ended tr, (ended tr, r'))"
    "run_tracker r' = tr" "\<not> run_stopped r'" "\<not> run_unfinishable r'"
    "fst (run_world r') = map ok seen @ (if ended tr then endingSteps (ch_sessionID env) tr else [])"
    using feed_plain [OF assms(4,5) r1(1,2), of seen tr t] assms(8) r1 promptTracker_open [of env acc] by auto
  show ?thesis
    using r' emit_collecting [of r' env] by (simp add: turnSteps_collected drive_def ids s endingSteps_def)
qed

definition endingError :: "string \<Rightarrow> turnTracker \<Rightarrow> goerr option" where
  "endingError sid t = (if ended t then tr_failure t
     else Some (Errorf [Txt ''turn on session '', Txt sid, Txt '': '', Wrapped (Sentinel ErrTurnIncomplete)]))"

lemma ending_cases:
  "endingError sid t = None \<and> endingSteps sid t = [] \<or>
   (\<exists>err. endingError sid t = Some err \<and> endingSteps sid t = [(None, Some err)])"
  by (auto simp: endingError_def endingSteps_def split: option.split)

section \<open>A small exchange\<close>

definition sampleLib :: goLib where
  "sampleLib = \<lparr>lib_unmarshalMap = (\<lambda>s. None), lib_marshalMap = (\<lambda>m. None), lib_sprint = (\<lambda>j. []),
     lib_sprintMap = (\<lambda>m. []), lib_quote = (\<lambda>s. s)\<rparr>"

definition sampleAccepted :: eventAccepted where
  "sampleAccepted = \<lparr>acc_Queued = True, acc_ItemID = ''m'', acc_PendingID = [], acc_Denied = False, acc_Reason = []\<rparr>"

definition sampleChat :: "unit chatEnv" where
  "sampleChat = \<lparr>ch_sessionID = ''s'', ch_lib = sampleLib, ch_maxToolCalls = 0,
     ch_turn = \<lparr>topt_End = TurnEndsOnResponseLifecycle, topt_PriorResponseIDs = []\<rparr>,
     ch_stream = \<lparr>so_Idle = False, so_IdleTimeout = 0\<rparr>, ch_onSkipped = None, ch_tools = None, ch_hooks = noHooks,
     ch_post = (\<lambda>rq w. (Inr sampleAccepted, w)), ch_resolve = (\<lambda>rq w. (Inr (), w)), ch_yield = (\<lambda>x w. (True, w))\<rparr>"

text \<open>The prompt is echoed, two letters are said, the response ends; what follows is another turn's.\<close>

definition sampleEvents :: "event list" where
  "sampleEvents = [Ev [] (SessionInputConsumedEvent \<lparr>ic_ItemID = ''m'', ic_ClearedPendingID = None\<rparr>),
     Ev [] (OutputTextDeltaEvent ''hi''),
     Ev [] (ResponseCompletedEvent \<lparr>resp_ID = ''r'', resp_Model = [], resp_Status = ''completed'', resp_Error = None\<rparr>),
     Ev [] (OutputTextDeltaEvent ''hi'')]"

definition sampleFrames :: "(string \<times> string) list" where
  "sampleFrames = [(''session.input.consumed'', ''0''), (''response.output_text.delta'', ''1''),
     (''response.completed'', ''2''), (''response.output_text.delta'', ''1'')]"

definition sampleDecoder :: jsonDeps where
  "sampleDecoder = \<lparr>dep_probe = (\<lambda>p. Inr []), dep_unmarshal = (\<lambda>v p. Inr (sampleEvents !
     (if p = ''0'' then 0 else if p = ''1'' then 1 else 2)))\<rparr>"

lemma sampleFrames_read: "list_all2 (frameReads sampleDecoder) sampleFrames sampleEvents"
proof -
  have t: "TrimSpace (CHR '' '' # ''session.input.consumed'') = ''session.input.consumed''"
    "TrimSpace (CHR '' '' # ''response.output_text.delta'') = ''response.output_text.delta''"
    "TrimSpace (CHR '' '' # ''response.completed'') = ''response.completed''"
    by (rule TrimSpace_visible; simp add: visible_def byte_def)+
  have p: "TrimRight [c] newline = [c] \<and> TrimSpace [c] = [c]" if "c \<in> {CHR ''0'', CHR ''1'', CHR ''2''}" for c
    using that by (auto simp: TrimSpace_visible visible_def byte_def TrimRight_def newline_def dropTail_def)
  have r: "map_of eventRegistry ''session.input.consumed'' = Some VSessionInputConsumed"
    "map_of eventRegistry ''response.output_text.delta'' = Some VOutputTextDelta"
    "map_of eventRegistry ''response.completed'' = Some VResponseCompleted"
    by (simp_all add: eventRegistry_def)
  show ?thesis
    by (simp add: sampleFrames_def sampleEvents_def frameReads_def decodeFrame_def t p r sampleDecoder_def decodeByType_def
        doneSentinel_def maxFrameBytes_def)
qed

lemma sampleFrames_plain: "list_all plainLine (wireLines sampleFrames)"
  by (simp add: sampleFrames_def wireLines_def wireFrame_def plainLine_def eventLine_def dataLine_def doneSentinel_def
      maxFrameBytes_def newline_def)

lemma sample_turn:
  "untilEnded (promptTracker sampleChat sampleAccepted) sampleEvents =
    (take 3 sampleEvents, (promptTracker sampleChat sampleAccepted)\<lparr>tr_crossed := True, tr_anchorItem := ''m'', tr_id := ''r''\<rparr>)"
  by (simp add: sampleEvents_def promptTracker_def newTurnTracker_def anchorOn_def anchorOf_def sampleAccepted_def sampleChat_def
      trackerStep_def crossBoundary_def observeResponseTerminal_def ended_def boolAt_def Let_def)

lemma sample_said: "doneText (blocksOut lib 0 (map ok (take 3 sampleEvents))) = ''hi'' \<and>
    filesOf (blocksOut lib 0 (map ok (take 3 sampleEvents))) = []"
proof -
  have "EncodeRunes (map byte ''hi'') = ''hi''" by (rule EncodeRunes_ascii) (simp add: byte_def)
  then have n: "RuneCount ''hi'' = 2"
    using RuneCount_EncodeRunes [of "map byte ''hi''"] by (simp add: validRune_def byte_def)
  show ?thesis
    unfolding blocksOut_oks
    by (simp add: sampleEvents_def startState_def newBlockState_def foldAll_def foldEvent_def appendText_def
        flushTextChunks.simps n flushThreshold_def defaultTextFlushThreshold_def closeReasoning_def
        closeText_def salvage_def Let_def HasPrefix_def putBlock_def emitStep_def doneText_def filesOf_def blockStep_def
        endBlock_def recomputeAttribution_def gdel_def)
qed

section \<open>Properties\<close>



end
