(* ===== verification/ErrorBodies.thy ===== *)
theory ErrorBodies
  imports Elicit
begin

text \<open>
  errors.go: the JSON of an error's body. What Errors takes as an argument, the envelope of
  newAPIError, the text of a detail and the entries of a 422, is decoded here by the structs the
  code declares. A json.RawMessage is the value its bytes write, printed again.

  The lemmas show that both envelopes reach the caller: a server error by its code and message, a
  detail as the message when it is a text and as the validation errors when it is a list.
\<close>

section \<open>The structs\<close>

definition envelopeErrorType :: gotype where
  "envelopeErrorType = TyStruct []
    [(''code'', False, TyString), (''message'', False, TyString), (''title'', False, TyString),
     (''cause'', False, TyString), (''remediation'', False, TyString)]"

definition errorEnvelopeType :: gotype where
  "errorEnvelopeType = TyStruct [] [(''error'', False, TyPtr envelopeErrorType), (''detail'', False, TyRaw)]"

definition ValidationErrorType :: gotype where
  "ValidationErrorType = TyStruct ''omnigent.ValidationError''
    [(''loc'', False, TySlice TyAny), (''msg'', False, TyString), (''type'', False, TyString),
     (''ctx'', True, TyMap TyAny), (''input'', True, TyAny)]"

section \<open>Decoding\<close>

definition envelopeErrorOf :: "goval \<Rightarrow> envelopeError" where
  "envelopeErrorOf v = \<lparr>ee_Code = strField ''code'' v, ee_Message = strField ''message'' v,
     ee_Title = strField ''title'' v, ee_Cause = strField ''cause'' v, ee_Remediation = strField ''remediation'' v\<rparr>"

definition rawField :: "string \<Rightarrow> goval \<Rightarrow> string" where
  "rawField k v = (case map_of (fieldsOf v) k of Some (VRaw (Some t)) \<Rightarrow> printJSON t | _ \<Rightarrow> [])"

definition decodeEnvelope :: "string \<Rightarrow> envelope option" where
  "decodeEnvelope body =
    (case Unmarshal noCustom errorEnvelopeType (zeroOf errorEnvelopeType) body of
       Inl err \<Rightarrow> None
     | Inr v \<Rightarrow> Some \<lparr>env_Error = map_option envelopeErrorOf (ptrField ''error'' v), env_Detail = rawField ''detail'' v\<rparr>)"

definition decodePlain :: "string \<Rightarrow> string option" where
  "decodePlain raw = (case Unmarshal noCustom TyString (VString []) raw of Inr (VString s) \<Rightarrow> Some s | _ \<Rightarrow> None)"

definition wireErrors :: errorJSON where
  "wireErrors = \<lparr>ej_envelope = decodeEnvelope, ej_string = decodePlain\<rparr>"

definition anysField :: "string \<Rightarrow> goval \<Rightarrow> json list" where
  "anysField k v = (case map_of (fieldsOf v) k of Some (VSlice (Some vs)) \<Rightarrow> map anyOf vs | _ \<Rightarrow> [])"

definition anyField :: "string \<Rightarrow> goval \<Rightarrow> json option" where
  "anyField k v = (case map_of (fieldsOf v) k of
      Some (VAny j) \<Rightarrow> (case j of JNull \<Rightarrow> None | _ \<Rightarrow> Some j) | _ \<Rightarrow> None)"

definition validationErrorOf :: "goval \<Rightarrow> json validationError" where
  "validationErrorOf v = \<lparr>ve_Loc = anysField ''loc'' v, ve_Msg = strField ''msg'' v, ve_Type = strField ''type'' v,
     ve_Ctx = mapField ''ctx'' v, ve_Input = anyField ''input'' v\<rparr>"

definition decodeDetails :: "string \<Rightarrow> goerr + json validationError list" where
  "decodeDetails raw =
    (case Unmarshal noCustom (TySlice ValidationErrorType) (VSlice None) raw of
       Inl err \<Rightarrow> Inl err
     | Inr v \<Rightarrow> Inr (map validationErrorOf (elemsOf v)))"

section \<open>What the caller gets\<close>

text \<open>A body that newAPIError reads whole, and encoding/json reads.\<close>

definition wholeBody :: "jtext \<Rightarrow> bool" where
  "wholeBody t \<longleftrightarrow> wfText t \<and> depth t \<le> maxNestingDepth \<and> length (printJSON t) \<le> maxErrorBodyBytes"

lemma Unmarshal_printed:
  assumes "wfText t" "depth t \<le> maxNestingDepth"
  shows "Unmarshal cu ty old (printJSON t) = (case decode cu ty t old None of
    Inl e \<Rightarrow> Inl e | Inr (v, Some e) \<Rightarrow> Inl e | Inr (v, None) \<Rightarrow> Inr v)"
  using parse_print [OF assms] by (simp add: Unmarshal_def)

lemma Unmarshal_empty: "Unmarshal cu ty old [] = Inl (External ''unexpected end of JSON input'')"
  by (simp add: Unmarshal_def parseJSON_def stateBeginValue_def jsonSpace_def)

lemmas envelope_types = errorEnvelopeType_def envelopeErrorType_def

lemma decodeEnvelope_error:
  assumes "wholeBody (TObj [(''error'', TObj [(''code'', TStr c), (''message'', TStr m)])])"
  shows "decodeEnvelope (printJSON (TObj [(''error'', TObj [(''code'', TStr c), (''message'', TStr m)])])) =
    Some \<lparr>env_Error = Some \<lparr>ee_Code = c, ee_Message = m, ee_Title = [], ee_Cause = [], ee_Remediation = []\<rparr>, env_Detail = []\<rparr>"
proof -
  have "wfText (TObj [(''error'', TObj [(''code'', TStr c), (''message'', TStr m)])])"
    "depth (TObj [(''error'', TObj [(''code'', TStr c), (''message'', TStr m)])]) \<le> maxNestingDepth"
    using assms unfolding wholeBody_def by blast+
  note u = Unmarshal_printed [OF this, of noCustom errorEnvelopeType "zeroOf errorEnvelopeType"]
  show ?thesis
    unfolding decodeEnvelope_def u
    by (simp add: envelope_types fieldFor_def fieldValue_def fieldsOf_def pointee_def decodeString_def assign_def
        ptrField_def envelopeErrorOf_def strField_def rawField_def)
qed

lemma decodeEnvelope_detail:
  assumes "wholeBody (TObj [(''detail'', t)])"
  shows "decodeEnvelope (printJSON (TObj [(''detail'', t)])) = Some \<lparr>env_Error = None, env_Detail = printJSON t\<rparr>"
proof -
  have "wfText (TObj [(''detail'', t)])" "depth (TObj [(''detail'', t)]) \<le> maxNestingDepth"
    using assms unfolding wholeBody_def by blast+
  note u = Unmarshal_printed [OF this, of noCustom errorEnvelopeType "zeroOf errorEnvelopeType"]
  show ?thesis
    unfolding decodeEnvelope_def u
    by (simp add: envelope_types fieldFor_def fieldValue_def fieldsOf_def assign_def ptrField_def rawField_def)
qed

lemma wholeBody_detail: "wholeBody (TObj [(k, t)]) \<Longrightarrow> wfText t \<and> depth t \<le> maxNestingDepth"
  by (simp add: wholeBody_def)

text \<open>The values of a 422's detail: the entries as the server has them, each key of a map once and in
  order, numbers that are float64 values, a context that is not empty and an input that is not null.\<close>

definition veValue :: "json validationError \<Rightarrow> goval" where
  "veValue e = VStruct
    [(''loc'', VSlice (Some (map VAny (ve_Loc e)))), (''msg'', VString (ve_Msg e)), (''type'', VString (ve_Type e)),
     (''ctx'', jmapValue (ve_Ctx e)), (''input'', VAny (case ve_Input e of None \<Rightarrow> JNull | Some j \<Rightarrow> j))]"

definition settledError :: "json validationError \<Rightarrow> bool" where
  "settledError e \<longleftrightarrow> (\<forall>j \<in> set (ve_Loc e). okAny j \<and> tidyAny j = j) \<and>
    (case ve_Ctx e of None \<Rightarrow> True | Some m \<Rightarrow> m \<noteq> [] \<and> settledMap m) \<and>
    (case ve_Input e of None \<Rightarrow> True | Some j \<Rightarrow> j \<noteq> JNull \<and> okAny j \<and> tidyAny j = j)"

definition detailText :: "floatFmt \<Rightarrow> json validationError list \<Rightarrow> jtext" where
  "detailText fmt es = encode fmt noMarshal (TySlice ValidationErrorType) (VSlice (Some (map veValue es)))"

lemma veValue_read:
  assumes "settledError e"
  shows "hasType ValidationErrorType (veValue e) \<and> okValue ValidationErrorType (veValue e) \<and>
    validationErrorOf (tidy ValidationErrorType (veValue e)) = e"
proof -
  have m: "mapField k (VStruct vals) = Some m" if "map_of vals k = Some (jmapValue (Some m))" for k vals m
    using that by (simp add: mapField_def fieldsOf_def jmapValue_def anyOf_def case_prod_unfold comp_def)
  have loc: "map anyOf (map (tidy TyAny) (map VAny (ve_Loc e))) = ve_Loc e"
    using assms by (simp add: settledError_def anyOf_def comp_def map_idI)
  have j: "(case j of JNull \<Rightarrow> None | _ \<Rightarrow> Some j) = (if j = JNull then None else Some j)" for j by (cases j) auto
  have null: "(case j of JNull \<Rightarrow> True | _ \<Rightarrow> False) \<longleftrightarrow> j = JNull" for j by (cases j) auto
  obtain l ms t c i where e: "e = \<lparr>ve_Loc = l, ve_Msg = ms, ve_Type = t, ve_Ctx = c, ve_Input = i\<rparr>" by (cases e)
  have types: "hasType ValidationErrorType (veValue e) \<and> okValue ValidationErrorType (veValue e)"
    using assms settledMap_value [of "the c"]
    by (cases c; cases i) (auto simp: e ValidationErrorType_def veValue_def settledError_def fieldsOf_def list_all_iff jmapValue_def)
  have "validationErrorOf (tidy ValidationErrorType (veValue e)) = e"
    using assms loc settledMap_value(3) [of "the c"]
    by (cases c; cases i) (auto simp: e ValidationErrorType_def veValue_def settledError_def fieldsOf_def validationErrorOf_def
        anysField_def strField_def mapField_def anyField_def isEmptyValue_def jmapValue_def anyOf_def j null comp_def case_prod_unfold)
  then show ?thesis using types by blast
qed

section \<open>Samples\<close>

definition sampleServerError :: jtext where
  "sampleServerError = TObj [(''error'', TObj [(''code'', TStr ''gone''), (''message'', TStr ''bye'')])]"

definition samplePlain :: jtext where
  "samplePlain = TObj [(''detail'', TStr ''gone'')]"

definition sampleErrors :: "json validationError list" where
  "sampleErrors = [\<lparr>ve_Loc = [JStr ''body'', JStr ''title''], ve_Msg = ''bad'', ve_Type = ''string'', ve_Ctx = None, ve_Input = Some (JBool True)\<rparr>]"

definition sampleDetail :: jtext where
  "sampleDetail = TArr [TObj [(''loc'', TArr [TStr ''body'', TStr ''title'']), (''msg'', TStr ''bad''),
     (''type'', TStr ''string''), (''input'', TBool True)]]"

definition answering :: "string \<Rightarrow> httpResponse" where
  "answering body = \<lparr>hr_StatusCode = 422, hr_Header = [], hr_Body = body\<rparr>"

lemma wholeBodyI:
  "wfText t \<Longrightarrow> depth t \<le> 9 \<Longrightarrow> length (printJSON t) \<le> 999 \<Longrightarrow> wholeBody t"
  by (simp add: wholeBody_def maxErrorBodyBytes_def maxNestingDepth_def)

lemmas sample_lengths = length_quoteJSON [of "''error''"] length_quoteJSON [of "''code''"] length_quoteJSON [of "''gone''"]
  length_quoteJSON [of "''message''"] length_quoteJSON [of "''bye''"] length_quoteJSON [of "''detail''"]
  length_quoteJSON [of "''loc''"] length_quoteJSON [of "''body''"] length_quoteJSON [of "''title''"]
  length_quoteJSON [of "''msg''"] length_quoteJSON [of "''bad''"] length_quoteJSON [of "''type''"]
  length_quoteJSON [of "''string''"] length_quoteJSON [of "''input''"]

lemma sample_whole:
  "wholeBody sampleServerError" "wholeBody samplePlain" "wholeBody (TObj [(''detail'', sampleDetail)])"
proof -
  have w: "wfText sampleServerError" "wfText samplePlain" "wfText (TObj [(''detail'', sampleDetail)])" by code_simp+
  show "wholeBody sampleServerError"
    using w(1) sample_lengths by (intro wholeBodyI) (simp_all add: sampleServerError_def)
  show "wholeBody samplePlain"
    using w(2) sample_lengths by (intro wholeBodyI) (simp_all add: samplePlain_def)
  show "wholeBody (TObj [(''detail'', sampleDetail)])"
    using w(3) sample_lengths by (intro wholeBodyI) (simp_all add: sampleDetail_def)
qed

lemma sampleErrors_text: "list_all settledError sampleErrors" "detailText exactFmt sampleErrors = sampleDetail"
  by (simp_all add: sampleErrors_def settledError_def sampleDetail_def detailText_def veValue_def ValidationErrorType_def
      fieldsOf_def isEmptyValue_def jmapValue_def)

section \<open>Properties\<close>

text \<open>C34. Both error envelopes reach the caller. The server's own error gives its code and message and no
  detail; so errors.Is and the text of the error have what the server said, and ValidationErrors
  reports no list.\<close>

theorem server_error_read:
  assumes "wholeBody (TObj [(''error'', TObj [(''code'', TStr c), (''message'', TStr m)])])"
    and "hr_Body resp = printJSON (TObj [(''error'', TObj [(''code'', TStr c), (''message'', TStr m)])])"
  shows "Code (newAPIError wireErrors resp) = c \<and> Message (newAPIError wireErrors resp) = m \<and>
    Detail (newAPIError wireErrors resp) = [] \<and>
    ValidationErrors decodeDetails (newAPIError wireErrors resp) = Inr None"
proof -
  have "take maxErrorBodyBytes (hr_Body resp) = hr_Body resp" using assms by (simp add: wholeBody_def)
  then have e: "ej_envelope wireErrors (take maxErrorBodyBytes (hr_Body resp)) =
      Some \<lparr>env_Error = Some \<lparr>ee_Code = c, ee_Message = m, ee_Title = [], ee_Cause = [], ee_Remediation = []\<rparr>, env_Detail = []\<rparr>"
    using decodeEnvelope_error [OF assms(1)] assms(2) by (simp only: wireErrors_def errorJSON.simps)
  have "ej_string wireErrors [] = None" by (simp add: wireErrors_def decodePlain_def Unmarshal_empty)
  then show ?thesis by (simp add: newAPIError_def Let_def e ValidationErrors_def)
qed

theorem server_error_read_witness:
  "Code (newAPIError wireErrors (answering (printJSON sampleServerError))) = ''gone''"
  using server_error_read [of "''gone''" "''bye''" "answering (printJSON sampleServerError)"] sample_whole(1)
  by (simp add: sampleServerError_def answering_def)

text \<open>C33. A 422 reaches the caller whole: for every list of field errors a server writes as the
  detail, newAPIError keeps it and takes no message from it, and ValidationErrors returns exactly
  those errors, in order, with their paths, contexts and inputs.\<close>

theorem validation_errors_read:
  assumes "formatsFloats fmt" "list_all settledError es"
    and "wholeBody (TObj [(''detail'', detailText fmt es)])"
    and "hr_Body resp = printJSON (TObj [(''detail'', detailText fmt es)])"
  shows "ValidationErrors decodeDetails (newAPIError wireErrors resp) = Inr (Some es) \<and>
    Message (newAPIError wireErrors resp) = [] \<and> Code (newAPIError wireErrors resp) = []"
proof -
  let ?t = "detailText fmt es" and ?ty = "TySlice ValidationErrorType"
  have t: "wfText ?t" "depth ?t \<le> maxNestingDepth" using wholeBody_detail [OF assms(3)] by blast+
  have arr: "?t = TArr (map (encode fmt noMarshal ValidationErrorType) (map veValue es))" by (simp add: detailText_def)
  have "take maxErrorBodyBytes (hr_Body resp) = hr_Body resp" using assms(3,4) by (simp add: wholeBody_def)
  then have e: "ej_envelope wireErrors (take maxErrorBodyBytes (hr_Body resp)) =
      Some \<lparr>env_Error = None, env_Detail = printJSON ?t\<rparr>"
    using decodeEnvelope_detail [OF assms(3)] assms(4) by (simp only: wireErrors_def errorJSON.simps)
  have s: "ej_string wireErrors (printJSON ?t) = None"
    unfolding wireErrors_def errorJSON.simps decodePlain_def Unmarshal_printed [OF t]
    unfolding arr by (simp add: decodeString_def mismatch_def saveError_def)
  have vals: "hasType ?ty (VSlice (Some (map veValue es))) \<and> okValue ?ty (VSlice (Some (map veValue es))) \<and>
      map validationErrorOf (map (tidy ValidationErrorType) (map veValue es)) = es"
    using assms(2) veValue_read by (induction es) auto
  have "solid ?ty \<and> goodType ?ty" by (simp add: ValidationErrorType_def) code_simp
  then have d: "decodeDetails (printJSON ?t) = Inr es"
    using decode_of_encode(1) [OF assms(1), of ?ty "VSlice (Some (map veValue es))" noCustom noMarshal None] vals
    unfolding decodeDetails_def Unmarshal_printed [OF t] by (simp add: detailText_def elemsOf_def)
  have "printJSON ?t \<noteq> []" by (simp add: arr)
  then show ?thesis using e s d by (simp add: newAPIError_def Let_def ValidationErrors_def del: printJSON.simps)
qed

theorem validation_errors_read_witness:
  "ValidationErrors decodeDetails (newAPIError wireErrors (answering (printJSON (TObj [(''detail'', sampleDetail)])))) =
    Inr (Some sampleErrors)"
  using validation_errors_read [OF exactFmt_formats sampleErrors_text(1), of "answering (printJSON (TObj [(''detail'', sampleDetail)]))"]
    sample_whole(3)
  by (simp add: sampleErrors_text(2) answering_def)

text \<open>A text as the detail is the message, and asking for the field errors of such an error fails,
  although the doc of ValidationErrors says that it can be asked unconditionally.\<close>

theorem text_detail_read:
  assumes "wholeBody (TObj [(''detail'', TStr t)])" "hr_Body resp = printJSON (TObj [(''detail'', TStr t)])"
  shows "Message (newAPIError wireErrors resp) = t \<and>
    (\<exists>err. ValidationErrors decodeDetails (newAPIError wireErrors resp) = Inl err)"
proof -
  have w: "wfText (TStr t)" "depth (TStr t) \<le> maxNestingDepth" using wholeBody_detail [OF assms(1)] by blast+
  have "take maxErrorBodyBytes (hr_Body resp) = hr_Body resp" using assms by (simp add: wholeBody_def)
  then have e: "ej_envelope wireErrors (take maxErrorBodyBytes (hr_Body resp)) =
      Some \<lparr>env_Error = None, env_Detail = printJSON (TStr t)\<rparr>"
    using decodeEnvelope_detail [OF assms(1)] assms(2) by (simp only: wireErrors_def errorJSON.simps)
  have s: "ej_string wireErrors (printJSON (TStr t)) = Some t"
    unfolding wireErrors_def errorJSON.simps decodePlain_def Unmarshal_printed [OF w] by (simp add: decodeString_def)
  obtain err where d: "decodeDetails (printJSON (TStr t)) = Inl err"
    unfolding decodeDetails_def Unmarshal_printed [OF w] by (simp add: mismatch_def saveError_def that)
  have "printJSON (TStr t) \<noteq> []" by (simp add: quoteJSON_def)
  then show ?thesis using e s d by (simp add: newAPIError_def Let_def ValidationErrors_def del: printJSON.simps)
qed

theorem text_detail_read_witness:
  "Message (newAPIError wireErrors (answering (printJSON samplePlain))) = ''gone''"
  using text_detail_read [of "''gone''" "answering (printJSON samplePlain)"] sample_whole(2)
  by (simp add: samplePlain_def answering_def)

end
