(* ===== verification/ApiRest.thy ===== *)
theory ApiRest
  imports Wire GoEncode
begin

text \<open>
  internal/api/api.gen.go: the structs no operation of the package sends or receives, as ApiTypes has
  the others. An element of a union is the bytes of its json.RawMessage, so its type is that of a raw
  message. The two multipart bodies, which hold a file of a third-party runtime, and the structs of
  query parameters, which are never JSON, are left out.

  The lemma at the end is about every struct of the file.
\<close>

definition api_AddCommentRequest :: gotype where [api_schema]:
  "api_AddCommentRequest = TyStruct ''api.AddCommentRequest''
    [(''anchor_content'', True, TyPtr TyString),
     (''body'', False, TyString),
     (''end_index'', False, TyInt),
     (''path'', False, TyString),
     (''start_index'', False, TyInt)]"

definition api_AutomaticSessionRenameRequest :: gotype where [api_schema]:
  "api_AutomaticSessionRenameRequest = TyStruct ''api.AutomaticSessionRenameRequest''
    [(''title'', False, TyString)]"

definition api_AutomaticSessionRenameResponse :: gotype where [api_schema]:
  "api_AutomaticSessionRenameResponse = TyStruct ''api.AutomaticSessionRenameResponse''
    [(''reason'', True, TyPtr TyString),
     (''renamed'', False, TyBool),
     (''title'', True, TyPtr TyString)]"

definition api_BrandingLogosInfo :: gotype where [api_schema]:
  "api_BrandingLogosInfo = TyStruct ''api.BrandingLogosInfo''
    [(''favicon'', False, TyPtr TyString),
     (''loading'', False, TyPtr TyString),
     (''main'', False, TyPtr TyString)]"

definition api_BrandingInfo :: gotype where [api_schema]:
  "api_BrandingInfo = TyStruct ''api.BrandingInfo''
    [(''app_name'', False, TyPtr TyString),
     (''heading'', False, TyPtr TyString),
     (''logos'', False, api_BrandingLogosInfo),
     (''powered_by'', False, TyBool)]"

definition api_ClearCodexGoalResponse :: gotype where [api_schema]:
  "api_ClearCodexGoalResponse = TyStruct ''api.ClearCodexGoalResponse''
    [(''cleared'', False, TyBool)]"

definition api_CodexGoalObject :: gotype where [api_schema]:
  "api_CodexGoalObject = TyStruct ''api.CodexGoalObject''
    [(''created_at'', True, TyPtr TyInt),
     (''objective'', False, TyString),
     (''status'', False, TyString),
     (''thread_id'', False, TyString),
     (''time_used_seconds'', False, TyInt),
     (''token_budget'', True, TyPtr TyInt),
     (''tokens_used'', False, TyInt),
     (''updated_at'', True, TyPtr TyInt)]"

definition api_CodexGoalResponse :: gotype where [api_schema]:
  "api_CodexGoalResponse = TyStruct ''api.CodexGoalResponse''
    [(''goal'', False, TyPtr api_CodexGoalObject)]"

definition api_CopyFilesRequest :: gotype where [api_schema]:
  "api_CopyFilesRequest = TyStruct ''api.CopyFilesRequest''
    [(''file_ids'', False, TySlice TyString),
     (''source_session_id'', False, TyString)]"

definition api_CreateDefaultPolicyRequest :: gotype where [api_schema]:
  "api_CreateDefaultPolicyRequest = TyStruct ''api.CreateDefaultPolicyRequest''
    [(''factory_params'', True, TyMap TyAny),
     (''handler'', False, TyString),
     (''name'', False, TyString),
     (''type'', False, TyString)]"

definition api_CreateDirectoryRequest :: gotype where [api_schema]:
  "api_CreateDirectoryRequest = TyStruct ''api.CreateDirectoryRequest''
    [(''path'', False, TyString)]"

definition api_CreateProjectRequest :: gotype where [api_schema]:
  "api_CreateProjectRequest = TyStruct ''api.CreateProjectRequest''
    [(''config'', True, TyMap TyAny),
     (''name'', False, TyString)]"

definition api_CreateSessionPolicyRequest :: gotype where [api_schema]:
  "api_CreateSessionPolicyRequest = TyStruct ''api.CreateSessionPolicyRequest''
    [(''factory_params'', True, TyMap TyAny),
     (''handler'', False, TyString),
     (''name'', False, TyString),
     (''type'', False, TyString)]"

definition api_DailyCost :: gotype where [api_schema]:
  "api_DailyCost = TyStruct ''api.DailyCost''
    [(''cost_usd'', True, TyPtr TyFloat),
     (''day'', False, TyString)]"

definition api_GrantPermissionRequest :: gotype where [api_schema]:
  "api_GrantPermissionRequest = TyStruct ''api.GrantPermissionRequest''
    [(''level'', False, TyInt),
     (''user_id'', False, TyString)]"

definition api_ValidationError :: gotype where [api_schema]:
  "api_ValidationError = TyStruct ''api.ValidationError''
    [(''ctx'', True, TyMap TyAny),
     (''input'', True, TyAny),
     (''loc'', False, TySlice TyRaw),
     (''msg'', False, TyString),
     (''type'', False, TyString)]"

definition api_HTTPValidationError :: gotype where [api_schema]:
  "api_HTTPValidationError = TyStruct ''api.HTTPValidationError''
    [(''detail'', True, TySlice api_ValidationError)]"

definition api_ImportItemInput :: gotype where [api_schema]:
  "api_ImportItemInput = TyStruct ''api.ImportItemInput''
    [(''data'', False, TyMap TyAny),
     (''response_id'', False, TyString),
     (''type'', False, TyString)]"

definition api_ImportSessionRequest :: gotype where [api_schema]:
  "api_ImportSessionRequest = TyStruct ''api.ImportSessionRequest''
    [(''external_session_id'', False, TyString),
     (''force'', True, TyPtr TyBool),
     (''items'', False, TySlice api_ImportItemInput),
     (''source'', False, TyString),
     (''workspace'', True, TyPtr TyString)]"

definition api_ImportSessionResponse :: gotype where [api_schema]:
  "api_ImportSessionResponse = TyStruct ''api.ImportSessionResponse''
    [(''item_count'', False, TyInt),
     (''session_id'', False, TyString),
     (''status'', False, TyString)]"

definition api_LaunchRunnerRequest :: gotype where [api_schema]:
  "api_LaunchRunnerRequest = TyStruct ''api.LaunchRunnerRequest''
    [(''git'', True, TyPtr api_SessionGitOptions),
     (''session_id'', False, TyString),
     (''workspace'', False, TyString)]"

definition api_PermissionObject :: gotype where [api_schema]:
  "api_PermissionObject = TyStruct ''api.PermissionObject''
    [(''conversation_id'', False, TyString),
     (''level'', False, TyInt),
     (''user_id'', False, TyString)]"

definition api_ReadStatePutRequest :: gotype where [api_schema]:
  "api_ReadStatePutRequest = TyStruct ''api.ReadStatePutRequest''
    [(''last_seen'', False, TyInt),
     (''unread'', False, TyBool)]"

definition api_SendCommentsRequest :: gotype where [api_schema]:
  "api_SendCommentsRequest = TyStruct ''api.SendCommentsRequest''
    [(''comment_ids'', False, TySlice TyString),
     (''instruction'', True, TyPtr TyString)]"

definition api_SmartRoutingSourcesInfo :: gotype where [api_schema]:
  "api_SmartRoutingSourcesInfo = TyStruct ''api.SmartRoutingSourcesInfo''
    [(''external'', False, TyBool),
     (''oss'', False, TyBool)]"

definition api_ServerInfoResponse :: gotype where [api_schema]:
  "api_ServerInfoResponse = TyStruct ''api.ServerInfoResponse''
    [(''accounts_enabled'', False, TyBool),
     (''branding'', False, api_BrandingInfo),
     (''databricks_features'', False, TyBool),
     (''dictation_available'', False, TyBool),
     (''features'', False, TyMap TyBool),
     (''harness_install_enabled'', False, TyBool),
     (''installable_harnesses'', False, TySlice TyString),
     (''login_url'', False, TyPtr TyString),
     (''managed_sandboxes_enabled'', False, TyBool),
     (''needs_setup'', False, TyBool),
     (''public_sharing_enabled'', False, TyBool),
     (''sandbox_provider'', False, TyPtr TyString),
     (''sandbox_providers'', False, TySlice TyString),
     (''server_version'', False, TyString),
     (''sharing_mode'', False, TyString),
     (''single_user'', False, TyBool),
     (''smart_routing_enabled'', False, TyBool),
     (''smart_routing_sources'', False, api_SmartRoutingSourcesInfo)]"

definition api_SessionLabelsResponse :: gotype where [api_schema]:
  "api_SessionLabelsResponse = TyStruct ''api.SessionLabelsResponse''
    [(''id'', False, TyString),
     (''labels'', True, TyMap TyString)]"

definition api_SessionProjectSummary :: gotype where [api_schema]:
  "api_SessionProjectSummary = TyStruct ''api.SessionProjectSummary''
    [(''id'', True, TyPtr TyString),
     (''name'', False, TyString)]"

definition api_SessionResourceObject :: gotype where [api_schema]:
  "api_SessionResourceObject = TyStruct ''api.SessionResourceObject''
    [(''environment'', True, TyPtr TyString),
     (''id'', False, TyString),
     (''metadata'', True, TyMap TyAny),
     (''name'', False, TyString),
     (''object'', False, TyString),
     (''session_id'', False, TyString),
     (''type'', False, TyString)]"

definition api_SessionResourcePaginatedList :: gotype where [api_schema]:
  "api_SessionResourcePaginatedList = TyStruct ''api.SessionResourcePaginatedList''
    [(''data'', True, TySlice api_SessionResourceObject),
     (''first_id'', True, TyPtr TyString),
     (''has_more'', True, TyPtr TyBool),
     (''last_id'', True, TyPtr TyString),
     (''object'', True, TyPtr TyString)]"

definition api_SessionSwitchAgentRequest :: gotype where [api_schema]:
  "api_SessionSwitchAgentRequest = TyStruct ''api.SessionSwitchAgentRequest''
    [(''agent_id'', False, TyString)]"

definition api_SessionUsage :: gotype where [api_schema]:
  "api_SessionUsage = TyStruct ''api.SessionUsage''
    [(''agent_name'', True, TyPtr TyString),
     (''cost_usd'', True, TyPtr TyFloat),
     (''created_at'', False, TyInt),
     (''harness'', True, TyPtr TyString),
     (''id'', False, TyString),
     (''llm_model'', True, TyPtr TyString),
     (''models'', True, TyMap TyFloat),
     (''other_harnesses'', True, TySlice TyString),
     (''title'', True, TyPtr TyString),
     (''updated_at'', False, TyInt)]"

definition api_SetCodexGoalRequest :: gotype where [api_schema]:
  "api_SetCodexGoalRequest = TyStruct ''api.SetCodexGoalRequest''
    [(''objective'', False, TyString),
     (''status'', True, TyPtr TyString),
     (''token_budget'', True, TyPtr TyInt)]"

definition api_SetSharingRequest :: gotype where [api_schema]:
  "api_SetSharingRequest = TyStruct ''api.SetSharingRequest''
    [(''public_sharing'', True, TyPtr TyBool),
     (''sharing_mode'', True, TyPtr TyString)]"

definition api_StoreHarnessCredentialRequest :: gotype where [api_schema]:
  "api_StoreHarnessCredentialRequest = TyStruct ''api.StoreHarnessCredentialRequest''
    [(''base_url'', True, TyPtr TyString),
     (''default_model'', True, TyPtr TyString),
     (''env_var'', True, TyPtr TyString),
     (''kind'', False, TyString),
     (''secret'', True, TyPtr TyString),
     (''wire_api'', True, TyPtr TyString)]"

definition api_UpdateCodexGoalStatusRequest :: gotype where [api_schema]:
  "api_UpdateCodexGoalStatusRequest = TyStruct ''api.UpdateCodexGoalStatusRequest''
    [(''status'', False, TyString)]"

definition api_UpdateCommentRequest :: gotype where [api_schema]:
  "api_UpdateCommentRequest = TyStruct ''api.UpdateCommentRequest''
    [(''body'', True, TyPtr TyString),
     (''status'', True, TyPtr TyString)]"

definition api_UpdateDefaultPolicyRequest :: gotype where [api_schema]:
  "api_UpdateDefaultPolicyRequest = TyStruct ''api.UpdateDefaultPolicyRequest''
    [(''enabled'', True, TyPtr TyBool),
     (''handler'', True, TyPtr TyString),
     (''name'', True, TyPtr TyString)]"

definition api_UpdateProjectRequest :: gotype where [api_schema]:
  "api_UpdateProjectRequest = TyStruct ''api.UpdateProjectRequest''
    [(''config'', True, TyMap TyAny),
     (''name'', True, TyPtr TyString)]"

definition api_UpdateSessionPolicyRequest :: gotype where [api_schema]:
  "api_UpdateSessionPolicyRequest = TyStruct ''api.UpdateSessionPolicyRequest''
    [(''enabled'', True, TyPtr TyBool),
     (''handler'', True, TyPtr TyString),
     (''name'', True, TyPtr TyString)]"

definition api_UpsertMCPServerRequest :: gotype where [api_schema]:
  "api_UpsertMCPServerRequest = TyStruct ''api.UpsertMCPServerRequest''
    [(''args'', True, TySlice TyString),
     (''command'', True, TyPtr TyString),
     (''description'', True, TyPtr TyString),
     (''headers'', True, TyMap TyString),
     (''name'', False, TyString),
     (''transport'', False, TyString),
     (''url'', True, TyPtr TyString)]"

definition api_UsageReport :: gotype where [api_schema]:
  "api_UsageReport = TyStruct ''api.UsageReport''
    [(''cost_last_30d'', True, TyPtr TyFloat),
     (''cost_last_7d'', True, TyPtr TyFloat),
     (''cost_today'', True, TyPtr TyFloat),
     (''daily_costs'', True, TySlice api_DailyCost),
     (''object'', True, TyPtr TyString),
     (''sessions'', True, TySlice api_SessionUsage),
     (''total_cost_usd'', True, TyPtr TyFloat)]"

text \<open>Every struct of the file that is JSON.\<close>

definition apiStructs :: "gotype list" where
  "apiStructs =
    [api_MCPServerSummary, api_PolicySummary, api_SkillSummary, api_AgentObject,
     api_BrowserActionRequestEvent, api_ConversationRef, api_ErrorDetail, api_IncompleteDetails,
     api_UsageDetails, api_Usage, api_ResponseObject, api_CancelledEvent, api_ChildSessionSummary,
     api_ChildSessionList, api_ClientTaskCancelEvent, api_CompactionCompletedEvent, api_CompactionData,
     api_CompactionFailedEvent, api_CompactionInProgressEvent, api_CompletedEvent, api_ConversationDeleted,
     api_ConversationItem, api_CreatedEvent, api_ElicitationRequestParams, api_ElicitationRequestEvent,
     api_ElicitationResolvedEvent, api_ErrorData, api_RetryErrorDetail, api_ErrorEvent, api_FailedEvent,
     api_FunctionCallData, api_FunctionCallOutputData, api_HeartbeatEvent, api_InProgressEvent,
     api_IncompleteEvent, api_MCPServerStartup, api_MessageData, api_ModelUsage,
     api_NativeReasoningEffortOption, api_NativeModelOption, api_NativeToolData, api_OutputFileDoneEvent,
     api_OutputItemDoneEvent, api_OutputTextDeltaEvent, api_PaginatedList, api_PolicyDeniedEvent,
     api_PresenceViewer, api_QueuedEvent, api_ReasoningData, api_ReasoningStartedEvent,
     api_ReasoningSummaryTextDeltaEvent, api_ReasoningTextDeltaEvent, api_ResourceEventData, api_RetryEvent,
     api_RoutingDecisionData, api_SandboxStatus, api_SessionAgentChangedEvent,
     api_SessionChangedFilesInvalidatedEvent, api_SessionChildSessionUpdatedEvent,
     api_SessionCollaborationModeEvent, api_SessionCreatedEvent, api_SessionForkRequest,
     api_SessionGitOptions, api_SessionHeartbeatEvent, api_SessionInputConsumedPayload,
     api_SessionInputConsumedEvent, api_SessionInterruptedPayload, api_SessionInterruptedEvent,
     api_SessionListItem, api_SessionList, api_SessionMCPStartupEvent, api_SessionModelEvent,
     api_SessionModelOptionsEvent, api_SessionPresenceEvent, api_SessionReasoningEffortEvent,
     api_SessionResourceCreatedEvent, api_SessionResourceDeletedEvent, api_SessionResponse,
     api_SessionSandboxStatusEvent, api_SessionSkillsEvent, api_SessionStatusEvent,
     api_SessionSupersededEvent, api_SessionTerminalActivityEvent, api_SessionTerminalPendingEvent,
     api_SessionTodosEvent, api_SessionUsageEvent, api_SlashCommandData, api_TerminalCommandData,
     api_ToolOutputDeltaEvent, api_TurnCancelledEvent, api_TurnCompletedEvent, api_TurnFailedEvent,
     api_TurnStartedEvent, api_UpdateSessionRequest, api_AddCommentRequest,
     api_AutomaticSessionRenameRequest, api_AutomaticSessionRenameResponse, api_BrandingLogosInfo,
     api_BrandingInfo, api_ClearCodexGoalResponse, api_CodexGoalObject, api_CodexGoalResponse,
     api_CopyFilesRequest, api_CreateDefaultPolicyRequest, api_CreateDirectoryRequest,
     api_CreateProjectRequest, api_CreateSessionPolicyRequest, api_DailyCost, api_GrantPermissionRequest,
     api_ValidationError, api_HTTPValidationError, api_ImportItemInput, api_ImportSessionRequest,
     api_ImportSessionResponse, api_LaunchRunnerRequest, api_PermissionObject, api_ReadStatePutRequest,
     api_SendCommentsRequest, api_SmartRoutingSourcesInfo, api_ServerInfoResponse, api_SessionLabelsResponse,
     api_SessionProjectSummary, api_SessionResourceObject, api_SessionResourcePaginatedList,
     api_SessionSwitchAgentRequest, api_SessionUsage, api_SetCodexGoalRequest, api_SetSharingRequest,
     api_StoreHarnessCredentialRequest, api_UpdateCodexGoalStatusRequest, api_UpdateCommentRequest,
     api_UpdateDefaultPolicyRequest, api_UpdateProjectRequest, api_UpdateSessionPolicyRequest,
     api_UpsertMCPServerRequest, api_UsageReport]"

text \<open>types.go: the structs it names, by the name.\<close>

definition typeAliases :: "(string \<times> gotype) list" where
  "typeAliases =
    [(''ConversationRef'', api_ConversationRef),
     (''ElicitationRequestParams'', api_ElicitationRequestParams), (''ErrorDetail'', api_ErrorDetail),
     (''IncompleteDetails'', api_IncompleteDetails), (''MCPServerStartup'', api_MCPServerStartup),
     (''ModelUsage'', api_ModelUsage), (''PresenceViewer'', api_PresenceViewer),
     (''ResponseObject'', api_ResponseObject), (''RetryErrorDetail'', api_RetryErrorDetail),
     (''SessionInputConsumedPayload'', api_SessionInputConsumedPayload),
     (''SessionInterruptedPayload'', api_SessionInterruptedPayload), (''Usage'', api_Usage),
     (''UsageDetails'', api_UsageDetails)]"

text \<open>The JSON body of an endpoint, by its name.\<close>

definition jsonBodies :: "(string \<times> gotype) list" where
  "jsonBodies =
    [(''CreateHostDirectoryV1HostsHostIDDirectoriesPostJSONRequestBody'',
       api_CreateDirectoryRequest),
     (''StoreHostHarnessCredentialV1HostsHostIDHarnessesHarnessCredentialPostJSONRequestBody'',
       api_StoreHarnessCredentialRequest),
     (''LaunchRunnerV1HostsHostIDRunnersPostJSONRequestBody'',
       api_LaunchRunnerRequest),
     (''ImportSessionV1ImportsPostJSONRequestBody'',
       api_ImportSessionRequest),
     (''CreatePolicyV1PoliciesPostJSONRequestBody'',
       api_CreateDefaultPolicyRequest),
     (''UpdatePolicyV1PoliciesPolicyIDPatchJSONRequestBody'',
       api_UpdateDefaultPolicyRequest),
     (''CreateProjectV1ProjectsPostJSONRequestBody'',
       api_CreateProjectRequest),
     (''UpdateProjectV1ProjectsProjectIDPatchJSONRequestBody'',
       api_UpdateProjectRequest),
     (''UpdateSessionV1SessionsSessionIDPatchJSONRequestBody'',
       api_UpdateSessionRequest),
     (''CreateMcpServerV1SessionsSessionIDAgentMcpServersPostJSONRequestBody'',
       api_UpsertMCPServerRequest),
     (''UpdateMcpServerV1SessionsSessionIDAgentMcpServersServerNamePutJSONRequestBody'',
       api_UpsertMCPServerRequest),
     (''AutomaticallyRenameSessionV1SessionsSessionIDAutoTitlePostJSONRequestBody'',
       api_AutomaticSessionRenameRequest),
     (''SetCodexGoalV1SessionsSessionIDCodexGoalPutJSONRequestBody'',
       api_SetCodexGoalRequest),
     (''UpdateCodexGoalStatusV1SessionsSessionIDCodexGoalStatusPatchJSONRequestBody'',
       api_UpdateCodexGoalStatusRequest),
     (''AddCommentV1SessionsSessionIDCommentsPostJSONRequestBody'',
       api_AddCommentRequest),
     (''SendToAgentV1SessionsSessionIDCommentsSendPostJSONRequestBody'',
       api_SendCommentsRequest),
     (''UpdateCommentV1SessionsSessionIDCommentsCommentIDPatchJSONRequestBody'',
       api_UpdateCommentRequest),
     (''GrantPermissionV1SessionsSessionIDPermissionsPutJSONRequestBody'',
       api_GrantPermissionRequest),
     (''CreatePolicyV1SessionsSessionIDPoliciesPostJSONRequestBody'',
       api_CreateSessionPolicyRequest),
     (''UpdatePolicyV1SessionsSessionIDPoliciesPolicyIDPatchJSONRequestBody'',
       api_UpdateSessionPolicyRequest),
     (''PutReadStateV1SessionsSessionIDReadStatePutJSONRequestBody'',
       api_ReadStatePutRequest),
     (''CopySessionFilesV1SessionsSessionIDResourcesFilesCopyPostJSONRequestBody'',
       api_CopyFilesRequest),
     (''SwitchSessionAgentV1SessionsSessionIDSwitchAgentPostJSONRequestBody'',
       api_SessionSwitchAgentRequest),
     (''ForkSessionV1SessionsSourceIDForkPostJSONRequestBody'',
       api_SessionForkRequest),
     (''SetSharingV1SharingPutJSONRequestBody'',
       api_SetSharingRequest)]"

section \<open>The structs as the codec sees them\<close>

lemma apiStructs_plain: "list_all plainType apiStructs"
  by code_simp

definition customStruct :: "gotype \<Rightarrow> bool" where
  "customStruct ty \<longleftrightarrow> ty = api_ElicitationRequestParams \<or> ty = api_ElicitationRequestEvent"

lemma apiStructs_solid: "list_all (\<lambda>ty. solid ty \<or> customStruct ty) apiStructs"
  by code_simp

lemma names_known: "set (map snd typeAliases) \<subseteq> set apiStructs" "set (map snd jsonBodies) \<subseteq> set apiStructs"
  by (simp_all add: typeAliases_def jsonBodies_def apiStructs_def)

text \<open>No two fields of a struct have names that a decoder takes for the same, and a value of a struct
  is read back from what the encoder writes of it, apart from the struct with methods of its own and
  the event that holds it.\<close>

theorem api_structs_roundtrip:
  assumes "ty \<in> set apiStructs" "\<not> customStruct ty"
    and "formatsFloats fmt" "hasType ty v" "okValue ty v"
    and "wfText (encode fmt mj ty v)" "depth (encode fmt mj ty v) \<le> maxNestingDepth"
  shows "goodType ty \<and> Unmarshal apiCustom ty (zeroOf ty) (Marshal fmt mj ty v) = Inr (tidy ty v)"
proof -
  have "goodType ty" using apiStructs_plain assms(1) plain_good(1) by (simp add: list_all_iff)
  moreover have "solid ty" using apiStructs_solid assms(1,2) by (auto simp: list_all_iff)
  ultimately show ?thesis using Unmarshal_Marshal [OF assms(3-5) _ assms(6,7)] by blast
qed

theorem api_structs_roundtrip_witness:
  "Unmarshal apiCustom api_DailyCost (zeroOf api_DailyCost)
     (Marshal exactFmt (\<lambda>n ty v. TNull) api_DailyCost (VStruct [(''cost_usd'', VPtr None), (''day'', VString ''d'')])) =
    Inr (VStruct [(''cost_usd'', VPtr None), (''day'', VString ''d'')])"
proof -
  let ?v = "VStruct [(''cost_usd'', VPtr None), (''day'', VString ''d'')]"
  have e: "encode exactFmt (\<lambda>n ty v. TNull) api_DailyCost ?v = TObj [(''day'', TStr ''d'')]"
    by (simp add: api_DailyCost_def fieldsOf_def isEmptyValue_def)
  have w: "wfText (TObj [(''day'', TStr ''d'')])" by code_simp
  have t: "hasType api_DailyCost ?v" "okValue api_DailyCost ?v" "tidy api_DailyCost ?v = ?v"
    by (simp_all add: api_DailyCost_def fieldsOf_def isEmptyValue_def)
  have c: "\<not> customStruct api_DailyCost"
    by (simp add: customStruct_def api_DailyCost_def api_ElicitationRequestParams_def api_ElicitationRequestEvent_def)
  have m: "api_DailyCost \<in> set apiStructs" by (simp add: apiStructs_def)
  show ?thesis
    using api_structs_roundtrip [OF m c exactFmt_formats t(1,2), of "\<lambda>n ty v. TNull"] w by (simp add: e t(3) maxNestingDepth_def)
qed

end
