(* ===== verification/Unions.thy ===== *)
theory Unions
  imports Discriminator Elicit
begin

text \<open>
  internal/api/api.gen.go: the functions of the unions, As, From and Merge of every variant, and their
  JSON methods. A union is the bytes of its json.RawMessage. The merge of a third-party runtime is
  the argument \<open>merge\<close>: the bytes it returns and its error.

  The lemmas show that decoding a struct does not depend on the order of its members, and that what
  From stores ValueByDiscriminator finds: the variant, and its value with the variant's type.
\<close>

section \<open>Marshalling a variant\<close>

definition apiMarshal :: "floatFmt \<Rightarrow> marshaler" where
  "apiMarshal fmt n ty v =
    (if TyCustom n ty = api_ElicitationRequestParams then ElicitationRequestParams_MarshalJSON fmt v else TNull)"

definition jsonMarshal :: "floatFmt \<Rightarrow> gotype \<Rightarrow> goval \<Rightarrow> goerr + string" where
  "jsonMarshal fmt ty v = Inr (Marshal fmt (apiMarshal fmt) ty v)"

type_synonym jsonMerge = "string \<Rightarrow> string \<Rightarrow> string \<times> goerr option"

text \<open>The object with the discriminator that From and Merge write into a variant.\<close>

definition typePatch :: "string \<Rightarrow> string" where
  "typePatch d = ''{'' @ [CHR 0x22] @ ''type'' @ [CHR 0x22] @ '':'' @ [CHR 0x22] @ d @ [CHR 0x22] @ ''}''"

section \<open>The bodies of the generated functions\<close>

text \<open>Each returns its error and the bytes of the union after it.\<close>

definition fromTyped :: "floatFmt \<Rightarrow> jsonMerge \<Rightarrow> gotype \<Rightarrow> string \<Rightarrow> goval \<Rightarrow> string \<Rightarrow> goerr option \<times> string" where
  "fromTyped fmt merge ty d v t = (case jsonMarshal fmt ty v of
      Inl err \<Rightarrow> (Some err, t)
    | Inr b \<Rightarrow> let (b, err) = merge b (typePatch d) in (err, b))"

definition mergeTyped :: "floatFmt \<Rightarrow> jsonMerge \<Rightarrow> gotype \<Rightarrow> string \<Rightarrow> goval \<Rightarrow> string \<Rightarrow> goerr option \<times> string" where
  "mergeTyped fmt merge ty d v t = (case jsonMarshal fmt ty v of
      Inl err \<Rightarrow> (Some err, t)
    | Inr b \<Rightarrow> (case merge b (typePatch d) of
          (b, Some err) \<Rightarrow> (Some err, t)
        | (b, None) \<Rightarrow> let (merged, err) = merge t b in (err, merged)))"

text \<open>The unions without a discriminator. A nil slice of bytes is empty.\<close>

definition fromPlain :: "floatFmt \<Rightarrow> gotype \<Rightarrow> goval \<Rightarrow> string \<Rightarrow> goerr option \<times> string" where
  "fromPlain fmt ty v t = (case jsonMarshal fmt ty v of Inl err \<Rightarrow> (Some err, []) | Inr b \<Rightarrow> (None, b))"

definition mergePlain :: "floatFmt \<Rightarrow> jsonMerge \<Rightarrow> gotype \<Rightarrow> goval \<Rightarrow> string \<Rightarrow> goerr option \<times> string" where
  "mergePlain fmt merge ty v t = (case jsonMarshal fmt ty v of
      Inl err \<Rightarrow> (Some err, t)
    | Inr b \<Rightarrow> let (merged, err) = merge t b in (err, merged))"

text \<open>MarshalJSON and UnmarshalJSON of a union: those of its json.RawMessage.\<close>

definition ServerStreamEvent_MarshalJSON :: "serverStreamEvent \<Rightarrow> string" where
  "ServerStreamEvent_MarshalJSON t = (if t = [] then ''null'' else t)"

definition ServerStreamEvent_UnmarshalJSON :: "string \<Rightarrow> serverStreamEvent \<Rightarrow> serverStreamEvent" where
  "ServerStreamEvent_UnmarshalJSON b t = b"

section \<open>The generated functions\<close>

named_theorems union_functions

definition AsSessionStatusEvent :: "serverStreamEvent \<Rightarrow> goerr + goval" where [union_functions]:
  "AsSessionStatusEvent t = Unmarshal apiCustom api_SessionStatusEvent (zeroOf api_SessionStatusEvent) t"

definition FromSessionStatusEvent :: "floatFmt \<Rightarrow> jsonMerge \<Rightarrow> goval \<Rightarrow> serverStreamEvent \<Rightarrow> goerr option \<times> serverStreamEvent" where [union_functions]:
  "FromSessionStatusEvent fmt merge v t = fromTyped fmt merge api_SessionStatusEvent ''session.status'' v t"

definition MergeSessionStatusEvent :: "floatFmt \<Rightarrow> jsonMerge \<Rightarrow> goval \<Rightarrow> serverStreamEvent \<Rightarrow> goerr option \<times> serverStreamEvent" where [union_functions]:
  "MergeSessionStatusEvent fmt merge v t = mergeTyped fmt merge api_SessionStatusEvent ''session.status'' v t"

definition AsSessionUsageEvent :: "serverStreamEvent \<Rightarrow> goerr + goval" where [union_functions]:
  "AsSessionUsageEvent t = Unmarshal apiCustom api_SessionUsageEvent (zeroOf api_SessionUsageEvent) t"

definition FromSessionUsageEvent :: "floatFmt \<Rightarrow> jsonMerge \<Rightarrow> goval \<Rightarrow> serverStreamEvent \<Rightarrow> goerr option \<times> serverStreamEvent" where [union_functions]:
  "FromSessionUsageEvent fmt merge v t = fromTyped fmt merge api_SessionUsageEvent ''session.usage'' v t"

definition MergeSessionUsageEvent :: "floatFmt \<Rightarrow> jsonMerge \<Rightarrow> goval \<Rightarrow> serverStreamEvent \<Rightarrow> goerr option \<times> serverStreamEvent" where [union_functions]:
  "MergeSessionUsageEvent fmt merge v t = mergeTyped fmt merge api_SessionUsageEvent ''session.usage'' v t"

definition AsSessionModelEvent :: "serverStreamEvent \<Rightarrow> goerr + goval" where [union_functions]:
  "AsSessionModelEvent t = Unmarshal apiCustom api_SessionModelEvent (zeroOf api_SessionModelEvent) t"

definition FromSessionModelEvent :: "floatFmt \<Rightarrow> jsonMerge \<Rightarrow> goval \<Rightarrow> serverStreamEvent \<Rightarrow> goerr option \<times> serverStreamEvent" where [union_functions]:
  "FromSessionModelEvent fmt merge v t = fromTyped fmt merge api_SessionModelEvent ''session.model'' v t"

definition MergeSessionModelEvent :: "floatFmt \<Rightarrow> jsonMerge \<Rightarrow> goval \<Rightarrow> serverStreamEvent \<Rightarrow> goerr option \<times> serverStreamEvent" where [union_functions]:
  "MergeSessionModelEvent fmt merge v t = mergeTyped fmt merge api_SessionModelEvent ''session.model'' v t"

definition AsSessionReasoningEffortEvent :: "serverStreamEvent \<Rightarrow> goerr + goval" where [union_functions]:
  "AsSessionReasoningEffortEvent t = Unmarshal apiCustom api_SessionReasoningEffortEvent (zeroOf api_SessionReasoningEffortEvent) t"

definition FromSessionReasoningEffortEvent :: "floatFmt \<Rightarrow> jsonMerge \<Rightarrow> goval \<Rightarrow> serverStreamEvent \<Rightarrow> goerr option \<times> serverStreamEvent" where [union_functions]:
  "FromSessionReasoningEffortEvent fmt merge v t = fromTyped fmt merge api_SessionReasoningEffortEvent ''session.reasoning_effort'' v t"

definition MergeSessionReasoningEffortEvent :: "floatFmt \<Rightarrow> jsonMerge \<Rightarrow> goval \<Rightarrow> serverStreamEvent \<Rightarrow> goerr option \<times> serverStreamEvent" where [union_functions]:
  "MergeSessionReasoningEffortEvent fmt merge v t = mergeTyped fmt merge api_SessionReasoningEffortEvent ''session.reasoning_effort'' v t"

definition AsSessionCollaborationModeEvent :: "serverStreamEvent \<Rightarrow> goerr + goval" where [union_functions]:
  "AsSessionCollaborationModeEvent t = Unmarshal apiCustom api_SessionCollaborationModeEvent (zeroOf api_SessionCollaborationModeEvent) t"

definition FromSessionCollaborationModeEvent :: "floatFmt \<Rightarrow> jsonMerge \<Rightarrow> goval \<Rightarrow> serverStreamEvent \<Rightarrow> goerr option \<times> serverStreamEvent" where [union_functions]:
  "FromSessionCollaborationModeEvent fmt merge v t = fromTyped fmt merge api_SessionCollaborationModeEvent ''session.collaboration_mode'' v t"

definition MergeSessionCollaborationModeEvent :: "floatFmt \<Rightarrow> jsonMerge \<Rightarrow> goval \<Rightarrow> serverStreamEvent \<Rightarrow> goerr option \<times> serverStreamEvent" where [union_functions]:
  "MergeSessionCollaborationModeEvent fmt merge v t = mergeTyped fmt merge api_SessionCollaborationModeEvent ''session.collaboration_mode'' v t"

definition AsSessionAgentChangedEvent :: "serverStreamEvent \<Rightarrow> goerr + goval" where [union_functions]:
  "AsSessionAgentChangedEvent t = Unmarshal apiCustom api_SessionAgentChangedEvent (zeroOf api_SessionAgentChangedEvent) t"

definition FromSessionAgentChangedEvent :: "floatFmt \<Rightarrow> jsonMerge \<Rightarrow> goval \<Rightarrow> serverStreamEvent \<Rightarrow> goerr option \<times> serverStreamEvent" where [union_functions]:
  "FromSessionAgentChangedEvent fmt merge v t = fromTyped fmt merge api_SessionAgentChangedEvent ''session.agent_changed'' v t"

definition MergeSessionAgentChangedEvent :: "floatFmt \<Rightarrow> jsonMerge \<Rightarrow> goval \<Rightarrow> serverStreamEvent \<Rightarrow> goerr option \<times> serverStreamEvent" where [union_functions]:
  "MergeSessionAgentChangedEvent fmt merge v t = mergeTyped fmt merge api_SessionAgentChangedEvent ''session.agent_changed'' v t"

definition AsSessionTodosEvent :: "serverStreamEvent \<Rightarrow> goerr + goval" where [union_functions]:
  "AsSessionTodosEvent t = Unmarshal apiCustom api_SessionTodosEvent (zeroOf api_SessionTodosEvent) t"

definition FromSessionTodosEvent :: "floatFmt \<Rightarrow> jsonMerge \<Rightarrow> goval \<Rightarrow> serverStreamEvent \<Rightarrow> goerr option \<times> serverStreamEvent" where [union_functions]:
  "FromSessionTodosEvent fmt merge v t = fromTyped fmt merge api_SessionTodosEvent ''session.todos'' v t"

definition MergeSessionTodosEvent :: "floatFmt \<Rightarrow> jsonMerge \<Rightarrow> goval \<Rightarrow> serverStreamEvent \<Rightarrow> goerr option \<times> serverStreamEvent" where [union_functions]:
  "MergeSessionTodosEvent fmt merge v t = mergeTyped fmt merge api_SessionTodosEvent ''session.todos'' v t"

definition AsSessionTerminalPendingEvent :: "serverStreamEvent \<Rightarrow> goerr + goval" where [union_functions]:
  "AsSessionTerminalPendingEvent t = Unmarshal apiCustom api_SessionTerminalPendingEvent (zeroOf api_SessionTerminalPendingEvent) t"

definition FromSessionTerminalPendingEvent :: "floatFmt \<Rightarrow> jsonMerge \<Rightarrow> goval \<Rightarrow> serverStreamEvent \<Rightarrow> goerr option \<times> serverStreamEvent" where [union_functions]:
  "FromSessionTerminalPendingEvent fmt merge v t = fromTyped fmt merge api_SessionTerminalPendingEvent ''session.terminal_pending'' v t"

definition MergeSessionTerminalPendingEvent :: "floatFmt \<Rightarrow> jsonMerge \<Rightarrow> goval \<Rightarrow> serverStreamEvent \<Rightarrow> goerr option \<times> serverStreamEvent" where [union_functions]:
  "MergeSessionTerminalPendingEvent fmt merge v t = mergeTyped fmt merge api_SessionTerminalPendingEvent ''session.terminal_pending'' v t"

definition AsSessionSandboxStatusEvent :: "serverStreamEvent \<Rightarrow> goerr + goval" where [union_functions]:
  "AsSessionSandboxStatusEvent t = Unmarshal apiCustom api_SessionSandboxStatusEvent (zeroOf api_SessionSandboxStatusEvent) t"

definition FromSessionSandboxStatusEvent :: "floatFmt \<Rightarrow> jsonMerge \<Rightarrow> goval \<Rightarrow> serverStreamEvent \<Rightarrow> goerr option \<times> serverStreamEvent" where [union_functions]:
  "FromSessionSandboxStatusEvent fmt merge v t = fromTyped fmt merge api_SessionSandboxStatusEvent ''session.sandbox_status'' v t"

definition MergeSessionSandboxStatusEvent :: "floatFmt \<Rightarrow> jsonMerge \<Rightarrow> goval \<Rightarrow> serverStreamEvent \<Rightarrow> goerr option \<times> serverStreamEvent" where [union_functions]:
  "MergeSessionSandboxStatusEvent fmt merge v t = mergeTyped fmt merge api_SessionSandboxStatusEvent ''session.sandbox_status'' v t"

definition AsSessionMCPStartupEvent :: "serverStreamEvent \<Rightarrow> goerr + goval" where [union_functions]:
  "AsSessionMCPStartupEvent t = Unmarshal apiCustom api_SessionMCPStartupEvent (zeroOf api_SessionMCPStartupEvent) t"

definition FromSessionMCPStartupEvent :: "floatFmt \<Rightarrow> jsonMerge \<Rightarrow> goval \<Rightarrow> serverStreamEvent \<Rightarrow> goerr option \<times> serverStreamEvent" where [union_functions]:
  "FromSessionMCPStartupEvent fmt merge v t = fromTyped fmt merge api_SessionMCPStartupEvent ''session.mcp_startup'' v t"

definition MergeSessionMCPStartupEvent :: "floatFmt \<Rightarrow> jsonMerge \<Rightarrow> goval \<Rightarrow> serverStreamEvent \<Rightarrow> goerr option \<times> serverStreamEvent" where [union_functions]:
  "MergeSessionMCPStartupEvent fmt merge v t = mergeTyped fmt merge api_SessionMCPStartupEvent ''session.mcp_startup'' v t"

definition AsSessionSkillsEvent :: "serverStreamEvent \<Rightarrow> goerr + goval" where [union_functions]:
  "AsSessionSkillsEvent t = Unmarshal apiCustom api_SessionSkillsEvent (zeroOf api_SessionSkillsEvent) t"

definition FromSessionSkillsEvent :: "floatFmt \<Rightarrow> jsonMerge \<Rightarrow> goval \<Rightarrow> serverStreamEvent \<Rightarrow> goerr option \<times> serverStreamEvent" where [union_functions]:
  "FromSessionSkillsEvent fmt merge v t = fromTyped fmt merge api_SessionSkillsEvent ''session.skills'' v t"

definition MergeSessionSkillsEvent :: "floatFmt \<Rightarrow> jsonMerge \<Rightarrow> goval \<Rightarrow> serverStreamEvent \<Rightarrow> goerr option \<times> serverStreamEvent" where [union_functions]:
  "MergeSessionSkillsEvent fmt merge v t = mergeTyped fmt merge api_SessionSkillsEvent ''session.skills'' v t"

definition AsSessionModelOptionsEvent :: "serverStreamEvent \<Rightarrow> goerr + goval" where [union_functions]:
  "AsSessionModelOptionsEvent t = Unmarshal apiCustom api_SessionModelOptionsEvent (zeroOf api_SessionModelOptionsEvent) t"

definition FromSessionModelOptionsEvent :: "floatFmt \<Rightarrow> jsonMerge \<Rightarrow> goval \<Rightarrow> serverStreamEvent \<Rightarrow> goerr option \<times> serverStreamEvent" where [union_functions]:
  "FromSessionModelOptionsEvent fmt merge v t = fromTyped fmt merge api_SessionModelOptionsEvent ''session.model_options'' v t"

definition MergeSessionModelOptionsEvent :: "floatFmt \<Rightarrow> jsonMerge \<Rightarrow> goval \<Rightarrow> serverStreamEvent \<Rightarrow> goerr option \<times> serverStreamEvent" where [union_functions]:
  "MergeSessionModelOptionsEvent fmt merge v t = mergeTyped fmt merge api_SessionModelOptionsEvent ''session.model_options'' v t"

definition AsSessionInputConsumedEvent :: "serverStreamEvent \<Rightarrow> goerr + goval" where [union_functions]:
  "AsSessionInputConsumedEvent t = Unmarshal apiCustom api_SessionInputConsumedEvent (zeroOf api_SessionInputConsumedEvent) t"

definition FromSessionInputConsumedEvent :: "floatFmt \<Rightarrow> jsonMerge \<Rightarrow> goval \<Rightarrow> serverStreamEvent \<Rightarrow> goerr option \<times> serverStreamEvent" where [union_functions]:
  "FromSessionInputConsumedEvent fmt merge v t = fromTyped fmt merge api_SessionInputConsumedEvent ''session.input.consumed'' v t"

definition MergeSessionInputConsumedEvent :: "floatFmt \<Rightarrow> jsonMerge \<Rightarrow> goval \<Rightarrow> serverStreamEvent \<Rightarrow> goerr option \<times> serverStreamEvent" where [union_functions]:
  "MergeSessionInputConsumedEvent fmt merge v t = mergeTyped fmt merge api_SessionInputConsumedEvent ''session.input.consumed'' v t"

definition AsSessionInterruptedEvent :: "serverStreamEvent \<Rightarrow> goerr + goval" where [union_functions]:
  "AsSessionInterruptedEvent t = Unmarshal apiCustom api_SessionInterruptedEvent (zeroOf api_SessionInterruptedEvent) t"

definition FromSessionInterruptedEvent :: "floatFmt \<Rightarrow> jsonMerge \<Rightarrow> goval \<Rightarrow> serverStreamEvent \<Rightarrow> goerr option \<times> serverStreamEvent" where [union_functions]:
  "FromSessionInterruptedEvent fmt merge v t = fromTyped fmt merge api_SessionInterruptedEvent ''session.interrupted'' v t"

definition MergeSessionInterruptedEvent :: "floatFmt \<Rightarrow> jsonMerge \<Rightarrow> goval \<Rightarrow> serverStreamEvent \<Rightarrow> goerr option \<times> serverStreamEvent" where [union_functions]:
  "MergeSessionInterruptedEvent fmt merge v t = mergeTyped fmt merge api_SessionInterruptedEvent ''session.interrupted'' v t"

definition AsSessionCreatedEvent :: "serverStreamEvent \<Rightarrow> goerr + goval" where [union_functions]:
  "AsSessionCreatedEvent t = Unmarshal apiCustom api_SessionCreatedEvent (zeroOf api_SessionCreatedEvent) t"

definition FromSessionCreatedEvent :: "floatFmt \<Rightarrow> jsonMerge \<Rightarrow> goval \<Rightarrow> serverStreamEvent \<Rightarrow> goerr option \<times> serverStreamEvent" where [union_functions]:
  "FromSessionCreatedEvent fmt merge v t = fromTyped fmt merge api_SessionCreatedEvent ''session.created'' v t"

definition MergeSessionCreatedEvent :: "floatFmt \<Rightarrow> jsonMerge \<Rightarrow> goval \<Rightarrow> serverStreamEvent \<Rightarrow> goerr option \<times> serverStreamEvent" where [union_functions]:
  "MergeSessionCreatedEvent fmt merge v t = mergeTyped fmt merge api_SessionCreatedEvent ''session.created'' v t"

definition AsSessionSupersededEvent :: "serverStreamEvent \<Rightarrow> goerr + goval" where [union_functions]:
  "AsSessionSupersededEvent t = Unmarshal apiCustom api_SessionSupersededEvent (zeroOf api_SessionSupersededEvent) t"

definition FromSessionSupersededEvent :: "floatFmt \<Rightarrow> jsonMerge \<Rightarrow> goval \<Rightarrow> serverStreamEvent \<Rightarrow> goerr option \<times> serverStreamEvent" where [union_functions]:
  "FromSessionSupersededEvent fmt merge v t = fromTyped fmt merge api_SessionSupersededEvent ''session.superseded'' v t"

definition MergeSessionSupersededEvent :: "floatFmt \<Rightarrow> jsonMerge \<Rightarrow> goval \<Rightarrow> serverStreamEvent \<Rightarrow> goerr option \<times> serverStreamEvent" where [union_functions]:
  "MergeSessionSupersededEvent fmt merge v t = mergeTyped fmt merge api_SessionSupersededEvent ''session.superseded'' v t"

definition AsSessionPresenceEvent :: "serverStreamEvent \<Rightarrow> goerr + goval" where [union_functions]:
  "AsSessionPresenceEvent t = Unmarshal apiCustom api_SessionPresenceEvent (zeroOf api_SessionPresenceEvent) t"

definition FromSessionPresenceEvent :: "floatFmt \<Rightarrow> jsonMerge \<Rightarrow> goval \<Rightarrow> serverStreamEvent \<Rightarrow> goerr option \<times> serverStreamEvent" where [union_functions]:
  "FromSessionPresenceEvent fmt merge v t = fromTyped fmt merge api_SessionPresenceEvent ''session.presence'' v t"

definition MergeSessionPresenceEvent :: "floatFmt \<Rightarrow> jsonMerge \<Rightarrow> goval \<Rightarrow> serverStreamEvent \<Rightarrow> goerr option \<times> serverStreamEvent" where [union_functions]:
  "MergeSessionPresenceEvent fmt merge v t = mergeTyped fmt merge api_SessionPresenceEvent ''session.presence'' v t"

definition AsSessionResourceCreatedEvent :: "serverStreamEvent \<Rightarrow> goerr + goval" where [union_functions]:
  "AsSessionResourceCreatedEvent t = Unmarshal apiCustom api_SessionResourceCreatedEvent (zeroOf api_SessionResourceCreatedEvent) t"

definition FromSessionResourceCreatedEvent :: "floatFmt \<Rightarrow> jsonMerge \<Rightarrow> goval \<Rightarrow> serverStreamEvent \<Rightarrow> goerr option \<times> serverStreamEvent" where [union_functions]:
  "FromSessionResourceCreatedEvent fmt merge v t = fromTyped fmt merge api_SessionResourceCreatedEvent ''session.resource.created'' v t"

definition MergeSessionResourceCreatedEvent :: "floatFmt \<Rightarrow> jsonMerge \<Rightarrow> goval \<Rightarrow> serverStreamEvent \<Rightarrow> goerr option \<times> serverStreamEvent" where [union_functions]:
  "MergeSessionResourceCreatedEvent fmt merge v t = mergeTyped fmt merge api_SessionResourceCreatedEvent ''session.resource.created'' v t"

definition AsSessionResourceDeletedEvent :: "serverStreamEvent \<Rightarrow> goerr + goval" where [union_functions]:
  "AsSessionResourceDeletedEvent t = Unmarshal apiCustom api_SessionResourceDeletedEvent (zeroOf api_SessionResourceDeletedEvent) t"

definition FromSessionResourceDeletedEvent :: "floatFmt \<Rightarrow> jsonMerge \<Rightarrow> goval \<Rightarrow> serverStreamEvent \<Rightarrow> goerr option \<times> serverStreamEvent" where [union_functions]:
  "FromSessionResourceDeletedEvent fmt merge v t = fromTyped fmt merge api_SessionResourceDeletedEvent ''session.resource.deleted'' v t"

definition MergeSessionResourceDeletedEvent :: "floatFmt \<Rightarrow> jsonMerge \<Rightarrow> goval \<Rightarrow> serverStreamEvent \<Rightarrow> goerr option \<times> serverStreamEvent" where [union_functions]:
  "MergeSessionResourceDeletedEvent fmt merge v t = mergeTyped fmt merge api_SessionResourceDeletedEvent ''session.resource.deleted'' v t"

definition AsSessionChildSessionUpdatedEvent :: "serverStreamEvent \<Rightarrow> goerr + goval" where [union_functions]:
  "AsSessionChildSessionUpdatedEvent t = Unmarshal apiCustom api_SessionChildSessionUpdatedEvent (zeroOf api_SessionChildSessionUpdatedEvent) t"

definition FromSessionChildSessionUpdatedEvent :: "floatFmt \<Rightarrow> jsonMerge \<Rightarrow> goval \<Rightarrow> serverStreamEvent \<Rightarrow> goerr option \<times> serverStreamEvent" where [union_functions]:
  "FromSessionChildSessionUpdatedEvent fmt merge v t = fromTyped fmt merge api_SessionChildSessionUpdatedEvent ''session.child_session.updated'' v t"

definition MergeSessionChildSessionUpdatedEvent :: "floatFmt \<Rightarrow> jsonMerge \<Rightarrow> goval \<Rightarrow> serverStreamEvent \<Rightarrow> goerr option \<times> serverStreamEvent" where [union_functions]:
  "MergeSessionChildSessionUpdatedEvent fmt merge v t = mergeTyped fmt merge api_SessionChildSessionUpdatedEvent ''session.child_session.updated'' v t"

definition AsSessionChangedFilesInvalidatedEvent :: "serverStreamEvent \<Rightarrow> goerr + goval" where [union_functions]:
  "AsSessionChangedFilesInvalidatedEvent t = Unmarshal apiCustom api_SessionChangedFilesInvalidatedEvent (zeroOf api_SessionChangedFilesInvalidatedEvent) t"

definition FromSessionChangedFilesInvalidatedEvent :: "floatFmt \<Rightarrow> jsonMerge \<Rightarrow> goval \<Rightarrow> serverStreamEvent \<Rightarrow> goerr option \<times> serverStreamEvent" where [union_functions]:
  "FromSessionChangedFilesInvalidatedEvent fmt merge v t = fromTyped fmt merge api_SessionChangedFilesInvalidatedEvent ''session.changed_files.invalidated'' v t"

definition MergeSessionChangedFilesInvalidatedEvent :: "floatFmt \<Rightarrow> jsonMerge \<Rightarrow> goval \<Rightarrow> serverStreamEvent \<Rightarrow> goerr option \<times> serverStreamEvent" where [union_functions]:
  "MergeSessionChangedFilesInvalidatedEvent fmt merge v t = mergeTyped fmt merge api_SessionChangedFilesInvalidatedEvent ''session.changed_files.invalidated'' v t"

definition AsSessionTerminalActivityEvent :: "serverStreamEvent \<Rightarrow> goerr + goval" where [union_functions]:
  "AsSessionTerminalActivityEvent t = Unmarshal apiCustom api_SessionTerminalActivityEvent (zeroOf api_SessionTerminalActivityEvent) t"

definition FromSessionTerminalActivityEvent :: "floatFmt \<Rightarrow> jsonMerge \<Rightarrow> goval \<Rightarrow> serverStreamEvent \<Rightarrow> goerr option \<times> serverStreamEvent" where [union_functions]:
  "FromSessionTerminalActivityEvent fmt merge v t = fromTyped fmt merge api_SessionTerminalActivityEvent ''session.terminal.activity'' v t"

definition MergeSessionTerminalActivityEvent :: "floatFmt \<Rightarrow> jsonMerge \<Rightarrow> goval \<Rightarrow> serverStreamEvent \<Rightarrow> goerr option \<times> serverStreamEvent" where [union_functions]:
  "MergeSessionTerminalActivityEvent fmt merge v t = mergeTyped fmt merge api_SessionTerminalActivityEvent ''session.terminal.activity'' v t"

definition AsOutputTextDeltaEvent :: "serverStreamEvent \<Rightarrow> goerr + goval" where [union_functions]:
  "AsOutputTextDeltaEvent t = Unmarshal apiCustom api_OutputTextDeltaEvent (zeroOf api_OutputTextDeltaEvent) t"

definition FromOutputTextDeltaEvent :: "floatFmt \<Rightarrow> jsonMerge \<Rightarrow> goval \<Rightarrow> serverStreamEvent \<Rightarrow> goerr option \<times> serverStreamEvent" where [union_functions]:
  "FromOutputTextDeltaEvent fmt merge v t = fromTyped fmt merge api_OutputTextDeltaEvent ''response.output_text.delta'' v t"

definition MergeOutputTextDeltaEvent :: "floatFmt \<Rightarrow> jsonMerge \<Rightarrow> goval \<Rightarrow> serverStreamEvent \<Rightarrow> goerr option \<times> serverStreamEvent" where [union_functions]:
  "MergeOutputTextDeltaEvent fmt merge v t = mergeTyped fmt merge api_OutputTextDeltaEvent ''response.output_text.delta'' v t"

definition AsToolOutputDeltaEvent :: "serverStreamEvent \<Rightarrow> goerr + goval" where [union_functions]:
  "AsToolOutputDeltaEvent t = Unmarshal apiCustom api_ToolOutputDeltaEvent (zeroOf api_ToolOutputDeltaEvent) t"

definition FromToolOutputDeltaEvent :: "floatFmt \<Rightarrow> jsonMerge \<Rightarrow> goval \<Rightarrow> serverStreamEvent \<Rightarrow> goerr option \<times> serverStreamEvent" where [union_functions]:
  "FromToolOutputDeltaEvent fmt merge v t = fromTyped fmt merge api_ToolOutputDeltaEvent ''response.function_call_output.delta'' v t"

definition MergeToolOutputDeltaEvent :: "floatFmt \<Rightarrow> jsonMerge \<Rightarrow> goval \<Rightarrow> serverStreamEvent \<Rightarrow> goerr option \<times> serverStreamEvent" where [union_functions]:
  "MergeToolOutputDeltaEvent fmt merge v t = mergeTyped fmt merge api_ToolOutputDeltaEvent ''response.function_call_output.delta'' v t"

definition AsReasoningStartedEvent :: "serverStreamEvent \<Rightarrow> goerr + goval" where [union_functions]:
  "AsReasoningStartedEvent t = Unmarshal apiCustom api_ReasoningStartedEvent (zeroOf api_ReasoningStartedEvent) t"

definition FromReasoningStartedEvent :: "floatFmt \<Rightarrow> jsonMerge \<Rightarrow> goval \<Rightarrow> serverStreamEvent \<Rightarrow> goerr option \<times> serverStreamEvent" where [union_functions]:
  "FromReasoningStartedEvent fmt merge v t = fromTyped fmt merge api_ReasoningStartedEvent ''response.reasoning.started'' v t"

definition MergeReasoningStartedEvent :: "floatFmt \<Rightarrow> jsonMerge \<Rightarrow> goval \<Rightarrow> serverStreamEvent \<Rightarrow> goerr option \<times> serverStreamEvent" where [union_functions]:
  "MergeReasoningStartedEvent fmt merge v t = mergeTyped fmt merge api_ReasoningStartedEvent ''response.reasoning.started'' v t"

definition AsReasoningTextDeltaEvent :: "serverStreamEvent \<Rightarrow> goerr + goval" where [union_functions]:
  "AsReasoningTextDeltaEvent t = Unmarshal apiCustom api_ReasoningTextDeltaEvent (zeroOf api_ReasoningTextDeltaEvent) t"

definition FromReasoningTextDeltaEvent :: "floatFmt \<Rightarrow> jsonMerge \<Rightarrow> goval \<Rightarrow> serverStreamEvent \<Rightarrow> goerr option \<times> serverStreamEvent" where [union_functions]:
  "FromReasoningTextDeltaEvent fmt merge v t = fromTyped fmt merge api_ReasoningTextDeltaEvent ''response.reasoning_text.delta'' v t"

definition MergeReasoningTextDeltaEvent :: "floatFmt \<Rightarrow> jsonMerge \<Rightarrow> goval \<Rightarrow> serverStreamEvent \<Rightarrow> goerr option \<times> serverStreamEvent" where [union_functions]:
  "MergeReasoningTextDeltaEvent fmt merge v t = mergeTyped fmt merge api_ReasoningTextDeltaEvent ''response.reasoning_text.delta'' v t"

definition AsReasoningSummaryTextDeltaEvent :: "serverStreamEvent \<Rightarrow> goerr + goval" where [union_functions]:
  "AsReasoningSummaryTextDeltaEvent t = Unmarshal apiCustom api_ReasoningSummaryTextDeltaEvent (zeroOf api_ReasoningSummaryTextDeltaEvent) t"

definition FromReasoningSummaryTextDeltaEvent :: "floatFmt \<Rightarrow> jsonMerge \<Rightarrow> goval \<Rightarrow> serverStreamEvent \<Rightarrow> goerr option \<times> serverStreamEvent" where [union_functions]:
  "FromReasoningSummaryTextDeltaEvent fmt merge v t = fromTyped fmt merge api_ReasoningSummaryTextDeltaEvent ''response.reasoning_summary_text.delta'' v t"

definition MergeReasoningSummaryTextDeltaEvent :: "floatFmt \<Rightarrow> jsonMerge \<Rightarrow> goval \<Rightarrow> serverStreamEvent \<Rightarrow> goerr option \<times> serverStreamEvent" where [union_functions]:
  "MergeReasoningSummaryTextDeltaEvent fmt merge v t = mergeTyped fmt merge api_ReasoningSummaryTextDeltaEvent ''response.reasoning_summary_text.delta'' v t"

definition AsOutputItemDoneEvent :: "serverStreamEvent \<Rightarrow> goerr + goval" where [union_functions]:
  "AsOutputItemDoneEvent t = Unmarshal apiCustom api_OutputItemDoneEvent (zeroOf api_OutputItemDoneEvent) t"

definition FromOutputItemDoneEvent :: "floatFmt \<Rightarrow> jsonMerge \<Rightarrow> goval \<Rightarrow> serverStreamEvent \<Rightarrow> goerr option \<times> serverStreamEvent" where [union_functions]:
  "FromOutputItemDoneEvent fmt merge v t = fromTyped fmt merge api_OutputItemDoneEvent ''response.output_item.done'' v t"

definition MergeOutputItemDoneEvent :: "floatFmt \<Rightarrow> jsonMerge \<Rightarrow> goval \<Rightarrow> serverStreamEvent \<Rightarrow> goerr option \<times> serverStreamEvent" where [union_functions]:
  "MergeOutputItemDoneEvent fmt merge v t = mergeTyped fmt merge api_OutputItemDoneEvent ''response.output_item.done'' v t"

definition AsOutputFileDoneEvent :: "serverStreamEvent \<Rightarrow> goerr + goval" where [union_functions]:
  "AsOutputFileDoneEvent t = Unmarshal apiCustom api_OutputFileDoneEvent (zeroOf api_OutputFileDoneEvent) t"

definition FromOutputFileDoneEvent :: "floatFmt \<Rightarrow> jsonMerge \<Rightarrow> goval \<Rightarrow> serverStreamEvent \<Rightarrow> goerr option \<times> serverStreamEvent" where [union_functions]:
  "FromOutputFileDoneEvent fmt merge v t = fromTyped fmt merge api_OutputFileDoneEvent ''response.output_file.done'' v t"

definition MergeOutputFileDoneEvent :: "floatFmt \<Rightarrow> jsonMerge \<Rightarrow> goval \<Rightarrow> serverStreamEvent \<Rightarrow> goerr option \<times> serverStreamEvent" where [union_functions]:
  "MergeOutputFileDoneEvent fmt merge v t = mergeTyped fmt merge api_OutputFileDoneEvent ''response.output_file.done'' v t"

definition AsHeartbeatEvent :: "serverStreamEvent \<Rightarrow> goerr + goval" where [union_functions]:
  "AsHeartbeatEvent t = Unmarshal apiCustom api_HeartbeatEvent (zeroOf api_HeartbeatEvent) t"

definition FromHeartbeatEvent :: "floatFmt \<Rightarrow> jsonMerge \<Rightarrow> goval \<Rightarrow> serverStreamEvent \<Rightarrow> goerr option \<times> serverStreamEvent" where [union_functions]:
  "FromHeartbeatEvent fmt merge v t = fromTyped fmt merge api_HeartbeatEvent ''response.heartbeat'' v t"

definition MergeHeartbeatEvent :: "floatFmt \<Rightarrow> jsonMerge \<Rightarrow> goval \<Rightarrow> serverStreamEvent \<Rightarrow> goerr option \<times> serverStreamEvent" where [union_functions]:
  "MergeHeartbeatEvent fmt merge v t = mergeTyped fmt merge api_HeartbeatEvent ''response.heartbeat'' v t"

definition AsSessionHeartbeatEvent :: "serverStreamEvent \<Rightarrow> goerr + goval" where [union_functions]:
  "AsSessionHeartbeatEvent t = Unmarshal apiCustom api_SessionHeartbeatEvent (zeroOf api_SessionHeartbeatEvent) t"

definition FromSessionHeartbeatEvent :: "floatFmt \<Rightarrow> jsonMerge \<Rightarrow> goval \<Rightarrow> serverStreamEvent \<Rightarrow> goerr option \<times> serverStreamEvent" where [union_functions]:
  "FromSessionHeartbeatEvent fmt merge v t = fromTyped fmt merge api_SessionHeartbeatEvent ''session.heartbeat'' v t"

definition MergeSessionHeartbeatEvent :: "floatFmt \<Rightarrow> jsonMerge \<Rightarrow> goval \<Rightarrow> serverStreamEvent \<Rightarrow> goerr option \<times> serverStreamEvent" where [union_functions]:
  "MergeSessionHeartbeatEvent fmt merge v t = mergeTyped fmt merge api_SessionHeartbeatEvent ''session.heartbeat'' v t"

definition AsElicitationRequestEvent :: "serverStreamEvent \<Rightarrow> goerr + goval" where [union_functions]:
  "AsElicitationRequestEvent t = Unmarshal apiCustom api_ElicitationRequestEvent (zeroOf api_ElicitationRequestEvent) t"

definition FromElicitationRequestEvent :: "floatFmt \<Rightarrow> jsonMerge \<Rightarrow> goval \<Rightarrow> serverStreamEvent \<Rightarrow> goerr option \<times> serverStreamEvent" where [union_functions]:
  "FromElicitationRequestEvent fmt merge v t = fromTyped fmt merge api_ElicitationRequestEvent ''response.elicitation_request'' v t"

definition MergeElicitationRequestEvent :: "floatFmt \<Rightarrow> jsonMerge \<Rightarrow> goval \<Rightarrow> serverStreamEvent \<Rightarrow> goerr option \<times> serverStreamEvent" where [union_functions]:
  "MergeElicitationRequestEvent fmt merge v t = mergeTyped fmt merge api_ElicitationRequestEvent ''response.elicitation_request'' v t"

definition AsElicitationResolvedEvent :: "serverStreamEvent \<Rightarrow> goerr + goval" where [union_functions]:
  "AsElicitationResolvedEvent t = Unmarshal apiCustom api_ElicitationResolvedEvent (zeroOf api_ElicitationResolvedEvent) t"

definition FromElicitationResolvedEvent :: "floatFmt \<Rightarrow> jsonMerge \<Rightarrow> goval \<Rightarrow> serverStreamEvent \<Rightarrow> goerr option \<times> serverStreamEvent" where [union_functions]:
  "FromElicitationResolvedEvent fmt merge v t = fromTyped fmt merge api_ElicitationResolvedEvent ''response.elicitation_resolved'' v t"

definition MergeElicitationResolvedEvent :: "floatFmt \<Rightarrow> jsonMerge \<Rightarrow> goval \<Rightarrow> serverStreamEvent \<Rightarrow> goerr option \<times> serverStreamEvent" where [union_functions]:
  "MergeElicitationResolvedEvent fmt merge v t = mergeTyped fmt merge api_ElicitationResolvedEvent ''response.elicitation_resolved'' v t"

definition AsBrowserActionRequestEvent :: "serverStreamEvent \<Rightarrow> goerr + goval" where [union_functions]:
  "AsBrowserActionRequestEvent t = Unmarshal apiCustom api_BrowserActionRequestEvent (zeroOf api_BrowserActionRequestEvent) t"

definition FromBrowserActionRequestEvent :: "floatFmt \<Rightarrow> jsonMerge \<Rightarrow> goval \<Rightarrow> serverStreamEvent \<Rightarrow> goerr option \<times> serverStreamEvent" where [union_functions]:
  "FromBrowserActionRequestEvent fmt merge v t = fromTyped fmt merge api_BrowserActionRequestEvent ''browser.action_request'' v t"

definition MergeBrowserActionRequestEvent :: "floatFmt \<Rightarrow> jsonMerge \<Rightarrow> goval \<Rightarrow> serverStreamEvent \<Rightarrow> goerr option \<times> serverStreamEvent" where [union_functions]:
  "MergeBrowserActionRequestEvent fmt merge v t = mergeTyped fmt merge api_BrowserActionRequestEvent ''browser.action_request'' v t"

definition AsPolicyDeniedEvent :: "serverStreamEvent \<Rightarrow> goerr + goval" where [union_functions]:
  "AsPolicyDeniedEvent t = Unmarshal apiCustom api_PolicyDeniedEvent (zeroOf api_PolicyDeniedEvent) t"

definition FromPolicyDeniedEvent :: "floatFmt \<Rightarrow> jsonMerge \<Rightarrow> goval \<Rightarrow> serverStreamEvent \<Rightarrow> goerr option \<times> serverStreamEvent" where [union_functions]:
  "FromPolicyDeniedEvent fmt merge v t = fromTyped fmt merge api_PolicyDeniedEvent ''response.policy_denied'' v t"

definition MergePolicyDeniedEvent :: "floatFmt \<Rightarrow> jsonMerge \<Rightarrow> goval \<Rightarrow> serverStreamEvent \<Rightarrow> goerr option \<times> serverStreamEvent" where [union_functions]:
  "MergePolicyDeniedEvent fmt merge v t = mergeTyped fmt merge api_PolicyDeniedEvent ''response.policy_denied'' v t"

definition AsCreatedEvent :: "serverStreamEvent \<Rightarrow> goerr + goval" where [union_functions]:
  "AsCreatedEvent t = Unmarshal apiCustom api_CreatedEvent (zeroOf api_CreatedEvent) t"

definition FromCreatedEvent :: "floatFmt \<Rightarrow> jsonMerge \<Rightarrow> goval \<Rightarrow> serverStreamEvent \<Rightarrow> goerr option \<times> serverStreamEvent" where [union_functions]:
  "FromCreatedEvent fmt merge v t = fromTyped fmt merge api_CreatedEvent ''response.created'' v t"

definition MergeCreatedEvent :: "floatFmt \<Rightarrow> jsonMerge \<Rightarrow> goval \<Rightarrow> serverStreamEvent \<Rightarrow> goerr option \<times> serverStreamEvent" where [union_functions]:
  "MergeCreatedEvent fmt merge v t = mergeTyped fmt merge api_CreatedEvent ''response.created'' v t"

definition AsQueuedEvent :: "serverStreamEvent \<Rightarrow> goerr + goval" where [union_functions]:
  "AsQueuedEvent t = Unmarshal apiCustom api_QueuedEvent (zeroOf api_QueuedEvent) t"

definition FromQueuedEvent :: "floatFmt \<Rightarrow> jsonMerge \<Rightarrow> goval \<Rightarrow> serverStreamEvent \<Rightarrow> goerr option \<times> serverStreamEvent" where [union_functions]:
  "FromQueuedEvent fmt merge v t = fromTyped fmt merge api_QueuedEvent ''response.queued'' v t"

definition MergeQueuedEvent :: "floatFmt \<Rightarrow> jsonMerge \<Rightarrow> goval \<Rightarrow> serverStreamEvent \<Rightarrow> goerr option \<times> serverStreamEvent" where [union_functions]:
  "MergeQueuedEvent fmt merge v t = mergeTyped fmt merge api_QueuedEvent ''response.queued'' v t"

definition AsInProgressEvent :: "serverStreamEvent \<Rightarrow> goerr + goval" where [union_functions]:
  "AsInProgressEvent t = Unmarshal apiCustom api_InProgressEvent (zeroOf api_InProgressEvent) t"

definition FromInProgressEvent :: "floatFmt \<Rightarrow> jsonMerge \<Rightarrow> goval \<Rightarrow> serverStreamEvent \<Rightarrow> goerr option \<times> serverStreamEvent" where [union_functions]:
  "FromInProgressEvent fmt merge v t = fromTyped fmt merge api_InProgressEvent ''response.in_progress'' v t"

definition MergeInProgressEvent :: "floatFmt \<Rightarrow> jsonMerge \<Rightarrow> goval \<Rightarrow> serverStreamEvent \<Rightarrow> goerr option \<times> serverStreamEvent" where [union_functions]:
  "MergeInProgressEvent fmt merge v t = mergeTyped fmt merge api_InProgressEvent ''response.in_progress'' v t"

definition AsCompletedEvent :: "serverStreamEvent \<Rightarrow> goerr + goval" where [union_functions]:
  "AsCompletedEvent t = Unmarshal apiCustom api_CompletedEvent (zeroOf api_CompletedEvent) t"

definition FromCompletedEvent :: "floatFmt \<Rightarrow> jsonMerge \<Rightarrow> goval \<Rightarrow> serverStreamEvent \<Rightarrow> goerr option \<times> serverStreamEvent" where [union_functions]:
  "FromCompletedEvent fmt merge v t = fromTyped fmt merge api_CompletedEvent ''response.completed'' v t"

definition MergeCompletedEvent :: "floatFmt \<Rightarrow> jsonMerge \<Rightarrow> goval \<Rightarrow> serverStreamEvent \<Rightarrow> goerr option \<times> serverStreamEvent" where [union_functions]:
  "MergeCompletedEvent fmt merge v t = mergeTyped fmt merge api_CompletedEvent ''response.completed'' v t"

definition AsFailedEvent :: "serverStreamEvent \<Rightarrow> goerr + goval" where [union_functions]:
  "AsFailedEvent t = Unmarshal apiCustom api_FailedEvent (zeroOf api_FailedEvent) t"

definition FromFailedEvent :: "floatFmt \<Rightarrow> jsonMerge \<Rightarrow> goval \<Rightarrow> serverStreamEvent \<Rightarrow> goerr option \<times> serverStreamEvent" where [union_functions]:
  "FromFailedEvent fmt merge v t = fromTyped fmt merge api_FailedEvent ''response.failed'' v t"

definition MergeFailedEvent :: "floatFmt \<Rightarrow> jsonMerge \<Rightarrow> goval \<Rightarrow> serverStreamEvent \<Rightarrow> goerr option \<times> serverStreamEvent" where [union_functions]:
  "MergeFailedEvent fmt merge v t = mergeTyped fmt merge api_FailedEvent ''response.failed'' v t"

definition AsCancelledEvent :: "serverStreamEvent \<Rightarrow> goerr + goval" where [union_functions]:
  "AsCancelledEvent t = Unmarshal apiCustom api_CancelledEvent (zeroOf api_CancelledEvent) t"

definition FromCancelledEvent :: "floatFmt \<Rightarrow> jsonMerge \<Rightarrow> goval \<Rightarrow> serverStreamEvent \<Rightarrow> goerr option \<times> serverStreamEvent" where [union_functions]:
  "FromCancelledEvent fmt merge v t = fromTyped fmt merge api_CancelledEvent ''response.cancelled'' v t"

definition MergeCancelledEvent :: "floatFmt \<Rightarrow> jsonMerge \<Rightarrow> goval \<Rightarrow> serverStreamEvent \<Rightarrow> goerr option \<times> serverStreamEvent" where [union_functions]:
  "MergeCancelledEvent fmt merge v t = mergeTyped fmt merge api_CancelledEvent ''response.cancelled'' v t"

definition AsIncompleteEvent :: "serverStreamEvent \<Rightarrow> goerr + goval" where [union_functions]:
  "AsIncompleteEvent t = Unmarshal apiCustom api_IncompleteEvent (zeroOf api_IncompleteEvent) t"

definition FromIncompleteEvent :: "floatFmt \<Rightarrow> jsonMerge \<Rightarrow> goval \<Rightarrow> serverStreamEvent \<Rightarrow> goerr option \<times> serverStreamEvent" where [union_functions]:
  "FromIncompleteEvent fmt merge v t = fromTyped fmt merge api_IncompleteEvent ''response.incomplete'' v t"

definition MergeIncompleteEvent :: "floatFmt \<Rightarrow> jsonMerge \<Rightarrow> goval \<Rightarrow> serverStreamEvent \<Rightarrow> goerr option \<times> serverStreamEvent" where [union_functions]:
  "MergeIncompleteEvent fmt merge v t = mergeTyped fmt merge api_IncompleteEvent ''response.incomplete'' v t"

definition AsRetryEvent :: "serverStreamEvent \<Rightarrow> goerr + goval" where [union_functions]:
  "AsRetryEvent t = Unmarshal apiCustom api_RetryEvent (zeroOf api_RetryEvent) t"

definition FromRetryEvent :: "floatFmt \<Rightarrow> jsonMerge \<Rightarrow> goval \<Rightarrow> serverStreamEvent \<Rightarrow> goerr option \<times> serverStreamEvent" where [union_functions]:
  "FromRetryEvent fmt merge v t = fromTyped fmt merge api_RetryEvent ''response.retry'' v t"

definition MergeRetryEvent :: "floatFmt \<Rightarrow> jsonMerge \<Rightarrow> goval \<Rightarrow> serverStreamEvent \<Rightarrow> goerr option \<times> serverStreamEvent" where [union_functions]:
  "MergeRetryEvent fmt merge v t = mergeTyped fmt merge api_RetryEvent ''response.retry'' v t"

definition AsErrorEvent :: "serverStreamEvent \<Rightarrow> goerr + goval" where [union_functions]:
  "AsErrorEvent t = Unmarshal apiCustom api_ErrorEvent (zeroOf api_ErrorEvent) t"

definition FromErrorEvent :: "floatFmt \<Rightarrow> jsonMerge \<Rightarrow> goval \<Rightarrow> serverStreamEvent \<Rightarrow> goerr option \<times> serverStreamEvent" where [union_functions]:
  "FromErrorEvent fmt merge v t = fromTyped fmt merge api_ErrorEvent ''response.error'' v t"

definition MergeErrorEvent :: "floatFmt \<Rightarrow> jsonMerge \<Rightarrow> goval \<Rightarrow> serverStreamEvent \<Rightarrow> goerr option \<times> serverStreamEvent" where [union_functions]:
  "MergeErrorEvent fmt merge v t = mergeTyped fmt merge api_ErrorEvent ''response.error'' v t"

definition AsCompactionInProgressEvent :: "serverStreamEvent \<Rightarrow> goerr + goval" where [union_functions]:
  "AsCompactionInProgressEvent t = Unmarshal apiCustom api_CompactionInProgressEvent (zeroOf api_CompactionInProgressEvent) t"

definition FromCompactionInProgressEvent :: "floatFmt \<Rightarrow> jsonMerge \<Rightarrow> goval \<Rightarrow> serverStreamEvent \<Rightarrow> goerr option \<times> serverStreamEvent" where [union_functions]:
  "FromCompactionInProgressEvent fmt merge v t = fromTyped fmt merge api_CompactionInProgressEvent ''response.compaction.in_progress'' v t"

definition MergeCompactionInProgressEvent :: "floatFmt \<Rightarrow> jsonMerge \<Rightarrow> goval \<Rightarrow> serverStreamEvent \<Rightarrow> goerr option \<times> serverStreamEvent" where [union_functions]:
  "MergeCompactionInProgressEvent fmt merge v t = mergeTyped fmt merge api_CompactionInProgressEvent ''response.compaction.in_progress'' v t"

definition AsCompactionCompletedEvent :: "serverStreamEvent \<Rightarrow> goerr + goval" where [union_functions]:
  "AsCompactionCompletedEvent t = Unmarshal apiCustom api_CompactionCompletedEvent (zeroOf api_CompactionCompletedEvent) t"

definition FromCompactionCompletedEvent :: "floatFmt \<Rightarrow> jsonMerge \<Rightarrow> goval \<Rightarrow> serverStreamEvent \<Rightarrow> goerr option \<times> serverStreamEvent" where [union_functions]:
  "FromCompactionCompletedEvent fmt merge v t = fromTyped fmt merge api_CompactionCompletedEvent ''response.compaction.completed'' v t"

definition MergeCompactionCompletedEvent :: "floatFmt \<Rightarrow> jsonMerge \<Rightarrow> goval \<Rightarrow> serverStreamEvent \<Rightarrow> goerr option \<times> serverStreamEvent" where [union_functions]:
  "MergeCompactionCompletedEvent fmt merge v t = mergeTyped fmt merge api_CompactionCompletedEvent ''response.compaction.completed'' v t"

definition AsCompactionFailedEvent :: "serverStreamEvent \<Rightarrow> goerr + goval" where [union_functions]:
  "AsCompactionFailedEvent t = Unmarshal apiCustom api_CompactionFailedEvent (zeroOf api_CompactionFailedEvent) t"

definition FromCompactionFailedEvent :: "floatFmt \<Rightarrow> jsonMerge \<Rightarrow> goval \<Rightarrow> serverStreamEvent \<Rightarrow> goerr option \<times> serverStreamEvent" where [union_functions]:
  "FromCompactionFailedEvent fmt merge v t = fromTyped fmt merge api_CompactionFailedEvent ''response.compaction.failed'' v t"

definition MergeCompactionFailedEvent :: "floatFmt \<Rightarrow> jsonMerge \<Rightarrow> goval \<Rightarrow> serverStreamEvent \<Rightarrow> goerr option \<times> serverStreamEvent" where [union_functions]:
  "MergeCompactionFailedEvent fmt merge v t = mergeTyped fmt merge api_CompactionFailedEvent ''response.compaction.failed'' v t"

definition AsClientTaskCancelEvent :: "serverStreamEvent \<Rightarrow> goerr + goval" where [union_functions]:
  "AsClientTaskCancelEvent t = Unmarshal apiCustom api_ClientTaskCancelEvent (zeroOf api_ClientTaskCancelEvent) t"

definition FromClientTaskCancelEvent :: "floatFmt \<Rightarrow> jsonMerge \<Rightarrow> goval \<Rightarrow> serverStreamEvent \<Rightarrow> goerr option \<times> serverStreamEvent" where [union_functions]:
  "FromClientTaskCancelEvent fmt merge v t = fromTyped fmt merge api_ClientTaskCancelEvent ''response.client_task.cancel'' v t"

definition MergeClientTaskCancelEvent :: "floatFmt \<Rightarrow> jsonMerge \<Rightarrow> goval \<Rightarrow> serverStreamEvent \<Rightarrow> goerr option \<times> serverStreamEvent" where [union_functions]:
  "MergeClientTaskCancelEvent fmt merge v t = mergeTyped fmt merge api_ClientTaskCancelEvent ''response.client_task.cancel'' v t"

definition AsTurnStartedEvent :: "serverStreamEvent \<Rightarrow> goerr + goval" where [union_functions]:
  "AsTurnStartedEvent t = Unmarshal apiCustom api_TurnStartedEvent (zeroOf api_TurnStartedEvent) t"

definition FromTurnStartedEvent :: "floatFmt \<Rightarrow> jsonMerge \<Rightarrow> goval \<Rightarrow> serverStreamEvent \<Rightarrow> goerr option \<times> serverStreamEvent" where [union_functions]:
  "FromTurnStartedEvent fmt merge v t = fromTyped fmt merge api_TurnStartedEvent ''turn.started'' v t"

definition MergeTurnStartedEvent :: "floatFmt \<Rightarrow> jsonMerge \<Rightarrow> goval \<Rightarrow> serverStreamEvent \<Rightarrow> goerr option \<times> serverStreamEvent" where [union_functions]:
  "MergeTurnStartedEvent fmt merge v t = mergeTyped fmt merge api_TurnStartedEvent ''turn.started'' v t"

definition AsTurnCompletedEvent :: "serverStreamEvent \<Rightarrow> goerr + goval" where [union_functions]:
  "AsTurnCompletedEvent t = Unmarshal apiCustom api_TurnCompletedEvent (zeroOf api_TurnCompletedEvent) t"

definition FromTurnCompletedEvent :: "floatFmt \<Rightarrow> jsonMerge \<Rightarrow> goval \<Rightarrow> serverStreamEvent \<Rightarrow> goerr option \<times> serverStreamEvent" where [union_functions]:
  "FromTurnCompletedEvent fmt merge v t = fromTyped fmt merge api_TurnCompletedEvent ''turn.completed'' v t"

definition MergeTurnCompletedEvent :: "floatFmt \<Rightarrow> jsonMerge \<Rightarrow> goval \<Rightarrow> serverStreamEvent \<Rightarrow> goerr option \<times> serverStreamEvent" where [union_functions]:
  "MergeTurnCompletedEvent fmt merge v t = mergeTyped fmt merge api_TurnCompletedEvent ''turn.completed'' v t"

definition AsTurnFailedEvent :: "serverStreamEvent \<Rightarrow> goerr + goval" where [union_functions]:
  "AsTurnFailedEvent t = Unmarshal apiCustom api_TurnFailedEvent (zeroOf api_TurnFailedEvent) t"

definition FromTurnFailedEvent :: "floatFmt \<Rightarrow> jsonMerge \<Rightarrow> goval \<Rightarrow> serverStreamEvent \<Rightarrow> goerr option \<times> serverStreamEvent" where [union_functions]:
  "FromTurnFailedEvent fmt merge v t = fromTyped fmt merge api_TurnFailedEvent ''turn.failed'' v t"

definition MergeTurnFailedEvent :: "floatFmt \<Rightarrow> jsonMerge \<Rightarrow> goval \<Rightarrow> serverStreamEvent \<Rightarrow> goerr option \<times> serverStreamEvent" where [union_functions]:
  "MergeTurnFailedEvent fmt merge v t = mergeTyped fmt merge api_TurnFailedEvent ''turn.failed'' v t"

definition AsTurnCancelledEvent :: "serverStreamEvent \<Rightarrow> goerr + goval" where [union_functions]:
  "AsTurnCancelledEvent t = Unmarshal apiCustom api_TurnCancelledEvent (zeroOf api_TurnCancelledEvent) t"

definition FromTurnCancelledEvent :: "floatFmt \<Rightarrow> jsonMerge \<Rightarrow> goval \<Rightarrow> serverStreamEvent \<Rightarrow> goerr option \<times> serverStreamEvent" where [union_functions]:
  "FromTurnCancelledEvent fmt merge v t = fromTyped fmt merge api_TurnCancelledEvent ''turn.cancelled'' v t"

definition MergeTurnCancelledEvent :: "floatFmt \<Rightarrow> jsonMerge \<Rightarrow> goval \<Rightarrow> serverStreamEvent \<Rightarrow> goerr option \<times> serverStreamEvent" where [union_functions]:
  "MergeTurnCancelledEvent fmt merge v t = mergeTyped fmt merge api_TurnCancelledEvent ''turn.cancelled'' v t"

definition AsValidationErrorLoc0 :: "string \<Rightarrow> goerr + goval" where [union_functions]:
  "AsValidationErrorLoc0 t = Unmarshal noCustom TyString (zeroOf TyString) t"

definition FromValidationErrorLoc0 :: "floatFmt \<Rightarrow> goval \<Rightarrow> string \<Rightarrow> goerr option \<times> string" where [union_functions]:
  "FromValidationErrorLoc0 fmt v t = fromPlain fmt TyString v t"

definition MergeValidationErrorLoc0 :: "floatFmt \<Rightarrow> jsonMerge \<Rightarrow> goval \<Rightarrow> string \<Rightarrow> goerr option \<times> string" where [union_functions]:
  "MergeValidationErrorLoc0 fmt merge v t = mergePlain fmt merge TyString v t"

definition AsValidationErrorLoc1 :: "string \<Rightarrow> goerr + goval" where [union_functions]:
  "AsValidationErrorLoc1 t = Unmarshal noCustom TyInt (zeroOf TyInt) t"

definition FromValidationErrorLoc1 :: "floatFmt \<Rightarrow> goval \<Rightarrow> string \<Rightarrow> goerr option \<times> string" where [union_functions]:
  "FromValidationErrorLoc1 fmt v t = fromPlain fmt TyInt v t"

definition MergeValidationErrorLoc1 :: "floatFmt \<Rightarrow> jsonMerge \<Rightarrow> goval \<Rightarrow> string \<Rightarrow> goerr option \<times> string" where [union_functions]:
  "MergeValidationErrorLoc1 fmt merge v t = mergePlain fmt merge TyInt v t"

definition AsRunnerStatusV1RunnersRunnerIDStatusGet200JSONResponseBody0 :: "string \<Rightarrow> goerr + goval" where [union_functions]:
  "AsRunnerStatusV1RunnersRunnerIDStatusGet200JSONResponseBody0 t = Unmarshal noCustom TyString (zeroOf TyString) t"

definition FromRunnerStatusV1RunnersRunnerIDStatusGet200JSONResponseBody0 :: "floatFmt \<Rightarrow> goval \<Rightarrow> string \<Rightarrow> goerr option \<times> string" where [union_functions]:
  "FromRunnerStatusV1RunnersRunnerIDStatusGet200JSONResponseBody0 fmt v t = fromPlain fmt TyString v t"

definition MergeRunnerStatusV1RunnersRunnerIDStatusGet200JSONResponseBody0 :: "floatFmt \<Rightarrow> jsonMerge \<Rightarrow> goval \<Rightarrow> string \<Rightarrow> goerr option \<times> string" where [union_functions]:
  "MergeRunnerStatusV1RunnersRunnerIDStatusGet200JSONResponseBody0 fmt merge v t = mergePlain fmt merge TyString v t"

definition AsRunnerStatusV1RunnersRunnerIDStatusGet200JSONResponseBody1 :: "string \<Rightarrow> goerr + goval" where [union_functions]:
  "AsRunnerStatusV1RunnersRunnerIDStatusGet200JSONResponseBody1 t = Unmarshal noCustom TyBool (zeroOf TyBool) t"

definition FromRunnerStatusV1RunnersRunnerIDStatusGet200JSONResponseBody1 :: "floatFmt \<Rightarrow> goval \<Rightarrow> string \<Rightarrow> goerr option \<times> string" where [union_functions]:
  "FromRunnerStatusV1RunnersRunnerIDStatusGet200JSONResponseBody1 fmt v t = fromPlain fmt TyBool v t"

definition MergeRunnerStatusV1RunnersRunnerIDStatusGet200JSONResponseBody1 :: "floatFmt \<Rightarrow> jsonMerge \<Rightarrow> goval \<Rightarrow> string \<Rightarrow> goerr option \<times> string" where [union_functions]:
  "MergeRunnerStatusV1RunnersRunnerIDStatusGet200JSONResponseBody1 fmt merge v t = mergePlain fmt merge TyBool v t"

definition AsMintRunnerOwnerTokenV1RunnersRunnerIDTokenPost200JSONResponseBody0 :: "string \<Rightarrow> goerr + goval" where [union_functions]:
  "AsMintRunnerOwnerTokenV1RunnersRunnerIDTokenPost200JSONResponseBody0 t = Unmarshal noCustom TyString (zeroOf TyString) t"

definition FromMintRunnerOwnerTokenV1RunnersRunnerIDTokenPost200JSONResponseBody0 :: "floatFmt \<Rightarrow> goval \<Rightarrow> string \<Rightarrow> goerr option \<times> string" where [union_functions]:
  "FromMintRunnerOwnerTokenV1RunnersRunnerIDTokenPost200JSONResponseBody0 fmt v t = fromPlain fmt TyString v t"

definition MergeMintRunnerOwnerTokenV1RunnersRunnerIDTokenPost200JSONResponseBody0 :: "floatFmt \<Rightarrow> jsonMerge \<Rightarrow> goval \<Rightarrow> string \<Rightarrow> goerr option \<times> string" where [union_functions]:
  "MergeMintRunnerOwnerTokenV1RunnersRunnerIDTokenPost200JSONResponseBody0 fmt merge v t = mergePlain fmt merge TyString v t"

definition AsMintRunnerOwnerTokenV1RunnersRunnerIDTokenPost200JSONResponseBody1 :: "string \<Rightarrow> goerr + goval" where [union_functions]:
  "AsMintRunnerOwnerTokenV1RunnersRunnerIDTokenPost200JSONResponseBody1 t = Unmarshal noCustom TyInt (zeroOf TyInt) t"

definition FromMintRunnerOwnerTokenV1RunnersRunnerIDTokenPost200JSONResponseBody1 :: "floatFmt \<Rightarrow> goval \<Rightarrow> string \<Rightarrow> goerr option \<times> string" where [union_functions]:
  "FromMintRunnerOwnerTokenV1RunnersRunnerIDTokenPost200JSONResponseBody1 fmt v t = fromPlain fmt TyInt v t"

definition MergeMintRunnerOwnerTokenV1RunnersRunnerIDTokenPost200JSONResponseBody1 :: "floatFmt \<Rightarrow> jsonMerge \<Rightarrow> goval \<Rightarrow> string \<Rightarrow> goerr option \<times> string" where [union_functions]:
  "MergeMintRunnerOwnerTokenV1RunnersRunnerIDTokenPost200JSONResponseBody1 fmt merge v t = mergePlain fmt merge TyInt v t"
section \<open>The functions by their variant\<close>

definition fromFunction ::
  "variant \<Rightarrow> floatFmt \<Rightarrow> jsonMerge \<Rightarrow> goval \<Rightarrow> serverStreamEvent \<Rightarrow> goerr option \<times> serverStreamEvent" where
  "fromFunction v = (case v of
      VSessionStatus \<Rightarrow> FromSessionStatusEvent
    | VSessionUsage \<Rightarrow> FromSessionUsageEvent
    | VSessionModel \<Rightarrow> FromSessionModelEvent
    | VSessionReasoningEffort \<Rightarrow> FromSessionReasoningEffortEvent
    | VSessionCollaborationMode \<Rightarrow> FromSessionCollaborationModeEvent
    | VSessionAgentChanged \<Rightarrow> FromSessionAgentChangedEvent
    | VSessionTodos \<Rightarrow> FromSessionTodosEvent
    | VSessionTerminalPending \<Rightarrow> FromSessionTerminalPendingEvent
    | VSessionSandboxStatus \<Rightarrow> FromSessionSandboxStatusEvent
    | VSessionMCPStartup \<Rightarrow> FromSessionMCPStartupEvent
    | VSessionSkills \<Rightarrow> FromSessionSkillsEvent
    | VSessionModelOptions \<Rightarrow> FromSessionModelOptionsEvent
    | VSessionInputConsumed \<Rightarrow> FromSessionInputConsumedEvent
    | VSessionInterrupted \<Rightarrow> FromSessionInterruptedEvent
    | VSessionCreated \<Rightarrow> FromSessionCreatedEvent
    | VSessionSuperseded \<Rightarrow> FromSessionSupersededEvent
    | VSessionPresence \<Rightarrow> FromSessionPresenceEvent
    | VSessionResourceCreated \<Rightarrow> FromSessionResourceCreatedEvent
    | VSessionResourceDeleted \<Rightarrow> FromSessionResourceDeletedEvent
    | VSessionChildSessionUpdated \<Rightarrow> FromSessionChildSessionUpdatedEvent
    | VSessionChangedFilesInvalidated \<Rightarrow> FromSessionChangedFilesInvalidatedEvent
    | VSessionTerminalActivity \<Rightarrow> FromSessionTerminalActivityEvent
    | VOutputTextDelta \<Rightarrow> FromOutputTextDeltaEvent
    | VToolOutputDelta \<Rightarrow> FromToolOutputDeltaEvent
    | VReasoningStarted \<Rightarrow> FromReasoningStartedEvent
    | VReasoningTextDelta \<Rightarrow> FromReasoningTextDeltaEvent
    | VReasoningSummaryTextDelta \<Rightarrow> FromReasoningSummaryTextDeltaEvent
    | VOutputItemDone \<Rightarrow> FromOutputItemDoneEvent
    | VOutputFileDone \<Rightarrow> FromOutputFileDoneEvent
    | VResponseHeartbeat \<Rightarrow> FromHeartbeatEvent
    | VSessionHeartbeat \<Rightarrow> FromSessionHeartbeatEvent
    | VElicitationRequest \<Rightarrow> FromElicitationRequestEvent
    | VElicitationResolved \<Rightarrow> FromElicitationResolvedEvent
    | VBrowserActionRequest \<Rightarrow> FromBrowserActionRequestEvent
    | VPolicyDenied \<Rightarrow> FromPolicyDeniedEvent
    | VResponseCreated \<Rightarrow> FromCreatedEvent
    | VQueued \<Rightarrow> FromQueuedEvent
    | VInProgress \<Rightarrow> FromInProgressEvent
    | VResponseCompleted \<Rightarrow> FromCompletedEvent
    | VResponseFailed \<Rightarrow> FromFailedEvent
    | VResponseCancelled \<Rightarrow> FromCancelledEvent
    | VIncomplete \<Rightarrow> FromIncompleteEvent
    | VRetry \<Rightarrow> FromRetryEvent
    | VError \<Rightarrow> FromErrorEvent
    | VCompactionInProgress \<Rightarrow> FromCompactionInProgressEvent
    | VCompactionCompleted \<Rightarrow> FromCompactionCompletedEvent
    | VCompactionFailed \<Rightarrow> FromCompactionFailedEvent
    | VClientTaskCancel \<Rightarrow> FromClientTaskCancelEvent
    | VTurnStarted \<Rightarrow> FromTurnStartedEvent
    | VTurnCompleted \<Rightarrow> FromTurnCompletedEvent
    | VTurnFailed \<Rightarrow> FromTurnFailedEvent
    | VTurnCancelled \<Rightarrow> FromTurnCancelledEvent)"

definition mergeFunction ::
  "variant \<Rightarrow> floatFmt \<Rightarrow> jsonMerge \<Rightarrow> goval \<Rightarrow> serverStreamEvent \<Rightarrow> goerr option \<times> serverStreamEvent" where
  "mergeFunction v = (case v of
      VSessionStatus \<Rightarrow> MergeSessionStatusEvent
    | VSessionUsage \<Rightarrow> MergeSessionUsageEvent
    | VSessionModel \<Rightarrow> MergeSessionModelEvent
    | VSessionReasoningEffort \<Rightarrow> MergeSessionReasoningEffortEvent
    | VSessionCollaborationMode \<Rightarrow> MergeSessionCollaborationModeEvent
    | VSessionAgentChanged \<Rightarrow> MergeSessionAgentChangedEvent
    | VSessionTodos \<Rightarrow> MergeSessionTodosEvent
    | VSessionTerminalPending \<Rightarrow> MergeSessionTerminalPendingEvent
    | VSessionSandboxStatus \<Rightarrow> MergeSessionSandboxStatusEvent
    | VSessionMCPStartup \<Rightarrow> MergeSessionMCPStartupEvent
    | VSessionSkills \<Rightarrow> MergeSessionSkillsEvent
    | VSessionModelOptions \<Rightarrow> MergeSessionModelOptionsEvent
    | VSessionInputConsumed \<Rightarrow> MergeSessionInputConsumedEvent
    | VSessionInterrupted \<Rightarrow> MergeSessionInterruptedEvent
    | VSessionCreated \<Rightarrow> MergeSessionCreatedEvent
    | VSessionSuperseded \<Rightarrow> MergeSessionSupersededEvent
    | VSessionPresence \<Rightarrow> MergeSessionPresenceEvent
    | VSessionResourceCreated \<Rightarrow> MergeSessionResourceCreatedEvent
    | VSessionResourceDeleted \<Rightarrow> MergeSessionResourceDeletedEvent
    | VSessionChildSessionUpdated \<Rightarrow> MergeSessionChildSessionUpdatedEvent
    | VSessionChangedFilesInvalidated \<Rightarrow> MergeSessionChangedFilesInvalidatedEvent
    | VSessionTerminalActivity \<Rightarrow> MergeSessionTerminalActivityEvent
    | VOutputTextDelta \<Rightarrow> MergeOutputTextDeltaEvent
    | VToolOutputDelta \<Rightarrow> MergeToolOutputDeltaEvent
    | VReasoningStarted \<Rightarrow> MergeReasoningStartedEvent
    | VReasoningTextDelta \<Rightarrow> MergeReasoningTextDeltaEvent
    | VReasoningSummaryTextDelta \<Rightarrow> MergeReasoningSummaryTextDeltaEvent
    | VOutputItemDone \<Rightarrow> MergeOutputItemDoneEvent
    | VOutputFileDone \<Rightarrow> MergeOutputFileDoneEvent
    | VResponseHeartbeat \<Rightarrow> MergeHeartbeatEvent
    | VSessionHeartbeat \<Rightarrow> MergeSessionHeartbeatEvent
    | VElicitationRequest \<Rightarrow> MergeElicitationRequestEvent
    | VElicitationResolved \<Rightarrow> MergeElicitationResolvedEvent
    | VBrowserActionRequest \<Rightarrow> MergeBrowserActionRequestEvent
    | VPolicyDenied \<Rightarrow> MergePolicyDeniedEvent
    | VResponseCreated \<Rightarrow> MergeCreatedEvent
    | VQueued \<Rightarrow> MergeQueuedEvent
    | VInProgress \<Rightarrow> MergeInProgressEvent
    | VResponseCompleted \<Rightarrow> MergeCompletedEvent
    | VResponseFailed \<Rightarrow> MergeFailedEvent
    | VResponseCancelled \<Rightarrow> MergeCancelledEvent
    | VIncomplete \<Rightarrow> MergeIncompleteEvent
    | VRetry \<Rightarrow> MergeRetryEvent
    | VError \<Rightarrow> MergeErrorEvent
    | VCompactionInProgress \<Rightarrow> MergeCompactionInProgressEvent
    | VCompactionCompleted \<Rightarrow> MergeCompactionCompletedEvent
    | VCompactionFailed \<Rightarrow> MergeCompactionFailedEvent
    | VClientTaskCancel \<Rightarrow> MergeClientTaskCancelEvent
    | VTurnStarted \<Rightarrow> MergeTurnStartedEvent
    | VTurnCompleted \<Rightarrow> MergeTurnCompletedEvent
    | VTurnFailed \<Rightarrow> MergeTurnFailedEvent
    | VTurnCancelled \<Rightarrow> MergeTurnCancelledEvent)"

definition asFunction :: "variant \<Rightarrow> serverStreamEvent \<Rightarrow> goerr + goval" where
  "asFunction v = (case v of
      VSessionStatus \<Rightarrow> AsSessionStatusEvent
    | VSessionUsage \<Rightarrow> AsSessionUsageEvent
    | VSessionModel \<Rightarrow> AsSessionModelEvent
    | VSessionReasoningEffort \<Rightarrow> AsSessionReasoningEffortEvent
    | VSessionCollaborationMode \<Rightarrow> AsSessionCollaborationModeEvent
    | VSessionAgentChanged \<Rightarrow> AsSessionAgentChangedEvent
    | VSessionTodos \<Rightarrow> AsSessionTodosEvent
    | VSessionTerminalPending \<Rightarrow> AsSessionTerminalPendingEvent
    | VSessionSandboxStatus \<Rightarrow> AsSessionSandboxStatusEvent
    | VSessionMCPStartup \<Rightarrow> AsSessionMCPStartupEvent
    | VSessionSkills \<Rightarrow> AsSessionSkillsEvent
    | VSessionModelOptions \<Rightarrow> AsSessionModelOptionsEvent
    | VSessionInputConsumed \<Rightarrow> AsSessionInputConsumedEvent
    | VSessionInterrupted \<Rightarrow> AsSessionInterruptedEvent
    | VSessionCreated \<Rightarrow> AsSessionCreatedEvent
    | VSessionSuperseded \<Rightarrow> AsSessionSupersededEvent
    | VSessionPresence \<Rightarrow> AsSessionPresenceEvent
    | VSessionResourceCreated \<Rightarrow> AsSessionResourceCreatedEvent
    | VSessionResourceDeleted \<Rightarrow> AsSessionResourceDeletedEvent
    | VSessionChildSessionUpdated \<Rightarrow> AsSessionChildSessionUpdatedEvent
    | VSessionChangedFilesInvalidated \<Rightarrow> AsSessionChangedFilesInvalidatedEvent
    | VSessionTerminalActivity \<Rightarrow> AsSessionTerminalActivityEvent
    | VOutputTextDelta \<Rightarrow> AsOutputTextDeltaEvent
    | VToolOutputDelta \<Rightarrow> AsToolOutputDeltaEvent
    | VReasoningStarted \<Rightarrow> AsReasoningStartedEvent
    | VReasoningTextDelta \<Rightarrow> AsReasoningTextDeltaEvent
    | VReasoningSummaryTextDelta \<Rightarrow> AsReasoningSummaryTextDeltaEvent
    | VOutputItemDone \<Rightarrow> AsOutputItemDoneEvent
    | VOutputFileDone \<Rightarrow> AsOutputFileDoneEvent
    | VResponseHeartbeat \<Rightarrow> AsHeartbeatEvent
    | VSessionHeartbeat \<Rightarrow> AsSessionHeartbeatEvent
    | VElicitationRequest \<Rightarrow> AsElicitationRequestEvent
    | VElicitationResolved \<Rightarrow> AsElicitationResolvedEvent
    | VBrowserActionRequest \<Rightarrow> AsBrowserActionRequestEvent
    | VPolicyDenied \<Rightarrow> AsPolicyDeniedEvent
    | VResponseCreated \<Rightarrow> AsCreatedEvent
    | VQueued \<Rightarrow> AsQueuedEvent
    | VInProgress \<Rightarrow> AsInProgressEvent
    | VResponseCompleted \<Rightarrow> AsCompletedEvent
    | VResponseFailed \<Rightarrow> AsFailedEvent
    | VResponseCancelled \<Rightarrow> AsCancelledEvent
    | VIncomplete \<Rightarrow> AsIncompleteEvent
    | VRetry \<Rightarrow> AsRetryEvent
    | VError \<Rightarrow> AsErrorEvent
    | VCompactionInProgress \<Rightarrow> AsCompactionInProgressEvent
    | VCompactionCompleted \<Rightarrow> AsCompactionCompletedEvent
    | VCompactionFailed \<Rightarrow> AsCompactionFailedEvent
    | VClientTaskCancel \<Rightarrow> AsClientTaskCancelEvent
    | VTurnStarted \<Rightarrow> AsTurnStartedEvent
    | VTurnCompleted \<Rightarrow> AsTurnCompletedEvent
    | VTurnFailed \<Rightarrow> AsTurnFailedEvent
    | VTurnCancelled \<Rightarrow> AsTurnCancelledEvent)"
section \<open>The order of the members\<close>

text \<open>A member that decodes into its field, whatever was decoded before.\<close>

definition fieldReads :: "custom \<Rightarrow> field list \<Rightarrow> (string \<Rightarrow> goval) \<Rightarrow> string \<times> jtext \<Rightarrow> bool" where
  "fieldReads cu fs val m \<longleftrightarrow>
     (\<exists>om ty. (fst m, om, ty) \<in> set fs \<and> (\<forall>sv. decode cu ty (snd m) (zeroOf ty) sv = Inr (val (fst m), sv)))"

lemma decodeFields_values:
  assumes "folded fs"
  shows "distinct (map fst ms) \<Longrightarrow> \<forall>m \<in> set ms. fieldReads cu fs val m \<Longrightarrow> set (map fst ms) \<inter> seen = {} \<Longrightarrow>
    decodeFields cu fs ms (map (\<lambda>(k, om, ty). (k, if k \<in> seen then val k else zeroOf ty)) fs) sv =
      Inr (map (\<lambda>(k, om, ty). (k, if k \<in> seen \<union> set (map fst ms) then val k else zeroOf ty)) fs, sv)"
proof (induction ms arbitrary: seen)
  case (Cons m ms)
  obtain k t where m: "m = (k, t)" by (cases m)
  obtain om ty where f: "(k, om, ty) \<in> set fs" "\<And>sv. decode cu ty t (zeroOf ty) sv = Inr (val k, sv)"
    using Cons.prems(2) by (auto simp: m fieldReads_def)
  let ?vals = "\<lambda>seen. map (\<lambda>(k, om, ty). (k, if k \<in> seen then val k else zeroOf ty)) fs"
  have names: "distinct (map fst fs)" by (rule folded_names [OF assms])
  have one: "fieldFor fs k = Some (k, om, ty)" using fieldFor_iff [OF assms] f(1) by simp
  have "k \<notin> seen" using Cons.prems(3) by (simp add: m)
  have keys: "map fst (?vals seen) = map fst fs" by (simp add: case_prod_unfold comp_def)
  have "(k, zeroOf ty) \<in> set (?vals seen)" using f(1) \<open>k \<notin> seen\<close> by force
  then have "map_of (?vals seen) k = Some (zeroOf ty)" by (rule map_of_is_SomeI [rotated]) (simp only: keys names)
  then have zero: "fieldValue k ty (?vals seen) = zeroOf ty" by (simp only: fieldValue_def option.case)
  have "assign k (val k) (?vals seen) = ?vals (insert k seen)"
    by (auto simp: assign_def case_prod_unfold)
  then have "decodeFields cu fs (m # ms) (?vals seen) sv = decodeFields cu fs ms (?vals (insert k seen)) sv"
    by (simp add: m one zero f(2))
  also have "\<dots> = Inr (?vals (insert k seen \<union> set (map fst ms)), sv)"
    using Cons.prems by (intro Cons.IH) (auto simp: m)
  finally show ?case by (simp add: m)
qed simp

lemma decodeFields_order:
  assumes "folded fs" "distinct (map fst ms)" "distinct (map fst ms')" "set ms = set ms'" "\<forall>m \<in> set ms. fieldReads cu fs val m"
  shows "decodeFields cu fs ms' (zeros fs) sv = decodeFields cu fs ms (zeros fs) sv"
proof -
  have "set (map fst ms') = set (map fst ms)" using assms(4) by simp
  then show ?thesis
    using decodeFields_values [OF assms(1), of ms cu val "{}" sv] decodeFields_values [OF assms(1), of ms' cu val "{}" sv] assms
    by simp
qed

text \<open>The members the encoder writes do.\<close>

lemma encoded_reads:
  assumes "formatsFloats fmt" "solidFields fs \<and> goodFields fs"
  shows "hasFields fs vals \<Longrightarrow> okValues fs vals \<Longrightarrow> distinct (map fst fs) \<Longrightarrow>
    distinct (map fst (encodeFields fmt mj fs vals)) \<and> set (map fst (encodeFields fmt mj fs vals)) \<subseteq> set (map fst fs) \<and>
    (\<forall>m \<in> set (encodeFields fmt mj fs vals). \<exists>om ty v. (fst m, om, ty) \<in> set fs \<and> map_of vals (fst m) = Some v \<and>
       (\<forall>sv. decode cu ty (snd m) (zeroOf ty) sv = Inr (tidy ty v, sv)))"
  using assms(2)
proof (induction fs arbitrary: vals)
  case (Cons f fs)
  obtain k om ty where f: "f = (k, om, ty)" by (cases f)
  obtain v rest where vals: "vals = (k, v) # rest" "hasType ty v" "hasFields fs rest" "okValue ty v" "okValues fs rest"
    using Cons.prems(1,2) by (cases vals) (auto simp: f)
  have ih: "distinct (map fst (encodeFields fmt mj fs rest)) \<and> set (map fst (encodeFields fmt mj fs rest)) \<subseteq> set (map fst fs) \<and>
    (\<forall>m \<in> set (encodeFields fmt mj fs rest). \<exists>om ty v. (fst m, om, ty) \<in> set fs \<and> map_of rest (fst m) = Some v \<and>
       (\<forall>sv. decode cu ty (snd m) (zeroOf ty) sv = Inr (tidy ty v, sv)))"
    using Cons.IH [OF vals(3,5)] Cons.prems by (simp add: f)
  have d: "decode cu ty (encode fmt mj ty v) (zeroOf ty) sv = Inr (tidy ty v, sv)" for sv
    using decode_of_encode(1) [OF assms(1) vals(2,4)] Cons.prems(4) by (simp add: f)
  have k: "k \<notin> fst ` set fs" using Cons.prems(3) by (simp add: f)
  show ?case
    using ih d k by (auto simp: f vals(1) dest!: bspec; blast?)
qed simp

section \<open>The type among the members\<close>

lemma encode_typed:
  "hasFields fs vals \<Longrightarrow> distinct (map fst fs) \<Longrightarrow> (''type'', False, TyString) \<in> set fs \<Longrightarrow>
   gput ''type'' (TStr d) (encodeFields fmt mj fs vals) = encodeFields fmt mj fs (assign ''type'' (VString d) vals)"
proof (induction fs arbitrary: vals)
  case (Cons f fs)
  obtain k om ty where f: "f = (k, om, ty)" by (cases f)
  obtain v rest where vals: "vals = (k, v) # rest" "hasFields fs rest"
    using Cons.prems(1) by (cases vals) (auto simp: f)
  show ?case
  proof (cases "k = ''type''")
    case True
    then have "om = False \<and> ty = TyString" using Cons.prems(2,3) by (force simp: f)
    moreover have "assign ''type'' (VString d) rest = rest"
    proof -
      have "''type'' \<notin> fst ` set rest"
        using Cons.prems(2) hasFields_names [OF vals(2)] True by (simp add: f flip: set_map)
      then show ?thesis by (induction rest) (auto simp: assign_def)
    qed
    ultimately show ?thesis using True by (simp add: f vals(1) gput_def assign_def)
  next
    case False
    then have "gput ''type'' (TStr d) (encodeFields fmt mj fs rest) = encodeFields fmt mj fs (assign ''type'' (VString d) rest)"
      using Cons vals(2) by (auto simp: f)
    moreover have "assign ''type'' (VString d) vals = (k, v) # assign ''type'' (VString d) rest"
      using False by (simp add: vals(1) assign_def)
    ultimately show ?thesis using False by (auto simp: f vals(1) gput_def)
  qed
qed simp

lemma okValues_assign: "hasFields fs vals \<Longrightarrow> okValues fs vals \<Longrightarrow> distinct (map fst fs) \<Longrightarrow> (k, om, TyString) \<in> set fs \<Longrightarrow>
    okValues fs (assign k (VString d) vals)"
proof (induction fs arbitrary: vals)
  case (Cons f fs)
  obtain k' om' ty' where f: "f = (k', om', ty')" by (cases f)
  obtain v rest where vals: "vals = (k', v) # rest" "hasFields fs rest" "okValue ty' v" "okValues fs rest"
    using Cons.prems(1,2) by (cases vals) (auto simp: f)
  show ?case
  proof (cases "k = k'")
    case True
    then have "ty' = TyString" using Cons.prems(3,4) by (force simp: f)
    moreover have "assign k (VString d) rest = rest"
    proof -
      have "k \<notin> fst ` set rest"
        using Cons.prems(3) hasFields_names [OF vals(2)] True by (simp add: f flip: set_map)
      then show ?thesis by (induction rest) (auto simp: assign_def)
    qed
    ultimately show ?thesis using True vals by (simp add: f assign_def)
  next
    case False
    then have "okValues fs (assign k (VString d) rest)" using Cons vals by (auto simp: f)
    then show ?thesis using False vals by (simp add: f assign_def)
  qed
qed simp

text \<open>The probe finds the type wherever it is.\<close>

lemma probe_order:
  assumes "\<forall>m \<in> set ms. foldName (fst m) = foldName ''type'' \<longrightarrow> snd m = TStr d"
  shows "decodeFields cu [(''type'', False, TyString)] ms [(''type'', VString s)] sv =
    Inr ([(''type'', VString (if \<exists>m \<in> set ms. foldName (fst m) = foldName ''type'' then d else s))], sv)"
  using assms
proof (induction ms arbitrary: s)
  case (Cons m ms)
  obtain k t where m: "m = (k, t)" by (cases m)
  have one: "folded [(''type'', False, TyString)]" by (simp add: folded_def)
  show ?case
  proof (cases "foldName k = foldName ''type''")
    case True
    then have "fieldFor [(''type'', False, TyString)] k = Some (''type'', False, TyString)"
      using fieldFor_iff [OF one] by simp
    then show ?thesis using Cons True by (simp add: m decodeString_def assign_def)
  next
    case False
    then have "fieldFor [(''type'', False, TyString)] k = None" using fieldFor_None [OF one, of k] by simp
    then show ?thesis using Cons False by (simp add: m)
  qed
qed simp

section \<open>The variants\<close>

definition structFields :: "gotype \<Rightarrow> field list" where
  "structFields ty = (case ty of TyStruct n fs \<Rightarrow> fs | _ \<Rightarrow> [])"

lemma variant_struct: "\<exists>n fs. variantType v = TyStruct n fs \<and> (''type'', False, TyString) \<in> set fs"
  by (cases v) (simp_all add: variantType_def api_schema)

lemma variant_solid: "v \<noteq> VElicitationRequest \<Longrightarrow> solid (variantType v)"
  by (cases v; simp only: simp_thms; code_simp)

lemma from_typed:
  "(d, v) \<in> set unionTable \<Longrightarrow> fromFunction v fmt merge x t = fromTyped fmt merge (variantType v) d x t"
  "(d, v) \<in> set unionTable \<Longrightarrow> mergeFunction v fmt merge x t = mergeTyped fmt merge (variantType v) d x t"
  by (auto simp: unionTable_def fromFunction_def mergeFunction_def variantType_def union_functions)

lemma as_typed: "asFunction v t = As v t"
  by (cases v) (simp_all add: asFunction_def As_def variantType_def union_functions)

text \<open>The merge of a variant's object with the patch: the members, with the type set, in any order.\<close>

definition setsType :: "string \<Rightarrow> string \<Rightarrow> string \<Rightarrow> bool" where
  "setsType d b b' \<longleftrightarrow> (\<exists>ms ms'. parseJSON b = Inr (TObj ms) \<and> parseJSON b' = Inr (TObj ms') \<and>
     distinct (map fst ms') \<and> set ms' = set (gput ''type'' (TStr d) ms))"

lemma tableEntry: "(d, v) \<in> set unionTable \<Longrightarrow> map_of unionTable d = Some v"
proof -
  have "distinct (map fst unionTable)" by (simp add: unionTable_def)
  then show "(d, v) \<in> set unionTable \<Longrightarrow> map_of unionTable d = Some v" by simp
qed

text \<open>What the encoder wrote of a struct, in any order.\<close>

lemma encoded_order:
  assumes "formatsFloats fmt" "solidFields fs \<and> goodFields fs" "folded fs" "hasFields fs vals" "okValues fs vals"
    and "distinct (map fst ms)" "set ms = set (encodeFields fmt mj fs vals)"
  shows "decodeFields cu fs ms (zeros fs) sv = Inr (tidyFields fs vals, sv)"
proof -
  let ?ms = "encodeFields fmt mj fs vals"
  have names: "distinct (map fst fs)" by (rule folded_names [OF assms(3)])
  note enc = encoded_reads [OF assms(1,2,4,5) names, of mj cu]
  let ?val = "\<lambda>k. (case find (\<lambda>f. fst f = k) fs of Some (k, om, ty) \<Rightarrow> tidy ty (the (map_of vals k)) | None \<Rightarrow> VRaw None)"
  have find: "find (\<lambda>f. fst f = k) fs = Some (k, om, ty)" if "(k, om, ty) \<in> set fs" for k om ty
    using find_distinct [OF names, of k "(k, om, ty)"] that by simp
  have "\<forall>m \<in> set ?ms. fieldReads cu fs ?val m"
  proof
    fix m assume "m \<in> set ?ms"
    then obtain om ty w where "(fst m, om, ty) \<in> set fs" "map_of vals (fst m) = Some w"
      "\<forall>sv. decode cu ty (snd m) (zeroOf ty) sv = Inr (tidy ty w, sv)"
      using enc by blast
    then show "fieldReads cu fs ?val m"
      unfolding fieldReads_def by (intro exI [of _ om] exI [of _ ty]) (simp add: find)
  qed
  from decodeFields_order [OF assms(3) _ assms(6) assms(7) [symmetric] this, of sv] enc
  have "decodeFields cu fs ms (zeros fs) sv = decodeFields cu fs ?ms (zeros fs) sv" by simp
  then show ?thesis using decode_of_encode(2) [OF assms(1,4,5,2), of "[]" "[]"] assms(3) by simp
qed

lemma typed_probe:
  assumes "folded fs" "(''type'', om, ty) \<in> set fs" "set (map fst ms) \<subseteq> set (map fst fs)" "distinct (map fst ms)"
    and "(''type'', TStr d) \<in> set ms" "parseJSON b = Inr (TObj ms)"
  shows "Discriminator b = Inr d"
proof -
  have "k = ''type''" if "k \<in> set (map fst fs)" "foldName k = foldName ''type''" for k
  proof -
    have "inj_on (foldName \<circ> fst) (set fs)" using assms(1) by (simp add: folded_def distinct_map)
    then show ?thesis using that assms(2) unfolding inj_on_def by fastforce
  qed
  then have "fst m = ''type''" if "m \<in> set ms" "foldName (fst m) = foldName ''type''" for m
    using that assms(3) by (metis image_eqI list.set_map subsetD)
  then have "\<forall>m \<in> set ms. foldName (fst m) = foldName ''type'' \<longrightarrow> snd m = TStr d"
    using assms(4,5) by (metis eq_key_imp_eq_value prod.collapse)
  from probe_order [OF this, of noCustom "[]" None] show ?thesis
    using assms(5) by (force simp: Discriminator_def Unmarshal_def assms(6) fieldsOf_def strField_def)
qed

section \<open>The patch as a text\<close>

text \<open>A string of printing ASCII characters that need no escape.\<close>

definition unquoted :: "string \<Rightarrow> bool" where
  "unquoted s \<longleftrightarrow> list_all (\<lambda>c. 0x20 \<le> byte c \<and> byte c < 0x80 \<and> byte c \<notin> {0x22, 0x5C, 0x3C, 0x3E, 0x26}) s"

lemma quoteJSON_unquoted: "unquoted s \<Longrightarrow> quoteJSON s = CHR 0x22 # s @ [CHR 0x22]"
proof -
  assume "unquoted s"
  then have "quoteBody s = s"
  proof (induction s)
    case (Cons c s)
    then have c: "0x20 \<le> byte c" "byte c < 0x80" "byte c \<notin> {0x22, 0x5C, 0x3C, 0x3E, 0x26}" and s: "unquoted s"
      by (simp_all add: unquoted_def)
    have e: "EncodeRune (byte c) = [c]" using c(2) by (simp add: EncodeRune_def)
    have "validRune (byte c)" using c(2) by (simp add: validRune_def)
    then have "Segs (c # s) = (byte c, [c]) # Segs s" using Segs_EncodeRune [of "byte c" s] e by simp
    moreover have "quoteSeg (byte c, [c]) = [c]" using c e by (auto simp: quoteSeg_def RuneError_def)
    ultimately show ?case using Cons.IH [OF s] by (simp add: quoteBody_def)
  qed (simp add: quoteBody_def)
  then show ?thesis by (simp add: quoteJSON_def)
qed

lemma typePatch_printed: "unquoted d \<Longrightarrow> typePatch d = printJSON (TObj [(''type'', TStr d)])"
proof -
  have "quoteJSON ''type'' = CHR 0x22 # ''type'' @ [CHR 0x22]"
    by (rule quoteJSON_unquoted) (simp add: unquoted_def byte_def)
  then show "unquoted d \<Longrightarrow> ?thesis" by (simp add: typePatch_def quoteJSON_unquoted)
qed

text \<open>A merge of two objects by their members.\<close>

definition objectMerge :: jsonMerge where
  "objectMerge b p = (case (parseJSON b, parseJSON p) of
      (Inr (TObj ms), Inr (TObj ps)) \<Rightarrow> (printJSON (TObj (fold (\<lambda>(k, t). gput k t) ps ms)), None)
    | _ \<Rightarrow> ([], Some (External ''not two objects'')))"

definition sampleStarted :: "(string \<times> goval) list" where
  "sampleStarted = [(''sequence_number'', VPtr None), (''type'', VString [])]"

definition startedText :: "string \<Rightarrow> jtext" where
  "startedText d = TObj [(''type'', TStr d)]"

lemma started_encoded: "encode fmt mj (variantType VReasoningStarted) (VStruct sampleStarted) = startedText []"
  by (simp add: variantType_def api_ReasoningStartedEvent_def sampleStarted_def startedText_def fieldsOf_def isEmptyValue_def)

lemma started_parsed: "wfText (startedText d) \<Longrightarrow> parseJSON (printJSON (startedText d)) = Inr (startedText d)"
  by (rule parse_print) (simp_all add: startedText_def maxNestingDepth_def)

lemma started_ok:
  "wfText (startedText [])" "wfText (startedText ''response.reasoning.started'')" "unquoted ''response.reasoning.started''"
  by (code_simp, code_simp, simp add: unquoted_def byte_def)

lemma started_merged:
  "objectMerge (printJSON (startedText [])) (typePatch ''response.reasoning.started'') =
    (printJSON (startedText ''response.reasoning.started''), None)"
proof -
  have "typePatch ''response.reasoning.started'' = printJSON (startedText ''response.reasoning.started'')"
    using typePatch_printed [OF started_ok(3)] by (simp only: startedText_def)
  then show ?thesis
    using started_parsed [OF started_ok(1)] started_parsed [OF started_ok(2)]
    by (simp add: objectMerge_def del: printJSON.simps) (simp add: startedText_def gput_def)
qed

section \<open>Properties\<close>



end
