(* ===== verification/Spec2Isabelle.thy ===== *)
theory Spec2Isabelle
  imports Chat IdleMonitor Query Tree Files Elicit Discriminator Enums Bodies Replies Script Callers Asking Conversation ErrorBodies ApiRest Unions
begin

text \<open>
  The Go client of an omnigent server (package omnigent at the root of src/), as definitions
  translated from its source and theorems about them.

  The program. A client (client.go) holds a base URL, headers and three http.Clients. Session
  operations (session.go, contracts.go) make one JSON request each; listings (list.go) walk
  pages; tree.go walks the tree of child sessions concurrently and asks whether it is busy;
  files.go uploads and downloads. stream.go reads a session's server-sent events as a sequence
  of decoded events (event.go), watched by an idle monitor. chat.go drives one turn over that
  stream: it posts the prompt, runs tools and hooks (tool.go, hooks.go), answers approvals,
  and ends when the turn tracker (turn.go) says so. blockstream.go folds the events into blocks
  to draw (block.go), transform.go transforms sequences of blocks, and query.go folds a whole
  turn into its answer.

  The theories, in the order they depend on each other:

  GoText: Go strings as bytes, runes, and the functions of the package strings that are used.
  GoBase: Go maps, push iterators (iter.Seq2), and the interfaces the development states as
  locales: a transform that filters (filter_transform), one that keeps a state
  (state_transform), an invariant of a state machine (machine), and a log of keys that
  records none twice (once_log). Stream adds one for the caller of a stream (stream_client),
  Callers one for two callers of a turn that answer alike (related_callers) and Folding one for
  sinks (sink_map). Each is interpreted on the definitions of the code.
  Errors: sentinels, wrapped errors and errors.Is, APIError, sanitizing (errors.go).
  GoURL: net/url, case folding and loopback addresses, as the client uses them.
  Event: the event variants and their decoding (event.go).
  GoJSON: the scanner of encoding/json, printing, and number literals with float64 rounding.
  GoReflect: decoding a JSON text into a Go value by its type, errors kept and all.
  GoEncode: the encoder, and that decoding inverts it.
  ApiTypes: the structs of internal/api as types for the two.
  Turn: the turn tracker (turn.go). Its theorems state without the tracker's state which event
  of a history ends a turn, and how.
  Stream: the frame reader (stream.go), as one step per line.
  Wire: what Event and Stream take as a parameter, defined: each variant decoded from its bytes,
  the probe, and the UnmarshalJSON of an elicitation's params.
  Elicit: the MarshalJSON of those params. Discriminator: the generated union and its dispatch
  beside the registry. ApiRest: the structs no operation uses, and that every struct of the file is
  read back from what is written of it. Unions: the functions of the unions, one by one, and that
  what is stored in one is found there. ErrorBodies: the JSON of an error's two envelopes and of the entries of a
  422, which Errors takes as arguments. Enums: the constants of enums.go by the field they are for.
  IdleMonitor: the monitor of stream.go, its atomic accesses interleaved with the reader, the
  timer and the clock as a step relation.
  Items: reading undeclared output items (parts of blockstream.go).
  Contracts, Sessions: request and response types and every session operation.
  Client: New and its options, redirects, requests, unary calls, uploads, downloads, and the
  opening of a stream (client.go).
  Bodies: the request bodies of Contracts down to their bytes. Replies: the JSON decoder of a
  reply's stream under the client's bound.
  Tools: the tool registry and the firing of hooks, panics included (tool.go, hooks.go).
  Chat: a turn from claim to end (chat.go), with a log of what it does to the world.
  Script: a stream as the list of calls its bytes ask of any caller. Callers: a turn as the
  sequence of steps its consumer gets, from a contract between two callers under which every
  operation of a turn takes related states to related states.
  Block, BlockStream, Folding: the block variants, the fold, and what is proved of it.
  Transform: the block transforms, as the loops the code runs.
  Listing: the cursor walk and the listings of session.go, ResolveAgent included.
  Tree: the concurrent walk as a step relation over any schedule, and SubtreeBusy.
  Query: a turn as its answer, and as streamed text. Asking: Query over the events of a turn as
  Callers gives them. Conversation: one exchange through all the layers, from the frames on the
  wire to the answer.
  Files: the file operations and the multipart form of an upload.

  How the state corresponds. A struct is a record with its fields prefixed; a method is a
  function named after it that takes the receiver's record and returns the new one. Effects
  outside the package (the network, the clock, the caller's hooks, tools and yield) are
  functions over a state \<open>'w\<close> or \<open>'s\<close> of the caller's, passed in order, so that the order of
  calls is part of every result. A panic of a hook is a value of its answer. An error is a
  \<open>goerr\<close>, built with the parts of the code's format so that errors.Is and the text can be
  computed. Concurrency is modelled where the code has it: the tree walk and the idle monitor
  are inductive step relations, and their theorems hold of every reachable state.

  What the theorems show. Turns: no call is answered twice or over the budget, an approval is
  only accepted after the hook said yes, a prompt is posted once and first, a quiet end is an
  answer, nothing is yielded after the caller stopped, and whatever a consumer does it gets one
  list of steps, cut where it stops. A query is the text and the files of that whole list or an
  error, and for a plain exchange the list is the events up to the one that ends the turn, by the
  tracker alone. Streams: the reader delivers exactly the frames, follows its protocol, asks of
  every caller the same calls, and does not end quietly after losing all. Blocks: text is
  conserved, blocks are credited to the response that speaks, nothing is drawn twice.
  Listings: bounded requests, no cursor twice, and no quiet loss. Trees: a walk ends under any
  schedule and a conclusive answer is the truth. The client: redirects stay on the server, a
  path segment stays one segment, credentials need https or loopback, a download's success
  means what it says, and a file name cannot forge a header. Errors: what they render is
  sanitized, with the exceptions stated. The wire: what a server prints is what the caller
  reads, what a caller sets is what the server reads, a decoded struct has its Go type, the
  registry knows what the API declares, an elicitation loses no property, and a reply that was
  cut is an error and never a shorter reply.

  Bounds. No fuel is used but in parsing an IPv6 address, whose eight groups are the address's;
  loops of the code are structural recursion or functions with a proof of termination (the page
  loop by its cap of 10000 pages, the range over a string by its bytes). Go's int is \<open>int\<close> where
  it cannot overflow (counts of items in memory, durations in nanoseconds). A JSON number read
  into an int is one in the range of int64 or an error; one read into a float64 is the nearest,
  ties to even, or an error. The JSON scanner is one step per byte and the decoder recurses on the
  text, to a depth of 10000.

  What is an argument. fmt over untyped values, strconv.Quote in rendered errors, how strconv
  prints a float64 (GoEncode shows one way that keeps what is assumed of it), the tables of
  unicode case folding, the JSON merge of the runtime the unions use, http.Client.Do, how far the JSON decoder's buffer reads ahead, the
  boundary mime/multipart draws, and the caller's code. Stream, Client and
  what uses them take the JSON coding itself as an argument, so that their lemmas hold for every
  one: Stream's is given by wireDeps of Wire, Client's marshaller by marshalBody of Bodies and its
  decoder by jsonDecoder of Replies, and those of an error's body (Errors) by wireErrors and
  decodeDetails of ErrorBodies. The decodings of an untyped item (Items) and of a file (Files) stay
  arguments. Theorems that need more of an argument than its type state it
  as a hypothesis and have a witness.

  Not modelled. contexts as values: a cancelled context shows in the answers of the calls it
  cancels. The draining and closing of bodies for the connection pool. The mutexes of types
  whose every method is one critical section: an operation is one step. Of internal/api the
  structs of query parameters, which nothing in the package uses and which are never JSON, and the
  two multipart bodies, which hold a file of a third-party runtime. Of encoding/json
  what a repeated list of a member leaves beyond its length, and the names it adds to the text
  of a type error. The white space inside a raw message. doc.go is a comment, and ptr.go takes
  the address of a value.
\<close>

end
